(* ===== verification/Prelude.thy ===== *)
theory Prelude imports Main "HOL-Library.Word" begin

text \<open>
  Shared vocabulary of the development: the machine types of the program, the C library
  operations on byte buffers it uses (common/nonzero.c, common/memzero.c, memcpy, memmove,
  memcmp), little- and big-endian integers, error numbers, and the generic lemmas the component
  theories share. A buffer is the list of its bytes and a pointer into it an offset.
\<close>

unbundle bit_operations_syntax

type_synonym byte = "8 word"
type_synonym bytes = "byte list"
type_synonym u16 = "16 word"
type_synonym u32 = "32 word"
type_synonym u64 = "64 word"

named_theorems bufs \<open>lengths and contents of buffers after a write\<close>
named_theorems endian \<open>integers to bytes and back\<close>

section \<open>Error numbers\<close>

text \<open>The Linux errno values; C code returns them negated.\<close>

abbreviation (input) ENOENT :: int where "ENOENT \<equiv> 2"
abbreviation (input) EINTR :: int where "EINTR \<equiv> 4"
abbreviation (input) EBADF :: int where "EBADF \<equiv> 9"
abbreviation (input) EAGAIN :: int where "EAGAIN \<equiv> 11"
abbreviation (input) ENOMEM :: int where "ENOMEM \<equiv> 12"
abbreviation (input) EBUSY :: int where "EBUSY \<equiv> 16"
abbreviation (input) EINVAL :: int where "EINVAL \<equiv> 22"
abbreviation (input) ENAMETOOLONG :: int where "ENAMETOOLONG \<equiv> 36"
abbreviation (input) ENOSYS :: int where "ENOSYS \<equiv> 38"
abbreviation (input) EBADMSG :: int where "EBADMSG \<equiv> 74"
abbreviation (input) ENETDOWN :: int where "ENETDOWN \<equiv> 100"
abbreviation (input) ENOBUFS :: int where "ENOBUFS \<equiv> 105"
abbreviation (input) EALREADY :: int where "EALREADY \<equiv> 114"
abbreviation (input) ENOKEY :: int where "ENOKEY \<equiv> 126"

section \<open>Buffers\<close>

text \<open>The bytes from \<open>off\<close> on, \<open>n\<close> of them: what a pointer and a length denote.\<close>

definition slice :: "nat \<Rightarrow> nat \<Rightarrow> 'a list \<Rightarrow> 'a list" where
  "slice off n buf = take n (drop off buf)"

text \<open>\<open>memcpy(buf + off, src, length src)\<close>.\<close>

definition memcpy_at :: "'a list \<Rightarrow> nat \<Rightarrow> 'a list \<Rightarrow> 'a list" where
  "memcpy_at buf off src = take off buf @ src @ drop (off + length src) buf"

text \<open>\<open>memmove(buf + dst, buf + src, n)\<close>: the source bytes are read before any is written.\<close>

definition memmove_at :: "'a list \<Rightarrow> nat \<Rightarrow> nat \<Rightarrow> nat \<Rightarrow> 'a list" where
  "memmove_at buf dst src n = memcpy_at buf dst (slice src n buf)"

text \<open>common/memzero.c: \<open>n\<close> bytes from \<open>off\<close> on become zero.\<close>

fun memzero :: "bytes \<Rightarrow> nat \<Rightarrow> nat \<Rightarrow> bytes" where
  "memzero buf off 0 = buf"
| "memzero buf off (Suc n) = memzero (buf[off := 0]) (Suc off) n"

text \<open>common/nonzero.c: does any byte differ from zero?\<close>

fun nonzero :: "bytes \<Rightarrow> bool" where
  "nonzero [] = False"
| "nonzero (b # bs) = (if b \<noteq> 0 then True else nonzero bs)"

text \<open>\<open>memcmp\<close> on two ranges of the same length, as the sign of its result.\<close>

fun memcmp :: "bytes \<Rightarrow> bytes \<Rightarrow> int" where
  "memcmp (a # as) (b # bs) = (if a < b then - 1 else if b < a then 1 else memcmp as bs)"
| "memcmp _ _ = 0"

text \<open>Rounding a length up to a multiple of four, as every attribute encoder here does.\<close>

definition align4 :: "nat \<Rightarrow> nat" where
  "align4 n = n + (4 - n mod 4) mod 4"

section \<open>Integers as bytes\<close>

text \<open>
  The host is little-endian: a store of an integer field writes \<open>le16\<close> or \<open>le32\<close> of it.
  \<open>be16\<close> and \<open>be32\<close> are what is stored after \<open>htons\<close> and \<open>htonl\<close>.
\<close>

definition le16 :: "u16 \<Rightarrow> bytes" where
  "le16 w = [ucast w, ucast (drop_bit 8 w)]"

definition le32 :: "u32 \<Rightarrow> bytes" where
  "le32 w = [ucast w, ucast (drop_bit 8 w), ucast (drop_bit 16 w), ucast (drop_bit 24 w)]"

definition be16 :: "u16 \<Rightarrow> bytes" where
  "be16 w = [ucast (drop_bit 8 w), ucast w]"

definition be32 :: "u32 \<Rightarrow> bytes" where
  "be32 w = [ucast (drop_bit 24 w), ucast (drop_bit 16 w), ucast (drop_bit 8 w), ucast w]"

fun of_le16 :: "bytes \<Rightarrow> u16" where
  "of_le16 (a # b # _) = ucast a OR push_bit 8 (ucast b)"
| "of_le16 _ = 0"

fun of_le32 :: "bytes \<Rightarrow> u32" where
  "of_le32 (a # b # c # d # _) =
     ucast a OR push_bit 8 (ucast b) OR push_bit 16 (ucast c) OR push_bit 24 (ucast d)"
| "of_le32 _ = 0"

fun of_be16 :: "bytes \<Rightarrow> u16" where
  "of_be16 (a # b # _) = push_bit 8 (ucast a) OR ucast b"
| "of_be16 _ = 0"

fun of_be32 :: "bytes \<Rightarrow> u32" where
  "of_be32 (a # b # c # d # _) =
     push_bit 24 (ucast a) OR push_bit 16 (ucast b) OR push_bit 8 (ucast c) OR ucast d"
| "of_be32 _ = 0"

section \<open>Lemmas on buffers\<close>

lemma slice_split:
  assumes "slice p (length x) m = x" and "x \<noteq> []"
  shows "m = take p m @ x @ drop (p + length x) m" "length (take p m) = p"
proof -
  have x: "take (length x) (drop p m) = x" using assms(1) by (simp add: slice_def)
  then show "m = take p m @ x @ drop (p + length x) m"
    by (metis add.commute append_take_drop_id drop_drop)
  have "drop p m \<noteq> []" using x assms(2) by auto
  then show "length (take p m) = p" by simp
qed

lemma length_slice [simp, bufs]: "length (slice off n buf) = min n (length buf - off)"
  by (simp add: slice_def min.commute)

lemma slice_0 [simp]: "slice off 0 buf = []"
  by (simp add: slice_def)

lemma slice_whole [simp]: "slice 0 (length xs) xs = xs"
  by (simp add: slice_def)

lemma nth_slice: "i < n \<Longrightarrow> off + i < length buf \<Longrightarrow> slice off n buf ! i = buf ! (off + i)"
  by (simp add: slice_def)

lemma slice_append_left: "off + n \<le> length xs \<Longrightarrow> slice off n (xs @ ys) = slice off n xs"
  by (simp add: slice_def)

lemma slice_append_right: "length xs \<le> off \<Longrightarrow> slice off n (xs @ ys) = slice (off - length xs) n ys"
  by (simp add: slice_def)

lemma nth_update_if: "i < length xs \<Longrightarrow> xs[p := z] ! i = (if i = p then z else xs ! i)"
  by simp

lemma nth_in_take: "j < n \<Longrightarrow> n \<le> length xs \<Longrightarrow> xs ! j \<in> set (take n xs)"
  by (auto simp: in_set_conv_nth intro!: exI [of _ j])

lemma length_memcpy_at [bufs]:
  "off + length src \<le> length buf \<Longrightarrow> length (memcpy_at buf off src) = length buf"
  by (simp add: memcpy_at_def)

lemma slice_memcpy_same [bufs]:
  "off + length src \<le> length buf \<Longrightarrow> slice off (length src) (memcpy_at buf off src) = src"
  by (simp add: memcpy_at_def slice_def)

lemma slice_memcpy_before [bufs]:
  "p + n \<le> off \<Longrightarrow> off \<le> length buf \<Longrightarrow> slice p n (memcpy_at buf off src) = slice p n buf"
  by (auto simp: memcpy_at_def slice_def drop_take min_def)

lemma slice_memcpy_after [bufs]:
  "off + length src \<le> p \<Longrightarrow> off + length src \<le> length buf \<Longrightarrow>
   slice p n (memcpy_at buf off src) = slice p n buf"
  by (simp add: memcpy_at_def slice_def)

lemma memcpy_at_self:
  assumes "off + n \<le> length buf"
  shows "memcpy_at buf off (slice off n buf) = buf"
proof -
  have "take n (drop off buf) @ drop (off + n) buf = drop off buf"
    by (metis add.commute append_take_drop_id drop_drop)
  then have "take off buf @ take n (drop off buf) @ drop (off + n) buf = buf"
    by simp
  then show ?thesis using assms by (simp add: memcpy_at_def slice_def min_absorb2)
qed

lemma length_memmove_at [bufs]:
  "dst + n \<le> length buf \<Longrightarrow> src + n \<le> length buf \<Longrightarrow>
   length (memmove_at buf dst src n) = length buf"
  by (simp add: memmove_at_def length_memcpy_at)

lemma memzero_replicate:
  "off + n \<le> length buf \<Longrightarrow> memzero buf off n = memcpy_at buf off (replicate n 0)"
proof (induction n arbitrary: off buf)
  case 0
  then show ?case by (simp add: memcpy_at_def)
next
  case (Suc n)
  then have "off < length buf" by simp
  then have "take (Suc off) (buf[off := 0]) = take off buf @ [0]"
    by (simp add: take_Suc_conv_app_nth)
  with Suc show ?case by (simp add: memcpy_at_def)
qed

lemma nonzero_iff: "nonzero bs \<longleftrightarrow> bs \<noteq> replicate (length bs) 0"
  by (induction bs) auto

lemma nonzero_append [simp]: "nonzero (xs @ ys) \<longleftrightarrow> nonzero xs \<or> nonzero ys"
  by (induction xs) auto

lemma memcmp_eq_0: "length as = length bs \<Longrightarrow> memcmp as bs = 0 \<longleftrightarrow> as = bs"
  by (induction as bs rule: list_induct2) (auto simp: not_less order.order_iff_strict)

lemma memcmp_refl [simp]: "memcmp as as = 0"
  by (simp add: memcmp_eq_0)

lemma memcmp_antisym: "length as = length bs \<Longrightarrow> memcmp bs as = - memcmp as bs"
  by (induction as bs rule: list_induct2) auto

lemma mod4_cases:
  obtains "(n :: nat) mod 4 = 0" | "n mod 4 = 1" | "n mod 4 = 2" | "n mod 4 = 3"
proof -
  have "n mod 4 < 4" by simp
  then have "n mod 4 = 0 \<or> n mod 4 = 1 \<or> n mod 4 = 2 \<or> n mod 4 = 3" by linarith
  with that show thesis by metis
qed

lemma align4_split: "align4 (4 * q + r) = 4 * q + align4 r"
  by (simp add: align4_def)

lemma align4_small: "align4 0 = 0" "align4 1 = 4" "align4 (Suc 0) = 4" "align4 2 = 4" "align4 3 = 4"
  by (simp_all add: align4_def)

lemma align4_shape: "align4 n = 4 * (n div 4) + (if n mod 4 = 0 then 0 else 4)"
proof -
  have "align4 n = 4 * (n div 4) + align4 (n mod 4)"
    using align4_split [of "n div 4" "n mod 4"] by simp
  then show ?thesis by (cases n rule: mod4_cases) (simp_all add: align4_small)
qed

lemma align4_mod [simp]: "align4 n mod 4 = 0"
  by (simp add: align4_shape)

lemma align4_ge: "n \<le> align4 n"
  by (simp add: align4_def)

lemma align4_lt: "align4 n < n + 4"
  by (simp add: align4_def)

lemma align4_id: "n mod 4 = 0 \<Longrightarrow> align4 n = n"
  by (simp add: align4_def)

lemma align4_add:
  assumes "m mod 4 = 0"
  shows "align4 (m + n) = m + align4 n"
proof -
  have "m = 4 * (m div 4)" using assms mult_div_mod_eq [of 4 m] by linarith
  then show ?thesis using align4_split [of "m div 4" n] by metis
qed

lemma align4_le_iff:
  assumes "m mod 4 = 0"
  shows "align4 n \<le> m \<longleftrightarrow> n \<le> m"
proof (cases "n mod 4 = 0")
  case True
  then show ?thesis by (simp add: align4_id)
next
  case False
  have m: "m = 4 * (m div 4)" using assms mult_div_mod_eq [of 4 m] by linarith
  have n: "n = 4 * (n div 4) + n mod 4" "n mod 4 < 4" by simp_all
  have "align4 n = 4 * (n div 4) + 4" using False by (simp add: align4_shape)
  moreover have "n mod 4 > 0" using False by simp
  ultimately show ?thesis
    using m n by (cases "n div 4 < m div 4") (intro iffI; linarith)+
qed

section \<open>Lemmas on integers as bytes\<close>

lemma byte_bit_high [simp]: "8 \<le> n \<Longrightarrow> \<not> bit (b :: byte) n"
  using bit_imp_le_length [of b n] by auto

lemma length_le16 [simp]: "length (le16 w) = 2"
  by (simp add: le16_def)

lemma length_le32 [simp]: "length (le32 w) = 4"
  by (simp add: le32_def)

lemma length_be16 [simp]: "length (be16 w) = 2"
  by (simp add: be16_def)

lemma length_be32 [simp]: "length (be32 w) = 4"
  by (simp add: be32_def)

lemma of_le16_le16 [simp, endian]: "of_le16 (le16 w @ r) = w"
  unfolding le16_def
  by (rule bit_word_eqI) (auto simp: bit_simps)

lemma of_le32_le32 [simp, endian]: "of_le32 (le32 w @ r) = w"
proof (rule bit_word_eqI)
  fix n assume "n < LENGTH(32)"
  then have "n < 8 \<or> 8 \<le> n \<and> n < 16 \<or> 16 \<le> n \<and> n < 24 \<or> 24 \<le> n \<and> n < 32" by auto
  then show "bit (of_le32 (le32 w @ r)) n = bit w n"
    by (elim disjE) (auto simp: le32_def bit_simps)
qed

lemma of_be16_be16 [simp, endian]: "of_be16 (be16 w @ r) = w"
  unfolding be16_def
  by (rule bit_word_eqI) (auto simp: bit_simps)

lemma of_be32_be32 [simp, endian]: "of_be32 (be32 w @ r) = w"
proof (rule bit_word_eqI)
  fix n assume "n < LENGTH(32)"
  then have "n < 8 \<or> 8 \<le> n \<and> n < 16 \<or> 16 \<le> n \<and> n < 24 \<or> 24 \<le> n \<and> n < 32" by auto
  then show "bit (of_be32 (be32 w @ r)) n = bit w n"
    by (elim disjE) (auto simp: be32_def bit_simps)
qed

lemma of_le16_le16' [simp, endian]: "of_le16 (le16 w) = w"
  using of_le16_le16 [of w "[]"] by simp

lemma of_le32_le32' [simp, endian]: "of_le32 (le32 w) = w"
  using of_le32_le32 [of w "[]"] by simp

lemma le32_of_le32 [simp, endian]:
  assumes "length bs = 4"
  shows "le32 (of_le32 bs) = bs"
proof -
  obtain a b c d where "bs = [a, b, c, d]"
    using assms by (auto simp: length_Suc_conv numeral_eq_Suc)
  moreover have "le32 (of_le32 [a, b, c, d]) = [a, b, c, d]"
    unfolding le32_def of_le32.simps list.inject
    by (intro conjI refl; rule bit_word_eqI; simp add: bit_simps)
  ultimately show ?thesis by simp
qed

lemma of_be16_be16' [simp, endian]: "of_be16 (be16 w) = w"
  using of_be16_be16 [of w "[]"] by simp

lemma of_be32_be32' [simp, endian]: "of_be32 (be32 w) = w"
  using of_be32_be32 [of w "[]"] by simp

lemma le16_eq_iff [simp]: "le16 v = le16 w \<longleftrightarrow> v = w"
  by (metis of_le16_le16')

lemma nonzero_le16 [simp]: "nonzero (le16 w) \<longleftrightarrow> w \<noteq> 0"
proof -
  have "nonzero (le16 w) \<longleftrightarrow> le16 w \<noteq> le16 0"
    by (simp add: le16_def)
  then show ?thesis by simp
qed

section \<open>Running a sequence of steps backwards\<close>

lemma fold_undo:
  assumes "\<And>x s. x \<in> set xs \<Longrightarrow> P s \<Longrightarrow> P (f x s) \<and> g x (f x s) = s" and "P s"
  shows "P (fold f xs s) \<and> fold g (rev xs) (fold f xs s) = s"
  using assms
proof (induction xs arbitrary: s)
  case (Cons x xs)
  then have "P (f x s)" "g x (f x s) = s" by simp_all
  with Cons.IH [of "f x s"] Cons.prems(1) show ?case by simp
qed simp

end
