(* ===== verification/Uctl.thy ===== *)
theory Uctl imports Prelude begin

text \<open>
  The control protocol (nlusctl): building a message in a bounded buffer, walking the attributes of a
  received message, the typed accessors, and taking messages off a byte stream. A buffer is the list
  of its bytes and a pointer an offset into it; a message or an attribute is known by its offset.
  Lengths that the code computes by an unsigned subtraction are integers here, and the unsigned
  comparisons on them are written out.
\<close>

section \<open>Building messages (nlusctl/put.c)\<close>

text \<open>\<open>brk\<close> is offset zero and \<open>end\<close> the length of the buffer.\<close>

record ucbuf =
  uc_buf :: bytes
  uc_ptr :: nat
  uc_over :: bool

definition uc_alloc :: "ucbuf \<Rightarrow> nat \<Rightarrow> nat option \<times> ucbuf" where
  "uc_alloc uc len =
     (let pad = (4 - len mod 4) mod 4;
          ret = uc_ptr uc;
          ptr = ret + len + pad;
          uc = (if ptr > length (uc_buf uc) then uc\<lparr>uc_over := True\<rparr> else uc) in
      if uc_over uc then (None, uc)
      else (Some ret, uc\<lparr>uc_buf := memcpy_at (uc_buf uc) (ret + len) (replicate pad 0), uc_ptr := ptr\<rparr>))"

definition uc_buf_set :: "bytes \<Rightarrow> ucbuf" where
  "uc_buf_set buf = \<lparr>uc_buf = buf, uc_ptr = 0, uc_over = False\<rparr>"

definition uc_poke :: "nat \<Rightarrow> bytes \<Rightarrow> ucbuf \<Rightarrow> ucbuf" where
  "uc_poke off bs uc = uc\<lparr>uc_buf := memcpy_at (uc_buf uc) off bs\<rparr>"

definition uc_put_hdr :: "ucbuf \<Rightarrow> u32 \<Rightarrow> ucbuf" where
  "uc_put_hdr uc cmd =
     (case uc_alloc (uc\<lparr>uc_ptr := 0\<rparr>) 8 of
        (None, uc) \<Rightarrow> uc
      | (Some msg, uc) \<Rightarrow> uc_poke msg (le32 0 @ le32 cmd) uc)"

definition uc_put_end :: "ucbuf \<Rightarrow> ucbuf" where
  "uc_put_end uc = (if 8 > uc_ptr uc then uc else uc_poke 0 (le32 (word_of_nat (uc_ptr uc))) uc)"

definition uc_put_attr :: "ucbuf \<Rightarrow> u16 \<Rightarrow> nat \<Rightarrow> nat option \<times> ucbuf" where
  "uc_put_attr uc key len =
     (let total = 4 + len in
      case uc_alloc uc total of
        (None, uc) \<Rightarrow> (None, uc)
      | (Some at, uc) \<Rightarrow> (Some at, uc_poke at (le16 (word_of_nat total) @ le16 key) uc))"

definition uc_put_bin :: "ucbuf \<Rightarrow> u16 \<Rightarrow> bytes \<Rightarrow> ucbuf" where
  "uc_put_bin uc key buf =
     (case uc_put_attr uc key (length buf) of
        (None, uc) \<Rightarrow> uc
      | (Some at, uc) \<Rightarrow> uc_poke (at + 4) buf uc)"

definition uc_put_int :: "ucbuf \<Rightarrow> u16 \<Rightarrow> u32 \<Rightarrow> ucbuf" where
  "uc_put_int uc key v =
     (case uc_put_attr uc key 4 of
        (None, uc) \<Rightarrow> uc
      | (Some at, uc) \<Rightarrow> uc_poke (at + 4) (le32 v) uc)"

text \<open>\<open>str\<close> is the string without its terminating zero.\<close>

definition uc_put_str :: "ucbuf \<Rightarrow> u16 \<Rightarrow> bytes \<Rightarrow> ucbuf" where
  "uc_put_str uc key str = uc_put_bin uc key (str @ [0])"

definition uc_put_flag :: "ucbuf \<Rightarrow> u16 \<Rightarrow> ucbuf" where
  "uc_put_flag uc key = snd (uc_put_attr uc key 0)"

definition uc_put_nest :: "ucbuf \<Rightarrow> u16 \<Rightarrow> nat option \<times> ucbuf" where
  "uc_put_nest uc key = uc_put_attr uc key 0"

definition uc_end_nest :: "ucbuf \<Rightarrow> nat option \<Rightarrow> ucbuf" where
  "uc_end_nest uc nest =
     (case nest of
        None \<Rightarrow> uc
      | Some at \<Rightarrow> uc_poke at (le16 (word_of_nat (uc_ptr uc - at))) uc)"

section \<open>Reading messages (nlusctl/get.c)\<close>

text \<open>The fields of the structures at an offset of the memory \<open>m\<close>.\<close>

definition msg_len :: "bytes \<Rightarrow> nat \<Rightarrow> nat" where
  "msg_len m p = unat (of_le32 (drop p m))"

definition msg_cmd :: "bytes \<Rightarrow> nat \<Rightarrow> u32" where
  "msg_cmd m p = of_le32 (drop (p + 4) m)"

definition at_len :: "bytes \<Rightarrow> nat \<Rightarrow> nat" where
  "at_len m p = unat (of_le16 (drop p m))"

definition at_key :: "bytes \<Rightarrow> nat \<Rightarrow> u16" where
  "at_key m p = of_le16 (drop (p + 2) m)"

definition uc_msglen :: "bytes \<Rightarrow> nat \<Rightarrow> nat \<Rightarrow> nat" where
  "uc_msglen m buf len = (if len < 8 then 0 else msg_len m buf)"

definition uc_msg :: "bytes \<Rightarrow> nat \<Rightarrow> nat \<Rightarrow> nat option" where
  "uc_msg m buf len =
     (if len < 8 then None
      else if msg_len m buf > len then None
      else Some buf)"

text \<open>
  The length passed on is \<open>msg->len - sizeof(*msg)\<close> or \<open>ab->len - sizeof(*ab)\<close> as a \<open>size_t\<close>: a
  negative one is a huge number to \<open>uc_get_0_in\<close> and a step back to the pointer \<open>end\<close>.
\<close>

definition uc_get_0_in :: "bytes \<Rightarrow> nat \<Rightarrow> int \<Rightarrow> nat option" where
  "uc_get_0_in m buf len =
     (if 0 \<le> len \<and> len < 4 then None
      else if 0 \<le> len \<and> int (at_len m buf) > len then None
      else Some buf)"

definition uc_get_n_in :: "bytes \<Rightarrow> nat \<Rightarrow> int \<Rightarrow> nat \<Rightarrow> nat option" where
  "uc_get_n_in m buf len at =
     (let end = int buf + len in
      if at < buf then None
      else if int at > end then None
      else if at_len m at = 0 then None
      else let aln = at_len m at; aln = aln + (4 - aln mod 4) mod 4; ptr = at + aln in
           if int ptr + 4 > end then None
           else if int ptr + int (at_len m ptr) > end then None
           else Some ptr)"

definition uc_get_0 :: "bytes \<Rightarrow> nat \<Rightarrow> nat option" where
  "uc_get_0 m msg = uc_get_0_in m (msg + 8) (int (msg_len m msg) - 8)"

definition uc_get_n :: "bytes \<Rightarrow> nat \<Rightarrow> nat \<Rightarrow> nat option" where
  "uc_get_n m msg ab = uc_get_n_in m (msg + 8) (int (msg_len m msg) - 8) ab"

definition uc_sub_0 :: "bytes \<Rightarrow> nat \<Rightarrow> nat option" where
  "uc_sub_0 m ab = uc_get_0_in m (ab + 4) (int (at_len m ab) - 4)"

definition uc_sub_n :: "bytes \<Rightarrow> nat \<Rightarrow> nat \<Rightarrow> nat option" where
  "uc_sub_n m ab at = uc_get_n_in m (ab + 4) (int (at_len m ab) - 4) at"

lemma uc_get_n_in_step:
  "uc_get_n_in m buf len at = Some p \<Longrightarrow> at + at_len m at \<le> p \<and> at < p \<and> int p + 4 \<le> int buf + len"
  by (auto simp: uc_get_n_in_def Let_def split: if_splits)

text \<open>The loop of \<open>uc_get\<close> and \<open>uc_sub\<close>: from attribute \<open>at\<close> on, the first with key \<open>key\<close>.\<close>

function uc_find :: "bytes \<Rightarrow> nat \<Rightarrow> int \<Rightarrow> u16 \<Rightarrow> nat \<Rightarrow> nat option" where
  "uc_find m buf len key at =
     (if at_key m at = key then Some at
      else case uc_get_n_in m buf len at of
             None \<Rightarrow> None
           | Some at' \<Rightarrow> uc_find m buf len key at')"
  by pat_completeness auto
termination
proof (relation "measure (\<lambda>(m, buf, len, key, at). nat (int buf + len - int at))", goal_cases)
  case (2 m buf len key at at')
  then show ?case using uc_get_n_in_step [of m buf len at at'] by simp
qed simp

declare uc_find.simps [simp del]

definition uc_get :: "bytes \<Rightarrow> nat \<Rightarrow> u16 \<Rightarrow> nat option" where
  "uc_get m msg key =
     (case uc_get_0 m msg of
        None \<Rightarrow> None
      | Some at \<Rightarrow> uc_find m (msg + 8) (int (msg_len m msg) - 8) key at)"

definition uc_sub :: "bytes \<Rightarrow> nat \<Rightarrow> u16 \<Rightarrow> nat option" where
  "uc_sub m bt key =
     (case uc_sub_0 m bt of
        None \<Rightarrow> None
      | Some at \<Rightarrow> uc_find m (bt + 4) (int (at_len m bt) - 4) key at)"

definition uc_payload :: "nat \<Rightarrow> nat" where
  "uc_payload at = at + 4"

definition uc_paylen :: "bytes \<Rightarrow> nat \<Rightarrow> int" where
  "uc_paylen m at = int (at_len m at) - 4"

section \<open>Typed access (nlusctl/get_base.c, get_nest.c)\<close>

definition is_zstr :: "bytes \<Rightarrow> nat \<Rightarrow> int \<Rightarrow> bool" where
  "is_zstr m buf len = (let n = nat (len - 1) in 0 \<notin> set (slice buf n m) \<and> m ! (buf + n) = 0)"

definition uc_is_str :: "bytes \<Rightarrow> nat option \<Rightarrow> u16 \<Rightarrow> nat option" where
  "uc_is_str m at key =
     (case at of
        None \<Rightarrow> None
      | Some at \<Rightarrow>
          if at_key m at \<noteq> key then None
          else if \<not> is_zstr m (uc_payload at) (uc_paylen m at) then None
          else Some (uc_payload at))"

definition uc_is_bin :: "bytes \<Rightarrow> nat option \<Rightarrow> u16 \<Rightarrow> int \<Rightarrow> nat option" where
  "uc_is_bin m at key len =
     (case at of
        None \<Rightarrow> None
      | Some at \<Rightarrow>
          if at_key m at \<noteq> key then None
          else if uc_paylen m at \<noteq> len then None
          else Some (uc_payload at))"

definition uc_is_int :: "bytes \<Rightarrow> nat option \<Rightarrow> u16 \<Rightarrow> nat option" where
  "uc_is_int m at key = uc_is_bin m at key 4"

definition uc_get_bin :: "bytes \<Rightarrow> nat \<Rightarrow> u16 \<Rightarrow> int \<Rightarrow> nat option" where
  "uc_get_bin m msg key len = uc_is_bin m (uc_get m msg key) key len"

definition uc_get_int :: "bytes \<Rightarrow> nat \<Rightarrow> u16 \<Rightarrow> nat option" where
  "uc_get_int m msg key = uc_is_int m (uc_get m msg key) key"

definition uc_sub_bin :: "bytes \<Rightarrow> nat \<Rightarrow> u16 \<Rightarrow> int \<Rightarrow> nat option" where
  "uc_sub_bin m at key len = uc_is_bin m (uc_sub m at key) key len"

definition uc_sub_int :: "bytes \<Rightarrow> nat \<Rightarrow> u16 \<Rightarrow> nat option" where
  "uc_sub_int m at key = uc_is_int m (uc_sub m at key) key"

definition uc_get_str :: "bytes \<Rightarrow> nat \<Rightarrow> u16 \<Rightarrow> nat option" where
  "uc_get_str m msg key = uc_is_str m (uc_get m msg key) key"

definition uc_sub_str :: "bytes \<Rightarrow> nat \<Rightarrow> u16 \<Rightarrow> nat option" where
  "uc_sub_str m at key = uc_is_str m (uc_sub m at key) key"

definition extend_to_4bytes :: "nat \<Rightarrow> nat" where
  "extend_to_4bytes n = n + ((4 - n mod 4) mod 4)"

text \<open>The loop of \<open>is_nest\<close>: where the pointer stops.\<close>

function skip_nest :: "bytes \<Rightarrow> nat \<Rightarrow> nat \<Rightarrow> nat" where
  "skip_nest m p e =
     (if p < e then let skip = extend_to_4bytes (at_len m p) in if skip = 0 then p else skip_nest m (p + skip) e
      else p)"
  by pat_completeness auto
termination by (relation "measure (\<lambda>(m, p, e). e - p)") auto

declare skip_nest.simps [simp del]

definition is_nest :: "bytes \<Rightarrow> nat \<Rightarrow> int \<Rightarrow> bool" where
  "is_nest m buf len =
     (if 0 \<le> len \<and> len \<le> 4 then False
      else if len < 0 then False
      else skip_nest m buf (buf + nat len) = buf + nat len)"

definition uc_is_nest :: "bytes \<Rightarrow> nat option \<Rightarrow> u16 \<Rightarrow> nat option" where
  "uc_is_nest m at key =
     (case at of
        None \<Rightarrow> None
      | Some at \<Rightarrow>
          if at_key m at \<noteq> key then None
          else if \<not> is_nest m (uc_payload at) (uc_paylen m at) then None
          else Some at)"

section \<open>Taking messages off a stream (nlusctl/recv.c)\<close>

record urbuf =
  ur_buf :: bytes
  ur_mptr :: nat
  ur_rptr :: nat
  ur_msg :: "nat option"

text \<open>What the socket has to give: data (none of it at the end of the stream), or an error number.\<close>

datatype rx_event = Rx_data bytes | Rx_error int

definition shift_buf :: "urbuf \<Rightarrow> urbuf" where
  "shift_buf ur =
     (let shift = ur_mptr ur; ur = ur\<lparr>ur_msg := None\<rparr> in
      if shift = 0 then ur
      else ur\<lparr>ur_buf := memmove_at (ur_buf ur) 0 (ur_mptr ur) (ur_rptr ur - ur_mptr ur),
              ur_mptr := ur_mptr ur - shift, ur_rptr := ur_rptr ur - shift\<rparr>)"

definition take_complete_msg :: "urbuf \<Rightarrow> int \<times> urbuf" where
  "take_complete_msg ur =
     (case uc_msg (ur_buf ur) (ur_mptr ur) (ur_rptr ur - ur_mptr ur) of
        None \<Rightarrow> (- EBADMSG, ur)
      | Some msg \<Rightarrow>
          (let len = msg_len (ur_buf ur) msg
           in (int len, ur\<lparr>ur_msg := Some msg, ur_mptr := ur_mptr ur + len\<rparr>)))"

lemma take_complete_keeps:
  "take_complete_msg ur = (ret, ur') \<Longrightarrow> ur_buf ur' = ur_buf ur \<and> ur_rptr ur' = ur_rptr ur"
  by (auto simp: take_complete_msg_def Let_def split: option.splits)

text \<open>
  The loop of \<open>uc_recv\<close>, with MSG_DONTWAIT in the first round when the caller does not want to block.
  \<open>recv\<close> takes at most \<open>left\<close> bytes, the rest stays in the socket. With nothing to take, MSG_DONTWAIT
  gives EAGAIN; without, the call waits for data that does not come, and the result is None.
\<close>

function uc_recv_loop :: "urbuf \<Rightarrow> bool \<Rightarrow> int \<Rightarrow> rx_event list \<Rightarrow> (int \<times> urbuf \<times> rx_event list) option" where
  "uc_recv_loop ur dontwait tot evs =
     (let left = length (ur_buf ur) - ur_rptr ur in
      if left = 0 then Some (- ENOBUFS, ur, evs)
      else case evs of
             [] \<Rightarrow> if dontwait then Some (- EAGAIN, ur, []) else None
           | Rx_error e # evs \<Rightarrow> Some (- e, ur, evs)
           | Rx_data d # evs \<Rightarrow>
               if d = [] then Some (if ur_mptr ur < ur_rptr ur then - EBADMSG else - EBADF, ur, evs)
               else let got = take left d;
                        evs = (if length d > left then Rx_data (drop left d) # evs else evs);
                        rd = length got;
                        ur = ur\<lparr>ur_buf := memcpy_at (ur_buf ur) (ur_rptr ur) got, ur_rptr := ur_rptr ur + rd\<rparr>;
                        (ret, ur) = take_complete_msg ur
                    in if ret \<ge> 0 then Some (tot + int rd, ur, evs)
                       else uc_recv_loop ur False (tot + int rd) evs)"
  by pat_completeness auto
termination
proof (relation "measure (\<lambda>(ur, dontwait, tot, evs). length (ur_buf ur) - ur_rptr ur)", goal_cases)
  case (2 ur dontwait tot evs left e evs' d got evs'' rd ur' x ret ur'')
  have "0 < length got" "ur_rptr ur + length got \<le> length (ur_buf ur)" using 2 by auto
  moreover have "ur_buf ur'' = memcpy_at (ur_buf ur) (ur_rptr ur) got" "ur_rptr ur'' = ur_rptr ur + length got"
    using take_complete_keeps [of ur' ret ur''] 2 by simp_all
  ultimately show ?case by (cases got) (auto simp: length_memcpy_at)
qed simp

declare uc_recv_loop.simps [simp del]

definition uc_recv :: "urbuf \<Rightarrow> bool \<Rightarrow> rx_event list \<Rightarrow> (int \<times> urbuf \<times> rx_event list) option" where
  "uc_recv ur block evs =
     (let ur = ur\<lparr>ur_msg := None\<rparr>;
          (ret, ur) = take_complete_msg ur in
      if ret \<ge> 0 then Some (0, ur, evs)
      else uc_recv_loop (shift_buf ur) (\<not> block) 0 evs)"

section \<open>Messages with ancillary data (nlusctl/recv_msg.c)\<close>

text \<open>
  \<open>recvmsg\<close> yields data and ancillary data, the latter into the buffer of \<open>uc\<close>; \<open>room\<close> is
  \<open>msg_controllen\<close>, which a call sets to what it has stored and the next one takes as its limit.
  Errors are what \<open>recvmsg\<close> returns, minus one; as in \<open>uc_recv\<close> only the first round may decline to wait.
\<close>

datatype rxm_event = Rxm_data bytes bytes | Rxm_error

function uc_recvmsg_loop ::
  "urbuf \<Rightarrow> ucbuf \<Rightarrow> nat \<Rightarrow> bool \<Rightarrow> int \<Rightarrow> rxm_event list \<Rightarrow> (int \<times> urbuf \<times> ucbuf \<times> rxm_event list) option" where
  "uc_recvmsg_loop ur uc room dontwait tot evs =
     (let left = length (ur_buf ur) - ur_rptr ur in
      if left = 0 then Some (- ENOBUFS, ur, uc, evs)
      else case evs of
             [] \<Rightarrow> if dontwait then Some (- 1, ur, uc, []) else None
           | Rxm_error # evs \<Rightarrow> Some (- 1, ur, uc, evs)
           | Rxm_data d ctl # evs \<Rightarrow>
               if d = [] then Some (if ur_mptr ur < ur_rptr ur then - EBADMSG else - EBADF, ur, uc, evs)
               else let got = take left d;
                        evs = (if length d > left then Rxm_data (drop left d) [] # evs else evs);
                        rd = length got;
                        ur = ur\<lparr>ur_buf := memcpy_at (ur_buf ur) (ur_rptr ur) got, ur_rptr := ur_rptr ur + rd\<rparr>;
                        ctl = take room ctl;
                        uc = uc\<lparr>uc_buf := memcpy_at (uc_buf uc) 0 ctl, uc_ptr := length ctl\<rparr>;
                        (ret, ur) = take_complete_msg ur
                    in if ret \<ge> 0 then Some (tot + int rd, ur, uc, evs)
                       else uc_recvmsg_loop ur uc (length ctl) False (tot + int rd) evs)"
  by pat_completeness auto
termination
proof (relation "measure (\<lambda>(ur, uc, room, dontwait, tot, evs). length (ur_buf ur) - ur_rptr ur)", goal_cases)
  case (2 ur uc room dontwait tot evs left e evs' d ctl got evs'' rd ur' ctl' uc' x ret ur'')
  have "0 < length got" "ur_rptr ur + length got \<le> length (ur_buf ur)" using 2 by auto
  moreover have "ur_buf ur'' = memcpy_at (ur_buf ur) (ur_rptr ur) got" "ur_rptr ur'' = ur_rptr ur + length got"
    using take_complete_keeps [of ur' ret ur''] 2 by simp_all
  ultimately show ?case by (cases got) (auto simp: length_memcpy_at)
qed simp

declare uc_recvmsg_loop.simps [simp del]

definition uc_recvmsg :: "urbuf \<Rightarrow> ucbuf \<Rightarrow> bool \<Rightarrow> rxm_event list \<Rightarrow> (int \<times> urbuf \<times> ucbuf \<times> rxm_event list) option" where
  "uc_recvmsg ur uc block evs =
     (let uc = uc\<lparr>uc_ptr := 0\<rparr>;
          ur = ur\<lparr>ur_msg := None\<rparr>;
          (ret, ur) = take_complete_msg ur in
      if ret \<ge> 0 then Some (0, ur, uc, evs)
      else uc_recvmsg_loop (shift_buf ur) uc (length (uc_buf uc)) (\<not> block) 0 evs)"

end
