(* ===== verification/Netlink.thy ===== *)
theory Netlink imports Uctl begin

text \<open>
  The netlink library (netlink/pack*.c, attr_*.c, base_*.c, ctx.c): assembling a generic netlink
  request in the transmit buffer, walking the attributes of a received message, checking messages
  and strings, and taking messages off the receive buffer. Offsets stand for pointers as in the
  control protocol, whose attribute header (16-bit length, 16-bit type) is the same: \<open>at_len\<close> and
  \<open>at_key\<close> read it.
\<close>

section \<open>The context (netlink/ctx.h)\<close>

record netlink =
  nl_err :: int
  nl_seq :: u32
  nl_rxbuf :: bytes
  nl_rxend :: nat
  nl_txbuf :: bytes
  nl_txend :: nat
  nl_txover :: bool
  nl_msgptr :: nat
  nl_msgend :: nat

definition nl_init :: netlink where
  "nl_init = \<lparr>nl_err = 0, nl_seq = 0, nl_rxbuf = [], nl_rxend = 0, nl_txbuf = [], nl_txend = 0,
     nl_txover = False, nl_msgptr = 0, nl_msgend = 0\<rparr>"

definition nl_set_txbuf :: "netlink \<Rightarrow> bytes \<Rightarrow> netlink" where
  "nl_set_txbuf nl buf = nl\<lparr>nl_txbuf := buf\<rparr>"

definition nl_set_rxbuf :: "netlink \<Rightarrow> bytes \<Rightarrow> netlink" where
  "nl_set_rxbuf nl buf = nl\<lparr>nl_rxbuf := buf\<rparr>"

section \<open>Assembling a request (netlink/pack.c, pack_str.c, pack_sub.c)\<close>

definition nl_alloc :: "netlink \<Rightarrow> nat \<Rightarrow> nat option \<times> netlink" where
  "nl_alloc nl sz =
     (if nl_txover nl then (None, nl)
      else if nl_txend nl + sz > length (nl_txbuf nl) then (None, nl)
      else let pad = (4 - sz mod 4) mod 4; ptr = nl_txend nl
           in (Some ptr, nl\<lparr>nl_txend := nl_txend nl + (sz + pad),
                            nl_txbuf := memcpy_at (nl_txbuf nl) ptr (replicate sz 0)\<rparr>))"

definition nl_start_packet :: "netlink \<Rightarrow> nat \<Rightarrow> nat option \<times> netlink" where
  "nl_start_packet nl len =
     nl_alloc (nl\<lparr>nl_txend := 0, nl_txover := False, nl_seq := nl_seq nl + 1\<rparr>) len"

definition nl_poke :: "nat \<Rightarrow> bytes \<Rightarrow> netlink \<Rightarrow> netlink" where
  "nl_poke off bs nl = nl\<lparr>nl_txbuf := memcpy_at (nl_txbuf nl) off bs\<rparr>"

abbreviation (input) NLM_F_REQUEST :: u16 where "NLM_F_REQUEST \<equiv> 0x1"
abbreviation (input) NLM_F_MULTI :: u16 where "NLM_F_MULTI \<equiv> 0x2"
abbreviation (input) NLM_F_ACK :: u16 where "NLM_F_ACK \<equiv> 0x4"
abbreviation (input) NLM_F_DUMP :: u16 where "NLM_F_DUMP \<equiv> 0x300"

text \<open>The header written by \<open>nl_header\<close>: struct nlgen, twenty bytes.\<close>

definition nl_new_cmd :: "netlink \<Rightarrow> u16 \<Rightarrow> byte \<Rightarrow> byte \<Rightarrow> netlink" where
  "nl_new_cmd nl fam cmd ver =
     (case nl_start_packet nl 20 of
        (None, nl) \<Rightarrow> nl
      | (Some gen, nl) \<Rightarrow>
          nl_poke gen (le32 20 @ le16 fam @ le16 (0 OR NLM_F_REQUEST) @ le32 (nl_seq nl) @ le32 0
            @ [cmd, ver, 0, 0]) nl)"

text \<open>Is there a message header in the transmit buffer (\<open>nl_tx_msg\<close>)?\<close>

definition nl_tx_msg :: "netlink \<Rightarrow> nat option" where
  "nl_tx_msg nl = (if nl_txend nl < 16 then None else Some 0)"

definition nl_put :: "netlink \<Rightarrow> u16 \<Rightarrow> bytes \<Rightarrow> netlink" where
  "nl_put nl type buf =
     (let full = 4 + length buf in
      case nl_alloc nl full of
        (None, nl) \<Rightarrow> nl
      | (Some at, nl) \<Rightarrow>
          (let nl = nl_poke at (le16 (word_of_nat full) @ le16 type) nl;
               nl = nl_poke (at + 4) buf nl
           in case nl_tx_msg nl of
                None \<Rightarrow> nl
              | Some msg \<Rightarrow> nl_poke msg (le32 (word_of_nat (nl_txend nl))) nl))"

definition nl_put_empty :: "netlink \<Rightarrow> u16 \<Rightarrow> netlink" where
  "nl_put_empty nl type = nl_put nl type []"

definition nl_put_u8 :: "netlink \<Rightarrow> u16 \<Rightarrow> byte \<Rightarrow> netlink" where
  "nl_put_u8 nl type v = nl_put nl type [v]"

definition nl_put_u32 :: "netlink \<Rightarrow> u16 \<Rightarrow> u32 \<Rightarrow> netlink" where
  "nl_put_u32 nl type v = nl_put nl type (le32 v)"

definition nl_put_str :: "netlink \<Rightarrow> u16 \<Rightarrow> bytes \<Rightarrow> netlink" where
  "nl_put_str nl type str = nl_put nl type (str @ [0])"

definition nl_put_nest :: "netlink \<Rightarrow> u16 \<Rightarrow> nat option \<times> netlink" where
  "nl_put_nest nl type =
     (case nl_alloc nl 4 of
        (None, nl) \<Rightarrow> (None, nl)
      | (Some at, nl) \<Rightarrow> (Some at, nl_poke at (le16 4 @ le16 type) nl))"

text \<open>A null pointer is below the buffer; an empty nest counts as an overflow too.\<close>

definition nl_end_nest :: "netlink \<Rightarrow> nat option \<Rightarrow> netlink" where
  "nl_end_nest nl at =
     (case at of
        None \<Rightarrow> nl\<lparr>nl_txover := True\<rparr>
      | Some at \<Rightarrow>
          if int at \<ge> int (nl_txend nl) - 4 then nl\<lparr>nl_txover := True\<rparr>
          else nl_poke at (le16 (word_of_nat (nl_txend nl - at))) nl)"

section \<open>Sending (netlink/ctx.c, ctx_cmd.c)\<close>

text \<open>\<open>ok\<close> is whether \<open>sendto\<close> takes the message; the bytes handed over come with the result.\<close>

definition nl_send_txbuf :: "bool \<Rightarrow> netlink \<Rightarrow> int \<times> bytes option \<times> netlink" where
  "nl_send_txbuf ok nl =
     (if ok then (int (nl_txend nl), Some (take (nl_txend nl) (nl_txbuf nl)), nl\<lparr>nl_err := 0\<rparr>)
      else (- 1, None, nl\<lparr>nl_err := - 1\<rparr>))"

text \<open>When it does not, the result of \<open>nl_send\<close> is 1, not a negative number.\<close>

definition nl_send :: "bool \<Rightarrow> netlink \<Rightarrow> int \<times> bytes option \<times> netlink" where
  "nl_send ok nl =
     (if nl_txend nl = 0 then (- EINVAL, None, nl\<lparr>nl_err := - EINVAL\<rparr>)
      else if nl_txover nl then (- ENOMEM, None, nl\<lparr>nl_err := - ENOMEM\<rparr>)
      else let (rd, msg, nl) = nl_send_txbuf ok nl in (if rd \<le> 0 then 1 else 0, msg, nl))"

lemma nl_send_eq:
  "nl_send ok nl =
     (if nl_txend nl = 0 then (- EINVAL, None, nl\<lparr>nl_err := - EINVAL\<rparr>)
      else if nl_txover nl then (- ENOMEM, None, nl\<lparr>nl_err := - ENOMEM\<rparr>)
      else if ok then (0, Some (take (nl_txend nl) (nl_txbuf nl)), nl\<lparr>nl_err := 0\<rparr>)
      else (1, None, nl\<lparr>nl_err := - 1\<rparr>))"
  by (simp add: nl_send_def nl_send_txbuf_def)

text \<open>The flags of the message in the transmit buffer, at offset six.\<close>

definition nl_or_flags :: "u16 \<Rightarrow> netlink \<Rightarrow> netlink" where
  "nl_or_flags f nl = nl_poke 6 (le16 (of_le16 (drop 6 (nl_txbuf nl)) OR f)) nl"

definition nl_send_dump :: "bool \<Rightarrow> netlink \<Rightarrow> int \<times> bytes option \<times> netlink" where
  "nl_send_dump ok nl =
     (case nl_tx_msg nl of
        None \<Rightarrow> (- EINVAL, None, nl)
      | Some _ \<Rightarrow> nl_send ok (nl_or_flags NLM_F_DUMP nl))"

text \<open>The sending half of \<open>nl_send_recv_ack\<close>.\<close>

definition nl_send_ack :: "bool \<Rightarrow> netlink \<Rightarrow> int \<times> bytes option \<times> netlink" where
  "nl_send_ack ok nl =
     (case nl_tx_msg nl of
        None \<Rightarrow> (- EINVAL, None, nl)
      | Some _ \<Rightarrow> nl_send ok (nl_or_flags NLM_F_ACK nl))"

section \<open>Attributes (netlink/attr_buf.c, attr_sub.c, attr_bin.c, attr_str.c, attr_nst.c)\<close>

text \<open>Lengths are unsigned in C: a negative one stands for the huge number it wraps to.\<close>

definition nl_attr_0_in :: "bytes \<Rightarrow> nat \<Rightarrow> int \<Rightarrow> nat option" where
  "nl_attr_0_in m buf len =
     (if 0 \<le> len \<and> len < 4 then None
      else if 0 \<le> len \<and> int (at_len m buf) > len then None
      else Some buf)"

definition ptr_in_buf :: "nat \<Rightarrow> int \<Rightarrow> nat \<Rightarrow> bool" where
  "ptr_in_buf buf len ptr \<longleftrightarrow> \<not> ptr < buf \<and> \<not> int ptr \<ge> int buf + len"

definition nl_attr_n_in :: "bytes \<Rightarrow> nat \<Rightarrow> int \<Rightarrow> nat \<Rightarrow> nat option" where
  "nl_attr_n_in m buf len cur =
     (if \<not> ptr_in_buf buf len cur then None
      else if at_len m cur < 4 then None
      else let pnext = cur + extend_to_4bytes (at_len m cur) in
           if \<not> ptr_in_buf buf len pnext then None else Some pnext)"

lemma nl_attr_n_in_step: "nl_attr_n_in m buf len at = Some p \<Longrightarrow> at < p \<and> int p < int buf + len"
  by (auto simp: nl_attr_n_in_def ptr_in_buf_def extend_to_4bytes_def Let_def split: if_splits)

function nl_attr_find :: "bytes \<Rightarrow> nat \<Rightarrow> int \<Rightarrow> u16 \<Rightarrow> nat \<Rightarrow> nat option" where
  "nl_attr_find m buf len type at =
     (if at_key m at = type then Some at
      else case nl_attr_n_in m buf len at of
             None \<Rightarrow> None
           | Some at' \<Rightarrow> nl_attr_find m buf len type at')"
  by pat_completeness auto
termination
proof (relation "measure (\<lambda>(m, buf, len, type, at). nat (int buf + len - int at))", goal_cases)
  case (2 m buf len type at at')
  then show ?case using nl_attr_n_in_step [of m buf len at at'] by simp
qed simp

declare nl_attr_find.simps [simp del]

definition nl_attr_k_in :: "bytes \<Rightarrow> nat \<Rightarrow> int \<Rightarrow> u16 \<Rightarrow> nat option" where
  "nl_attr_k_in m buf len type =
     (case nl_attr_0_in m buf len of None \<Rightarrow> None | Some at \<Rightarrow> nl_attr_find m buf len type at)"

definition nl_attr_len :: "bytes \<Rightarrow> nat \<Rightarrow> int" where
  "nl_attr_len m at = int (at_len m at) - 4"

definition nl_sub_0 :: "bytes \<Rightarrow> nat \<Rightarrow> nat option" where
  "nl_sub_0 m at = nl_attr_0_in m (at + 4) (int (at_len m at) - 4)"

definition nl_sub_n :: "bytes \<Rightarrow> nat \<Rightarrow> nat \<Rightarrow> nat option" where
  "nl_sub_n m at cur = nl_attr_n_in m (at + 4) (int (at_len m at) - 4) cur"

definition nl_sub :: "bytes \<Rightarrow> nat \<Rightarrow> u16 \<Rightarrow> nat option" where
  "nl_sub m at type = nl_attr_k_in m (at + 4) (int (at_len m at) - 4) type"

definition nl_bin :: "bytes \<Rightarrow> nat option \<Rightarrow> nat \<Rightarrow> nat option" where
  "nl_bin m at len =
     (case at of None \<Rightarrow> None | Some at \<Rightarrow> if int (at_len m at) - 4 = int len then Some (at + 4) else None)"

definition nl_sub_of_len :: "bytes \<Rightarrow> nat \<Rightarrow> u16 \<Rightarrow> nat \<Rightarrow> nat option" where
  "nl_sub_of_len m at type len =
     (case nl_sub m at type of
        None \<Rightarrow> None
      | Some ak \<Rightarrow> if at_len m ak = 4 + len then Some (ak + 4) else None)"

text \<open>The loop of \<open>nl_check_nest\<close>; the step is kept in sixteen bits.\<close>

function nl_skip_nest :: "bytes \<Rightarrow> nat \<Rightarrow> nat \<Rightarrow> nat" where
  "nl_skip_nest m p e =
     (if p < e
      then let skip = extend_to_4bytes (at_len m p) mod 2 ^ 16 in
           if skip = 0 then p else nl_skip_nest m (p + skip) e
      else p)"
  by pat_completeness auto
termination by (relation "measure (\<lambda>(m, p, e). e - p)") auto

declare nl_skip_nest.simps [simp del]

definition nl_check_nest :: "bytes \<Rightarrow> nat \<Rightarrow> int \<Rightarrow> bool" where
  "nl_check_nest m buf len =
     (if 0 \<le> len \<and> len \<le> 4 then False
      else if len < 0 then False
      else nl_skip_nest m buf (buf + nat len) = buf + nat len)"

definition nl_attr_is_nest :: "bytes \<Rightarrow> nat option \<Rightarrow> bool" where
  "nl_attr_is_nest m at =
     (case at of None \<Rightarrow> False | Some at \<Rightarrow> nl_check_nest m (at + 4) (int (at_len m at) - 4))"

definition nl_nest :: "bytes \<Rightarrow> nat option \<Rightarrow> nat option" where
  "nl_nest m at =
     (case at of
        None \<Rightarrow> None
      | Some at \<Rightarrow> if \<not> nl_check_nest m (at + 4) (int (at_len m at) - 4) then None else Some at)"

text \<open>The index of the first zero byte among \<open>n\<close> from \<open>i\<close> on, or where the loop stops.\<close>

fun zero_index :: "bytes \<Rightarrow> nat \<Rightarrow> nat \<Rightarrow> nat" where
  "zero_index m i 0 = i"
| "zero_index m i (Suc n) = (if m ! i = 0 then i else zero_index m (Suc i) n)"

definition nl_check_zstr :: "bytes \<Rightarrow> nat \<Rightarrow> nat \<Rightarrow> bool" where
  "nl_check_zstr m buf len =
     (let i = zero_index m buf len - buf in
      if i \<ge> len then False else if i < len - 1 then False else True)"

section \<open>Messages (netlink/base_gen.c, base_err.c, attr_gen.c)\<close>

text \<open>struct nlmsg at an offset, and the generic header behind it.\<close>

definition nlm_len :: "bytes \<Rightarrow> nat \<Rightarrow> nat" where
  "nlm_len m p = unat (of_le32 (drop p m))"

definition nlm_type :: "bytes \<Rightarrow> nat \<Rightarrow> u16" where
  "nlm_type m p = of_le16 (drop (p + 4) m)"

definition nlm_flags :: "bytes \<Rightarrow> nat \<Rightarrow> u16" where
  "nlm_flags m p = of_le16 (drop (p + 6) m)"

definition nlm_seq :: "bytes \<Rightarrow> nat \<Rightarrow> u32" where
  "nlm_seq m p = of_le32 (drop (p + 8) m)"

definition nle_err :: "bytes \<Rightarrow> nat \<Rightarrow> int" where
  "nle_err m p = sint (of_le32 (drop (p + 16) m))"

definition gen_cmd :: "bytes \<Rightarrow> nat \<Rightarrow> byte" where
  "gen_cmd m p = m ! (p + 16)"

abbreviation (input) NLMSG_ERROR :: u16 where "NLMSG_ERROR \<equiv> 2"
abbreviation (input) NLMSG_DONE :: u16 where "NLMSG_DONE \<equiv> 3"

definition nl_err_msg :: "bytes \<Rightarrow> nat \<Rightarrow> nat option" where
  "nl_err_msg m msg =
     (if nlm_type m msg \<noteq> NLMSG_ERROR then None
      else if nlm_len m msg < 36 then None
      else Some msg)"

definition nl_gen :: "bytes \<Rightarrow> nat \<Rightarrow> nat option" where
  "nl_gen m msg =
     (if nlm_len m msg < 20 then None
      else if \<not> nl_check_nest m (msg + 20) (int (nlm_len m msg) - 20) then None
      else Some msg)"

definition nl_get :: "bytes \<Rightarrow> nat \<Rightarrow> u16 \<Rightarrow> nat option" where
  "nl_get m msg type = nl_attr_k_in m (msg + 20) (int (nlm_len m msg) - 20) type"

definition nl_get_of_len :: "bytes \<Rightarrow> nat \<Rightarrow> u16 \<Rightarrow> nat \<Rightarrow> nat option" where
  "nl_get_of_len m msg type len =
     (case nl_get m msg type of
        None \<Rightarrow> None
      | Some at \<Rightarrow> if at_len m at = 4 + len then Some (at + 4) else None)"

definition nl_get_nest :: "bytes \<Rightarrow> nat \<Rightarrow> u16 \<Rightarrow> nat option" where
  "nl_get_nest m msg type = nl_nest m (nl_get m msg type)"

section \<open>Receiving (netlink/ctx.c)\<close>

text \<open>A datagram that does not fit the space left is cut by \<open>recv\<close>.\<close>

definition nl_recv_chunk :: "rx_event \<Rightarrow> netlink \<Rightarrow> int \<times> netlink" where
  "nl_recv_chunk ev nl =
     (let len = length (nl_rxbuf nl) - nl_rxend nl in
      if len = 0 then (- ENOBUFS, nl)
      else case ev of
             Rx_error e \<Rightarrow> (- 1, nl\<lparr>nl_err := - 1\<rparr>)
           | Rx_data d \<Rightarrow>
               (let got = take len d; rd = length got in
                if rd > 0 then (int rd, nl\<lparr>nl_rxbuf := memcpy_at (nl_rxbuf nl) (nl_rxend nl) got,
                                           nl_rxend := nl_rxend nl + rd, nl_err := 0\<rparr>)
                else (0, nl\<lparr>nl_err := 0\<rparr>)))"

definition nl_got_message :: "netlink \<Rightarrow> nat" where
  "nl_got_message nl =
     (let off = nl_msgend nl; len = nl_rxend nl - off in
      if len < 16 then 0
      else if nlm_len (nl_rxbuf nl) off > len then 0
      else nlm_len (nl_rxbuf nl) off)"

definition nl_shift_rxbuf :: "netlink \<Rightarrow> netlink" where
  "nl_shift_rxbuf nl =
     (let off = nl_msgend nl; rem = nl_rxend nl - off in
      nl\<lparr>nl_rxbuf := memmove_at (nl_rxbuf nl) 0 off rem, nl_rxend := rem, nl_msgend := 0, nl_msgptr := 0\<rparr>)"

definition nl_recv_nowait :: "rx_event \<Rightarrow> netlink \<Rightarrow> int \<times> netlink" where
  "nl_recv_nowait ev nl = nl_recv_chunk ev nl"

definition nl_get_nowait :: "netlink \<Rightarrow> nat option \<times> netlink" where
  "nl_get_nowait nl =
     (let len = nl_got_message nl in
      if len = 0 then (None, nl)
      else let nl = nl\<lparr>nl_msgptr := nl_msgend nl, nl_msgend := nl_msgend nl + len\<rparr>
           in (Some (nl_msgptr nl), nl))"

end
