(* ===== verification/Netlink_Proofs.thy ===== *)
theory Netlink_Proofs imports Netlink begin

text \<open>
  The netlink library is correct: a request put together in a buffer with room for it is the header
  and the attributes put, only the padding bytes being left over from earlier; a message that passes
  \<open>nl_gen\<close> is made of attributes inside it, and every attribute found in it lies inside it.
\<close>

section \<open>Requests\<close>

text \<open>The bytes of a list of attributes (key and payload), with any padding.\<close>

fun attr_bytes :: "(u16 \<times> bytes) list \<Rightarrow> bytes \<Rightarrow> bool" where
  "attr_bytes [] bs = (bs = [])"
| "attr_bytes ((k, pl) # its) bs =
     (\<exists>pad r. bs = le16 (word_of_nat (4 + length pl)) @ le16 k @ pl @ pad @ r \<and>
        length pad = (4 - length pl mod 4) mod 4 \<and> attr_bytes its r)"

definition attrs_len :: "(u16 \<times> bytes) list \<Rightarrow> nat" where
  "attrs_len its = sum_list (map (\<lambda>kp. 4 + align4 (length (snd kp))) its)"

definition genl_hdr :: "nat \<Rightarrow> u16 \<Rightarrow> u16 \<Rightarrow> u32 \<Rightarrow> byte \<Rightarrow> byte \<Rightarrow> bytes" where
  "genl_hdr len fam flags seq cmd ver =
     le32 (word_of_nat len) @ le16 fam @ le16 flags @ le32 seq @ le32 0 @ [cmd, ver, 0, 0]"

text \<open>A complete request: header with the right length, then the attributes.\<close>

definition genl_msg :: "u16 \<Rightarrow> u16 \<Rightarrow> u32 \<Rightarrow> byte \<Rightarrow> (u16 \<times> bytes) list \<Rightarrow> bytes \<Rightarrow> bool" where
  "genl_msg fam flags seq cmd its m \<longleftrightarrow>
     (\<exists>bs. m = genl_hdr (20 + length bs) fam flags seq cmd 0 @ bs \<and> attr_bytes its bs)"

lemma attrs_len_simps [simp]:
  "attrs_len [] = 0" "attrs_len (kp # its) = 4 + align4 (length (snd kp)) + attrs_len its"
  "attrs_len (as @ bs) = attrs_len as + attrs_len bs"
  by (simp_all add: attrs_len_def)

lemma attr_bytes_length: "attr_bytes its bs \<Longrightarrow> length bs = attrs_len its"
  by (induction its bs rule: attr_bytes.induct) (auto simp: align4_def)

lemma attr_bytes_append: "attr_bytes as x \<Longrightarrow> attr_bytes bs y \<Longrightarrow> attr_bytes (as @ bs) (x @ y)"
  by (induction as x rule: attr_bytes.induct) fastforce+

lemma length_genl_hdr [simp]: "length (genl_hdr len fam flags seq cmd ver) = 20"
  by (simp add: genl_hdr_def)

lemma genl_msg_length: "genl_msg fam flags seq cmd its m \<Longrightarrow> length m = 20 + attrs_len its"
  by (auto simp: genl_msg_def dest: attr_bytes_length)

text \<open>The request under construction is complete and there is room behind it.\<close>

definition nl_built :: "netlink \<Rightarrow> u16 \<Rightarrow> byte \<Rightarrow> (u16 \<times> bytes) list \<Rightarrow> bool" where
  "nl_built nl fam cmd its \<longleftrightarrow>
     \<not> nl_txover nl \<and> nl_txend nl = 20 + attrs_len its \<and>
     (\<exists>m r. nl_txbuf nl = m @ r \<and> genl_msg fam NLM_F_REQUEST (nl_seq nl) cmd its m)"

text \<open>The same with a length field that need not be right, as after \<open>nl_put_nest\<close>.\<close>

definition nl_open :: "netlink \<Rightarrow> u16 \<Rightarrow> byte \<Rightarrow> (u16 \<times> bytes) list \<Rightarrow> bool" where
  "nl_open nl fam cmd its \<longleftrightarrow>
     \<not> nl_txover nl \<and> nl_txend nl = 20 + attrs_len its \<and>
     (\<exists>n bs r. nl_txbuf nl = genl_hdr n fam NLM_F_REQUEST (nl_seq nl) cmd 0 @ bs @ r \<and> attr_bytes its bs)"

lemma nl_built_open: "nl_built nl fam cmd its \<Longrightarrow> nl_open nl fam cmd its"
  unfolding nl_built_def nl_open_def genl_msg_def by (metis append.assoc)

lemma nl_built_room: "nl_built nl fam cmd its \<Longrightarrow> 20 + attrs_len its \<le> length (nl_txbuf nl)"
  by (auto simp: nl_built_def dest: genl_msg_length)

lemma split_at2: "n + m \<le> length r \<Longrightarrow> \<exists>h p t. r = h @ p @ t \<and> length h = n \<and> length p = m"
  by (intro exI [of _ "take n r"] exI [of _ "take m (drop n r)"] exI [of _ "drop m (drop n r)"])
     (simp only: append_take_drop_id, simp)

lemma memcpy_mid: "off = length a \<Longrightarrow> length x = length y \<Longrightarrow> memcpy_at (a @ x @ c) off y = a @ y @ c"
  by (simp add: memcpy_at_def)

lemma nl_new_cmd_built:
  assumes "20 \<le> length (nl_txbuf nl)"
  shows "nl_built (nl_new_cmd nl fam cmd 0) fam cmd [] \<and> length (nl_txbuf (nl_new_cmd nl fam cmd 0)) = length (nl_txbuf nl) \<and>
    nl_seq (nl_new_cmd nl fam cmd 0) = nl_seq nl + 1"
proof -
  obtain a r where b: "nl_txbuf nl = a @ r" "length a = 20"
    using assms by (metis append_take_drop_id length_take min_absorb2)
  have "nl_new_cmd nl fam cmd 0 = nl\<lparr>nl_txend := 20, nl_txover := False, nl_seq := nl_seq nl + 1,
      nl_txbuf := genl_hdr 20 fam NLM_F_REQUEST (nl_seq nl + 1) cmd 0 @ r\<rparr>"
    using b by (simp add: nl_new_cmd_def nl_start_packet_def nl_alloc_def nl_poke_def memcpy_at_def genl_hdr_def)
  then show ?thesis using b by (auto simp: nl_built_def genl_msg_def)
qed

lemma nl_put_open:
  assumes "nl_open nl fam cmd its" and "24 + attrs_len its + align4 (length pl) \<le> length (nl_txbuf nl)"
  shows "nl_built (nl_put nl k pl) fam cmd (its @ [(k, pl)]) \<and>
    length (nl_txbuf (nl_put nl k pl)) = length (nl_txbuf nl) \<and> nl_seq (nl_put nl k pl) = nl_seq nl"
proof -
  obtain n bs r where b: "nl_txbuf nl = genl_hdr n fam NLM_F_REQUEST (nl_seq nl) cmd 0 @ bs @ r"
      "attr_bytes its bs"
    using assms(1) by (auto simp: nl_open_def)
  have st: "\<not> nl_txover nl" "nl_txend nl = 20 + length bs" "length bs = attrs_len its"
    using assms(1) attr_bytes_length [OF b(2)] by (simp_all add: nl_open_def)
  let ?pad = "(4 - length pl mod 4) mod 4"
  have "4 + length pl + ?pad \<le> length r" using assms(2) b st by (simp add: align4_def)
  then obtain h p t where r: "r = h @ p @ t" "length h = 4 + length pl" "length p = ?pad"
    using split_at2 [of "4 + length pl" ?pad r] by auto
  let ?at = "le16 (word_of_nat (4 + length pl)) @ le16 k @ pl @ p"
  let ?rest = "le16 fam @ le16 NLM_F_REQUEST @ le32 (nl_seq nl) @ le32 0 @ [cmd, 0, 0, 0]"
  let ?H = "genl_hdr n fam NLM_F_REQUEST (nl_seq nl) cmd 0"
  let ?fin = "20 + length bs + (4 + length pl + ?pad)"
  let ?L = "le16 (word_of_nat (4 + length pl)) @ le16 k"
  have padn: "(4 - (4 + length pl) mod 4) mod 4 = ?pad" by simp
  have alloc: "nl_alloc nl (4 + length pl) =
      (Some (20 + length bs), nl\<lparr>nl_txend := ?fin, nl_txbuf := (?H @ bs) @ replicate (4 + length pl) 0 @ (p @ t)\<rparr>)"
    using st r memcpy_mid [of "20 + length bs" "?H @ bs" h "replicate (4 + length pl) 0" "p @ t"]
    by (simp only: nl_alloc_def padn Let_def b(1)) simp
  have p1: "memcpy_at ((?H @ bs) @ replicate (4 + length pl) 0 @ (p @ t)) (20 + length bs) ?L
      = (?H @ bs) @ ?L @ (replicate (length pl) 0 @ p @ t)"
    using memcpy_mid [of "20 + length bs" "?H @ bs" "replicate 4 0" ?L "replicate (length pl) 0 @ p @ t"]
    by (simp add: replicate_add)
  have p2: "memcpy_at ((?H @ bs) @ ?L @ (replicate (length pl) 0 @ p @ t)) (20 + length bs + 4) pl
      = ?H @ (bs @ ?at @ t)"
    using memcpy_mid [of "20 + length bs + 4" "?H @ bs @ ?L" "replicate (length pl) 0" pl "p @ t"]
    by simp
  have p3: "memcpy_at (?H @ (bs @ ?at @ t)) 0 (le32 (word_of_nat ?fin)) = le32 (word_of_nat ?fin) @ ?rest @ bs @ ?at @ t"
    using memcpy_mid [of 0 "[]" "le32 (word_of_nat n)" "le32 (word_of_nat ?fin)" "?rest @ bs @ ?at @ t"]
    by (simp add: genl_hdr_def)
  have "nl_put nl k pl = nl\<lparr>nl_txend := ?fin, nl_txbuf := le32 (word_of_nat ?fin) @ ?rest @ bs @ ?at @ t\<rparr>"
    using alloc p1 p2 p3 by (simp add: nl_put_def nl_poke_def nl_tx_msg_def Let_def)
  moreover have "attr_bytes (its @ [(k, pl)]) (bs @ ?at)"
    using r(3) by (intro attr_bytes_append [OF b(2)]) auto
  moreover have "?fin = 20 + length (bs @ ?at)" using r(3) by simp
  ultimately have g: "genl_msg fam NLM_F_REQUEST (nl_seq nl) cmd (its @ [(k, pl)])
      (genl_hdr ?fin fam NLM_F_REQUEST (nl_seq nl) cmd 0 @ (bs @ ?at))"
    and put: "nl_put nl k pl = nl\<lparr>nl_txend := ?fin,
      nl_txbuf := (genl_hdr ?fin fam NLM_F_REQUEST (nl_seq nl) cmd 0 @ (bs @ ?at)) @ t\<rparr>"
    unfolding genl_msg_def by (metis, simp add: genl_hdr_def)
  show ?thesis
    unfolding put nl_built_def using g st r b(1) by (auto simp: align4_def simp del: append_assoc)
qed

lemmas nl_put_built = nl_put_open [OF nl_built_open]

text \<open>A nest with one attribute in it.\<close>

lemma nl_put_nest_open:
  assumes "nl_built nl fam cmd its" and "24 + attrs_len its \<le> length (nl_txbuf nl)"
  shows "fst (nl_put_nest nl k) = Some (20 + attrs_len its) \<and> nl_open (snd (nl_put_nest nl k)) fam cmd (its @ [(k, [])]) \<and>
    length (nl_txbuf (snd (nl_put_nest nl k))) = length (nl_txbuf nl) \<and> nl_seq (snd (nl_put_nest nl k)) = nl_seq nl"
proof -
  obtain n bs r where b: "nl_txbuf nl = genl_hdr n fam NLM_F_REQUEST (nl_seq nl) cmd 0 @ bs @ r"
      "attr_bytes its bs"
    using nl_built_open [OF assms(1)] by (auto simp: nl_open_def)
  let ?H = "genl_hdr n fam NLM_F_REQUEST (nl_seq nl) cmd 0"
  have st: "\<not> nl_txover nl" "nl_txend nl = 20 + length bs" "length bs = attrs_len its"
    using assms(1) attr_bytes_length [OF b(2)] by (simp_all add: nl_built_def)
  obtain h t where r: "r = h @ t" "length h = 4"
    using split_at2 [of 4 0 r] assms(2) b st by auto
  have "nl_put_nest nl k = (Some (20 + length bs),
      nl\<lparr>nl_txend := 24 + length bs, nl_txbuf := ?H @ (bs @ le16 4 @ le16 k) @ t\<rparr>)"
    using st r memcpy_mid [of "20 + length bs" "?H @ bs" h "replicate 4 0" t]
      memcpy_mid [of "20 + length bs" "?H @ bs" "replicate 4 0" "le16 4 @ le16 k" t]
    by (simp add: nl_put_nest_def nl_alloc_def nl_poke_def Let_def b(1))
  moreover have "attr_bytes (its @ [(k, [])]) (bs @ le16 4 @ le16 k)"
    by (rule attr_bytes_append [OF b(2)]) simp
  ultimately show ?thesis
    using st b(1) r unfolding nl_open_def
    by (simp add: align4_small) (intro exI conjI; simp)
qed

lemma attr_bytes_split: "attr_bytes (as @ bs) x \<Longrightarrow> \<exists>y z. x = y @ z \<and> attr_bytes as y \<and> attr_bytes bs z"
proof (induction as arbitrary: x)
  case (Cons kp as)
  obtain k pl where kp: "kp = (k, pl)" by (cases kp)
  from Cons.prems obtain pad r where x: "x = le16 (word_of_nat (4 + length pl)) @ le16 k @ pl @ pad @ r"
      "length pad = (4 - length pl mod 4) mod 4" "attr_bytes (as @ bs) r"
    by (auto simp: kp)
  from Cons.IH [OF x(3)] obtain y z where r: "r = y @ z" "attr_bytes as y" "attr_bytes bs z" by blast
  have "attr_bytes (kp # as) (le16 (word_of_nat (4 + length pl)) @ le16 k @ pl @ pad @ y)"
    using x(2) r(2) by (auto simp: kp)
  with x(1) r show ?case by (metis append.assoc)
qed simp

lemma nl_nest_built:
  assumes "nl_built nl fam cmd its" and "28 + attrs_len its + length pl \<le> length (nl_txbuf nl)" and "length pl mod 4 = 0"
    and "nl_put_nest nl k = (at, n1)" and "n3 = nl_end_nest (nl_put n1 k' pl) at"
  shows "nl_built n3 fam cmd (its @ [(k, le16 (word_of_nat (4 + length pl)) @ le16 k' @ pl)]) \<and>
    length (nl_txbuf n3) = length (nl_txbuf nl) \<and> nl_seq n3 = nl_seq nl"
proof -
  have at: "at = Some (20 + attrs_len its)" "nl_open n1 fam cmd (its @ [(k, [])])"
    "length (nl_txbuf n1) = length (nl_txbuf nl)" "nl_seq n1 = nl_seq nl"
    using nl_put_nest_open [OF assms(1), of k] assms(2,4) by simp_all
  let ?n = "nl_put n1 k' pl"
  have n: "nl_built ?n fam cmd (its @ [(k, []), (k', pl)])" "length (nl_txbuf ?n) = length (nl_txbuf nl)" "nl_seq ?n = nl_seq nl"
    using nl_put_open [OF at(2), of pl k'] at assms(2,3) by (simp_all add: align4_small align4_id)
  from n(1) obtain bs r where b: "nl_txbuf ?n = genl_hdr (20 + length bs) fam NLM_F_REQUEST (nl_seq ?n) cmd 0 @ bs @ r"
      "attr_bytes (its @ [(k, []), (k', pl)]) bs"
    by (auto simp: nl_built_def genl_msg_def)
  obtain y z where yz: "bs = y @ z" "attr_bytes its y" "attr_bytes [(k, []), (k', pl)] z"
    using attr_bytes_split [OF b(2)] by blast
  then have z: "z = le16 4 @ le16 k @ le16 (word_of_nat (4 + length pl)) @ le16 k' @ pl"
    using assms(3) by auto
  have y: "length y = attrs_len its" using attr_bytes_length [OF yz(2)] .
  let ?H = "genl_hdr (20 + length bs) fam NLM_F_REQUEST (nl_seq ?n) cmd 0"
  let ?in = "le16 (word_of_nat (4 + length pl)) @ le16 k' @ pl"
  have txend: "nl_txend ?n = 28 + attrs_len its + length pl" "\<not> nl_txover ?n"
    using n(1) assms(3) by (simp_all add: nl_built_def align4_small align4_id)
  have "n3 = ?n\<lparr>nl_txbuf := ?H @ (y @ le16 (word_of_nat (4 + length ?in)) @ le16 k @ ?in) @ r\<rparr>"
    using txend y memcpy_mid [of "20 + attrs_len its" "?H @ y" "le16 4" "le16 (word_of_nat (8 + length pl))" "le16 k @ ?in @ r"]
    by (simp add: assms(5) at(1) nl_end_nest_def nl_poke_def b(1) yz(1) z)
  moreover have "attr_bytes (its @ [(k, ?in)]) (y @ le16 (word_of_nat (4 + length ?in)) @ le16 k @ ?in)"
    using assms(3) by (intro attr_bytes_append [OF yz(2)]) simp
  moreover have "20 + length bs = 20 + length (y @ le16 (word_of_nat (4 + length ?in)) @ le16 k @ ?in)"
    by (simp add: yz(1) z)
  ultimately have "\<exists>m. nl_txbuf n3 = m @ r \<and> genl_msg fam NLM_F_REQUEST (nl_seq n3) cmd (its @ [(k, ?in)]) m"
    unfolding genl_msg_def by (intro exI conjI) (auto simp del: append_assoc simp: append_assoc [symmetric])
  moreover have "length (nl_txbuf n3) = length (nl_txbuf ?n)" "nl_seq n3 = nl_seq ?n" "nl_txend n3 = nl_txend ?n" "nl_txover n3 = nl_txover ?n"
    using txend y b yz z by (simp_all add: assms(5) at(1) nl_end_nest_def nl_poke_def length_memcpy_at)
  ultimately show ?thesis
    using n txend assms(3) by (auto simp: nl_built_def align4_id)
qed

text \<open>Sending hands exactly the request to the socket.\<close>

lemma nl_send_built:
  assumes "nl_built nl fam cmd its"
  shows "\<exists>m. genl_msg fam NLM_F_REQUEST (nl_seq nl) cmd its m \<and>
    nl_send ok nl = (if ok then (0, Some m, nl\<lparr>nl_err := 0\<rparr>) else (1, None, nl\<lparr>nl_err := - 1\<rparr>))"
proof -
  obtain m r where m: "nl_txbuf nl = m @ r" "genl_msg fam NLM_F_REQUEST (nl_seq nl) cmd its m"
    using assms by (auto simp: nl_built_def)
  then have "take (nl_txend nl) (nl_txbuf nl) = m"
    using genl_msg_length [OF m(2)] assms by (simp add: nl_built_def)
  then show ?thesis using m(2) assms by (auto simp: nl_send_eq nl_built_def Let_def)
qed

section \<open>Received messages\<close>

text \<open>The walk of \<open>nl_check_nest\<close> ends exactly at the end only if every step stays inside.\<close>

lemma nl_skip_nest_step:
  assumes "nl_skip_nest m p e = e" and "p < e"
  shows "4 \<le> at_len m p \<or> at_len m p \<noteq> 0" "p + extend_to_4bytes (at_len m p) \<le> e"
    "nl_skip_nest m (p + extend_to_4bytes (at_len m p)) e = e" "p + 4 \<le> e"
proof -
  let ?n = "at_len m p"
  have lt: "?n < 2 ^ 16" using unsigned_less [of "of_le16 (drop p m)"] by (simp add: at_len_def)
  have ext: "extend_to_4bytes ?n = align4 ?n" by (simp add: extend_to_4bytes_def align4_def)
  have ge: "q \<le> e" if "nl_skip_nest m q e = e" for q
    using that by (cases "q \<le> e") (simp_all add: nl_skip_nest.simps [of m q])
  have nz: "align4 ?n mod 2 ^ 16 \<noteq> 0" and next': "nl_skip_nest m (p + align4 ?n mod 2 ^ 16) e = e"
    using assms by (simp_all add: nl_skip_nest.simps [of m p] ext Let_def split: if_splits)
  have "align4 ?n \<le> 2 ^ 16" using lt align4_le_iff [of "2 ^ 16" ?n] by simp
  then have "align4 ?n \<noteq> 2 ^ 16 \<and> align4 ?n < 2 ^ 16" using nz by (cases "align4 ?n = 2 ^ 16") simp_all
  then have m: "align4 ?n mod 2 ^ 16 = align4 ?n" by simp
  with next' show n: "nl_skip_nest m (p + extend_to_4bytes ?n) e = e" by (simp add: ext)
  then show "p + extend_to_4bytes ?n \<le> e" by (rule ge)
  show "4 \<le> ?n \<or> ?n \<noteq> 0" using nz by (cases "?n = 0") (simp_all add: align4_small)
  have "align4 ?n \<noteq> 0" using nz m by simp
  then have "4 \<le> align4 ?n" by (metis align4_mod mod_less not_less)
  with \<open>p + extend_to_4bytes ?n \<le> e\<close> show "p + 4 \<le> e" by (simp add: ext)
qed

lemma nl_attr_find_bounds:
  "nl_attr_find m buf len type at = Some p \<Longrightarrow> 0 \<le> len \<Longrightarrow> buf \<le> at \<Longrightarrow> at < buf + nat len \<Longrightarrow>
   nl_skip_nest m at (buf + nat len) = buf + nat len \<Longrightarrow>
   buf \<le> p \<and> p + 4 \<le> buf + nat len \<and> p + at_len m p \<le> buf + nat len \<and> at_key m p = type"
proof (induction m buf len type at rule: nl_attr_find.induct)
  case (1 m buf len type at)
  note sk = nl_skip_nest_step [OF 1(6,5)]
  have le: "at_len m at \<le> extend_to_4bytes (at_len m at)" by (simp add: extend_to_4bytes_def)
  show ?case
  proof (cases "at_key m at = type")
    case True
    with 1 sk(2,4) le show ?thesis by (simp add: nl_attr_find.simps [of m buf len type at])
  next
    case False
    then obtain q where q: "nl_attr_n_in m buf len at = Some q" "nl_attr_find m buf len type q = Some p"
      using 1(2) by (auto simp: nl_attr_find.simps [of m buf len type at] split: option.splits)
    then have "q = at + extend_to_4bytes (at_len m at)" "q < buf + nat len" "buf \<le> q"
      using 1(3) by (auto simp: nl_attr_n_in_def ptr_in_buf_def Let_def split: if_splits)
    with 1(1) [OF False q(1)] q(2) sk(3) 1(3) show ?thesis by simp
  qed
qed

lemma nl_attr_k_in_bounds:
  assumes "nl_check_nest m buf len" and "nl_attr_k_in m buf len type = Some p"
  shows "buf \<le> p \<and> p + 4 \<le> buf + nat len \<and> p + at_len m p \<le> buf + nat len \<and> at_key m p = type"
proof -
  have c: "4 < len" "nl_skip_nest m buf (buf + nat len) = buf + nat len"
    using assms(1) by (auto simp: nl_check_nest_def split: if_splits)
  have "nl_attr_find m buf len type buf = Some p"
    using assms(2) c by (auto simp: nl_attr_k_in_def nl_attr_0_in_def split: if_splits option.splits)
  with nl_attr_find_bounds [of m buf len type buf p] c show ?thesis by simp
qed

text \<open>
  C40. In a message that passed \<open>nl_gen\<close>, whatever the kernel sent, an attribute that \<open>nl_get\<close> finds has
  the type asked for and lies inside the message, header and payload.
\<close>

theorem nl_get_in_bounds:
  assumes "nl_gen m msg = Some g" and "nl_get m msg type = Some p"
  shows "msg + 20 \<le> p \<and> p + 4 \<le> msg + nlm_len m msg \<and> p + at_len m p \<le> msg + nlm_len m msg \<and> at_key m p = type"
proof -
  have g: "20 \<le> nlm_len m msg" "nl_check_nest m (msg + 20) (int (nlm_len m msg) - 20)"
    using assms(1) by (auto simp: nl_gen_def split: if_splits)
  have "nat (int (nlm_len m msg) - 20) = nlm_len m msg - 20" by simp
  with nl_attr_k_in_bounds [OF g(2) assms(2) [unfolded nl_get_def]] g(1) show ?thesis by simp
qed

lemma nl_get_in_bounds_witness:
  "\<exists>p. nl_get (genl_hdr 28 7 0 0 1 0 @ le16 8 @ le16 3 @ [1, 0, 0, 0]) 0 3 = Some p \<and> p + 4 \<le> 28"
proof -
  let ?m = "genl_hdr 28 7 0 0 1 0 @ le16 8 @ le16 3 @ [1, 0, 0, 0]"
  have len: "nlm_len ?m 0 = 28" by (simp add: nlm_len_def genl_hdr_def)
  have at: "at_len ?m 20 = 8" "at_key ?m 20 = 3" by (simp_all add: at_len_def at_key_def)
  have "nl_skip_nest ?m 20 28 = 28"
    by (simp add: nl_skip_nest.simps [of ?m 20] nl_skip_nest.simps [of ?m 28] at extend_to_4bytes_def)
  then have g: "nl_gen ?m 0 = Some 0" by (simp add: nl_gen_def nl_check_nest_def len)
  have "nl_get ?m 0 3 = Some 20"
    by (simp add: nl_get_def nl_attr_k_in_def nl_attr_0_in_def len at nl_attr_find.simps [of ?m 20])
  with nl_get_in_bounds [OF g this] len show ?thesis by auto
qed

end
