(* ===== verification/Slots.thy ===== *)
theory Slots imports Prelude begin

text \<open>
  Slot tables (wsupp_slots.c): the fixed arrays of scan entries and of control connections with
  their use counts, allocation of a slot, release with trimming, lookup of a scan entry by BSSID
  and eviction of a useless one. A slot is free when all the bytes of its structure are zero.
\<close>

section \<open>Data\<close>

abbreviation (input) SSIDLEN :: nat where "SSIDLEN \<equiv> 32"
abbreviation (input) NCONNS :: nat where "NCONNS \<equiv> 10"
abbreviation (input) NSCANS :: nat where "NSCANS \<equiv> 30"
abbreviation (input) MACLEN :: nat where "MACLEN \<equiv> 6"

text \<open>\<open>scan.type\<close> and \<open>scan.flags\<close> bits of wsupp.h.\<close>

abbreviation (input) ST_WPS :: u16 where "ST_WPS \<equiv> 0x01"
abbreviation (input) ST_WPA :: u16 where "ST_WPA \<equiv> 0x02"
abbreviation (input) ST_RSN :: u16 where "ST_RSN \<equiv> 0x08"
abbreviation (input) ST_RSN_PSK :: u16 where "ST_RSN_PSK \<equiv> 0x10"
abbreviation (input) ST_RSN_P_TKIP :: u16 where "ST_RSN_P_TKIP \<equiv> 0x20"
abbreviation (input) ST_RSN_P_CCMP :: u16 where "ST_RSN_P_CCMP \<equiv> 0x40"
abbreviation (input) ST_RSN_G_TKIP :: u16 where "ST_RSN_G_TKIP \<equiv> 0x80"
abbreviation (input) ST_RSN_G_CCMP :: u16 where "ST_RSN_G_CCMP \<equiv> 0x100"

abbreviation (input) SF_SEEN :: u16 where "SF_SEEN \<equiv> 0x01"
abbreviation (input) SF_GOOD :: u16 where "SF_GOOD \<equiv> 0x02"
abbreviation (input) SF_PASS :: u16 where "SF_PASS \<equiv> 0x04"
abbreviation (input) SF_STALE :: u16 where "SF_STALE \<equiv> 0x08"
abbreviation (input) SF_TRIED :: u16 where "SF_TRIED \<equiv> 0x10"

text \<open>A bit test \<open>flags & F\<close> in a condition.\<close>

definition has :: "u16 \<Rightarrow> u16 \<Rightarrow> bool" where
  "has flags f \<longleftrightarrow> flags AND f \<noteq> 0"

record scan =
  sc_freq :: u16
  sc_signal :: u16
  sc_flags :: u16
  sc_type :: u16
  sc_bssid :: bytes
  sc_slen :: u16
  sc_ssid :: bytes

record conn =
  cn_fd :: u32
  cn_rep :: u32

text \<open>The bytes of the two structures, in the order of their fields (neither has padding).\<close>

definition scan_bytes :: "scan \<Rightarrow> bytes" where
  "scan_bytes sc = le16 (sc_freq sc) @ le16 (sc_signal sc) @ le16 (sc_flags sc)
     @ le16 (sc_type sc) @ sc_bssid sc @ le16 (sc_slen sc) @ sc_ssid sc"

definition conn_bytes :: "conn \<Rightarrow> bytes" where
  "conn_bytes cn = le32 (cn_fd cn) @ le32 (cn_rep cn)"

definition zero_scan :: scan where
  "zero_scan = \<lparr>sc_freq = 0, sc_signal = 0, sc_flags = 0, sc_type = 0,
     sc_bssid = replicate MACLEN 0, sc_slen = 0, sc_ssid = replicate SSIDLEN 0\<rparr>"

definition zero_conn :: conn where
  "zero_conn = \<lparr>cn_fd = 0, cn_rep = 0\<rparr>"

text \<open>The array and the count of slots in use: \<open>scans\<close> and \<open>nscans\<close>, \<open>conns\<close> and \<open>nconns\<close>.\<close>

type_synonym 'a slots = "'a list \<times> nat"

section \<open>Allocation and release\<close>

text \<open>The scan for an all-zero slot below \<open>count\<close>; it yields \<open>count\<close> when there is none.\<close>

fun find_zero :: "('a \<Rightarrow> bytes) \<Rightarrow> 'a list \<Rightarrow> nat" where
  "find_zero enc [] = 0"
| "find_zero enc (p # ps) = (if \<not> nonzero (enc p) then 0 else Suc (find_zero enc ps))"

definition grab_slot :: "('a \<Rightarrow> bytes) \<Rightarrow> 'a slots \<Rightarrow> nat \<Rightarrow> nat option \<times> 'a slots" where
  "grab_slot enc t tot =
     (let (slots, count) = t; p = find_zero enc (take count slots) in
      if p < count then (Some p, (slots, count))
      else if p \<ge> tot then (None, (slots, count))
      else (Some p, (slots, count + 1)))"

text \<open>The trimming loop of \<open>free_slot\<close>: drop all-zero slots off the end.\<close>

fun trim_slots :: "('a \<Rightarrow> bytes) \<Rightarrow> 'a list \<Rightarrow> nat \<Rightarrow> nat" where
  "trim_slots enc slots 0 = 0"
| "trim_slots enc slots (Suc n) =
     (if nonzero (enc (slots ! n)) then Suc n else trim_slots enc slots n)"

definition free_slot :: "('a \<Rightarrow> bytes) \<Rightarrow> 'a \<Rightarrow> 'a slots \<Rightarrow> nat \<Rightarrow> 'a slots" where
  "free_slot enc zero t p =
     (let (slots, count) = t; slots' = slots[p := zero] in
      (slots', trim_slots enc slots' count))"

definition grab_conn_slot :: "conn slots \<Rightarrow> nat option \<times> conn slots" where
  "grab_conn_slot t = grab_slot conn_bytes t NCONNS"

definition free_conn_slot :: "conn slots \<Rightarrow> nat \<Rightarrow> conn slots" where
  "free_conn_slot t p = free_slot conn_bytes zero_conn t p"

section \<open>Scan slots\<close>

fun find_scan_from :: "bytes \<Rightarrow> scan list \<Rightarrow> nat option" where
  "find_scan_from bssid [] = None"
| "find_scan_from bssid (sc # scs) =
     (if sc_freq sc = 0 then map_option Suc (find_scan_from bssid scs)
      else if memcmp (sc_bssid sc) bssid = 0 then Some 0
      else map_option Suc (find_scan_from bssid scs))"

definition find_scan_slot :: "scan slots \<Rightarrow> bytes \<Rightarrow> nat option" where
  "find_scan_slot t bssid = find_scan_from bssid (take (snd t) (fst t))"

text \<open>The search for a slot to sacrifice: weak (\<open>signal \<le> -80 dBm\<close>), stale, and with no PSK.\<close>

definition expendable :: "scan \<Rightarrow> bool" where
  "expendable sc \<longleftrightarrow>
     \<not> (sint (sc_signal sc) > - 8000) \<and> has (sc_flags sc) SF_STALE \<and> \<not> has (sc_flags sc) SF_PASS"

fun find_expendable :: "scan list \<Rightarrow> nat option" where
  "find_expendable [] = None"
| "find_expendable (sc # scs) =
     (if expendable sc then Some 0 else map_option Suc (find_expendable scs))"

definition grab_scan_slot :: "scan slots \<Rightarrow> bytes \<Rightarrow> nat option \<times> scan slots" where
  "grab_scan_slot t bssid =
     (case find_scan_slot t bssid of
        Some i \<Rightarrow> (Some i, t)
      | None \<Rightarrow>
          (case grab_slot scan_bytes t NSCANS of
             (Some i, t') \<Rightarrow> (Some i, t')
           | (None, t') \<Rightarrow>
               (case find_expendable (take (snd t') (fst t')) of
                  Some i \<Rightarrow> (Some i, ((fst t')[i := zero_scan], snd t'))
                | None \<Rightarrow> (None, t'))))"

definition free_scan_slot :: "scan slots \<Rightarrow> nat \<Rightarrow> scan slots" where
  "free_scan_slot t p = free_slot scan_bytes zero_scan t p"

section \<open>Invariants\<close>

text \<open>The sizes the C types fix.\<close>

definition wf_scan :: "scan \<Rightarrow> bool" where
  "wf_scan sc \<longleftrightarrow> length (sc_bssid sc) = MACLEN \<and> length (sc_ssid sc) = SSIDLEN"

text \<open>The count stays in the array and every slot past it is zero.\<close>

definition slots_ok :: "('a \<Rightarrow> bytes) \<Rightarrow> nat \<Rightarrow> 'a slots \<Rightarrow> bool" where
  "slots_ok enc tot t \<longleftrightarrow>
     length (fst t) = tot \<and> snd t \<le> tot \<and>
     (\<forall>i. snd t \<le> i \<longrightarrow> i < tot \<longrightarrow> \<not> nonzero (enc (fst t ! i)))"

definition live :: "scan \<Rightarrow> bool" where
  "live sc \<longleftrightarrow> sc_freq sc \<noteq> 0"

text \<open>The scan table: well-formed entries and no BSSID listed twice.\<close>

definition scans_ok :: "scan slots \<Rightarrow> bool" where
  "scans_ok t \<longleftrightarrow>
     slots_ok scan_bytes NSCANS t \<and> (\<forall>i < NSCANS. wf_scan (fst t ! i)) \<and>
     (\<forall>i j. i < NSCANS \<longrightarrow> j < NSCANS \<longrightarrow> live (fst t ! i) \<longrightarrow> live (fst t ! j) \<longrightarrow>
        sc_bssid (fst t ! i) = sc_bssid (fst t ! j) \<longrightarrow> i = j)"

section \<open>The allocator\<close>

text \<open>
  The contract of a slot pool, over the encoding of its entries: the zeroed entry reads as free.
  The allocator's lemmas are proved once here and used for both tables.
\<close>

locale slot_pool =
  fixes enc :: "'a \<Rightarrow> bytes" and zero :: 'a and tot :: nat
  assumes zero_free: "\<not> nonzero (enc zero)"
begin

lemma find_zero_le: "find_zero enc xs \<le> length xs"
  by (induction xs) auto

lemma find_zero_free: "find_zero enc xs < length xs \<Longrightarrow> \<not> nonzero (enc (xs ! find_zero enc xs))"
  by (induction xs) auto

lemma find_zero_first: "j < find_zero enc xs \<Longrightarrow> nonzero (enc (xs ! j))"
proof (induction xs arbitrary: j)
  case (Cons x xs)
  then show ?case by (cases j) (auto split: if_splits)
qed simp

lemma grab_SomeD:
  assumes "slots_ok enc tot t" and "grab_slot enc t tot = (Some p, t')"
  shows "fst t' = fst t" and "slots_ok enc tot t'" and "p < snd t'"
    and "\<not> nonzero (enc (fst t ! p))" and "snd t \<le> snd t'"
proof -
  obtain xs n where t: "t = (xs, n)" by force
  let ?p = "find_zero enc (take n xs)"
  have len: "length xs = tot" "n \<le> tot" and past: "\<And>i. n \<le> i \<Longrightarrow> i < tot \<Longrightarrow> \<not> nonzero (enc (xs ! i))"
    using assms(1) by (auto simp: slots_ok_def t)
  have le: "?p \<le> n" using find_zero_le [of "take n xs"] len by simp
  consider "?p < n" "p = ?p" "t' = (xs, n)" | "?p = n" "n < tot" "p = n" "t' = (xs, n + 1)"
    using assms(2) le by (fastforce simp: grab_slot_def t Let_def split: if_splits)
  then have "fst t' = fst t \<and> slots_ok enc tot t' \<and> p < snd t' \<and> \<not> nonzero (enc (fst t ! p)) \<and> snd t \<le> snd t'"
  proof cases
    case 1
    have "\<not> nonzero (enc (take n xs ! ?p))"
      using 1(1) len find_zero_free [of "take n xs"] by simp
    with 1 len past show ?thesis by (simp add: t slots_ok_def)
  next
    case 2
    with len past show ?thesis by (simp add: t slots_ok_def)
  qed
  then show "fst t' = fst t" "slots_ok enc tot t'" "p < snd t'" "\<not> nonzero (enc (fst t ! p))" "snd t \<le> snd t'"
    by simp_all
qed

lemma grab_None_iff:
  assumes "slots_ok enc tot t"
  shows "fst (grab_slot enc t tot) = None \<longleftrightarrow> (\<forall>i < tot. nonzero (enc (fst t ! i)))"
    (is "?none \<longleftrightarrow> ?full")
proof -
  obtain xs n where t: "t = (xs, n)" by force
  let ?p = "find_zero enc (take n xs)"
  have len: "length xs = tot" "n \<le> tot" and past: "\<And>i. n \<le> i \<Longrightarrow> i < tot \<Longrightarrow> \<not> nonzero (enc (xs ! i))"
    using assms by (auto simp: slots_ok_def t)
  have le: "?p \<le> n" using find_zero_le [of "take n xs"] len by simp
  show ?thesis
  proof (cases "?p < n")
    case True
    then have "\<not> nonzero (enc (xs ! ?p))" using len find_zero_free [of "take n xs"] by simp
    with True len show ?thesis
      by (simp add: grab_slot_def t) (use le in \<open>blast intro: order_less_le_trans\<close>)
  next
    case False
    with le have p: "?p = n" by simp
    have below: "nonzero (enc (xs ! j))" if "j < n" for j
      using that p len find_zero_first [of j "take n xs"] by simp
    have "(\<forall>i < tot. nonzero (enc (xs ! i))) \<longleftrightarrow> n = tot"
    proof (cases "n = tot")
      case True
      with below show ?thesis by simp
    next
      case False
      with len have "n < tot" by simp
      with past [of n] False show ?thesis by auto
    qed
    with len p show ?thesis by (auto simp: grab_slot_def t)
  qed
qed

lemma grab_None_same: "grab_slot enc t tot = (None, t') \<Longrightarrow> t' = t"
  by (auto simp: grab_slot_def Let_def split: if_splits prod.splits)

lemma trim_le: "trim_slots enc xs n \<le> n"
  by (induction n) auto

lemma trim_free: "trim_slots enc xs n \<le> i \<Longrightarrow> i < n \<Longrightarrow> \<not> nonzero (enc (xs ! i))"
  by (induction n) (auto simp: less_Suc_eq split: if_splits)

lemma trim_last: "trim_slots enc xs n = Suc k \<Longrightarrow> nonzero (enc (xs ! k))"
  by (induction n) (auto split: if_splits)

lemma free_ok:
  assumes "slots_ok enc tot t"
  shows "slots_ok enc tot (free_slot enc zero t p)"
proof -
  obtain xs n where t: "t = (xs, n)" by force
  let ?xs = "xs[p := zero]"
  have len: "length xs = tot" "n \<le> tot" and past: "\<And>i. n \<le> i \<Longrightarrow> i < tot \<Longrightarrow> \<not> nonzero (enc (xs ! i))"
    using assms by (auto simp: slots_ok_def t)
  have "\<not> nonzero (enc (?xs ! i))" if "trim_slots enc ?xs n \<le> i" "i < tot" for i
  proof (cases "i < n")
    case True
    with that show ?thesis by (simp add: trim_free)
  next
    case False
    with that len past [of i] zero_free show ?thesis by (cases "i = p") simp_all
  qed
  moreover have "trim_slots enc ?xs n \<le> tot"
    using trim_le [of ?xs n] len by simp
  ultimately show ?thesis by (simp add: t free_slot_def slots_ok_def len Let_def)
qed

lemma free_entries: "fst (free_slot enc zero t p) = (fst t)[p := zero]"
  by (simp add: free_slot_def Let_def case_prod_beta)

lemma free_count_tight:
  "snd (free_slot enc zero t p) = Suc k \<Longrightarrow> nonzero (enc (fst (free_slot enc zero t p) ! k))"
  by (auto simp: free_slot_def Let_def case_prod_beta dest: trim_last)

end

lemma nonzero_scan:
  assumes "wf_scan sc"
  shows "nonzero (scan_bytes sc) \<longleftrightarrow> sc \<noteq> zero_scan"
proof -
  have "nonzero (sc_bssid sc) \<longleftrightarrow> sc_bssid sc \<noteq> replicate MACLEN 0"
    and "nonzero (sc_ssid sc) \<longleftrightarrow> sc_ssid sc \<noteq> replicate SSIDLEN 0"
    using assms by (simp_all only: nonzero_iff wf_scan_def)
  then show ?thesis
    by (cases sc) (auto simp: scan_bytes_def zero_scan_def)
qed

lemma zero_scan_wf [simp]: "wf_scan zero_scan"
  by (simp add: wf_scan_def zero_scan_def)

lemma zero_scan_free [simp]: "\<not> nonzero (scan_bytes zero_scan)"
  by (simp add: nonzero_scan)

lemma nonzero_le32 [simp]: "nonzero (le32 w) \<longleftrightarrow> w \<noteq> 0"
proof -
  have "nonzero (le32 w) \<longleftrightarrow> le32 w \<noteq> le32 0"
    by (simp add: le32_def)
  also have "\<dots> \<longleftrightarrow> w \<noteq> 0"
    by (metis of_le32_le32')
  finally show ?thesis .
qed

lemma nonzero_conn: "nonzero (conn_bytes cn) \<longleftrightarrow> cn \<noteq> zero_conn"
  by (cases cn) (auto simp: conn_bytes_def zero_conn_def)

interpretation scan_pool: slot_pool scan_bytes zero_scan NSCANS
  by unfold_locales simp

interpretation conn_pool: slot_pool conn_bytes zero_conn NCONNS
  by unfold_locales (simp add: nonzero_conn)

section \<open>The scan table\<close>

lemma find_scan_from_Some:
  assumes "find_scan_from bssid scs = Some i" and "\<forall>sc \<in> set scs. wf_scan sc"
    and "length bssid = MACLEN"
  shows "i < length scs \<and> live (scs ! i) \<and> sc_bssid (scs ! i) = bssid"
  using assms(1,2)
proof (induction scs arbitrary: i)
  case (Cons sc scs)
  show ?case
  proof (cases "sc_freq sc \<noteq> 0 \<and> memcmp (sc_bssid sc) bssid = 0")
    case True
    with Cons.prems assms(3) show ?thesis
      by (simp add: live_def memcmp_eq_0 wf_scan_def)
  next
    case False
    with Cons.prems obtain k where "find_scan_from bssid scs = Some k" "i = Suc k"
      by (auto split: if_splits)
    with Cons show ?thesis by simp
  qed
qed simp

lemma find_scan_from_None:
  assumes "find_scan_from bssid scs = None"
  shows "sc \<in> set scs \<Longrightarrow> live sc \<Longrightarrow> sc_bssid sc \<noteq> bssid"
  using assms
  by (induction scs) (auto simp: live_def split: if_splits)

lemma find_expendable_Some:
  "find_expendable scs = Some i \<Longrightarrow> i < length scs \<and> expendable (scs ! i)"
  by (induction scs arbitrary: i) (auto split: if_splits)

lemma find_expendable_None:
  "find_expendable scs = None \<Longrightarrow> sc \<in> set scs \<Longrightarrow> \<not> expendable sc"
  by (induction scs) (auto split: if_splits)

lemma scans_okD:
  assumes "scans_ok t"
  shows "slots_ok scan_bytes NSCANS t" and "length (fst t) = NSCANS" and "snd t \<le> NSCANS"
    and "\<And>i. i < NSCANS \<Longrightarrow> wf_scan (fst t ! i)"
    and "\<And>i. snd t \<le> i \<Longrightarrow> i < NSCANS \<Longrightarrow> fst t ! i = zero_scan"
    and "\<And>sc. sc \<in> set (take (snd t) (fst t)) \<Longrightarrow> wf_scan sc"
proof -
  show ok: "slots_ok scan_bytes NSCANS t" and wf: "\<And>i. i < NSCANS \<Longrightarrow> wf_scan (fst t ! i)"
    using assms by (simp_all add: scans_ok_def)
  then show "length (fst t) = NSCANS" "snd t \<le> NSCANS" by (simp_all add: slots_ok_def)
  then show "\<And>sc. sc \<in> set (take (snd t) (fst t)) \<Longrightarrow> wf_scan sc"
    using wf by (auto simp: in_set_conv_nth)
  show "\<And>i. snd t \<le> i \<Longrightarrow> i < NSCANS \<Longrightarrow> fst t ! i = zero_scan"
    using ok wf by (auto simp: slots_ok_def nonzero_scan)
qed

lemma scans_ok_used: "scans_ok t \<Longrightarrow> j < NSCANS \<Longrightarrow> fst t ! j \<noteq> zero_scan \<Longrightarrow> j < snd t"
  using scans_okD(5) by (metis not_le)

text \<open>What a caller of \<open>grab_scan_slot\<close> gets: its own entry, a zeroed one, or nothing.\<close>

lemma grab_scan_slot_cases:
  assumes "scans_ok t" and "length bssid = MACLEN" and "grab_scan_slot t bssid = (r, t')"
  obtains (found) i where "r = Some i" "t' = t" "i < snd t" "live (fst t ! i)"
      "sc_bssid (fst t ! i) = bssid"
  | (fresh) i where "r = Some i" "fst t' = fst t" "i < snd t'" "snd t' \<le> NSCANS"
      "slots_ok scan_bytes NSCANS t'" "fst t ! i = zero_scan"
      "\<And>j. j < snd t \<Longrightarrow> live (fst t ! j) \<Longrightarrow> sc_bssid (fst t ! j) \<noteq> bssid"
  | (evicted) i where "r = Some i" "t' = ((fst t)[i := zero_scan], snd t)" "i < snd t"
      "expendable (fst t ! i)" "\<And>j. j < NSCANS \<Longrightarrow> fst t ! j \<noteq> zero_scan"
      "\<And>j. j < snd t \<Longrightarrow> live (fst t ! j) \<Longrightarrow> sc_bssid (fst t ! j) \<noteq> bssid"
  | (full) "r = None" "t' = t" "\<And>j. j < NSCANS \<Longrightarrow> fst t ! j \<noteq> zero_scan"
      "\<And>j. j < snd t \<Longrightarrow> \<not> expendable (fst t ! j)"
      "\<And>j. j < snd t \<Longrightarrow> live (fst t ! j) \<Longrightarrow> sc_bssid (fst t ! j) \<noteq> bssid"
proof (cases "find_scan_slot t bssid")
  case (Some i)
  have len: "length (fst t) = NSCANS" "snd t \<le> NSCANS" using scans_okD [OF assms(1)] by simp_all
  with Some have "i < snd t \<and> live (fst t ! i) \<and> sc_bssid (fst t ! i) = bssid"
    using find_scan_from_Some [of bssid "take (snd t) (fst t)" i] scans_okD(6) [OF assms(1)] assms(2)
    by (auto simp: find_scan_slot_def)
  moreover have "r = Some i" "t' = t" using Some assms(3) by (auto simp: grab_scan_slot_def)
  ultimately show ?thesis using found by blast
next
  case None
  have len: "length (fst t) = NSCANS" "snd t \<le> NSCANS" and ok: "slots_ok scan_bytes NSCANS t"
    and wf: "\<And>i. i < NSCANS \<Longrightarrow> wf_scan (fst t ! i)"
    using scans_okD [OF assms(1)] by blast+
  have other: "sc_bssid (fst t ! j) \<noteq> bssid" if "j < snd t" "live (fst t ! j)" for j
    using find_scan_from_None [of bssid "take (snd t) (fst t)" "fst t ! j"] None that len nth_in_take [of j "snd t" "fst t"]
    by (simp add: find_scan_slot_def)
  obtain q u where g: "grab_slot scan_bytes t NSCANS = (q, u)" by (rule prod.exhaust)
  show ?thesis
  proof (cases q)
    case (Some i)
    with g have g': "grab_slot scan_bytes t NSCANS = (Some i, u)" by simp
    note fresh' = scan_pool.grab_SomeD [OF ok g']
    have "snd u \<le> NSCANS" using fresh'(2) by (simp add: slots_ok_def)
    moreover from this have "fst t ! i = zero_scan"
      using fresh'(3,4) wf [of i] nonzero_scan by auto
    moreover have "r = Some i" "t' = u"
      using assms(3) None Some g by (auto simp: grab_scan_slot_def)
    ultimately show ?thesis using fresh fresh' other by blast
  next
    case q: None
    then have u: "u = t" using g scan_pool.grab_None_same by simp
    have "\<forall>j < NSCANS. nonzero (scan_bytes (fst t ! j))"
      using scan_pool.grab_None_iff [OF ok] g q by simp
    then have full': "\<And>j. j < NSCANS \<Longrightarrow> fst t ! j \<noteq> zero_scan" by force
    show ?thesis
    proof (cases "find_expendable (take (snd t) (fst t))")
      case (Some i)
      then have "i < snd t \<and> expendable (fst t ! i)"
        using find_expendable_Some [of "take (snd t) (fst t)" i] len by auto
      moreover have "r = Some i" "t' = ((fst t)[i := zero_scan], snd t)"
        using Some None q g u assms(3) by (auto simp: grab_scan_slot_def)
      ultimately show ?thesis using evicted full' other by blast
    next
      case None': None
      then have "\<not> expendable (fst t ! j)" if "j < snd t" for j
        using find_expendable_None [OF None', of "fst t ! j"] that len nth_in_take [of j "snd t" "fst t"] by simp
      moreover have "r = None" "t' = t"
        using None None' q g u assms(3) by (auto simp: grab_scan_slot_def)
      ultimately show ?thesis using full full' other by blast
    qed
  qed
qed

section \<open>Properties\<close>

text \<open>An entry nobody misses: weak, not seen by the last scan, of a network without a PSK.\<close>

definition worthless :: "scan \<Rightarrow> bool" where
  "worthless sc \<longleftrightarrow> sint (sc_signal sc) \<le> - 8000 \<and> has (sc_flags sc) SF_STALE \<and> \<not> has (sc_flags sc) SF_PASS"

lemma expendable_worthless: "expendable sc = worthless sc"
  by (simp add: expendable_def worthless_def not_less)

text \<open>
  C26. Whatever slot \<open>grab_scan_slot\<close> hands out is in the used part of the table and either
  already describes the station asked for or is all zero; no other entry changes, and an entry that
  is lost was stale, weak and without a PSK. When it hands out nothing, no entry describes the
  station, none is free and none may be sacrificed.
\<close>

theorem grab_scan_slot_safe:
  assumes "scans_ok t" and "length bssid = MACLEN" and "grab_scan_slot t bssid = (r, t')"
  shows "case r of
      Some i \<Rightarrow> i < snd t' \<and> snd t' \<le> NSCANS \<and>
        (live (fst t' ! i) \<and> sc_bssid (fst t' ! i) = bssid \<or> fst t' ! i = zero_scan) \<and>
        (\<forall>j. j \<noteq> i \<longrightarrow> fst t' ! j = fst t ! j) \<and>
        (fst t' ! i \<noteq> fst t ! i \<longrightarrow> worthless (fst t ! i))
    | None \<Rightarrow> t' = t \<and> (\<forall>j < NSCANS. fst t ! j \<noteq> zero_scan \<and> \<not> worthless (fst t ! j) \<and>
        \<not> (live (fst t ! j) \<and> sc_bssid (fst t ! j) = bssid))"
  using assms
proof (cases rule: grab_scan_slot_cases)
  case (full)
  have "j < snd t" if "j < NSCANS" for j
    using that full(3) [OF that] scans_ok_used [OF assms(1), of j] by blast
  with full show ?thesis by (auto simp: expendable_worthless)
qed (use scans_okD(2,3) [OF assms(1)] in \<open>auto simp: expendable_worthless\<close>)

lemma empty_scans_ok: "scans_ok (replicate NSCANS zero_scan, 0)"
  by (auto simp: scans_ok_def slots_ok_def) (simp add: live_def zero_scan_def)

lemma grab_scan_slot_safe_witness:
  "fst (grab_scan_slot (replicate NSCANS zero_scan, 0) [2, 0, 0, 0, 0, 1]) = Some 0 \<and>
   snd (snd (grab_scan_slot (replicate NSCANS zero_scan, 0) [2, 0, 0, 0, 0, 1])) \<le> NSCANS"
proof -
  have g: "grab_scan_slot (replicate NSCANS zero_scan, 0) [2, 0, 0, 0, 0, 1]
      = (Some 0, (replicate NSCANS zero_scan, 1))"
    by (simp add: grab_scan_slot_def find_scan_slot_def grab_slot_def)
  show ?thesis using grab_scan_slot_safe [OF empty_scans_ok _ g] by (simp add: g)
qed

lemma scans_ok_entry:
  assumes "scans_ok t" and "i < snd t" and "wf_scan sc"
    and "live sc \<Longrightarrow> (\<forall>j < NSCANS. j \<noteq> i \<longrightarrow> live (fst t ! j) \<longrightarrow> sc_bssid (fst t ! j) \<noteq> sc_bssid sc)"
  shows "scans_ok ((fst t)[i := sc], snd t)"
proof -
  have "length (fst t) = NSCANS" "snd t \<le> NSCANS" using scans_okD [OF assms(1)] by simp_all
  with assms show ?thesis
    by (fastforce simp: scans_ok_def slots_ok_def nth_list_update)
qed

lemma scans_ok_unique:
  "scans_ok t \<Longrightarrow> i < NSCANS \<Longrightarrow> j < NSCANS \<Longrightarrow> live (fst t ! i) \<Longrightarrow> live (fst t ! j) \<Longrightarrow>
   sc_bssid (fst t ! i) = sc_bssid (fst t ! j) \<Longrightarrow> i = j"
  by (simp add: scans_ok_def)

text \<open>An update that keeps the station's identity, such as setting a flag.\<close>

lemma scans_ok_touch:
  assumes "scans_ok t" and "i < snd t" and "wf_scan sc"
    and "sc_bssid sc = sc_bssid (fst t ! i)" and "sc_freq sc = sc_freq (fst t ! i)"
  shows "scans_ok ((fst t)[i := sc], snd t)"
proof (rule scans_ok_entry [OF assms(1-3)])
  assume "live sc"
  then have "live (fst t ! i)" using assms(5) by (simp add: live_def)
  moreover have "i < NSCANS" using assms(2) scans_okD(3) [OF assms(1)] by simp
  ultimately show "\<forall>j < NSCANS. j \<noteq> i \<longrightarrow> live (fst t ! j) \<longrightarrow> sc_bssid (fst t ! j) \<noteq> sc_bssid sc"
    using assms(4) scans_ok_unique [OF assms(1)] by metis
qed

lemma scans_ok_free:
  assumes "scans_ok t"
  shows "scans_ok (free_scan_slot t p)"
proof -
  have entries: "fst (free_scan_slot t p) = (fst t)[p := zero_scan]"
    by (simp add: free_scan_slot_def scan_pool.free_entries)
  have "slots_ok scan_bytes NSCANS (free_scan_slot t p)"
    using assms by (simp add: free_scan_slot_def scan_pool.free_ok scans_okD(1))
  moreover have "length (fst t) = NSCANS" using scans_okD [OF assms] by simp
  moreover have "\<not> live zero_scan" by (simp add: live_def zero_scan_def)
  ultimately show ?thesis
    using assms unfolding scans_ok_def entries
    by (auto simp: nth_update_if split: if_splits)
qed

text \<open>
  Recording a scan result (grab a slot, then write the station's BSSID into it) keeps the table
  well-formed: the counts stay in bounds, unused slots stay zero and no station is listed twice.
\<close>

lemma scans_ok_record:
  assumes "scans_ok t" and "length bssid = MACLEN" and "grab_scan_slot t bssid = (Some i, t')"
    and "wf_scan sc" and "sc_bssid sc = bssid"
  shows "scans_ok ((fst t')[i := sc], snd t')"
  using assms(1-3)
proof (cases rule: grab_scan_slot_cases)
  case (found k)
  then have "i = k" "k < NSCANS" using scans_okD(3) [OF assms(1)] by simp_all
  with found assms scans_ok_unique [OF assms(1)] show ?thesis
    by (metis scans_ok_entry)
next
  case (fresh k)
  have ok: "scans_ok t'" using fresh assms(1) by (simp add: scans_ok_def)
  have "sc_bssid (fst t' ! j) \<noteq> bssid" if "j < NSCANS" "live (fst t' ! j)" for j
    using that fresh scans_okD(5) [OF assms(1), of j]
    by (cases "j < snd t") (auto simp: live_def zero_scan_def)
  with fresh assms(4,5) show ?thesis by (intro scans_ok_entry [OF ok]) auto
next
  case (evicted k)
  have len: "length (fst t) = NSCANS" "snd t \<le> NSCANS" using scans_okD [OF assms(1)] by simp_all
  have "sc_bssid (fst t ! j) \<noteq> bssid" if "j < NSCANS" "live (fst t ! j)" for j
    using that evicted scans_ok_used [OF assms(1), of j] by blast
  with evicted assms(4,5) have "scans_ok ((fst t)[k := sc], snd t)"
    by (intro scans_ok_entry [OF assms(1)]) auto
  with evicted show ?thesis by simp
qed simp

text \<open>What else a successful \<open>grab_scan_slot\<close> leaves.\<close>

lemma grab_scan_slot_table:
  assumes "scans_ok t" and "length bssid = MACLEN" and "grab_scan_slot t bssid = (r, t')"
  shows "scans_ok t' \<and> set (fst t') \<subseteq> insert zero_scan (set (fst t)) \<and> (\<forall>i. r = Some i \<longrightarrow> i < snd t')"
  using assms
proof (cases rule: grab_scan_slot_cases)
  case (evicted k)
  then have "scans_ok t'"
    using scans_ok_entry [OF assms(1) evicted(3) zero_scan_wf] by (simp add: live_def zero_scan_def)
  with evicted show ?thesis using set_update_subset_insert by fastforce
qed (use assms(1) in \<open>auto simp: scans_ok_def\<close>)

end
