(* ===== verification/Config.thy ===== *)
theory Config imports Prelude begin

text \<open>
  The configuration editor (wsupp_config.c): the PSK file kept in an anonymous mapping, its lines
  and their escaped fields, lookup, replacement, insertion and removal of a line, and the
  operations on pre-shared keys built on them. Pointers into the mapping are offsets, a null line
  is None. An operation returns None where the C code has no defined behaviour: a write through a
  pointer into a mapping that mremap moved away, a memmove of a negative length, the use of a size
  that was never set.
\<close>

section \<open>State\<close>

abbreviation (input) PAGE :: nat where "PAGE \<equiv> 4096"
abbreviation (input) MAX_CONFIG_SIZE :: nat where "MAX_CONFIG_SIZE \<equiv> 64 * 1024"

text \<open>\<open>config\<close> (None is NULL; the list is the whole mapping), \<open>blocklen\<close>, \<open>datalen\<close>, \<open>modified\<close>.\<close>

record config =
  cf_map :: "bytes option"
  cf_blocklen :: nat
  cf_datalen :: nat
  cf_modified :: bool

text \<open>What the kernel does: how \<open>mremap\<close> ends, what is in the file and whether calls succeed.\<close>

datatype mremap_result = Remap_failed | Remap_in_place | Remap_moved

record config_env =
  env_file :: "bytes option"    \<comment> \<open>the file, if it can be opened for reading\<close>
  env_fstat_ok :: bool
  env_mmap_ok :: bool
  env_read :: int               \<comment> \<open>what \<open>read\<close> returns\<close>
  env_mremap :: mremap_result
  env_create_ok :: bool         \<comment> \<open>open for writing\<close>
  env_write :: nat              \<comment> \<open>how many bytes the file takes before \<open>write\<close> fails\<close>

type_synonym line = "(nat \<times> nat) option"
type_synonym chunk = "nat \<times> nat"

definition page_up :: "nat \<Rightarrow> nat" where
  "page_up n = n + (PAGE - n mod PAGE) mod PAGE"

definition empty_config :: config where
  "empty_config = \<lparr>cf_map = None, cf_blocklen = 0, cf_datalen = 0, cf_modified = False\<rparr>"

text \<open>The bytes of the mapping.\<close>

definition cf_buf :: "config \<Rightarrow> bytes" where
  "cf_buf c = (case cf_map c of None \<Rightarrow> [] | Some b \<Rightarrow> b)"

section \<open>Reading the file into memory\<close>

text \<open>
  \<open>open_stat_config\<close>: the descriptor (or an error) and the size it stores, None when it stores
  none. On a file that is too large it returns what fstat returned, zero.
\<close>

definition open_stat_config :: "config_env \<Rightarrow> int \<times> nat option" where
  "open_stat_config e =
     (case env_file e of
        None \<Rightarrow> (- 1, Some 0)
      | Some f \<Rightarrow>
          if \<not> env_fstat_ok e then (- 1, None)
          else if length f > MAX_CONFIG_SIZE then (0, None)
          else (3, Some (length f)))"

definition mmap_config_buf :: "config_env \<Rightarrow> nat \<Rightarrow> config \<Rightarrow> int \<times> config" where
  "mmap_config_buf e filesize c =
     (let size = page_up (filesize + 1024) in
      if \<not> env_mmap_ok e then (- 1, c)
      else (0, c\<lparr>cf_map := Some (replicate size 0), cf_blocklen := size, cf_datalen := 0,
                 cf_modified := False\<rparr>))"

definition read_config_whole :: "config_env \<Rightarrow> nat \<Rightarrow> config \<Rightarrow> int \<times> config" where
  "read_config_whole e filesize c =
     (if filesize = 0 then (0, c)
      else let rd = env_read e;
               data = (case env_file e of None \<Rightarrow> [] | Some f \<Rightarrow> take (nat rd) f);
               c = c\<lparr>cf_map := Some (memcpy_at (cf_buf c) 0 data)\<rparr>
           in if rd < int filesize then (rd, c) else (0, c))"

definition load_config :: "config_env \<Rightarrow> config \<Rightarrow> (int \<times> config) option" where
  "load_config e c =
     (if cf_map c \<noteq> None then Some (0, c)
      else let (fd, size) = open_stat_config e in
           case (if fd < 0 then Some 0 else size) of
             None \<Rightarrow> None
           | Some filesize \<Rightarrow>
               (let (ret, c) = mmap_config_buf e filesize c in
                if ret < 0 then Some (ret, c)
                else let (ret, c) = read_config_whole e filesize c in
                     if ret < 0 then Some (ret, c)
                     else Some (0, c\<lparr>cf_datalen := filesize\<rparr>)))"

text \<open>
  What \<open>save_config\<close> leaves in the file, None when it does not write it. The file is truncated first,
  and the result of \<open>writeall\<close> is not looked at.
\<close>

definition save_config :: "config_env \<Rightarrow> config \<Rightarrow> bytes option \<times> config" where
  "save_config e c =
     (case cf_map c of
        None \<Rightarrow> (None, c)
      | Some buf \<Rightarrow>
          if \<not> cf_modified c then (None, c)
          else if \<not> env_create_ok e then (None, c)
          else (Some (take (env_write e) (take (cf_datalen c) buf)), c\<lparr>cf_modified := False\<rparr>))"

definition drop_config :: "config_env \<Rightarrow> config \<Rightarrow> bytes option \<times> config" where
  "drop_config e c =
     (if cf_map c = None then (None, c)
      else let (f, c) = (if cf_modified c then save_config e c else (None, c))
           in (f, c\<lparr>cf_map := None, cf_blocklen := 0, cf_datalen := 0\<rparr>))"

section \<open>Resizing\<close>

text \<open>
  \<open>mremap(config, blocklen, newblocklen, MREMAP_MAYMOVE)\<close> on an anonymous mapping keeps the
  pages of the old length and appends zero pages.
\<close>

definition mremap_buf :: "bytes \<Rightarrow> nat \<Rightarrow> nat \<Rightarrow> bytes" where
  "mremap_buf buf old new = take (page_up old) buf @ replicate (page_up new - page_up old) 0"

definition remap_config :: "config_env \<Rightarrow> nat \<Rightarrow> config \<Rightarrow> int \<times> config" where
  "remap_config e len c =
     (let lenaligned = page_up len;
          newblocklen = cf_blocklen c + lenaligned in
      if env_mremap e = Remap_failed then (- 1, c)
      else (0, c\<lparr>cf_map := Some (mremap_buf (cf_buf c) (cf_blocklen c) newblocklen),
                 cf_blocklen := len\<rparr>))"

definition extend_config :: "config_env \<Rightarrow> int \<Rightarrow> config \<Rightarrow> int \<times> config" where
  "extend_config e len c =
     (let newdl = int (cf_datalen c) + len in
      if newdl < 0 then (- 1, c)
      else let (ret, c') = (if newdl > int (cf_blocklen c) then remap_config e (nat newdl) c else (0, c)) in
           if ret < 0 then (ret, c')
           else (0, c'\<lparr>cf_datalen := nat newdl\<rparr>))"

section \<open>Lines and fields\<close>

definition isspace :: "byte \<Rightarrow> bool" where
  "isspace c \<longleftrightarrow> c = 0x20 \<or> c = 0x09 \<or> c = 0x0A"

function skipline :: "bytes \<Rightarrow> nat \<Rightarrow> nat \<Rightarrow> nat" where
  "skipline buf p e = (if p < e \<and> buf ! p \<noteq> 0x0A then skipline buf (p + 1) e else p)"
  by pat_completeness auto
termination by (relation "measure (\<lambda>(buf, p, e). e - p)") auto

definition setline :: "config \<Rightarrow> nat \<Rightarrow> line" where
  "setline c p =
     (let confend = cf_datalen c in
      if p \<ge> confend then None else Some (p, skipline (cf_buf c) p confend))"

definition firstline :: "config \<Rightarrow> line" where
  "firstline c = setline c 0"

definition nextline :: "config \<Rightarrow> nat \<times> nat \<Rightarrow> line" where
  "nextline c ln = setline c (snd ln + 1)"

function skiparg :: "bytes \<Rightarrow> nat \<Rightarrow> nat \<Rightarrow> nat" where
  "skiparg buf p e =
     (if p < e \<and> \<not> isspace (buf ! p)
      then skiparg buf (if buf ! p = 0x5C then p + 2 else p + 1) e
      else p)"
  by pat_completeness auto
termination by (relation "measure (\<lambda>(buf, p, e). e - p)") auto

function skipsep :: "bytes \<Rightarrow> nat \<Rightarrow> nat \<Rightarrow> nat" where
  "skipsep buf p e = (if p < e \<and> isspace (buf ! p) then skipsep buf (p + 1) e else p)"
  by pat_completeness auto
termination by (relation "measure (\<lambda>(buf, p, e). e - p)") auto

declare skipline.simps [simp del] skiparg.simps [simp del] skipsep.simps [simp del]

text \<open>The loop of \<open>split_line\<close>, with \<open>nc\<close> chunks still to fill; the list has the chunks filled.\<close>

fun split_chunks :: "bytes \<Rightarrow> nat \<Rightarrow> nat \<Rightarrow> nat \<Rightarrow> chunk list" where
  "split_chunks buf p e 0 = []"
| "split_chunks buf p e (Suc nc) =
     (if p < e
      then let q = skiparg buf p e in (p, q) # split_chunks buf (skipsep buf q e) e nc
      else [])"

definition split_line :: "bytes \<Rightarrow> nat \<times> nat \<Rightarrow> nat \<Rightarrow> chunk list" where
  "split_line buf ln nc = split_chunks buf (skipsep buf (fst ln) (snd ln)) (snd ln) nc"

definition chunklen :: "chunk \<Rightarrow> nat" where
  "chunklen ck = snd ck - fst ck"

definition chunkeq :: "bytes \<Rightarrow> chunk \<Rightarrow> bytes \<Rightarrow> bool" where
  "chunkeq buf ck str \<longleftrightarrow>
     chunklen ck = length str \<and> memcmp (slice (fst ck) (length str) buf) str = 0"

text \<open>The tests of \<open>find_line\<close> on one line: enough fields, and the \<open>i\<close>-th equal to \<open>val\<close>.\<close>

definition line_matches :: "bytes \<Rightarrow> nat \<Rightarrow> bytes \<Rightarrow> nat \<times> nat \<Rightarrow> bool" where
  "line_matches buf i val ln =
     (let ck = split_line buf ln (i + 1) in
      if length ck < i + 1 then False else chunkeq buf (ck ! i) val)"

lemma skipline_ge: "p \<le> skipline buf p e"
  by (induction buf p e rule: skipline.induct) (subst skipline.simps, auto)

function find_line_from :: "config \<Rightarrow> nat \<Rightarrow> bytes \<Rightarrow> nat \<Rightarrow> line" where
  "find_line_from c i val p =
     (case setline c p of
        None \<Rightarrow> None
      | Some ln \<Rightarrow>
          if line_matches (cf_buf c) i val ln then Some ln
          else find_line_from c i val (snd ln + 1))"
  by pat_completeness auto
termination
proof (relation "measure (\<lambda>(c, i, val, p). cf_datalen c - p)", goal_cases)
  case (2 c i val p ln)
  then show ?case
    using skipline_ge [of p "cf_buf c" "cf_datalen c"]
    by (auto simp: setline_def Let_def split: if_splits)
qed simp

declare find_line_from.simps [simp del]

definition find_line :: "config \<Rightarrow> nat \<Rightarrow> bytes \<Rightarrow> int \<times> line" where
  "find_line c i val =
     (case find_line_from c i val 0 of None \<Rightarrow> (- 1, None) | Some ln \<Rightarrow> (0, Some ln))"

section \<open>Formatting\<close>

definition digits :: bytes where
  "digits = [0x30, 0x31, 0x32, 0x33, 0x34, 0x35, 0x36, 0x37, 0x38, 0x39, 0x41, 0x42, 0x43, 0x44, 0x45, 0x46]"

text \<open>One byte of an SSID, as the four branches of \<open>fmt_ssid\<close> write it.\<close>

definition fmt_byte :: "byte \<Rightarrow> bytes" where
  "fmt_byte b =
     (if b = 0x5C then [0x5C, 0x5C]
      else if b = 0x20 then [0x5C, 0x20]
      else if b \<le> 0x20 then [0x5C, 0x78, digits ! unat (drop_bit 4 b), digits ! unat (b AND 0xF)]
      else [b])"

text \<open>
  The loop of \<open>fmt_ssid\<close> from offset \<open>p\<close> in a buffer that ends at \<open>e\<close>: the bytes it writes.
\<close>

fun fmt_ssid_loop :: "nat \<Rightarrow> nat \<Rightarrow> bytes \<Rightarrow> bytes" where
  "fmt_ssid_loop p e [] = []"
| "fmt_ssid_loop p e (b # bs) =
     (if p + 5 \<ge> e then [] else fmt_byte b @ fmt_ssid_loop (p + length (fmt_byte b)) e bs)"

definition fmt_ssid :: "nat \<Rightarrow> nat \<Rightarrow> bytes \<Rightarrow> int \<Rightarrow> bytes" where
  "fmt_ssid p e ssid slen = fmt_ssid_loop p e (take (nat slen) ssid)"

text \<open>\<open>char buf[3*32+5]\<close> and its last byte kept free.\<close>

definition find_ssid :: "config \<Rightarrow> bytes \<Rightarrow> int \<Rightarrow> int \<times> line" where
  "find_ssid c ssid slen =
     (let e = 3 * 32 + 5 - 1; out = fmt_ssid 0 e ssid slen in find_line c 1 out)"

fun fmt_bytes :: "nat \<Rightarrow> nat \<Rightarrow> bytes \<Rightarrow> bytes" where
  "fmt_bytes p e [] = []"
| "fmt_bytes p e (di # ds) =
     (let hh = digits ! unat (drop_bit 4 di AND 0xF); ll = digits ! unat (di AND 0xF);
          o1 = (if p < e then [hh] else []);
          o2 = (if p + length o1 < e then [ll] else [])
      in o1 @ o2 @ fmt_bytes (p + length o1 + length o2) e ds)"

section \<open>Editing\<close>

definition change_part :: "config_env \<Rightarrow> nat \<times> nat \<Rightarrow> bytes \<Rightarrow> config \<Rightarrow> config" where
  "change_part e ln buf c =
     (let offs = fst ln; offe = snd ln;
          shift = int (length buf) - (int offe - int offs);
          shlen = cf_datalen c - offe;
          (ret, c) = extend_config e shift c in
      if ret \<noteq> 0 then c
      else let m = memmove_at (cf_buf c) (nat (int offe + shift)) offe shlen
           in c\<lparr>cf_map := Some (memcpy_at m offs buf)\<rparr>)"

text \<open>\<open>at\<close> is computed before the mapping may move, and written through afterwards.\<close>

definition insert_line :: "config_env \<Rightarrow> bytes \<Rightarrow> config \<Rightarrow> config option" where
  "insert_line e buf c =
     (let at = cf_datalen c;
          remapped = int (cf_datalen c) + int (length buf + 1) > int (cf_blocklen c);
          (ret, c) = extend_config e (int (length buf + 1)) c in
      if ret \<noteq> 0 then Some c
      else if remapped \<and> env_mremap e = Remap_moved then None
      else Some (c\<lparr>cf_map := Some (memcpy_at (memcpy_at (cf_buf c) at buf) (at + length buf) [0x0A])\<rparr>))"

definition drop_line :: "config_env \<Rightarrow> line \<Rightarrow> config \<Rightarrow> config option" where
  "drop_line e ln c =
     (case ln of
        None \<Rightarrow> Some c
      | Some (s, en) \<Rightarrow>
          (let shift = - (int en - int s + 1);
               shlen = int (cf_datalen c) - int en - 1;
               (ret, c) = extend_config e shift c in
           if ret \<noteq> 0 then Some c
           else if shlen < 0 then None
           else Some (c\<lparr>cf_map := Some (memmove_at (cf_buf c) s (en + 1) (nat shlen)),
                        cf_modified := True\<rparr>)))"

definition save_line :: "config_env \<Rightarrow> line \<Rightarrow> bytes \<Rightarrow> config \<Rightarrow> config option" where
  "save_line e ln buf c =
     map_option (\<lambda>c. c\<lparr>cf_modified := True\<rparr>)
       (case ln of Some l \<Rightarrow> Some (change_part e l buf c) | None \<Rightarrow> insert_line e buf c)"

section \<open>Pre-shared keys\<close>

definition got_psk_for :: "config_env \<Rightarrow> bytes \<Rightarrow> int \<Rightarrow> config \<Rightarrow> (bool \<times> config) option" where
  "got_psk_for e ssid slen c =
     (case load_config e c of
        None \<Rightarrow> None
      | Some (ret, c) \<Rightarrow>
          if ret \<noteq> 0 then Some (False, c)
          else if fst (find_ssid c ssid slen) \<noteq> 0 then Some (False, c)
          else Some (True, c))"

text \<open>\<open>strchr(digits, c) - digits\<close>; the terminating zero of the string counts, as index 16.\<close>

fun index_of :: "byte \<Rightarrow> bytes \<Rightarrow> nat option" where
  "index_of c [] = None"
| "index_of c (d # ds) = (if c = d then Some 0 else map_option Suc (index_of c ds))"

definition strchr_digits :: "byte \<Rightarrow> nat option" where
  "strchr_digits c = index_of c (digits @ [0])"

text \<open>The loop of \<open>parse_bytes\<close>: an error leaves the bytes stored so far in \<open>dst\<close>.\<close>

fun parse_loop :: "bytes \<Rightarrow> nat \<Rightarrow> nat \<Rightarrow> bytes \<Rightarrow> int \<times> bytes" where
  "parse_loop p i 0 dst = (0, dst)"
| "parse_loop p i (Suc n) dst =
     (case strchr_digits (p ! 0) of
        None \<Rightarrow> (- EINVAL, dst)
      | Some hh \<Rightarrow>
          (case strchr_digits (p ! 1) of
             None \<Rightarrow> (- EINVAL, dst)
           | Some ll \<Rightarrow> parse_loop (drop 2 p) (i + 1) n (dst[i := word_of_nat (hh * 16 + ll)])))"

definition parse_bytes :: "bytes \<Rightarrow> bytes \<Rightarrow> nat \<Rightarrow> int \<times> bytes" where
  "parse_bytes str dst dlen =
     (if length str \<noteq> 2 * dlen then (- EINVAL, dst) else parse_loop str 0 dlen dst)"

definition load_psk ::
  "config_env \<Rightarrow> bytes \<Rightarrow> int \<Rightarrow> bytes \<Rightarrow> config \<Rightarrow> (int \<times> bytes \<times> config) option" where
  "load_psk e ssid slen psk c =
     (case load_config e c of
        None \<Rightarrow> None
      | Some (ret, c) \<Rightarrow>
          if ret \<noteq> 0 then Some (- ENOKEY, psk, c)
          else case find_ssid c ssid slen of
              (_, None) \<Rightarrow> Some (- ENOKEY, psk, c)
            | (_, Some ln) \<Rightarrow>
                (let ck = split_line (cf_buf c) ln 2 in
                 if length ck < 2 then Some (- ENOKEY, psk, c)
                 else let (r, psk) = parse_bytes (slice (fst (ck ! 0)) (chunklen (ck ! 0)) (cf_buf c)) psk 32
                      in Some (r, psk, c)))"

text \<open>\<open>char buf[100]\<close>: the line to store.\<close>

definition psk_line :: "bytes \<Rightarrow> int \<Rightarrow> bytes \<Rightarrow> bytes" where
  "psk_line ssid slen psk =
     (let e = 100 - 1; hex = fmt_bytes 0 e psk; p = length hex + 1
      in hex @ [0x20] @ fmt_ssid p e ssid slen)"

definition save_psk :: "config_env \<Rightarrow> bytes \<Rightarrow> int \<Rightarrow> bytes \<Rightarrow> config \<Rightarrow> config option" where
  "save_psk e ssid slen psk c =
     (let buf = psk_line ssid slen psk in
      case load_config e c of
        None \<Rightarrow> None
      | Some (ret, c) \<Rightarrow>
          if ret \<noteq> 0 then Some c
          else let (_, ln) = find_ssid c ssid slen in save_line e ln buf c)"

definition drop_psk :: "config_env \<Rightarrow> bytes \<Rightarrow> int \<Rightarrow> config \<Rightarrow> (int \<times> config) option" where
  "drop_psk e ssid slen c =
     (case load_config e c of
        None \<Rightarrow> None
      | Some (ret, c) \<Rightarrow>
          if ret < 0 then Some (ret, c)
          else let (ret, ln) = find_ssid c ssid slen in
               if ret < 0 then Some (ret, c)
               else map_option (\<lambda>c. (0, c)) (drop_line e ln c))"

end
