(* ===== verification/Wstate.thy ===== *)
theory Wstate imports Slots Config Netlink begin

text \<open>
  The state the supplicant's modules share (the globals of wsupp.h, wsupp.c, wsupp_netlink.c,
  wsupp_eapol.c, wsupp_rfkill.c, wsupp_ifmon.c), what the environment answers, what the program
  shows to the outside, how a handler can end, and the small services every module calls: timers,
  reports to control clients and the DHCP client.
\<close>

section \<open>Modes\<close>

datatype authstate = AS_IDLE | AS_AUTHENTICATING | AS_ASSOCIATING | AS_CONNECTING | AS_CONNECTED
  | AS_DISCONNECTING | AS_NETDOWN | AS_EXTERNAL

datatype eapolstate = ES_IDLE | ES_WAITING_1_4 | ES_WAITING_2_4 | ES_WAITING_3_4 | ES_NEGOTIATED

datatype scanstate = SS_IDLE | SS_SCANNING | SS_SCANDUMP

datatype opermode = OP_EXIT | OP_EXITREQ | OP_NEUTRAL | OP_ONESHOT | OP_ACTIVE | OP_RESCAN

section \<open>State\<close>

text \<open>struct ap; \<open>ap_ies\<close> is what the pointer \<open>ies\<close> points to, nothing at first.\<close>

record ap =
  ap_bssid :: bytes
  ap_freq :: u16
  ap_signal :: u16
  ap_slen :: u16
  ap_type :: u16
  ap_ssid :: bytes
  ap_ies :: bytes
  ap_iesize :: nat
  ap_fixed :: bool
  ap_unsaved :: bool
  ap_tkipgroup :: bool
  ap_success :: bool
  ap_rescans :: int

text \<open>What the outside sees of a run, in order.\<close>

datatype out =
  Nl_sent bytes              \<comment> \<open>a netlink request accepted by the kernel\<close>
| Raw_sent bytes bytes       \<comment> \<open>an EAPOL packet: destination address, packet\<close>
| Conn_sent u32 bytes        \<comment> \<open>bytes written to a control connection\<close>
| Conn_shut u32              \<comment> \<open>a control connection shut down\<close>
| Conn_closed u32
| Dhcp_started | Dhcp_killed
| Iface_up
| Config_written bytes
| State_written bytes        \<comment> \<open>the file with the SSID to come back to\<close>
| State_removed

record wst =
  w_nl :: netlink
  w_nl80211 :: u16
  w_scanreq :: u32
  w_scanseq :: u32
  w_authstate :: authstate
  w_scanstate :: scanstate
  w_opermode :: opermode
  w_ap :: ap
  w_scans :: "scan slots"
  w_conns :: "conn slots"
  w_ifname :: bytes
  w_ifindex :: u32
  w_rawsock :: int
  w_eapolstate :: eapolstate
  w_eapolsends :: bool
  w_version :: byte
  w_amac :: bytes
  w_smac :: bytes
  w_anonce :: bytes
  w_snonce :: bytes
  w_replay :: bytes
  w_PSK :: bytes
  w_KCK :: bytes
  w_KEK :: bytes
  w_PTK :: bytes
  w_GTK :: bytes
  w_RSC :: bytes
  w_gtkindex :: byte
  w_packet :: bytes
  w_config :: config
  w_rfkill :: int
  w_rfkilled :: bool
  w_rfkidx :: int
  w_dhcpid :: int
  w_timer :: "int option"    \<comment> \<open>\<open>pollts\<close> when \<open>timerset\<close>\<close>
  w_pollset :: bool
  w_netlink :: int           \<comment> \<open>descriptors: netlink socket, control socket\<close>
  w_ctrlfd :: int
  w_pfds :: "int list"       \<comment> \<open>\<open>pfds[].fd\<close>\<close>
  w_npfds :: nat
  w_sigterm :: bool
  w_uc :: ucbuf              \<comment> \<open>the reply under construction\<close>
  w_out :: "out list"

text \<open>
  What the system answers while one event is handled: \<open>sendto\<close> on the netlink socket by sequence
  number, the packet socket by packet, and so on. \<open>en_stack\<close> fills memory whose contents the code does not choose.
\<close>

record env =
  en_nl_ok :: "u32 \<Rightarrow> bool"
  en_rawsock :: int
  en_raw_send :: "bytes \<Rightarrow> int"
  en_rand :: "bytes option"
  en_config :: config_env
  en_conn_ok :: "u32 \<Rightarrow> bool"   \<comment> \<open>does this connection take all that is written to it?\<close>
  en_conn_part :: "u32 \<Rightarrow> nat"  \<comment> \<open>and if not, how many bytes before \<open>write\<close> fails\<close>
  en_malloc_ok :: bool
  en_fork :: int
  en_ifflags :: "bool option"   \<comment> \<open>SIOCGIFFLAGS: is the interface up?\<close>
  en_ifup_ok :: bool
  en_phy :: "int \<Rightarrow> bool"       \<comment> \<open>does the sysfs entry for this rfkill index exist?\<close>
  en_rfkill :: int
  en_state :: "bytes option option" \<comment> \<open>the saved state: None when it cannot be opened, then what \<open>read\<close> gives\<close>
  en_state_ok :: bool           \<comment> \<open>can the file be created?\<close>
  en_state_wr :: nat            \<comment> \<open>how many bytes it takes\<close>
  en_stack :: byte

section \<open>Ends of a handler\<close>

text \<open>Normal, process exit with the last state, or no defined behaviour.\<close>

datatype ('s, 'a) outcome = Go 'a | Quit 's | Wild

type_synonym 'a act = "wst \<Rightarrow> (wst, 'a) outcome"

fun chain :: "('s, 'a) outcome \<Rightarrow> ('a \<Rightarrow> ('s, 'b) outcome) \<Rightarrow> ('s, 'b) outcome" where
  "chain (Go a) f = f a"
| "chain (Quit s) f = Quit s"
| "chain Wild f = Wild"

lemma chain_Go: "chain r f = Go y \<longleftrightarrow> (\<exists>x. r = Go x \<and> f x = Go y)"
  by (cases r) auto

text \<open>
  How every end of a handler has to look: \<open>P\<close> of the value it goes on with, \<open>Q\<close> of the last state;
  with the flag set, no undefined operation either. \<open>yields\<close> asks for \<open>P\<close> only.
\<close>

fun ends :: "bool \<Rightarrow> ('a \<Rightarrow> bool) \<Rightarrow> ('s \<Rightarrow> bool) \<Rightarrow> ('s, 'a) outcome \<Rightarrow> bool" where
  "ends d P Q (Go a) = P a"
| "ends d P Q (Quit s) = Q s"
| "ends d P Q Wild = (\<not> d)"

abbreviation (input) yields :: "('a \<Rightarrow> bool) \<Rightarrow> ('s, 'a) outcome \<Rightarrow> bool" where
  "yields P r \<equiv> ends False P (\<lambda>s. True) r"

lemma ends_chain: "ends d P' Q r \<Longrightarrow> (\<And>x. P' x \<Longrightarrow> ends d P Q (f x)) \<Longrightarrow> ends d P Q (chain r f)"
  by (cases r) auto

lemma ends_mono:
  "ends d P Q r \<Longrightarrow> (\<And>x. P x \<Longrightarrow> P' x) \<Longrightarrow> (\<And>s. Q s \<Longrightarrow> Q' s) \<Longrightarrow> (d' \<Longrightarrow> d) \<Longrightarrow> ends d' P' Q' r"
  by (cases r) auto

definition emit :: "out \<Rightarrow> wst \<Rightarrow> wst" where
  "emit x w = w\<lparr>w_out := w_out w @ [x]\<rparr>"

definition emit_nl :: "bytes option \<Rightarrow> wst \<Rightarrow> wst" where
  "emit_nl m w = (case m of None \<Rightarrow> w | Some b \<Rightarrow> emit (Nl_sent b) w)"

section \<open>Timers (wsupp.c)\<close>

definition clr_timer :: "wst \<Rightarrow> wst" where
  "clr_timer w = w\<lparr>w_timer := None\<rparr>"

definition set_timer :: "int \<Rightarrow> wst \<Rightarrow> wst" where
  "set_timer seconds w = w\<lparr>w_timer := Some seconds\<rparr>"

section \<open>Reports (wsupp_cntrl.c)\<close>

definition ctl_code :: "nat \<Rightarrow> u32" where
  "ctl_code c = push_bit 24 0x57 OR push_bit 16 0x49 OR word_of_nat c"

abbreviation (input) CMD_WI_STATUS :: u32 where "CMD_WI_STATUS \<equiv> ctl_code 0"
abbreviation (input) CMD_WI_DEVICE :: u32 where "CMD_WI_DEVICE \<equiv> ctl_code 1"
abbreviation (input) CMD_WI_SCAN :: u32 where "CMD_WI_SCAN \<equiv> ctl_code 2"
abbreviation (input) CMD_WI_NEUTRAL :: u32 where "CMD_WI_NEUTRAL \<equiv> ctl_code 3"
abbreviation (input) CMD_WI_CONNECT :: u32 where "CMD_WI_CONNECT \<equiv> ctl_code 4"
abbreviation (input) CMD_WI_FORGET :: u32 where "CMD_WI_FORGET \<equiv> ctl_code 5"

abbreviation (input) REP_WI_NET_DOWN :: u32 where "REP_WI_NET_DOWN \<equiv> ctl_code 0"
abbreviation (input) REP_WI_SCANNING :: u32 where "REP_WI_SCANNING \<equiv> ctl_code 1"
abbreviation (input) REP_WI_SCAN_DONE :: u32 where "REP_WI_SCAN_DONE \<equiv> ctl_code 2"
abbreviation (input) REP_WI_SCAN_FAIL :: u32 where "REP_WI_SCAN_FAIL \<equiv> ctl_code 3"
abbreviation (input) REP_WI_DISCONNECT :: u32 where "REP_WI_DISCONNECT \<equiv> ctl_code 4"
abbreviation (input) REP_WI_NO_CONNECT :: u32 where "REP_WI_NO_CONNECT \<equiv> ctl_code 5"
abbreviation (input) REP_WI_CONNECTED :: u32 where "REP_WI_CONNECTED \<equiv> ctl_code 6"

abbreviation (input) ATTR_SSID :: u16 where "ATTR_SSID \<equiv> 1"
abbreviation (input) ATTR_PSK :: u16 where "ATTR_PSK \<equiv> 2"
abbreviation (input) ATTR_PRIO :: u16 where "ATTR_PRIO \<equiv> 3"
abbreviation (input) ATTR_SIGNAL :: u16 where "ATTR_SIGNAL \<equiv> 4"
abbreviation (input) ATTR_FREQ :: u16 where "ATTR_FREQ \<equiv> 5"
abbreviation (input) ATTR_TYPE :: u16 where "ATTR_TYPE \<equiv> 6"
abbreviation (input) ATTR_BSSID :: u16 where "ATTR_BSSID \<equiv> 7"
abbreviation (input) ATTR_SCAN :: u16 where "ATTR_SCAN \<equiv> 8"
abbreviation (input) ATTR_IFI :: u16 where "ATTR_IFI \<equiv> 9"
abbreviation (input) ATTR_NAME :: u16 where "ATTR_NAME \<equiv> 10"
abbreviation (input) ATTR_STATE :: u16 where "ATTR_STATE \<equiv> 11"

text \<open>What a connection takes of the bytes written to it: a signal or a client gone can cut them short.\<close>

definition conn_takes :: "env \<Rightarrow> u32 \<Rightarrow> bytes \<Rightarrow> bytes" where
  "conn_takes E fd buf = (if en_conn_ok E fd then buf else take (en_conn_part E fd) (butlast buf))"

text \<open>
  The loop of \<open>send_report\<close> over the connections: one \<open>write\<close> each, which reports an error only when it
  has not written anything.
\<close>

fun send_to_conns :: "env \<Rightarrow> bytes \<Rightarrow> conn list \<Rightarrow> wst \<Rightarrow> wst" where
  "send_to_conns E buf [] w = w"
| "send_to_conns E buf (cn # cns) w =
     (if cn_rep cn = 0 \<or> sint (cn_fd cn) \<le> 0 then send_to_conns E buf cns w
      else send_to_conns E buf cns
        (emit (if en_conn_ok E (cn_fd cn) \<or> conn_takes E (cn_fd cn) buf \<noteq> []
               then Conn_sent (cn_fd cn) (conn_takes E (cn_fd cn) buf) else Conn_shut (cn_fd cn)) w))"

definition send_report :: "env \<Rightarrow> bytes \<Rightarrow> wst \<Rightarrow> wst" where
  "send_report E buf w = send_to_conns E buf (take (snd (w_conns w)) (fst (w_conns w))) w"

text \<open>A \<open>short\<close> passed as an \<open>int\<close>.\<close>

definition int_of_short :: "u16 \<Rightarrow> u32" where
  "int_of_short s = scast s"

definition report_simple :: "env \<Rightarrow> u32 \<Rightarrow> wst \<Rightarrow> wst" where
  "report_simple E cmd w =
     (let uc = uc_buf_set (replicate 64 (en_stack E));
          uc = uc_put_hdr uc cmd;
          uc = uc_put_end uc
      in send_report E (take (uc_ptr uc) (uc_buf uc)) w)"

definition report_station :: "env \<Rightarrow> u32 \<Rightarrow> wst \<Rightarrow> wst" where
  "report_station E cmd w =
     (let uc = uc_buf_set (replicate 256 (en_stack E));
          uc = uc_put_hdr uc cmd;
          uc = uc_put_bin uc ATTR_BSSID (ap_bssid (w_ap w));
          uc = uc_put_bin uc ATTR_SSID (take (unat (ap_slen (w_ap w))) (ap_ssid (w_ap w)));
          uc = uc_put_int uc ATTR_FREQ (int_of_short (ap_freq (w_ap w)));
          uc = uc_put_end uc
      in send_report E (take (uc_ptr uc) (uc_buf uc)) w)"

definition report_net_down :: "env \<Rightarrow> wst \<Rightarrow> wst" where
  "report_net_down E = report_simple E REP_WI_NET_DOWN"

definition report_scanning :: "env \<Rightarrow> wst \<Rightarrow> wst" where
  "report_scanning E = report_simple E REP_WI_SCANNING"

definition report_scan_done :: "env \<Rightarrow> wst \<Rightarrow> wst" where
  "report_scan_done E = report_simple E REP_WI_SCAN_DONE"

definition report_scan_fail :: "env \<Rightarrow> wst \<Rightarrow> wst" where
  "report_scan_fail E = report_simple E REP_WI_SCAN_FAIL"

definition report_no_connect :: "env \<Rightarrow> wst \<Rightarrow> wst" where
  "report_no_connect E = report_simple E REP_WI_NO_CONNECT"

definition report_disconnect :: "env \<Rightarrow> wst \<Rightarrow> wst" where
  "report_disconnect E = report_station E REP_WI_DISCONNECT"

definition report_connected :: "env \<Rightarrow> wst \<Rightarrow> wst" where
  "report_connected E = report_station E REP_WI_CONNECTED"

section \<open>The DHCP client (wsupp_ifmon.c)\<close>

definition kill_dhcp :: "wst \<Rightarrow> wst" where
  "kill_dhcp w = (if w_dhcpid w \<le> 0 then w else emit Dhcp_killed w)"

text \<open>\<open>fail\<close> leaves without disconnecting.\<close>

definition trigger_dhcp :: "env \<Rightarrow> wst act" where
  "trigger_dhcp E w =
     (let w = kill_dhcp w; pid = en_fork E in
      if pid < 0 then Quit w else Go (emit Dhcp_started (w\<lparr>w_dhcpid := pid\<rparr>)))"

text \<open>\<open>waitpid\<close> reaped process \<open>pid\<close> (zero or less when none).\<close>

definition reap_dhcp :: "int \<Rightarrow> wst \<Rightarrow> wst" where
  "reap_dhcp pid w =
     (if pid \<le> 0 then w else if pid \<noteq> w_dhcpid w then w else w\<lparr>w_dhcpid := 0\<rparr>)"

end
