(* ===== verification/Commands.thy ===== *)
theory Commands imports Wstate begin

text \<open>
  The commands of wsupp_netlink.c: leaving the program, starting scans and scan dumps, the requests
  of the connection state machine and the key uploads. Each puts a request together in the transmit
  buffer and hands it to the netlink socket.
\<close>

section \<open>Constants (netlink/genl/nl80211.h)\<close>

abbreviation (input) NL80211_CMD_NEW_KEY :: byte where "NL80211_CMD_NEW_KEY \<equiv> 11"
abbreviation (input) NL80211_CMD_GET_SCAN :: byte where "NL80211_CMD_GET_SCAN \<equiv> 32"
abbreviation (input) NL80211_CMD_TRIGGER_SCAN :: byte where "NL80211_CMD_TRIGGER_SCAN \<equiv> 33"
abbreviation (input) NL80211_CMD_NEW_SCAN_RESULTS :: byte where "NL80211_CMD_NEW_SCAN_RESULTS \<equiv> 34"
abbreviation (input) NL80211_CMD_SCAN_ABORTED :: byte where "NL80211_CMD_SCAN_ABORTED \<equiv> 35"
abbreviation (input) NL80211_CMD_AUTHENTICATE :: byte where "NL80211_CMD_AUTHENTICATE \<equiv> 37"
abbreviation (input) NL80211_CMD_ASSOCIATE :: byte where "NL80211_CMD_ASSOCIATE \<equiv> 38"
abbreviation (input) NL80211_CMD_CONNECT :: byte where "NL80211_CMD_CONNECT \<equiv> 46"
abbreviation (input) NL80211_CMD_DISCONNECT :: byte where "NL80211_CMD_DISCONNECT \<equiv> 48"

abbreviation (input) NL80211_ATTR_IFINDEX :: u16 where "NL80211_ATTR_IFINDEX \<equiv> 3"
abbreviation (input) NL80211_ATTR_MAC :: u16 where "NL80211_ATTR_MAC \<equiv> 6"
abbreviation (input) NL80211_ATTR_KEY_DATA :: u16 where "NL80211_ATTR_KEY_DATA \<equiv> 7"
abbreviation (input) NL80211_ATTR_KEY_IDX :: u16 where "NL80211_ATTR_KEY_IDX \<equiv> 8"
abbreviation (input) NL80211_ATTR_KEY_CIPHER :: u16 where "NL80211_ATTR_KEY_CIPHER \<equiv> 9"
abbreviation (input) NL80211_ATTR_KEY_SEQ :: u16 where "NL80211_ATTR_KEY_SEQ \<equiv> 10"
abbreviation (input) NL80211_ATTR_WIPHY_FREQ :: u16 where "NL80211_ATTR_WIPHY_FREQ \<equiv> 38"
abbreviation (input) NL80211_ATTR_IE :: u16 where "NL80211_ATTR_IE \<equiv> 42"
abbreviation (input) NL80211_ATTR_SCAN_FREQUENCIES :: u16 where "NL80211_ATTR_SCAN_FREQUENCIES \<equiv> 44"
abbreviation (input) NL80211_ATTR_BSS :: u16 where "NL80211_ATTR_BSS \<equiv> 47"
abbreviation (input) NL80211_ATTR_SSID :: u16 where "NL80211_ATTR_SSID \<equiv> 52"
abbreviation (input) NL80211_ATTR_AUTH_TYPE :: u16 where "NL80211_ATTR_AUTH_TYPE \<equiv> 53"
abbreviation (input) NL80211_ATTR_KEY_DEFAULT_TYPES :: u16 where "NL80211_ATTR_KEY_DEFAULT_TYPES \<equiv> 110"
abbreviation (input) NL80211_BSS_BSSID :: u16 where "NL80211_BSS_BSSID \<equiv> 1"
abbreviation (input) NL80211_BSS_FREQUENCY :: u16 where "NL80211_BSS_FREQUENCY \<equiv> 2"
abbreviation (input) NL80211_BSS_INFORMATION_ELEMENTS :: u16 where "NL80211_BSS_INFORMATION_ELEMENTS \<equiv> 6"
abbreviation (input) NL80211_BSS_SIGNAL_MBM :: u16 where "NL80211_BSS_SIGNAL_MBM \<equiv> 7"
abbreviation (input) NL80211_KEY_DEFAULT_TYPE_UNICAST :: u16 where "NL80211_KEY_DEFAULT_TYPE_UNICAST \<equiv> 1"
abbreviation (input) NL80211_KEY_DEFAULT_TYPE_MULTICAST :: u16 where "NL80211_KEY_DEFAULT_TYPE_MULTICAST \<equiv> 2"

abbreviation (input) SR_SCANNING_ONE_FREQ :: u32 where "SR_SCANNING_ONE_FREQ \<equiv> 1"
abbreviation (input) SR_RECONNECT_CURRENT :: u32 where "SR_RECONNECT_CURRENT \<equiv> 2"
abbreviation (input) SR_CONNECT_SOMETHING :: u32 where "SR_CONNECT_SOMETHING \<equiv> 4"

section \<open>Sending\<close>

text \<open>The shared beginning of every request: \<open>nl_new_cmd\<close> and the interface index.\<close>

definition new_cmd :: "byte \<Rightarrow> wst \<Rightarrow> netlink" where
  "new_cmd cmd w = nl_put_u32 (nl_new_cmd (w_nl w) (w_nl80211 w) cmd 0) NL80211_ATTR_IFINDEX (w_ifindex w)"

text \<open>
  \<open>quit\<close>: an ACK-ed disconnect when not idle, then exit; what the kernel replies does not matter.
\<close>

definition quit :: "env \<Rightarrow> wst \<Rightarrow> (wst, 'a) outcome" where
  "quit E w =
     (if w_authstate w = AS_IDLE then Quit w
      else let nl = new_cmd NL80211_CMD_DISCONNECT w;
               (ret, m, nl) = nl_send_ack (en_nl_ok E (nl_seq nl)) nl
           in Quit (emit_nl m (w\<lparr>w_nl := nl\<rparr>)))"

text \<open>\<open>nl_send(&nl)\<close> on the request in \<open>w_nl\<close>.\<close>

definition send_nl :: "env \<Rightarrow> wst \<Rightarrow> int \<times> wst" where
  "send_nl E w =
     (let (ret, m, nl) = nl_send (en_nl_ok E (nl_seq (w_nl w))) (w_nl w)
      in (ret, emit_nl m (w\<lparr>w_nl := nl\<rparr>)))"

definition send_check :: "env \<Rightarrow> wst act" where
  "send_check E w = (let (ret, w) = send_nl E w in if ret \<ge> 0 then Go w else quit E w)"

definition send_set_authstate :: "env \<Rightarrow> authstate \<Rightarrow> wst act" where
  "send_set_authstate E as w = chain (send_check E w) (\<lambda>w. Go (w\<lparr>w_authstate := as\<rparr>))"

section \<open>Scans\<close>

definition reset_scan_state :: "wst \<Rightarrow> wst" where
  "reset_scan_state w = w\<lparr>w_scanstate := SS_IDLE, w_scanseq := 0, w_scanreq := 0\<rparr>"

text \<open>What every branch but the busy one records about the purpose of the scan.\<close>

definition note_scanreq :: "int \<Rightarrow> u32 \<Rightarrow> u32" where
  "note_scanreq freq req =
     (let req = (if freq > 0 then req OR SR_RECONNECT_CURRENT else req)
      in if freq < 0 then req OR SR_CONNECT_SOMETHING else req)"

text \<open>The request itself and what follows it.\<close>

definition send_scan :: "env \<Rightarrow> int \<Rightarrow> wst \<Rightarrow> int \<times> wst" where
  "send_scan E freq w =
     (let w = w\<lparr>w_nl := new_cmd NL80211_CMD_TRIGGER_SCAN w\<rparr>;
          w = (if freq > 0
               then let w = w\<lparr>w_scanreq := w_scanreq w OR (SR_SCANNING_ONE_FREQ OR SR_RECONNECT_CURRENT)\<rparr>;
                        (at, nl) = nl_put_nest (w_nl w) NL80211_ATTR_SCAN_FREQUENCIES;
                        nl = nl_put_u32 nl 0 (word_of_int freq)
                    in w\<lparr>w_nl := nl_end_nest nl at\<rparr>
               else w);
          (ret, w) = send_nl E w in
      if ret < 0 then (ret, w\<lparr>w_scanreq := 0\<rparr>)
      else (0, w\<lparr>w_scanstate := SS_SCANNING, w_scanseq := nl_seq (w_nl w)\<rparr>))"

definition start_scan :: "env \<Rightarrow> int \<Rightarrow> wst \<Rightarrow> int \<times> wst" where
  "start_scan E freq w =
     (if w_scanstate w = SS_IDLE then
        send_scan E freq (w\<lparr>w_scanreq := note_scanreq freq (w_scanreq w)\<rparr>)
      else if w_scanreq w AND SR_SCANNING_ONE_FREQ \<noteq> 0 then (- EBUSY, w)
      else (0, w\<lparr>w_scanreq := note_scanreq freq (w_scanreq w)\<rparr>))"

definition start_void_scan :: "env \<Rightarrow> wst \<Rightarrow> int \<times> wst" where
  "start_void_scan E w = start_scan E 0 w"

definition start_full_scan :: "env \<Rightarrow> wst \<Rightarrow> int \<times> wst" where
  "start_full_scan E w = start_scan E (- 1) w"

definition trigger_scan_dump :: "env \<Rightarrow> wst \<Rightarrow> wst" where
  "trigger_scan_dump E w =
     (let nl = new_cmd NL80211_CMD_GET_SCAN w;
          (ret, m, nl) = nl_send_dump (en_nl_ok E (nl_seq nl)) nl;
          w = emit_nl m (w\<lparr>w_nl := nl\<rparr>) in
      if ret < 0 then reset_scan_state w
      else w\<lparr>w_scanstate := SS_SCANDUMP, w_scanseq := nl_seq nl\<rparr>)"

section \<open>Connection\<close>

definition open_rawsock :: "env \<Rightarrow> wst act" where
  "open_rawsock E w = (if en_rawsock E < 0 then quit E w else Go (w\<lparr>w_rawsock := en_rawsock E\<rparr>))"

definition reopen_rawsock :: "env \<Rightarrow> wst act" where
  "reopen_rawsock E w = (if w_rawsock w \<ge> 0 then Go w else open_rawsock E w)"

text \<open>The SSID as the code reads it: \<open>slen\<close> bytes of the array.\<close>

definition ap_name :: "ap \<Rightarrow> bytes" where
  "ap_name a = take (unat (ap_slen a)) (ap_ssid a)"

text \<open>The attributes that AUTHENTICATE and ASSOCIATE begin with.\<close>

definition put_ap :: "wst \<Rightarrow> netlink \<Rightarrow> netlink" where
  "put_ap w nl =
     (let nl = nl_put nl NL80211_ATTR_MAC (ap_bssid (w_ap w));
          nl = nl_put_u32 nl NL80211_ATTR_WIPHY_FREQ (int_of_short (ap_freq (w_ap w)))
      in nl_put nl NL80211_ATTR_SSID (ap_name (w_ap w)))"

definition trigger_authentication :: "env \<Rightarrow> wst act" where
  "trigger_authentication E w =
     (let nl = put_ap w (new_cmd NL80211_CMD_AUTHENTICATE w);
          nl = nl_put_u32 nl NL80211_ATTR_AUTH_TYPE 0
      in send_set_authstate E AS_AUTHENTICATING (w\<lparr>w_nl := nl\<rparr>))"

definition start_connection :: "env \<Rightarrow> (int \<times> wst) act" where
  "start_connection E w =
     (if w_authstate w \<noteq> AS_IDLE then Go (- EBUSY, w)
      else if w_scanstate w \<noteq> SS_IDLE then Go (- EBUSY, w)
      else chain (reopen_rawsock E w) (\<lambda>w.
           chain (trigger_authentication E w) (\<lambda>w. Go (0, w))))"

definition trigger_association :: "env \<Rightarrow> wst act" where
  "trigger_association E w =
     (let nl = put_ap w (new_cmd NL80211_CMD_ASSOCIATE w);
          nl = nl_put nl NL80211_ATTR_IE (take (ap_iesize (w_ap w)) (ap_ies (w_ap w)))
      in send_set_authstate E AS_ASSOCIATING (w\<lparr>w_nl := nl\<rparr>))"

definition trigger_disconnect :: "env \<Rightarrow> wst act" where
  "trigger_disconnect E w =
     send_set_authstate E AS_DISCONNECTING (w\<lparr>w_nl := new_cmd NL80211_CMD_DISCONNECT w\<rparr>)"

definition start_disconnect :: "env \<Rightarrow> (int \<times> wst) act" where
  "start_disconnect E w =
     (case w_authstate w of
        AS_IDLE \<Rightarrow> Go (- EALREADY, w)
      | AS_NETDOWN \<Rightarrow> Go (- EALREADY, w)
      | AS_DISCONNECTING \<Rightarrow> Go (- EBUSY, w)
      | _ \<Rightarrow> chain (trigger_disconnect E w) (\<lambda>w. Go (0, w)))"

section \<open>Key uploads\<close>

text \<open>The nest that ends both uploads: one empty attribute.\<close>

definition put_key_types :: "u16 \<Rightarrow> netlink \<Rightarrow> netlink" where
  "put_key_types type nl =
     (let (at, nl) = nl_put_nest nl NL80211_ATTR_KEY_DEFAULT_TYPES;
          nl = nl_put_empty nl type
      in nl_end_nest nl at)"

abbreviation (input) CIPHER_TKIP :: u32 where "CIPHER_TKIP \<equiv> 0x000FAC02"
abbreviation (input) CIPHER_CCMP :: u32 where "CIPHER_CCMP \<equiv> 0x000FAC04"

definition upload_ptk :: "env \<Rightarrow> wst act" where
  "upload_ptk E w =
     (let nl = new_cmd NL80211_CMD_NEW_KEY w;
          nl = nl_put nl NL80211_ATTR_MAC (ap_bssid (w_ap w));
          nl = nl_put_u8 nl NL80211_ATTR_KEY_IDX 0;
          nl = nl_put_u32 nl NL80211_ATTR_KEY_CIPHER CIPHER_CCMP;
          nl = nl_put nl NL80211_ATTR_KEY_DATA (take 16 (w_PTK w));
          nl = nl_put nl NL80211_ATTR_KEY_SEQ (replicate 6 0);
          nl = put_key_types NL80211_KEY_DEFAULT_TYPE_UNICAST nl
      in send_check E (w\<lparr>w_nl := nl\<rparr>))"

definition upload_gtk :: "env \<Rightarrow> wst act" where
  "upload_gtk E w =
     (let nl = new_cmd NL80211_CMD_NEW_KEY w;
          nl = nl_put_u8 nl NL80211_ATTR_KEY_IDX (w_gtkindex w);
          nl = nl_put nl NL80211_ATTR_KEY_SEQ (take 6 (w_RSC w));
          nl = (if ap_tkipgroup (w_ap w)
                then nl_put (nl_put_u32 nl NL80211_ATTR_KEY_CIPHER CIPHER_TKIP) NL80211_ATTR_KEY_DATA (take 32 (w_GTK w))
                else nl_put (nl_put_u32 nl NL80211_ATTR_KEY_CIPHER CIPHER_CCMP) NL80211_ATTR_KEY_DATA (take 16 (w_GTK w)));
          nl = put_key_types NL80211_KEY_DEFAULT_TYPE_MULTICAST nl
      in send_check E (w\<lparr>w_nl := nl\<rparr>))"

section \<open>What the commands leave alone\<close>

text \<open>A state with what sending a request changes blanked out.\<close>

definition rest :: "wst \<Rightarrow> wst" where
  "rest w = w\<lparr>w_nl := nl_init, w_out := [], w_rawsock := 0, w_authstate := AS_IDLE\<rparr>"

lemma rest_simps [simp]:
  "rest (w\<lparr>w_nl := nl\<rparr>) = rest w" "rest (w\<lparr>w_out := out\<rparr>) = rest w"
  "rest (w\<lparr>w_rawsock := fd\<rparr>) = rest w" "rest (w\<lparr>w_authstate := as\<rparr>) = rest w"
  "rest (emit x w) = rest w" "rest (emit_nl m w) = rest w"
  by (simp_all add: rest_def emit_def emit_nl_def split: option.splits)

lemma rest_eqD:
  assumes "rest v = rest w"
  shows "w_scans v = w_scans w" "w_ap v = w_ap w" "w_PSK v = w_PSK w" "w_config v = w_config w"
    "w_scanstate v = w_scanstate w" "w_scanreq v = w_scanreq w" "w_scanseq v = w_scanseq w"
    "w_opermode v = w_opermode w" "w_timer v = w_timer w" "w_eapolstate v = w_eapolstate w"
    "w_conns v = w_conns w"
  using arg_cong [OF assms, of w_scans] arg_cong [OF assms, of w_ap] arg_cong [OF assms, of w_PSK]
    arg_cong [OF assms, of w_config] arg_cong [OF assms, of w_scanstate] arg_cong [OF assms, of w_scanreq]
    arg_cong [OF assms, of w_scanseq] arg_cong [OF assms, of w_opermode] arg_cong [OF assms, of w_timer]
    arg_cong [OF assms, of w_eapolstate] arg_cong [OF assms, of w_conns]
  by (simp_all add: rest_def)

lemma send_nl_rest: "rest (snd (send_nl E w)) = rest w" "w_authstate (snd (send_nl E w)) = w_authstate w"
  by (simp_all add: send_nl_def emit_nl_def emit_def case_prod_beta Let_def split: option.splits)

lemma quit_not_Go [simp]: "quit E w \<noteq> Go x" "quit E w \<noteq> Wild"
  by (simp_all add: quit_def case_prod_beta Let_def)

lemma send_check_rest: "send_check E w = Go v \<Longrightarrow> rest v = rest w \<and> w_authstate v = w_authstate w"
  by (auto simp: send_check_def case_prod_beta send_nl_rest split: if_splits)

lemma send_set_authstate_rest:
  "send_set_authstate E as w = Go v \<Longrightarrow> rest v = rest w \<and> w_authstate v = as"
  by (auto simp: send_set_authstate_def chain_Go dest: send_check_rest)

lemma trigger_authentication_rest:
  "trigger_authentication E w = Go v \<Longrightarrow> rest v = rest w \<and> w_authstate v = AS_AUTHENTICATING"
  by (auto simp: trigger_authentication_def Let_def dest!: send_set_authstate_rest)

lemma reopen_rawsock_rest:
  "reopen_rawsock E w = Go v \<Longrightarrow> rest v = rest w \<and> w_authstate v = w_authstate w"
  by (auto simp: reopen_rawsock_def open_rawsock_def split: if_splits)

lemma start_connection_rest: "start_connection E w = Go (r, v) \<Longrightarrow> rest v = rest w"
  by (auto simp: start_connection_def chain_Go split: if_splits
      dest!: trigger_authentication_rest reopen_rawsock_rest)

lemma trigger_disconnect_rest:
  "trigger_disconnect E w = Go v \<Longrightarrow> rest v = rest w \<and> w_authstate v = AS_DISCONNECTING"
  by (auto simp: trigger_disconnect_def dest!: send_set_authstate_rest)

lemma start_disconnect_rest: "start_disconnect E w = Go (r, v) \<Longrightarrow> rest v = rest w"
  by (auto simp: start_disconnect_def chain_Go split: authstate.splits dest!: trigger_disconnect_rest)

end
