(* ===== verification/Config_Lines.thy ===== *)
theory Config_Lines imports Config begin

text \<open>
  The configuration file seen as a list of lines. Scanning a line inside the file gives the same
  fields as scanning the line alone, \<open>find_line\<close> finds the first line whose field matches, and
  the editing operations act on the list of lines.
\<close>

section \<open>Text and lines\<close>

definition unlines :: "bytes list \<Rightarrow> bytes" where
  "unlines ls = concat (map (\<lambda>l. l @ [0x0A]) ls)"

fun lines_of :: "bytes \<Rightarrow> bytes list" where
  "lines_of [] = []"
| "lines_of (b # bs) =
     (if b = 0x0A then [] # lines_of bs
      else case lines_of bs of [] \<Rightarrow> [[b]] | l # ls \<Rightarrow> (b # l) # ls)"

definition nonl :: "bytes \<Rightarrow> bool" where
  "nonl l \<longleftrightarrow> 0x0A \<notin> set l"

definition cf_text :: "config \<Rightarrow> bytes" where
  "cf_text c = take (cf_datalen c) (cf_buf c)"

text \<open>The whole file is in the mapping and its last line is terminated.\<close>

definition config_wf :: "config \<Rightarrow> bool" where
  "config_wf c \<longleftrightarrow>
     cf_map c \<noteq> None \<and> page_up (cf_blocklen c) \<le> length (cf_buf c) \<and> cf_datalen c \<le> cf_blocklen c \<and>
     (cf_text c = [] \<or> last (cf_text c) = 0x0A)"

lemma unlines_simps [simp]:
  "unlines [] = []" "unlines (l # ls) = l @ 0x0A # unlines ls" "unlines (ls @ ms) = unlines ls @ unlines ms"
  by (simp_all add: unlines_def)

lemma lines_of_line: "nonl l \<Longrightarrow> lines_of (l @ 0x0A # r) = l # lines_of r"
  by (induction l) (auto simp: nonl_def)

lemma lines_of_unlines: "\<forall>l \<in> set ls. nonl l \<Longrightarrow> lines_of (unlines ls) = ls"
  by (induction ls) (simp_all add: lines_of_line)

lemma nonl_lines_of: "l \<in> set (lines_of t) \<Longrightarrow> nonl l"
  by (induction t arbitrary: l) (auto simp: nonl_def split: if_splits list.splits)

lemma unlines_lines_of: "t = [] \<or> last t = 0x0A \<Longrightarrow> unlines (lines_of t) = t"
proof (induction t)
  case (Cons b bs)
  show ?case
  proof (cases "bs = []")
    case False
    with Cons have "unlines (lines_of bs) = bs" by simp
    with False show ?thesis by (cases "lines_of bs") auto
  qed (use Cons in auto)
qed simp

lemma page_up_ge: "n \<le> page_up n"
  by (simp add: page_up_def)

lemma page_up_shape: "page_up n = PAGE * ((n + (PAGE - 1)) div PAGE)"
proof -
  define q r where "q = n div 4096" and "r = n mod 4096"
  have n: "n = 4096 * q + r" "r < 4096" by (simp_all add: q_def r_def)
  have "(n + 4095) div 4096 = (if r = 0 then q else q + 1)" using n by auto
  moreover have "page_up n = (if r = 0 then n else n + (4096 - r))"
    using n(2) by (simp add: page_up_def r_def)
  ultimately show ?thesis using n by auto
qed

lemma page_up_mono: "m \<le> n \<Longrightarrow> page_up m \<le> page_up n"
  unfolding page_up_shape by (intro mult_le_mono2 div_le_mono) simp

lemma config_wfD:
  assumes "config_wf c"
  shows "cf_datalen c \<le> length (cf_buf c)" "length (cf_text c) = cf_datalen c"
    "unlines (lines_of (cf_text c)) = cf_text c" "\<exists>b. cf_map c = Some b"
    "cf_buf c = cf_text c @ drop (cf_datalen c) (cf_buf c)"
proof -
  show len: "cf_datalen c \<le> length (cf_buf c)"
    using assms page_up_ge [of "cf_blocklen c"] by (auto simp: config_wf_def)
  then show "length (cf_text c) = cf_datalen c" by (simp add: cf_text_def)
qed (use assms in \<open>auto simp: config_wf_def unlines_lines_of cf_text_def\<close>)

section \<open>Fields of a line\<close>

text \<open>The scanners depend only on the bytes of the line, and on where it starts by a shift.\<close>

lemma skipline_line:
  "nonl l \<Longrightarrow> p \<le> length l \<Longrightarrow> length a + length l < e \<Longrightarrow>
   skipline (a @ l @ 0x0A # r) (length a + p) e = length a + length l"
proof (induction "length l - p" arbitrary: p)
  case 0
  then have "p = length l" by simp
  with 0 show ?case by (subst skipline.simps) (simp add: nth_append)
next
  case (Suc n)
  then have "p < length l" "l ! p \<noteq> 0x0A" by (auto simp: nonl_def in_set_conv_nth)
  with Suc.hyps(1) [of "Suc p"] Suc.hyps(2) Suc.prems show ?case
    by (subst skipline.simps) (simp add: nth_append)
qed

lemma skipsep_shift:
  "p \<le> e \<Longrightarrow> e \<le> length l \<Longrightarrow>
   skipsep (a @ l @ r) (length a + p) (length a + e) = length a + skipsep l p e"
proof (induction "e - p" arbitrary: p)
  case 0
  then show ?case by (simp add: skipsep.simps)
next
  case (Suc n)
  have "skipsep (a @ l @ r) (length a + Suc p) (length a + e) = length a + skipsep l (Suc p) e"
    by (rule Suc.hyps(1)) (use Suc in simp_all)
  with Suc show ?case
    by (simp add: nth_append skipsep.simps [of "a @ l @ r" "length a + p"] skipsep.simps [of l p])
qed

lemma skiparg_shift:
  "e \<le> length l \<Longrightarrow>
   skiparg (a @ l @ r) (length a + p) (length a + e) = length a + skiparg l p e"
proof (induction "e - p" arbitrary: p rule: less_induct)
  case less
  have "skiparg (a @ l @ r) (length a + p + n) (length a + e) = length a + skiparg l (p + n) e"
    if "p < e" "n > 0" for n
    using less.hyps [of "p + n"] less.prems that by (simp add: add.assoc)
  from this [of 1] this [of 2] less.prems show ?case
    by (cases "p < e"; cases "isspace (l ! p)"; cases "l ! p = 0x5C")
       (simp_all add: nth_append skiparg.simps [of "a @ l @ r" "length a + p"] skiparg.simps [of l p])
qed

lemma skipsep_bounds: "p \<le> skipsep l p e \<and> (p \<le> e \<longrightarrow> skipsep l p e \<le> e)"
proof (induction l p e rule: skipsep.induct)
  case (1 l p e)
  then show ?case by (auto simp: skipsep.simps [of l p e])
qed

lemma skiparg_bounds: "p \<le> skiparg l p e \<and> (p \<le> e + 1 \<longrightarrow> skiparg l p e \<le> e + 1)"
proof (induction l p e rule: skiparg.induct)
  case (1 l p e)
  then show ?case by (auto simp: skiparg.simps [of l p e] split: if_splits)
qed

lemma skipsep_past [simp]: "e \<le> p \<Longrightarrow> skipsep l p e = p" "e \<le> p \<Longrightarrow> skiparg l p e = p"
  by (simp_all add: skipsep.simps skiparg.simps)

lemma split_chunks_shift:
  "e \<le> length l \<Longrightarrow>
   split_chunks (a @ l @ r) (length a + p) (length a + e) nc =
     map (\<lambda>(s, t). (length a + s, length a + t)) (split_chunks l p e nc)"
proof (induction nc arbitrary: p)
  case (Suc nc)
  show ?case
  proof (cases "p < e")
    case True
    let ?q = "skiparg l p e"
    have "skipsep (a @ l @ r) (length a + ?q) (length a + e) = length a + skipsep l ?q e"
      by (cases "?q \<le> e") (simp_all add: skipsep_shift Suc.prems)
    with True Suc show ?thesis by (simp add: skiparg_shift Let_def)
  qed simp
qed simp

text \<open>The fields of a line, cut the way \<open>split_line\<close> cuts them.\<close>

definition fields :: "nat \<Rightarrow> bytes \<Rightarrow> bytes list" where
  "fields n l = map (\<lambda>ck. slice (fst ck) (chunklen ck) (l @ [0x0A]))
     (split_line (l @ [0x0A]) (0, length l) n)"

lemma slice_shift: "s + n \<le> length l \<Longrightarrow> slice (length a + s) n (a @ l @ r) = slice s n l"
  by (simp add: slice_def)

lemma split_chunks_bounds:
  "ck \<in> set (split_chunks l p e nc) \<Longrightarrow> fst ck < e \<and> fst ck \<le> snd ck \<and> snd ck \<le> e + 1"
  by (induction nc arbitrary: p)
     (auto simp: Let_def skiparg_bounds [of p l e for p, THEN conjunct1]
        skiparg_bounds [of p l e for p, THEN conjunct2, simplified] split: if_splits)

lemma split_line_fields:
  assumes "nonl l"
  shows "map (\<lambda>ck. slice (fst ck) (chunklen ck) (a @ l @ 0x0A # r))
      (split_line (a @ l @ 0x0A # r) (length a, length a + length l) n) = fields n l"
proof -
  let ?l = "l @ [0x0A]"
  have sep: "skipsep (a @ ?l @ r) (length a) (length a + length l) = length a + skipsep ?l 0 (length l)"
    using skipsep_shift [of 0 "length l" ?l a r] by simp
  have "split_line (a @ ?l @ r) (length a, length a + length l) n =
      map (\<lambda>(s, t). (length a + s, length a + t)) (split_line ?l (0, length l) n)"
    using split_chunks_shift [of "length l" ?l a r "skipsep ?l 0 (length l)" n]
    using sep by (simp add: split_line_def)
  moreover have "slice (length a + fst ck) (chunklen (length a + fst ck, length a + snd ck)) (a @ ?l @ r)
      = slice (fst ck) (chunklen ck) ?l" if "ck \<in> set (split_line ?l (0, length l) n)" for ck
    using that split_chunks_bounds [of ck ?l "skipsep ?l 0 (length l)" "length l" n]
    by (simp only: split_line_def chunklen_def fst_conv snd_conv add_diff_cancel_left)
       (rule slice_shift, simp)
  ultimately show ?thesis by (simp add: fields_def case_prod_beta comp_def)
qed

lemma chunkeq_iff:
  "snd ck \<le> length buf \<Longrightarrow> chunkeq buf ck val \<longleftrightarrow> slice (fst ck) (chunklen ck) buf = val"
  using memcmp_eq_0 [of "slice (fst ck) (length val) buf" val]
  by (auto simp: chunkeq_def chunklen_def)

lemma line_matches_fields:
  assumes "nonl l"
  shows "line_matches (a @ l @ 0x0A # r) i val (length a, length a + length l) \<longleftrightarrow>
    i < length (fields (i + 1) l) \<and> fields (i + 1) l ! i = val"
proof -
  let ?buf = "a @ l @ 0x0A # r" and ?ln = "(length a, length a + length l)"
  define ck where "ck = split_line ?buf ?ln (i + 1)"
  have f: "fields (i + 1) l = map (\<lambda>ck. slice (fst ck) (chunklen ck) ?buf) ck"
    unfolding ck_def by (rule split_line_fields [OF assms, symmetric])
  have "snd k \<le> length ?buf" if "k \<in> set ck" for k
    using split_chunks_bounds [OF that [unfolded ck_def split_line_def]] by simp
  then have "i < length ck \<Longrightarrow> chunkeq ?buf (ck ! i) val \<longleftrightarrow> fields (i + 1) l ! i = val"
    using chunkeq_iff [of "ck ! i" ?buf val] unfolding f by simp
  moreover have "length (fields (i + 1) l) = length ck" unfolding f by simp
  ultimately show ?thesis
    unfolding line_matches_def Let_def ck_def [symmetric] by auto
qed

section \<open>Finding a line\<close>

definition matches :: "nat \<Rightarrow> bytes \<Rightarrow> bytes \<Rightarrow> bool" where
  "matches i val l \<longleftrightarrow> i < length (fields (i + 1) l) \<and> fields (i + 1) l ! i = val"

fun first_match :: "nat \<Rightarrow> bytes \<Rightarrow> nat \<Rightarrow> bytes list \<Rightarrow> line" where
  "first_match i val p [] = None"
| "first_match i val p (l # ls) =
     (if matches i val l then Some (p, p + length l) else first_match i val (p + length l + 1) ls)"

lemma find_line_from_lines:
  assumes "cf_buf c = a @ unlines ls @ r" and "\<forall>l \<in> set ls. nonl l"
    and "cf_datalen c = length a + length (unlines ls)"
  shows "find_line_from c i val (length a) = first_match i val (length a) ls"
  using assms
proof (induction ls arbitrary: a)
  case Nil
  then show ?case by (simp add: find_line_from.simps setline_def)
next
  case (Cons l ls)
  let ?buf = "cf_buf c"
  have buf: "?buf = a @ l @ 0x0A # (unlines ls @ r)" "nonl l" using Cons.prems by simp_all
  have set: "setline c (length a) = Some (length a, length a + length l)"
    using skipline_line [of l 0 a "cf_datalen c" "unlines ls @ r"] buf Cons.prems(3)
    by (simp add: setline_def)
  have rest: "find_line_from c i val (length (a @ l @ [0x0A])) = first_match i val (length (a @ l @ [0x0A])) ls"
    using Cons.prems by (intro Cons.IH) simp_all
  have "line_matches ?buf i val (length a, length a + length l) \<longleftrightarrow> matches i val l"
    unfolding buf(1) matches_def by (rule line_matches_fields [OF buf(2)])
  with rest show ?case
    by (subst find_line_from.simps) (simp add: set)
qed

lemma first_match_cases:
  obtains (none) "\<forall>l \<in> set ls. \<not> matches i val l" "first_match i val p ls = None"
  | (found) pre l post where "ls = pre @ l # post" "\<forall>l \<in> set pre. \<not> matches i val l" "matches i val l"
      "first_match i val p ls = Some (p + length (unlines pre), p + length (unlines pre) + length l)"
proof (induction ls arbitrary: p thesis)
  case (Cons l ls)
  show ?case
  proof (cases "matches i val l")
    case True
    then show ?thesis using Cons.prems(2) [of "[]" l ls] by simp
  next
    case False
    show ?thesis
    proof (rule Cons.IH [of "p + length l + 1"], goal_cases)
      case 1
      with False show ?thesis by (intro Cons.prems(1)) auto
    next
      case (2 pre m post)
      with False show ?thesis by (intro Cons.prems(2) [of "l # pre" m post]) (auto simp: add_ac)
    qed
  qed
qed simp

section \<open>Editing the text\<close>

lemma extend_config_ok:
  assumes "config_wf c" and "0 \<le> int (cf_datalen c) + len" and "env_mremap e \<noteq> Remap_failed"
  obtains c' rest where "extend_config e len c = (0, c')"
    "cf_datalen c' = nat (int (cf_datalen c) + len)" "cf_buf c' = cf_text c @ rest"
    "cf_map c' \<noteq> None" "cf_datalen c' \<le> cf_blocklen c'" "page_up (cf_blocklen c') \<le> length (cf_buf c')"
proof (cases "int (cf_datalen c) + len > int (cf_blocklen c)")
  case False
  show thesis
  proof (rule that [of "c\<lparr>cf_datalen := nat (int (cf_datalen c) + len)\<rparr>" "drop (cf_datalen c) (cf_buf c)"])
    show "extend_config e len c = (0, c\<lparr>cf_datalen := nat (int (cf_datalen c) + len)\<rparr>)"
      using False assms by (simp add: extend_config_def)
  qed (use False assms config_wfD [OF assms(1)] in \<open>auto simp: config_wf_def cf_buf_def\<close>)
next
  case True
  let ?n = "nat (int (cf_datalen c) + len)"
  let ?b = "mremap_buf (cf_buf c) (cf_blocklen c) (cf_blocklen c + page_up ?n)"
  let ?c = "c\<lparr>cf_map := Some ?b, cf_blocklen := ?n, cf_datalen := ?n\<rparr>"
  have old: "cf_datalen c \<le> page_up (cf_blocklen c)" "page_up (cf_blocklen c) \<le> length (cf_buf c)"
    using assms(1) page_up_ge [of "cf_blocklen c"] by (auto simp: config_wf_def)
  then have "take (cf_datalen c) ?b = cf_text c"
    by (simp add: mremap_buf_def cf_text_def)
  then have "?b = cf_text c @ drop (cf_datalen c) ?b"
    by (metis append_take_drop_id)
  moreover have "page_up (cf_blocklen c) \<le> page_up (cf_blocklen c + page_up ?n)"
    by (rule page_up_mono) simp
  then have "length ?b = page_up (cf_blocklen c + page_up ?n)"
    using old by (simp add: mremap_buf_def)
  moreover have "page_up ?n \<le> page_up (cf_blocklen c + page_up ?n)"
    using page_up_ge [of ?n] by (intro page_up_mono) simp
  moreover have "extend_config e len c = (0, ?c)"
    using True assms by (auto simp: extend_config_def remap_config_def Let_def)
  ultimately show thesis
    by (intro that [of ?c "drop (cf_datalen c) ?b"]) (simp_all add: cf_buf_def)
qed

lemma edit_buf:
  assumes "B = pre @ mid @ post @ rest" and "length pre + length new + length post \<le> length B"
  defines "B' \<equiv> memcpy_at (memmove_at B (length pre + length new) (length pre + length mid) (length post))
      (length pre) new"
  shows "take (length pre + length new + length post) B' = pre @ new @ post" "length B' = length B"
proof -
  let ?d = "length pre + length new"
  have "slice (length pre + length mid) (length post) B = post"
    by (simp add: assms(1) slice_def)
  then have M: "memmove_at B ?d (length pre + length mid) (length post)
      = take ?d B @ post @ drop (?d + length post) B"
    by (simp add: memmove_at_def memcpy_at_def)
  have "B' = pre @ new @ post @ drop (?d + length post) B"
    unfolding B'_def M using assms(2) by (simp add: memcpy_at_def assms(1) min_def)
  then show "take (?d + length post) B' = pre @ new @ post" "length B' = length B"
    using assms(2) by simp_all
qed

text \<open>A part of the text is replaced, whatever its old and new lengths, also through a remap.\<close>

lemma change_part_text:
  assumes "config_wf c" and "cf_text c = pre @ mid @ post" and "env_mremap e \<noteq> Remap_failed"
    and "pre @ new @ post = [] \<or> last (pre @ new @ post) = 0x0A"
  shows "config_wf (change_part e (length pre, length pre + length mid) new c) \<and>
    cf_text (change_part e (length pre, length pre + length mid) new c) = pre @ new @ post"
proof -
  let ?shift = "int (length new) - int (length mid)"
  have dl: "cf_datalen c = length pre + length mid + length post"
    using config_wfD(2) [OF assms(1)] assms(2) by simp
  then have "0 \<le> int (cf_datalen c) + ?shift" by simp
  from extend_config_ok [OF assms(1) this assms(3)] obtain c' rest where
    c': "extend_config e ?shift c = (0, c')" "cf_datalen c' = nat (int (cf_datalen c) + ?shift)"
      "cf_buf c' = cf_text c @ rest" "cf_map c' \<noteq> None" "cf_datalen c' \<le> cf_blocklen c'"
      "page_up (cf_blocklen c') \<le> length (cf_buf c')" by blast
  have dl': "cf_datalen c' = length pre + length new + length post" using c'(2) dl by simp
  let ?B = "cf_buf c'"
  let ?B' = "memcpy_at (memmove_at ?B (length pre + length new) (length pre + length mid) (length post)) (length pre) new"
  have B: "?B = pre @ mid @ post @ rest" using c'(3) assms(2) by simp
  have "cf_datalen c' \<le> length ?B" using c'(5,6) page_up_ge [of "cf_blocklen c'"] by simp
  then have e: "take (cf_datalen c') ?B' = pre @ new @ post" "length ?B' = length ?B"
    using edit_buf [OF B, of new] by (simp_all only: dl')
  have "nat (int (length pre + length mid) + ?shift) = length pre + length new" by simp
  then have "change_part e (length pre, length pre + length mid) new c = c'\<lparr>cf_map := Some ?B'\<rparr>"
    using c'(1) dl by (simp add: change_part_def Let_def)
  then show ?thesis
    using e c'(5,6) assms(4) by (simp add: config_wf_def cf_text_def cf_buf_def)
qed

lemma change_part_keep: "change_part e ln new c = c" if "extend_config e (int (length new) - (int (snd ln) - int (fst ln))) c = (- 1, c)"
  using that by (simp add: change_part_def)

lemma insert_line_text:
  assumes "config_wf c" and "insert_line e new c = Some c'" and "env_mremap e \<noteq> Remap_failed"
  shows "config_wf c' \<and> cf_text c' = cf_text c @ new @ [0x0A]"
proof -
  let ?t = "cf_text c"
  have "0 \<le> int (cf_datalen c) + int (length new + 1)" by simp
  from extend_config_ok [OF assms(1) this assms(3)] obtain d rest where
    d: "extend_config e (int (length new + 1)) c = (0, d)" "cf_datalen d = nat (int (cf_datalen c) + int (length new + 1))"
      "cf_buf d = ?t @ rest" "cf_map d \<noteq> None" "cf_datalen d \<le> cf_blocklen d"
      "page_up (cf_blocklen d) \<le> length (cf_buf d)" by blast
  have d2: "cf_datalen d = cf_datalen c + length new + 1" using d(2) by simp
  let ?B' = "memcpy_at (memcpy_at (cf_buf d) (cf_datalen c) new) (cf_datalen c + length new) [0x0A]"
  have t: "length ?t = cf_datalen c" by (rule config_wfD(2) [OF assms(1)])
  have "cf_datalen d \<le> length (cf_buf d)" using d(5,6) page_up_ge [of "cf_blocklen d"] by simp
  then have "length rest \<ge> length new + 1" using d(3) d2 t by simp
  then have "?B' = ?t @ new @ [0x0A] @ drop (length new + 1) rest"
    using t by (simp add: memcpy_at_def d(3))
  moreover have "length ?B' = length (cf_buf d)"
    using \<open>cf_datalen d \<le> length (cf_buf d)\<close> d2 by (simp add: length_memcpy_at)
  moreover have "c' = d\<lparr>cf_map := Some ?B'\<rparr>"
    using assms(2) d(1) by (simp add: insert_line_def Let_def split: if_splits)
  ultimately show ?thesis
    using d(5,6) d2 t by (simp add: config_wf_def cf_text_def cf_buf_def)
qed

lemma drop_line_text:
  assumes "config_wf c" and "cf_text c = pre @ mid @ 0x0A # post"
  obtains c' where "drop_line e (Some (length pre, length pre + length mid)) c = Some c'"
    "cf_text c' = pre @ post" "cf_datalen c' = length (pre @ post)"
    "cf_blocklen c' = cf_blocklen c" "length (cf_buf c') = length (cf_buf c)" "cf_map c' \<noteq> None"
proof -
  let ?shift = "- (int (length mid) + 1)"
  let ?d = "c\<lparr>cf_datalen := length pre + length post\<rparr>"
  have dl: "cf_datalen c = length pre + length mid + 1 + length post"
    using config_wfD(2) [OF assms(1)] assms(2) by simp
  have bl: "\<not> int (cf_datalen c) + ?shift > int (cf_blocklen c)"
    using assms(1) dl by (simp add: config_wf_def)
  have x: "extend_config e ?shift c = (0, ?d)"
    using bl dl by (simp add: extend_config_def Let_def nat_add_distrib)
  let ?B' = "memmove_at (cf_buf c) (length pre) (length pre + length mid + 1) (length post)"
  have B: "cf_buf c = pre @ (mid @ [0x0A]) @ post @ drop (cf_datalen c) (cf_buf c)"
    using config_wfD(5) [OF assms(1)] assms(2) by simp
  have len: "length pre + length ([] :: bytes) + length post \<le> length (cf_buf c)"
    using config_wfD(1) [OF assms(1)] dl by simp
  have "take (length pre + length post) ?B' = pre @ post \<and> length ?B' = length (cf_buf c)"
    using edit_buf [OF B len] len by (simp add: memcpy_at_def)
  then show thesis
    using x dl by (intro that [of "?d\<lparr>cf_map := Some ?B', cf_modified := True\<rparr>"])
      (simp_all add: drop_line_def cf_text_def cf_buf_def)
qed

end
