(* ===== verification/Config_Psk.thy ===== *)
theory Config_Psk imports Config_Lines begin

text \<open>
  Pre-shared keys in the configuration file: the escaped form of an SSID and the hexadecimal form of
  a key can be read back, and loading, saving and dropping a key refine lookup, update and deletion
  in a map from escaped SSIDs to keys.
\<close>

section \<open>Escaped SSIDs\<close>

definition esc :: "bytes \<Rightarrow> bytes" where
  "esc s = concat (map fmt_byte s)"

lemma esc_simps [simp]: "esc [] = []" "esc (b # s) = fmt_byte b @ esc s"
  by (simp_all add: esc_def)

lemma fmt_byte_nonempty [simp]: "fmt_byte b \<noteq> []" "0 < length (fmt_byte b)"
  by (simp_all add: fmt_byte_def)

lemma esc_plain: "\<forall>b \<in> set s. fmt_byte b = [b] \<Longrightarrow> esc s = s"
  by (induction s) simp_all

lemma esc_eq_Nil [simp]: "esc s = [] \<longleftrightarrow> s = []"
  by (cases s) simp_all

text \<open>When the buffer is large enough nothing is cut.\<close>

lemma fmt_ssid_loop_fits: "p + length (esc s) + 4 < e \<Longrightarrow> fmt_ssid_loop p e s = esc s"
proof (induction s arbitrary: p)
  case (Cons b s)
  have "1 \<le> length (fmt_byte b)" using fmt_byte_nonempty(2) [of b] by linarith
  with Cons show ?case by simp
qed simp

lemma unat_low: "unat (b AND 0xF) = unat b mod 16" for b :: byte
proof -
  have "b AND 0xF = take_bit 4 b" by (simp add: take_bit_eq_mask mask_numeral and.commute)
  then show ?thesis by (simp add: take_bit_eq_mod unat_mod)
qed

lemma unat_high: "unat (drop_bit 4 b) = unat b div 16" for b :: byte
  by (simp add: drop_bit_eq_div unat_div)

lemma unat_high_less: "unat b div 16 < 16" for b :: byte
  using unsigned_less [of b, where ?'a = nat] by (simp add: less_mult_imp_div_less)

lemma digits_inj: "i < 16 \<Longrightarrow> j < 16 \<Longrightarrow> digits ! i = digits ! j \<longleftrightarrow> i = j"
  using nth_eq_iff_index_eq [of digits i j] by (simp add: digits_def)

lemma digit_range: "i < 16 \<Longrightarrow> 0x30 \<le> digits ! i \<and> digits ! i \<le> 0x46"
proof -
  have "\<forall>d \<in> set digits. 0x30 \<le> d \<and> d \<le> 0x46" by (simp add: digits_def)
  moreover have "length digits = 16" by (simp add: digits_def)
  ultimately show "i < 16 \<Longrightarrow> ?thesis" by (metis nth_mem)
qed

lemma fmt_byte_prefix: "fmt_byte b @ r = fmt_byte c @ q \<Longrightarrow> b = c \<and> r = q"
proof -
  assume eq: "fmt_byte b @ r = fmt_byte c @ q"
  have "b = c" if "unat b div 16 = unat c div 16" "unat b mod 16 = unat c mod 16"
    using that by (metis div_mult_mod_eq unsigned_word_eqI)
  then show ?thesis
    using eq
    by (auto simp: fmt_byte_def unat_high unat_low digits_inj unat_high_less split: if_splits)
qed

lemma esc_inj: "esc s = esc t \<longleftrightarrow> s = t"
proof (induction s arbitrary: t)
  case Nil
  then show ?case by (cases t) auto
next
  case (Cons b s)
  then show ?case by (cases t) (auto dest: fmt_byte_prefix)
qed

text \<open>A text that \<open>skiparg\<close> passes over: escaped pairs and characters that are not separators.\<close>

fun argtext :: "bytes \<Rightarrow> bool" where
  "argtext [] = True"
| "argtext (b # bs) =
     (if b = 0x5C then (case bs of [] \<Rightarrow> False | c # cs \<Rightarrow> c \<noteq> 0x0A \<and> argtext cs)
      else \<not> isspace b \<and> argtext bs)"

lemma argtext_append: "argtext s \<Longrightarrow> argtext t \<Longrightarrow> argtext (s @ t)"
  by (induction s rule: argtext.induct) (auto split: list.splits if_splits)

lemma argtext_nonl: "argtext s \<Longrightarrow> nonl s"
  by (induction s rule: argtext.induct) (auto simp: nonl_def isspace_def split: list.splits if_splits)

lemma argtext_head: "argtext s \<Longrightarrow> s \<noteq> [] \<Longrightarrow> \<not> isspace (s ! 0)"
  by (cases s) (auto simp: isspace_def split: if_splits)

lemma argtext_plain: "\<forall>b \<in> set s. b \<noteq> 0x5C \<and> \<not> isspace b \<Longrightarrow> argtext s"
  by (induction s) auto

lemma digit_plain: "i < 16 \<Longrightarrow> digits ! i \<noteq> 0x5C \<and> \<not> isspace (digits ! i)"
  using digit_range [of i] by (auto simp: isspace_def word_le_nat_alt)

lemma argtext_fmt_byte: "argtext (fmt_byte b)"
  using digit_plain [of "unat b div 16"] digit_plain [of "unat b mod 16"]
  by (auto simp: fmt_byte_def unat_high unat_low unat_high_less isspace_def word_le_nat_alt)

lemma argtext_esc: "argtext (esc s)"
  by (induction s) (simp_all add: argtext_append argtext_fmt_byte)

lemma skiparg_argtext:
  "argtext s \<Longrightarrow> length a + length s \<le> e \<Longrightarrow>
   skiparg (a @ s @ r) (length a) e = skiparg (a @ s @ r) (length a + length s) e"
proof (induction s arbitrary: a rule: argtext.induct)
  case (2 b bs)
  show ?case
  proof (cases "b = 0x5C")
    case True
    then obtain c cs where bs: "bs = c # cs" "argtext cs" using 2(3) by (cases bs) auto
    have "skiparg ((a @ [b, c]) @ cs @ r) (length (a @ [b, c])) e
        = skiparg ((a @ [b, c]) @ cs @ r) (length (a @ [b, c]) + length cs) e"
      using 2(1) [of c cs "a @ [b, c]"] True bs 2(4) by simp
    with True bs 2(4) show ?thesis
      by (simp add: skiparg.simps [of "a @ 0x5C # c # cs @ r" "length a"] nth_append isspace_def)
  next
    case False
    have "skiparg ((a @ [b]) @ bs @ r) (length (a @ [b])) e
        = skiparg ((a @ [b]) @ bs @ r) (length (a @ [b]) + length bs) e"
      using 2(2) [of "a @ [b]"] False 2(3,4) by simp
    with False 2(3,4) show ?thesis
      by (simp add: skiparg.simps [of "a @ b # bs @ r" "length a"] nth_append)
  qed
qed simp

text \<open>A line of two fields is split into them.\<close>

lemma fields_two:
  assumes "argtext h" "h \<noteq> []" "argtext k" "k \<noteq> []"
  shows "fields 2 (h @ 0x20 # k) = [h, k]"
proof -
  let ?e = "length h + 1 + length k" and ?buf = "h @ 0x20 # k @ [0x0A]"
  have [simp]: "isspace 0x20" by (simp add: isspace_def)
  have s0: "skipsep ?buf 0 ?e = 0"
    using argtext_head [OF assms(1,2)] assms(2) by (simp add: skipsep.simps nth_append)
  have a0: "skiparg ?buf 0 ?e = length h"
    using skiparg_argtext [OF assms(1), of "[]" ?e "0x20 # k @ [0x0A]"]
    by (simp add: skiparg.simps [of ?buf "length h"] nth_append)
  have s1: "skipsep ?buf (length h) ?e = length h + 1"
    using argtext_head [OF assms(3,4)] assms(4)
    by (simp add: skipsep.simps [of ?buf "length h"] skipsep.simps [of ?buf "Suc (length h)"] nth_append)
  have a1: "skiparg ?buf (length h + 1) ?e = ?e"
    using skiparg_argtext [OF assms(3), of "h @ [0x20]" ?e "[0x0A]"] by simp
  have "split_line ?buf (0, ?e) 2 = [(0, length h), (length h + 1, ?e)]"
    using s0 a0 s1 a1 assms(4) by (simp add: split_line_def Let_def numeral_2_eq_2)
  then show ?thesis
    by (simp add: fields_def chunklen_def slice_def add.commute)
qed

section \<open>Keys in hexadecimal\<close>

definition hex :: "bytes \<Rightarrow> bytes" where
  "hex ds = concat (map (\<lambda>d. [digits ! (unat d div 16), digits ! (unat d mod 16)]) ds)"

lemma hex_simps [simp]:
  "hex [] = []" "hex (d # ds) = digits ! (unat d div 16) # digits ! (unat d mod 16) # hex ds"
  by (simp_all add: hex_def)

lemma length_hex [simp]: "length (hex ds) = 2 * length ds"
  by (induction ds) simp_all

lemma fmt_bytes_fits: "p + 2 * length ds \<le> e \<Longrightarrow> fmt_bytes p e ds = hex ds"
proof (induction ds arbitrary: p)
  case (Cons d ds)
  have "unat (drop_bit 4 d AND 0xF) = unat d div 16"
    using unat_high_less [of d] by (simp add: unat_low unat_high)
  with Cons show ?case by (simp add: Let_def unat_low)
qed simp

lemma argtext_hex: "argtext (hex ds)"
proof (rule argtext_plain)
  have "unat d div 16 < 16" "unat d mod 16 < 16" for d :: byte by (simp_all add: unat_high_less)
  then show "\<forall>b \<in> set (hex ds). b \<noteq> 0x5C \<and> \<not> isspace b"
    using digit_plain by (auto simp: hex_def)
qed

lemma strchr_digit: "i < 16 \<Longrightarrow> strchr_digits (digits ! i) = Some i"
proof -
  have "index_of (xs ! i) (xs @ ys) = Some i" if "i < length xs" "distinct xs" for xs ys :: bytes
    using that by (induction xs arbitrary: i) (auto simp: nth_Cons split: nat.splits)
  from this [of digits "[0]"] show "i < 16 \<Longrightarrow> ?thesis"
    by (simp add: strchr_digits_def digits_def)
qed

lemma parse_loop_hex:
  "i + length ds \<le> length dst \<Longrightarrow>
   parse_loop (hex ds @ r) i (length ds) dst = (0, memcpy_at dst i ds)"
proof (induction ds arbitrary: i dst)
  case Nil
  then show ?case by (simp add: memcpy_at_def)
next
  case (Cons d ds)
  have "word_of_nat (unat d div 16 * 16 + unat d mod 16) = d" by simp
  with Cons show ?case
    by (simp add: strchr_digit unat_high_less memcpy_at_def take_Suc_conv_app_nth drop_update_cancel
        upd_conv_take_nth_drop add.commute)
qed

lemma parse_bytes_hex:
  "length ds = n \<Longrightarrow> length dst = n \<Longrightarrow> parse_bytes (hex ds) dst n = (0, ds)"
  using parse_loop_hex [of 0 ds dst "[]"] by (simp add: parse_bytes_def memcpy_at_def)

section \<open>The file as a map\<close>

text \<open>The entry of a line: its second field (the escaped SSID) and its first (the key).\<close>

definition entry :: "bytes \<Rightarrow> (bytes \<times> bytes) option" where
  "entry l = (case fields 2 l of [h, k] \<Rightarrow> Some (k, h) | _ \<Rightarrow> None)"

definition entries :: "bytes list \<Rightarrow> (bytes \<times> bytes) list" where
  "entries ls = List.map_filter entry ls"

definition psk_map :: "config \<Rightarrow> bytes \<Rightarrow> bytes option" where
  "psk_map c = map_of (entries (lines_of (cf_text c)))"

text \<open>The file is loaded and well-formed and no SSID has two lines.\<close>

definition psks_ok :: "config \<Rightarrow> bool" where
  "psks_ok c \<longleftrightarrow> config_wf c \<and> distinct (map fst (entries (lines_of (cf_text c))))"

lemma entries_simps [simp]:
  "entries [] = []"
  "entries (l # ls) = (case entry l of None \<Rightarrow> entries ls | Some x \<Rightarrow> x # entries ls)"
  "entries (ls @ ms) = entries ls @ entries ms"
  by (induction ls) (simp_all add: entries_def List.map_filter_def split: option.splits)

lemma length_split_chunks: "length (split_chunks b p e n) \<le> n"
  by (induction n arbitrary: p) (simp_all add: Let_def)

lemma length_fields: "length (fields n l) \<le> n"
  by (simp add: fields_def split_line_def length_split_chunks)

lemma entry_cases:
  obtains (entry) h k where "fields 2 l = [h, k]" "entry l = Some (k, h)"
  | (none) "length (fields 2 l) < 2" "entry l = None"
proof (cases "fields 2 l")
  case (Cons h t)
  with that length_fields [of 2 l] show thesis
    by (cases t) (auto simp: entry_def)
qed (use that in \<open>simp add: entry_def\<close>)

lemma matches_entry: "matches (Suc 0) val l \<longleftrightarrow> (\<exists>h. entry l = Some (val, h))"
  by (cases l rule: entry_cases) (auto simp: matches_def numeral_2_eq_2)

lemma no_match_entries: "(\<forall>l \<in> set ls. \<not> matches (Suc 0) k l) \<longleftrightarrow> k \<notin> fst ` set (entries ls)"
proof (induction ls)
  case (Cons l ls)
  then show ?case by (cases l rule: entry_cases) (auto simp: matches_entry)
qed simp

lemma find_line_lines:
  assumes "config_wf c"
  shows "find_line c i val =
    (case first_match i val 0 (lines_of (cf_text c)) of None \<Rightarrow> (- 1, None) | Some ln \<Rightarrow> (0, Some ln))"
proof -
  note wf = config_wfD [OF assms]
  have "cf_buf c = [] @ unlines (lines_of (cf_text c)) @ drop (cf_datalen c) (cf_buf c)"
    using wf(3,5) by simp
  moreover have "cf_datalen c = length ([] :: bytes) + length (unlines (lines_of (cf_text c)))"
    using wf(2,3) by simp
  ultimately show ?thesis
    using find_line_from_lines [of c "[]" "lines_of (cf_text c)" _ i val] nonl_lines_of
    by (simp add: find_line_def)
qed

text \<open>\<open>find_ssid\<close> finds the line of the entry that the map has for the escaped SSID.\<close>

lemma find_ssid_cases:
  assumes "config_wf c" and "k = fmt_ssid 0 100 ssid slen"
  obtains (none) "find_ssid c ssid slen = (- 1, None)" "k \<notin> fst ` set (entries (lines_of (cf_text c)))"
  | (found) pre l post h where "lines_of (cf_text c) = pre @ l # post" "k \<notin> fst ` set (entries pre)"
      "entry l = Some (k, h)"
      "find_ssid c ssid slen = (0, Some (length (unlines pre), length (unlines pre) + length l))"
proof -
  have f: "find_ssid c ssid slen =
      (case first_match 1 k 0 (lines_of (cf_text c)) of None \<Rightarrow> (- 1, None) | Some ln \<Rightarrow> (0, Some ln))"
    using find_line_lines [OF assms(1)] assms(2) by (simp add: find_ssid_def)
  show thesis
  proof (rule first_match_cases [where ls = "lines_of (cf_text c)" and i = "Suc 0" and val = k and p = 0], goal_cases)
    case 1
    then show ?thesis using that(1) f by (simp add: no_match_entries [symmetric])
  next
    case (2 pre l post)
    then obtain h where "entry l = Some (k, h)" by (auto simp: matches_entry)
    with 2 show ?thesis using that(2) [of pre l post h] f by (simp add: no_match_entries [symmetric])
  qed
qed

lemma wf_loaded: "config_wf c \<Longrightarrow> load_config e c = Some (0, c)"
  by (auto simp: config_wf_def load_config_def)

text \<open>Loading a key is a lookup.\<close>

lemma load_psk_lookup:
  assumes "config_wf c"
  shows "load_psk e ssid slen dst c =
    (case psk_map c (fmt_ssid 0 100 ssid slen) of
       None \<Rightarrow> Some (- ENOKEY, dst, c)
     | Some h \<Rightarrow> (let (r, psk) = parse_bytes h dst 32 in Some (r, psk, c)))"
  using assms refl
proof (cases rule: find_ssid_cases [where ssid = ssid and slen = slen])
  case none
  then have "psk_map c (fmt_ssid 0 100 ssid slen) = None"
    by (simp add: psk_map_def map_of_eq_None_iff)
  with none show ?thesis by (simp add: load_psk_def wf_loaded [OF assms])
next
  case (found pre l post h)
  let ?ln = "(length (unlines pre), length (unlines pre) + length l)"
  note wf = config_wfD [OF assms]
  have buf: "cf_buf c = unlines pre @ l @ 0x0A # (unlines post @ drop (cf_datalen c) (cf_buf c))"
    using wf(3,5) found(1) by (metis append.assoc append_Cons unlines_simps(2,3))
  have "nonl l" using nonl_lines_of [of l "cf_text c"] found(1) by simp
  then have "map (\<lambda>ck. slice (fst ck) (chunklen ck) (cf_buf c)) (split_line (cf_buf c) ?ln 2) = fields 2 l"
    by (subst (1 2) buf) (rule split_line_fields)
  moreover have "fields 2 l = [h, fmt_ssid 0 100 ssid slen]"
    using found(3) by (cases l rule: entry_cases) auto
  ultimately obtain c0 c1 where ck: "split_line (cf_buf c) ?ln 2 = [c0, c1]"
    "slice (fst c0) (chunklen c0) (cf_buf c) = h" by auto
  have "psk_map c (fmt_ssid 0 100 ssid slen) = Some h"
    using found by (auto simp: psk_map_def map_add_def map_of_eq_None_iff [symmetric] split: option.splits)
  with ck found show ?thesis by (simp add: load_psk_def wf_loaded [OF assms])
qed

text \<open>An SSID whose line fits in the buffer of \<open>save_psk\<close>.\<close>

definition storable :: "bytes \<Rightarrow> bool" where
  "storable ssid \<longleftrightarrow> ssid \<noteq> [] \<and> length (esc ssid) \<le> 29"

lemma storable_key: "storable s \<Longrightarrow> fmt_ssid 0 100 s (int (length s)) = esc s"
  by (simp add: fmt_ssid_def fmt_ssid_loop_fits storable_def)

lemma storable_line:
  "storable s \<Longrightarrow> length psk = 32 \<Longrightarrow> psk_line s (int (length s)) psk = hex psk @ 0x20 # esc s"
  by (simp add: psk_line_def fmt_bytes_fits fmt_ssid_def fmt_ssid_loop_fits storable_def Let_def)

lemma entry_psk_line: "s \<noteq> [] \<Longrightarrow> ds \<noteq> [] \<Longrightarrow> entry (hex ds @ 0x20 # esc s) = Some (esc s, hex ds)"
  using fields_two [OF argtext_hex _ argtext_esc, of ds s]
  by (cases ds) (simp_all add: entry_def)

lemma nonl_psk_line: "nonl (hex ds @ 0x20 # esc s)"
  using argtext_nonl [OF argtext_hex, of ds] argtext_nonl [OF argtext_esc, of s]
  by (simp add: nonl_def)

lemma last_unlines: "unlines ls = [] \<or> last (unlines ls) = 0x0A"
  by (induction ls) auto

lemma cf_text_modified [simp]:
  "cf_text (c\<lparr>cf_modified := b\<rparr>) = cf_text c" "config_wf (c\<lparr>cf_modified := b\<rparr>) = config_wf c"
  by (simp_all add: cf_text_def cf_buf_def config_wf_def)

lemma psk_map_replace:
  assumes "lines_of (cf_text c) = pre @ l # post" "k \<notin> fst ` set (entries pre)" "entry l = Some (k, h)"
    and "cf_text c' = unlines (pre @ l' # post)" and "entry l' = Some (k, h')" and "nonl l'"
    and "config_wf c'" and "psks_ok c"
  shows "psks_ok c' \<and> psk_map c' = (psk_map c)(k \<mapsto> h')"
proof -
  have "\<forall>m \<in> set (pre @ l' # post). nonl m"
    using assms(1,6) nonl_lines_of [of _ "cf_text c"] by auto
  then have l': "lines_of (cf_text c') = pre @ l' # post"
    using lines_of_unlines assms(4) by metis
  have "psk_map c' x = ((psk_map c)(k \<mapsto> h')) x" for x
    using assms(1,2,3,5) l'
    by (auto simp: psk_map_def map_add_def map_of_eq_None_iff [symmetric] split: option.splits)
  then show ?thesis
    using assms(1,3,5,7,8) l' by (auto simp: psks_ok_def)
qed

lemma psk_map_append:
  assumes "cf_text c' = cf_text c @ l' @ [0x0A]" "k \<notin> fst ` set (entries (lines_of (cf_text c)))"
    and "entry l' = Some (k, h')" and "nonl l'" and "config_wf c'" and "psks_ok c"
  shows "psks_ok c' \<and> psk_map c' = (psk_map c)(k \<mapsto> h')"
proof -
  let ?ls = "lines_of (cf_text c)"
  have wf: "config_wf c" using assms(6) by (simp add: psks_ok_def)
  have "cf_text c' = unlines (?ls @ [l'])"
    using assms(1) config_wfD(3) [OF wf] by simp
  moreover have "\<forall>m \<in> set (?ls @ [l']). nonl m"
    using assms(4) nonl_lines_of [of _ "cf_text c"] by auto
  ultimately have l': "lines_of (cf_text c') = ?ls @ [l']"
    using lines_of_unlines by metis
  have "psk_map c' x = ((psk_map c)(k \<mapsto> h')) x" for x
    using assms(2,3) l'
    by (auto simp: psk_map_def map_add_def map_of_eq_None_iff [symmetric] split: option.splits)
  then show ?thesis
    using assms(2,3,5,6) l' by (auto simp: psks_ok_def)
qed

text \<open>Saving a key is an update.\<close>

lemma save_psk_update:
  assumes "psks_ok c" and "storable s" and "length psk = 32" and "env_mremap e \<noteq> Remap_failed"
    and "save_psk e s (int (length s)) psk c = Some c'"
  shows "psks_ok c' \<and> psk_map c' = (psk_map c)(esc s \<mapsto> hex psk)"
proof -
  let ?new = "hex psk @ 0x20 # esc s"
  have wf: "config_wf c" using assms(1) by (simp add: psks_ok_def)
  have line: "psk_line s (int (length s)) psk = ?new" "entry ?new = Some (esc s, hex psk)" "nonl ?new"
    using storable_line [OF assms(2,3)] entry_psk_line [of s psk] nonl_psk_line [of psk s] assms(2,3)
    by (fastforce simp: storable_def)+
  show ?thesis
    using wf storable_key [OF assms(2), symmetric]
  proof (cases rule: find_ssid_cases)
    case none
    then obtain d where d: "insert_line e ?new c = Some d" "c' = d\<lparr>cf_modified := True\<rparr>"
      using assms(5) line(1) by (auto simp: save_psk_def wf_loaded [OF wf] save_line_def)
    from insert_line_text [OF wf d(1) assms(4)] show ?thesis
      by (intro psk_map_append [OF _ none(2) line(2,3) _ assms(1)]) (simp_all add: d(2))
  next
    case (found pre l post h)
    let ?d = "change_part e (length (unlines pre), length (unlines pre) + length l) ?new c"
    have "cf_text c = unlines pre @ l @ 0x0A # unlines post"
      using config_wfD(3) [OF wf] found(1) by (metis unlines_simps(2,3))
    moreover have "unlines pre @ ?new @ 0x0A # unlines post = unlines (pre @ ?new # post)" by simp
    ultimately have d: "config_wf ?d \<and> cf_text ?d = unlines (pre @ ?new # post)"
      using change_part_text [OF wf _ assms(4), of "unlines pre" l "0x0A # unlines post" ?new]
        last_unlines by metis
    have "c' = ?d\<lparr>cf_modified := True\<rparr>"
      using assms(5) found(4) line(1) by (simp add: save_psk_def wf_loaded [OF wf] save_line_def)
    with d show ?thesis
      by (intro psk_map_replace [OF found(1-3) _ line(2,3) _ assms(1)]) simp_all
  qed
qed

text \<open>Dropping a line needs nothing but a well-formed file.\<close>

lemma drop_line_wf:
  assumes "config_wf c" and "lines_of (cf_text c) = pre @ l # post"
  obtains d where "drop_line e (Some (length (unlines pre), length (unlines pre) + length l)) c = Some d"
    "config_wf d" "lines_of (cf_text d) = pre @ post"
proof -
  have tx: "cf_text c = unlines pre @ l @ 0x0A # unlines post"
    using config_wfD(3) [OF assms(1)] assms(2) by (metis unlines_simps(2,3))
  obtain d where d: "drop_line e (Some (length (unlines pre), length (unlines pre) + length l)) c = Some d"
    "cf_text d = unlines pre @ unlines post" "cf_datalen d = length (unlines pre @ unlines post)"
    "cf_blocklen d = cf_blocklen c" "length (cf_buf d) = length (cf_buf c)" "cf_map d \<noteq> None"
    using drop_line_text [OF assms(1) tx] by blast
  have t: "cf_text d = unlines (pre @ post)" using d(2) by simp
  have "cf_datalen d \<le> cf_datalen c" using config_wfD(2) [OF assms(1)] tx d(3) by simp
  then have "config_wf d"
    using d(4,5,6) assms(1) last_unlines [of "pre @ post"] t by (simp add: config_wf_def)
  moreover have "\<forall>m \<in> set (pre @ post). nonl m"
    using assms(2) nonl_lines_of [of _ "cf_text c"] by auto
  then have "lines_of (cf_text d) = pre @ post" using lines_of_unlines t by metis
  ultimately show thesis using d(1) that by blast
qed

text \<open>Dropping a key is a deletion, when the file has one line per SSID.\<close>

lemma drop_psk_delete:
  assumes "psks_ok c" and "k = fmt_ssid 0 100 ssid slen"
  obtains c' where "psks_ok c'" "psk_map c' = (psk_map c)(k := None)"
    "drop_psk e ssid slen c = Some (if psk_map c k = None then - 1 else 0, c')"
proof -
  have wf: "config_wf c" using assms(1) by (simp add: psks_ok_def)
  show thesis
    using wf assms(2)
  proof (cases rule: find_ssid_cases)
    case none
    then have "psk_map c k = None" by (simp add: psk_map_def map_of_eq_None_iff)
    moreover from this have "psk_map c = (psk_map c)(k := None)" by auto
    ultimately show thesis
      using none(1) assms(1) by (intro that [of c]) (simp_all add: drop_psk_def wf_loaded [OF wf])
  next
    case (found pre l post h)
    obtain d where d: "drop_line e (Some (length (unlines pre), length (unlines pre) + length l)) c = Some d"
      "config_wf d" "lines_of (cf_text d) = pre @ post"
      using drop_line_wf [OF wf found(1)] by metis
    have dist: "distinct (map fst (entries pre @ (k, h) # entries post))"
      using assms(1) found(1,3) by (simp add: psks_ok_def)
    then have none: "map_of (entries post) k = None" "map_of (entries pre) k = None"
      by (auto simp: map_of_eq_None_iff)
    have "psk_map d x = ((psk_map c)(k := None)) x" for x
      using none found(1,3) d(3) by (auto simp: psk_map_def map_add_def split: option.splits)
    moreover have "psk_map c k \<noteq> None"
      using none found(1,3) by (simp add: psk_map_def map_add_def)
    moreover have "psks_ok d" using d(2,3) dist by (auto simp: psks_ok_def)
    ultimately show thesis
      using d(1) found(4) by (intro that [of d]) (auto simp: drop_psk_def wf_loaded [OF wf])
  qed
qed

section \<open>The interface of a key store\<close>

text \<open>
  What the users of the file rely on. \<open>'e\<close> is what the kernel does during a call, \<open>fine\<close> says it
  does not fail, \<open>moves\<close> that it may stop a save; \<open>fit\<close> and \<open>wide\<close> say which names and keys can be
  stored.
\<close>

datatype ('e, 'k, 'v) key_op = Save_key 'e 'k 'v | Drop_key 'e 'k

fun key_effect :: "('e, 'k, 'v) key_op \<Rightarrow> ('k \<Rightarrow> 'v option) \<Rightarrow> 'k \<Rightarrow> 'v option" where
  "key_effect (Save_key e k v) m = m(k \<mapsto> v)"
| "key_effect (Drop_key e k) m = m(k := None)"

fun run_keys ::
  "('e \<Rightarrow> 'k \<Rightarrow> 'v \<Rightarrow> 'c \<Rightarrow> 'c option) \<Rightarrow> ('e \<Rightarrow> 'k \<Rightarrow> 'c \<Rightarrow> 'c option) \<Rightarrow>
   ('e, 'k, 'v) key_op list \<Rightarrow> 'c \<Rightarrow> 'c option" where
  "run_keys store remove [] c = Some c"
| "run_keys store remove (Save_key e k v # ops) c =
     (case store e k v c of None \<Rightarrow> None | Some c \<Rightarrow> run_keys store remove ops c)"
| "run_keys store remove (Drop_key e k # ops) c =
     (case remove e k c of None \<Rightarrow> None | Some c \<Rightarrow> run_keys store remove ops c)"

fun op_fits :: "('e \<Rightarrow> bool) \<Rightarrow> ('k \<Rightarrow> bool) \<Rightarrow> ('v \<Rightarrow> bool) \<Rightarrow> ('e, 'k, 'v) key_op \<Rightarrow> bool" where
  "op_fits fine fit wide (Save_key e k v) \<longleftrightarrow> fine e \<and> fit k \<and> wide v"
| "op_fits fine fit wide (Drop_key e k) \<longleftrightarrow> fit k"

locale key_store =
  fixes inv :: "'c \<Rightarrow> bool" and fine :: "'e \<Rightarrow> bool" and moves :: "'e \<Rightarrow> bool" and fit :: "'k \<Rightarrow> bool" and wide :: "'v \<Rightarrow> bool"
    and lookup :: "'c \<Rightarrow> 'k \<Rightarrow> 'v option"
    and store :: "'e \<Rightarrow> 'k \<Rightarrow> 'v \<Rightarrow> 'c \<Rightarrow> 'c option" and remove :: "'e \<Rightarrow> 'k \<Rightarrow> 'c \<Rightarrow> 'c option"
  assumes store_law: "inv c \<Longrightarrow> fine e \<Longrightarrow> fit k \<Longrightarrow> wide v \<Longrightarrow> store e k v c = Some c' \<Longrightarrow>
      inv c' \<and> (\<forall>k'. fit k' \<longrightarrow> lookup c' k' = (if k' = k then Some v else lookup c k'))"
    and remove_law: "inv c \<Longrightarrow> fit k \<Longrightarrow> remove e k c = Some c' \<Longrightarrow>
      inv c' \<and> (\<forall>k'. fit k' \<longrightarrow> lookup c' k' = (if k' = k then None else lookup c k'))"
    and store_stops: "inv c \<Longrightarrow> fine e \<Longrightarrow> fit k \<Longrightarrow> wide v \<Longrightarrow> store e k v c = None \<Longrightarrow> moves e"
    and remove_total: "inv c \<Longrightarrow> fit k \<Longrightarrow> remove e k c \<noteq> None"
begin

text \<open>A history of saves and drops leaves what the same history leaves in a map.\<close>

lemma run_refines:
  assumes "run_keys store remove ops c = Some c'" and "\<forall>op \<in> set ops. op_fits fine fit wide op"
    and "inv c" and "\<forall>k. fit k \<longrightarrow> lookup c k = m k"
  shows "inv c' \<and> (\<forall>k. fit k \<longrightarrow> lookup c' k = fold key_effect ops m k)"
  using assms
proof (induction ops arbitrary: c m)
  case (Cons op ops)
  show ?case
  proof (cases op)
    case (Save_key e k v)
    then obtain d where d: "store e k v c = Some d" "run_keys store remove ops d = Some c'"
      using Cons.prems(1) by (auto split: option.splits)
    then have "inv d \<and> (\<forall>k'. fit k' \<longrightarrow> lookup d k' = (if k' = k then Some v else lookup c k'))"
      using store_law [OF Cons.prems(3) _ _ _ d(1)] Cons.prems(2) Save_key by simp
    then have "inv c' \<and> (\<forall>k'. fit k' \<longrightarrow> lookup c' k' = fold key_effect ops (m(k \<mapsto> v)) k')"
      using Cons.prems by (intro Cons.IH [OF d(2)]) auto
    with Save_key show ?thesis by simp
  next
    case (Drop_key e k)
    then obtain d where d: "remove e k c = Some d" "run_keys store remove ops d = Some c'"
      using Cons.prems(1) by (auto split: option.splits)
    then have "inv d \<and> (\<forall>k'. fit k' \<longrightarrow> lookup d k' = (if k' = k then None else lookup c k'))"
      using remove_law [OF Cons.prems(3) _ d(1)] Cons.prems(2) Drop_key by simp
    then have "inv c' \<and> (\<forall>k'. fit k' \<longrightarrow> lookup c' k' = fold key_effect ops (m(k := None)) k')"
      using Cons.prems by (intro Cons.IH [OF d(2)]) auto
    with Drop_key show ?thesis by simp
  qed
qed simp

lemma run_stops:
  assumes "run_keys store remove ops c = None" and "\<forall>op \<in> set ops. op_fits fine fit wide op" and "inv c"
  shows "\<exists>e k v. Save_key e k v \<in> set ops \<and> moves e"
  using assms
proof (induction ops arbitrary: c)
  case (Cons op ops)
  show ?case
  proof (cases op)
    case (Save_key e k v)
    show ?thesis
    proof (cases "store e k v c")
      case None
      then have "moves e" using store_stops [of c e k v] Cons.prems(2,3) Save_key by simp
      with Save_key show ?thesis by auto
    next
      case (Some d)
      then have "inv d" using store_law [of c e k v d] Cons.prems(2,3) Save_key by simp
      then show ?thesis using Cons.IH [of d] Cons.prems(1,2) Save_key Some by auto
    qed
  next
    case (Drop_key e k)
    then obtain d where "remove e k c = Some d" using remove_total [of c k e] Cons.prems(2,3) by auto
    moreover from this have "inv d" using remove_law [of c k e d] Cons.prems(2,3) Drop_key by simp
    ultimately show ?thesis using Cons.IH [of d] Cons.prems(1,2) Drop_key by auto
  qed
qed simp

end

section \<open>The configuration file is a key store\<close>

lemma parse_loop_dst:
  "length dst = length dst' \<Longrightarrow> i + n \<le> length dst \<Longrightarrow> take i dst = take i dst' \<Longrightarrow>
   drop (i + n) dst = drop (i + n) dst' \<Longrightarrow>
   fst (parse_loop p i n dst) = fst (parse_loop p i n dst') \<and>
   (fst (parse_loop p i n dst) = 0 \<longrightarrow> snd (parse_loop p i n dst) = snd (parse_loop p i n dst'))"
proof (induction n arbitrary: p i dst dst')
  case 0
  then show ?case by (simp, metis append_take_drop_id)
next
  case (Suc n)
  have "fst (parse_loop q (i + 1) n (dst[i := w])) = fst (parse_loop q (i + 1) n (dst'[i := w])) \<and>
     (fst (parse_loop q (i + 1) n (dst[i := w])) = 0 \<longrightarrow>
      snd (parse_loop q (i + 1) n (dst[i := w])) = snd (parse_loop q (i + 1) n (dst'[i := w])))" for q w
    using Suc.prems by (intro Suc.IH) (simp_all add: take_Suc_conv_app_nth)
  then show ?case by (simp split: option.splits)
qed

lemma parse_bytes_dst:
  "length dst = n \<Longrightarrow> length dst' = n \<Longrightarrow>
   fst (parse_bytes str dst n) = fst (parse_bytes str dst' n) \<and>
   (fst (parse_bytes str dst n) = 0 \<longrightarrow> snd (parse_bytes str dst n) = snd (parse_bytes str dst' n))"
  using parse_loop_dst [of dst dst' 0 n str] by (simp add: parse_bytes_def)

text \<open>The key that \<open>load_psk\<close> gets for an SSID, if it gets one.\<close>

definition psk_of :: "config \<Rightarrow> bytes \<Rightarrow> bytes option" where
  "psk_of c s =
     (case psk_map c (fmt_ssid 0 100 s (int (length s))) of
        None \<Rightarrow> None
      | Some h \<Rightarrow> (let (r, psk) = parse_bytes h (replicate 32 0) 32 in if r = 0 then Some psk else None))"

lemma load_psk_of:
  assumes "config_wf c" and "length dst = 32"
  obtains r d where "load_psk e s (int (length s)) dst c = Some (r, d, c)"
    "psk_of c s = (if r = 0 then Some d else None)"
proof -
  have "fst (parse_bytes h dst 32) = fst (parse_bytes h (replicate 32 0) 32) \<and>
      (fst (parse_bytes h dst 32) = 0 \<longrightarrow> snd (parse_bytes h dst 32) = snd (parse_bytes h (replicate 32 0) 32))" for h
    using parse_bytes_dst [of dst 32 "replicate 32 0" h] assms(2) by simp
  note dst = this
  note load = load_psk_lookup [OF assms(1), of e s "int (length s)" dst]
  show thesis
  proof (cases "psk_map c (fmt_ssid 0 100 s (int (length s)))")
    case None
    then show ?thesis using load by (intro that [of "- ENOKEY" dst]) (simp_all add: psk_of_def)
  next
    case (Some h)
    then show ?thesis using load dst [of h]
      by (intro that [of "fst (parse_bytes h dst 32)" "snd (parse_bytes h dst 32)"])
         (simp_all add: psk_of_def case_prod_beta)
  qed
qed

text \<open>Only a mapping that moves under the line to be added stops a save.\<close>

lemma save_psk_stops:
  assumes "config_wf c" and "save_psk e s n psk c = None"
  shows "env_mremap e = Remap_moved"
  using assms
  by (auto simp: save_psk_def wf_loaded save_line_def insert_line_def Let_def case_prod_beta split: option.splits if_splits)

interpretation psk_file: key_store psks_ok "\<lambda>e. env_mremap e \<noteq> Remap_failed" "\<lambda>e. env_mremap e = Remap_moved" storable
  "\<lambda>psk. length psk = 32" psk_of
  "\<lambda>e s psk c. save_psk e s (int (length s)) psk c" "\<lambda>e s c. map_option snd (drop_psk e s (int (length s)) c)"
proof (unfold_locales, goal_cases)
  case (1 c e s psk c')
  then have "psks_ok c'" "psk_map c' = (psk_map c)(esc s \<mapsto> hex psk)"
    using save_psk_update by blast+
  with 1 show ?case
    by (auto simp: psk_of_def storable_key esc_inj parse_bytes_hex)
next
  case (2 c s e c')
  obtain d where "psks_ok d" "psk_map d = (psk_map c)(esc s := None)"
    "drop_psk e s (int (length s)) c = Some (if psk_map c (esc s) = None then - 1 else 0, d)"
    using drop_psk_delete [OF 2(1), of "esc s" s "int (length s)" e] storable_key [OF 2(2)] by metis
  with 2 show ?case by (auto simp: psk_of_def storable_key esc_inj)
next
  case (3 c e s psk)
  then show ?case using save_psk_stops by (auto simp: psks_ok_def)
next
  case (4 c s e)
  then show ?case using drop_psk_delete [OF 4(1) refl, of s "int (length s)" e] by (metis map_option_is_None option.distinct(1))
qed

section \<open>Properties\<close>

abbreviation (input) run_psk_ops ::
  "(config_env, bytes, bytes) key_op list \<Rightarrow> config \<Rightarrow> config option" where
  "run_psk_ops \<equiv> run_keys (\<lambda>e s psk c. save_psk e s (int (length s)) psk c)
     (\<lambda>e s c. map_option snd (drop_psk e s (int (length s)) c))"

text \<open>A loaded file with one key in it, for the witnesses.\<close>

definition calm_files :: config_env where
  "calm_files = \<lparr>env_file = None, env_fstat_ok = True, env_mmap_ok = True, env_read = 0,
     env_mremap = Remap_in_place, env_create_ok = True, env_write = 65536\<rparr>"

definition fresh_config :: config where
  "fresh_config = \<lparr>cf_map = Some (replicate PAGE 0), cf_blocklen = PAGE, cf_datalen = 0, cf_modified = False\<rparr>"

lemma fresh_config_ok: "psks_ok fresh_config" "cf_text fresh_config = []" "psk_of fresh_config s = None"
  by (simp_all add: psks_ok_def config_wf_def cf_text_def cf_buf_def fresh_config_def page_up_def
      psk_of_def psk_map_def)

lemma save_in_place:
  assumes "config_wf c" and "cf_datalen c + 101 \<le> cf_blocklen c"
  shows "\<exists>c'. save_psk e s slen psk c = Some c'"
proof -
  have "length (fmt_ssid_loop p m t) \<le> m - p" for p m t
  proof (induction p m t rule: fmt_ssid_loop.induct)
    case (2 p m b bs)
    moreover have "length (fmt_byte b) \<le> 4" by (simp add: fmt_byte_def)
    ultimately show ?case by auto
  qed simp
  then have f: "length (fmt_ssid p m t l) \<le> m - p" for p m t l by (simp add: fmt_ssid_def)
  have "length (fmt_bytes p m t) \<le> m - p" for p m t
  proof (induction t arbitrary: p)
    case (Cons d t)
    from Cons [of p] Cons [of "Suc p"] Cons [of "Suc (Suc p)"] show ?case
      by (cases "Suc p < m"; cases "p < m") (simp_all add: Let_def)
  qed simp
  from this [of 0 99 psk] f [of "length (fmt_bytes 0 99 psk) + 1" 99 s slen]
  have "length (psk_line s slen psk) \<le> 100" by (simp add: psk_line_def Let_def)
  then show ?thesis
    using assms
    by (auto simp: save_psk_def wf_loaded save_line_def insert_line_def Let_def case_prod_beta split: option.splits)
qed

text \<open>
  C23. Take a loaded, well-formed file with one line per SSID, and a history of saves of 32-byte keys
  and of drops in which every SSID is storable (not empty, at most 29 bytes when escaped) and
  \<open>mremap\<close> does not fail. It leaves in the file what it would leave in a map: \<open>load_psk\<close> of a storable
  SSID succeeds exactly when the map holds it and returns the key held, whatever lines were edited,
  inserted or removed, and through growth of the mapping. The history can stop short only in a save
  during which \<open>mremap\<close> moves the mapping. (C25 shows what happens to longer names.)
\<close>

theorem psk_file_refines_map:
  assumes "psks_ok c"
    and "\<forall>op \<in> set ops. op_fits (\<lambda>e. env_mremap e \<noteq> Remap_failed) storable (\<lambda>psk. length psk = 32) op"
    and "storable s" and "length dst = 32"
  shows "case run_psk_ops ops c of
      None \<Rightarrow> \<exists>e k v. Save_key e k v \<in> set ops \<and> env_mremap e = Remap_moved
    | Some c' \<Rightarrow> psks_ok c' \<and> (\<exists>r d. load_psk e s (int (length s)) dst c' = Some (r, d, c') \<and>
        (if r = 0 then Some d else None) = fold key_effect ops (psk_of c) s)"
proof (cases "run_psk_ops ops c")
  case None
  then show ?thesis using psk_file.run_stops [OF None assms(2,1)] by simp
next
  case (Some c')
  have inv: "psks_ok c'" and l: "psk_of c' s = fold key_effect ops (psk_of c) s"
    using psk_file.run_refines [OF Some assms(2,1), of "psk_of c"] assms(3) by blast+
  then have "config_wf c'" by (simp add: psks_ok_def)
  then show ?thesis
    using Some inv l load_psk_of [OF _ assms(4), of c' e s] by (simp only: option.case) metis
qed

text \<open>Two networks are saved, one of them is dropped: the other one's key is still there.\<close>

lemma psk_file_refines_map_witness:
  "\<exists>c'. run_psk_ops [Save_key calm_files [0x61, 0x20] (replicate 32 5), Save_key calm_files [0x62] (replicate 32 6),
       Drop_key calm_files [0x62]] fresh_config = Some c' \<and>
     load_psk calm_files [0x61, 0x20] 2 (replicate 32 0) c' = Some (0, replicate 32 5, c')"
proof -
  let ?ops = "[Save_key calm_files [0x61, 0x20] (replicate 32 5), Save_key calm_files [0x62] (replicate 32 6),
       Drop_key calm_files [0x62]] :: (config_env, bytes, bytes) key_op list"
  have s: "storable [0x61, 0x20]" "storable [0x62]" by (simp_all add: storable_def fmt_byte_def)
  then have fit: "\<forall>op \<in> set ?ops. op_fits (\<lambda>e. env_mremap e \<noteq> Remap_failed) storable (\<lambda>psk. length psk = 32) op"
    by (simp add: calm_files_def)
  show ?thesis
    using psk_file_refines_map [OF fresh_config_ok(1) fit s(1), of "replicate 32 0" calm_files]
    by (auto simp: calm_files_def split: if_splits option.splits)
qed

text \<open>
  \<open>drop_psk\<close> reports whether the network was known, forgets its key, leaves every other key
  alone, and a second drop fails.
\<close>

lemma drop_psk_forgets:
  assumes "psks_ok c" and "storable s"
  shows "\<exists>c'. drop_psk e s (int (length s)) c = Some (if got_psk_for e s (int (length s)) c = Some (True, c) then 0 else - 1, c') \<and>
    psks_ok c' \<and> psk_map c' = (psk_map c)(esc s := None) \<and>
    drop_psk e s (int (length s)) c' = Some (- 1, c')"
proof -
  let ?n = "int (length s)"
  have wf: "config_wf c" using assms(1) by (simp add: psks_ok_def)
  have key: "esc s = fmt_ssid 0 100 s ?n" using storable_key [OF assms(2)] by simp
  obtain c' where c': "psks_ok c'" "psk_map c' = (psk_map c)(esc s := None)"
    "drop_psk e s ?n c = Some (if psk_map c (esc s) = None then - 1 else 0, c')"
    using drop_psk_delete [OF assms(1) key] by blast
  have got: "got_psk_for e s ?n c = Some (psk_map c (esc s) \<noteq> None, c)"
    using wf key
  proof (cases rule: find_ssid_cases)
    case none
    then show ?thesis
      by (simp add: got_psk_for_def wf_loaded [OF wf] psk_map_def map_of_eq_None_iff)
  next
    case (found pre l post h)
    then have "psk_map c (esc s) = Some h"
      by (auto simp: psk_map_def map_add_def map_of_eq_None_iff [symmetric] split: option.splits)
    with found show ?thesis by (simp add: got_psk_for_def wf_loaded [OF wf])
  qed
  have wf': "config_wf c'" using c'(1) by (simp add: psks_ok_def)
  have "drop_psk e s ?n c' = Some (- 1, c')"
    using wf' key
  proof (cases rule: find_ssid_cases)
    case none
    then show ?thesis by (simp add: drop_psk_def wf_loaded [OF wf'])
  next
    case (found pre l post h)
    then have "psk_map c' (esc s) = Some h"
      by (auto simp: psk_map_def map_add_def map_of_eq_None_iff [symmetric] split: option.splits)
    with c'(2) show ?thesis by simp
  qed
  with c' got show ?thesis by auto
qed

text \<open>
  C25. A name of 30 to 32 plain characters does not survive: \<open>save_psk\<close> cuts it to 29 characters, so
  the key is filed under another network's name and \<open>load_psk\<close> of the saved name has no key.
\<close>

theorem long_ssid_lost:
  assumes "psks_ok c" and "30 \<le> length s" and "length s \<le> 32" and "\<forall>b \<in> set s. 0x20 < b \<and> b \<noteq> 0x5C"
    and "length psk = 32" and "env_mremap e \<noteq> Remap_failed"
    and "psk_map c s = None" and "psk_map c (take 29 s) = None"
    and "save_psk e s (int (length s)) psk c = Some c'"
  shows "load_psk e s (int (length s)) dst c' = Some (- ENOKEY, dst, c') \<and>
    psk_map c' (take 29 s) = Some (hex psk)"
proof -
  have plain: "fmt_byte b = [b]" if "b \<in> set s" for b
    using assms(4) that by (auto simp: fmt_byte_def not_le)
  have loop: "fmt_ssid_loop p m t = take (m - 5 - p) t" if "\<forall>b \<in> set t. fmt_byte b = [b]" "p \<le> m - 5" "5 \<le> m" for p m t
    using that
  proof (induction t arbitrary: p)
    case (Cons b t)
    show ?case
    proof (cases "p < m - 5")
      case True
      then have "m - 5 - p = Suc (m - 5 - Suc p)" by simp
      with True Cons.IH [of "Suc p"] Cons.prems show ?thesis by simp
    qed (use Cons.prems in simp)
  qed simp
  have key: "fmt_ssid 0 100 s (int (length s)) = s" "fmt_ssid 65 99 s (int (length s)) = take 29 s"
    using loop [of s 0 100] loop [of s 65 99] plain assms(3) by (simp_all add: fmt_ssid_def)
  have line: "psk_line s (int (length s)) psk = hex psk @ 0x20 # take 29 s"
    using assms(5) key(2) by (simp add: psk_line_def fmt_bytes_fits Let_def)
  have "esc (take 29 s) = take 29 s"
    using esc_plain [of "take 29 s"] plain by (meson in_set_takeD)
  then have e: "entry (hex psk @ 0x20 # take 29 s) = Some (take 29 s, hex psk)" "nonl (hex psk @ 0x20 # take 29 s)"
    using entry_psk_line [of "take 29 s" psk] nonl_psk_line [of psk "take 29 s"] assms(2,5)
    by (cases "psk = []"; cases "s = []"; simp)+
  have wf: "config_wf c" using assms(1) by (simp add: psks_ok_def)
  have "find_ssid c s (int (length s)) = (- 1, None)"
    using wf key(1) [symmetric]
  proof (cases rule: find_ssid_cases)
    case (found pre l post h)
    then have "psk_map c s = Some h"
      by (auto simp: psk_map_def map_add_def map_of_eq_None_iff [symmetric] split: option.splits)
    with assms(7) show ?thesis by simp
  qed
  then obtain d where d: "insert_line e (hex psk @ 0x20 # take 29 s) c = Some d" "c' = d\<lparr>cf_modified := True\<rparr>"
    using assms(9) line by (auto simp: save_psk_def wf_loaded [OF wf] save_line_def)
  have "take 29 s \<notin> fst ` set (entries (lines_of (cf_text c)))"
    using assms(8) by (simp add: psk_map_def map_of_eq_None_iff)
  then have c': "psks_ok c' \<and> psk_map c' = (psk_map c)(take 29 s \<mapsto> hex psk)"
    using insert_line_text [OF wf d(1) assms(6)] e assms(1)
    by (intro psk_map_append [of c' c "hex psk @ 0x20 # take 29 s"]) (simp_all add: d(2))
  moreover have "length (take 29 s) = 29" using assms(2) by simp
  then have "s \<noteq> take 29 s" using assms(2) by (cases "s = take 29 s") simp_all
  ultimately show ?thesis
    using load_psk_lookup [of c' e s "int (length s)" dst] key(1) assms(7)
    by (simp only: psks_ok_def fun_upd_apply if_False option.case) simp
qed

lemma long_ssid_lost_witness:
  "\<exists>c'. save_psk calm_files (replicate 30 0x61) (int (length (replicate 30 (0x61 :: byte)))) (replicate 32 5) fresh_config = Some c' \<and>
     load_psk calm_files (replicate 30 0x61) (int (length (replicate 30 (0x61 :: byte)))) [] c' = Some (- ENOKEY, [], c')"
proof -
  define s psk :: bytes where "s = replicate 30 0x61" and "psk = replicate 32 5"
  have hyps: "30 \<le> length s" "length s \<le> 32" "\<forall>b \<in> set s. 0x20 < b \<and> b \<noteq> 0x5C" "length psk = 32"
    by (simp_all add: s_def psk_def)
  have e: "env_mremap calm_files \<noteq> Remap_failed" by (simp add: calm_files_def)
  have "config_wf fresh_config" using fresh_config_ok(1) by (simp add: psks_ok_def)
  moreover have "cf_datalen fresh_config + 101 \<le> cf_blocklen fresh_config" by (simp add: fresh_config_def)
  ultimately obtain d where d: "save_psk calm_files s (int (length s)) psk fresh_config = Some d"
    using save_in_place by blast
  have m: "psk_map fresh_config k = None" for k
    by (simp add: psk_map_def fresh_config_ok(2))
  from long_ssid_lost [OF fresh_config_ok(1) hyps e m m d, of "[]"] d show ?thesis
    unfolding s_def psk_def by blast
qed

text \<open>Loading a file that is read in one piece.\<close>

lemma page_up_twice: "page_up (page_up n) = page_up n"
proof -
  have "page_up (PAGE * q) = PAGE * q" for q by (simp add: page_up_def)
  then show ?thesis unfolding page_up_shape [of n] .
qed

lemma loaded_buf:
  assumes "length f \<le> page_up n"
  defines "d \<equiv> \<lparr>cf_map = Some (memcpy_at (replicate (page_up n) 0) 0 f), cf_blocklen = page_up n,
      cf_datalen = length f, cf_modified = False\<rparr>"
  shows "cf_text d = f" "f = [] \<or> last f = 0x0A \<longrightarrow> config_wf d"
proof -
  show t: "cf_text d = f" using assms(1) by (simp add: cf_text_def cf_buf_def d_def memcpy_at_def)
  have "page_up (cf_blocklen d) \<le> length (cf_buf d)"
    using assms(1) by (simp add: cf_buf_def d_def memcpy_at_def page_up_twice)
  with t assms(1) show "f = [] \<or> last f = 0x0A \<longrightarrow> config_wf d"
    by (simp add: config_wf_def) (simp add: d_def)
qed

lemma load_whole:
  assumes "cf_map c = None" and "env_file e = Some f" and "length f \<le> MAX_CONFIG_SIZE"
    and "env_fstat_ok e" and "env_mmap_ok e" and "env_read e = int (length f)"
  shows "\<exists>d. load_config e c = Some (0, d) \<and> cf_text d = f \<and> (f = [] \<or> last f = 0x0A \<longrightarrow> config_wf d)"
proof -
  let ?d = "\<lparr>cf_map = Some (memcpy_at (replicate (page_up (length f + 1024)) 0) 0 f),
      cf_blocklen = page_up (length f + 1024), cf_datalen = length f, cf_modified = False\<rparr>"
  have "load_config e c = Some (0, ?d)"
    using assms
    by (auto simp: load_config_def open_stat_config_def mmap_config_buf_def read_config_whole_def cf_buf_def Let_def
        memcpy_at_def)
  then show ?thesis
    using loaded_buf [of f "length f + 1024"] page_up_ge [of "length f + 1024"] by auto
qed

text \<open>
  C24. When a modified, well-formed file of at most 64K can be created, \<open>save_config\<close> leaves in it as much
  of the edited text as \<open>write\<close> took and counts the configuration as saved in any case. A new process
  loads what is there; when the write was complete, that is a well-formed file with the same keys.
\<close>

theorem save_config_reload:
  assumes "psks_ok c" and "cf_modified c" and "env_create_ok e" and "length (cf_text c) \<le> MAX_CONFIG_SIZE"
    and "save_config e c = (f, c')"
    and "env_file e' = f" and "env_fstat_ok e'" and "env_mmap_ok e'"
    and "env_read e' = int (min (env_write e) (length (cf_text c)))"
  shows "f = Some (take (env_write e) (cf_text c)) \<and> \<not> cf_modified c' \<and>
    (\<exists>d. load_config e' empty_config = Some (0, d) \<and> cf_text d = take (env_write e) (cf_text c) \<and>
      (length (cf_text c) \<le> env_write e \<longrightarrow> psks_ok d \<and> psk_map d = psk_map c))"
proof -
  have wf: "config_wf c" using assms(1) by (simp add: psks_ok_def)
  then obtain b where b: "cf_map c = Some b" by (auto simp: config_wf_def)
  let ?f = "take (env_write e) (cf_text c)"
  have f: "f = Some ?f" "\<not> cf_modified c'"
    using assms(2,3,5) b by (auto simp: save_config_def cf_text_def cf_buf_def)
  have "env_read e' = int (length ?f)" "length ?f \<le> MAX_CONFIG_SIZE" "env_file e' = Some ?f"
    using assms(4,6,9) f(1) by (simp_all add: min.commute)
  then obtain d where d: "load_config e' empty_config = Some (0, d)" "cf_text d = ?f" "?f = [] \<or> last ?f = 0x0A \<longrightarrow> config_wf d"
    using load_whole [of empty_config e' ?f] assms(7,8) by (auto simp: empty_config_def)
  have "psks_ok d \<and> psk_map d = psk_map c" if "length (cf_text c) \<le> env_write e"
  proof -
    have "cf_text d = cf_text c" using d(2) that by simp
    then show ?thesis using wf d assms(1) by (auto simp: config_wf_def psks_ok_def psk_map_def)
  qed
  with d f show ?thesis by blast
qed

text \<open>The file with one network, "a", whose key is 32 times the byte five.\<close>

definition one_key :: config where
  "one_key = \<lparr>cf_map = Some (unlines [hex (replicate 32 5) @ 0x20 # esc [0x61]] @ replicate PAGE 0),
     cf_blocklen = PAGE, cf_datalen = 67, cf_modified = True\<rparr>"

lemma one_key: "psks_ok one_key" "psk_map one_key [0x61] = Some (hex (replicate 32 5))" "length (cf_text one_key) = 67"
proof -
  have a: "esc [0x61] = [0x61]" by (simp add: fmt_byte_def)
  let ?l = "hex (replicate 32 5) @ 0x20 # esc [0x61]"
  have n: "length ?l = 66" using a by simp
  then have t: "cf_text one_key = unlines [?l]"
    by (simp add: one_key_def cf_text_def cf_buf_def del: esc_simps)
  then have "lines_of (cf_text one_key) = [?l]"
    using lines_of_unlines [of "[?l]"] nonl_psk_line [of "replicate 32 5" "[0x61]"] by simp
  moreover have "entry ?l = Some (esc [0x61], hex (replicate 32 5))" by (rule entry_psk_line) simp_all
  ultimately have e: "entries (lines_of (cf_text one_key)) = [(esc [0x61], hex (replicate 32 5))]"
    by (simp del: esc_simps)
  show "length (cf_text one_key) = 67" using t n by simp
  have "config_wf one_key"
    using t by (simp add: config_wf_def page_up_def) (simp add: one_key_def cf_buf_def)
  with e show "psks_ok one_key" by (simp add: psks_ok_def del: esc_simps)
  show "psk_map one_key [0x61] = Some (hex (replicate 32 5))" using e a by (simp add: psk_map_def del: esc_simps)
qed

text \<open>On a system where the write is complete, the key is there again in the next process.\<close>

lemma save_config_reload_witness:
  "\<exists>f c' d. save_config calm_files one_key = (Some f, c') \<and> \<not> cf_modified c' \<and>
     load_config (calm_files\<lparr>env_file := Some f, env_read := 67\<rparr>) empty_config = Some (0, d) \<and>
     psks_ok d \<and> psk_map d [0x61] = Some (hex (replicate 32 5))"
proof -
  obtain f c' where s: "save_config calm_files one_key = (f, c')" by (cases "save_config calm_files one_key")
  let ?e = "calm_files\<lparr>env_file := f, env_read := 67\<rparr>"
  have m: "cf_modified one_key" by (simp add: one_key_def)
  have "env_create_ok calm_files" "length (cf_text one_key) \<le> MAX_CONFIG_SIZE" "env_file ?e = f" "env_fstat_ok ?e"
    "env_mmap_ok ?e" "env_read ?e = int (min (env_write calm_files) (length (cf_text one_key)))"
    "length (cf_text one_key) \<le> env_write calm_files"
    using one_key(3) by (simp_all add: calm_files_def)
  with save_config_reload [OF one_key(1) m _ _ s, of ?e] s one_key(2) show ?thesis by auto
qed

text \<open>
  A write that fails at once (a full disk) leaves an empty file, every key is gone, and nothing will
  write them again: the configuration counts as saved.
\<close>

lemma failed_write_loses:
  assumes "psks_ok c" and "cf_modified c" and "env_create_ok e" and "env_write e = 0"
  shows "\<exists>c'. save_config e c = (Some [], c') \<and> psk_map c' = psk_map c \<and> save_config e' c' = (None, c')"
proof -
  obtain b where "cf_map c = Some b" using assms(1) by (auto simp: psks_ok_def config_wf_def)
  with assms show ?thesis by (simp add: save_config_def psk_map_def)
qed

section \<open>Operations that always return\<close>

text \<open>
  A configuration the daemon can work with: loaded and well-formed, or not loaded yet and the file is
  one that can be: absent, or of at most 64K, read in one piece, its last line terminated.
\<close>

definition config_fine :: "config_env \<Rightarrow> config \<Rightarrow> bool" where
  "config_fine e c \<longleftrightarrow> config_wf c \<or>
     (cf_map c = None \<and>
      (case env_file e of None \<Rightarrow> True
       | Some f \<Rightarrow> length f \<le> MAX_CONFIG_SIZE \<and> (f = [] \<or> last f = 0x0A \<and> env_read e = int (length f))))"

lemma load_config_fine:
  assumes "config_fine e c"
  obtains r d where "load_config e c = Some (r, d)" "config_fine e d" "0 \<le> r \<longrightarrow> config_wf d"
proof (cases "cf_map c")
  case (Some b)
  then have "config_wf c" using assms by (simp add: config_fine_def)
  then show ?thesis using wf_loaded that assms by blast
next
  case None
  then have fl: "case env_file e of None \<Rightarrow> True
     | Some f \<Rightarrow> length f \<le> MAX_CONFIG_SIZE \<and> (f = [] \<or> last f = 0x0A \<and> env_read e = int (length f))"
    using assms by (auto simp: config_fine_def config_wf_def)
  have empty: "config_wf \<lparr>cf_map = Some (replicate (page_up 1024) 0), cf_blocklen = page_up 1024, cf_datalen = 0, cf_modified = False\<rparr>"
    using loaded_buf [of "[]" 1024] by (simp add: memcpy_at_def)
  show ?thesis
  proof (cases "env_mmap_ok e")
    case False
    then have "load_config e c = Some (- 1, c)"
      using None fl by (auto simp: load_config_def open_stat_config_def mmap_config_buf_def Let_def split: option.splits)
    then show ?thesis using that assms by simp
  next
    case mm: True
    show ?thesis
    proof (cases "\<exists>f. env_file e = Some f \<and> env_fstat_ok e \<and> f \<noteq> []")
      case True
      then obtain f where f: "env_file e = Some f" "env_fstat_ok e" "f \<noteq> []" by blast
      then obtain d where "load_config e c = Some (0, d)" "config_wf d"
        using load_whole [OF None f(1) _ f(2) mm] fl by auto
      then show ?thesis using that by (simp add: config_fine_def)
    next
      case False
      then have "load_config e c = Some (0, \<lparr>cf_map = Some (replicate (page_up 1024) 0), cf_blocklen = page_up 1024,
          cf_datalen = 0, cf_modified = False\<rparr>)"
        using None mm fl
        by (auto simp: load_config_def open_stat_config_def mmap_config_buf_def read_config_whole_def Let_def split: option.splits)
      then show ?thesis using that empty by (simp add: config_fine_def)
    qed
  qed
qed

lemma load_psk_fine:
  assumes "config_fine e c"
  obtains r psk d where "load_psk e s n dst c = Some (r, psk, d)" "config_fine e d"
proof -
  obtain r d where l: "load_config e c = Some (r, d)" "config_fine e d"
    using load_config_fine [OF assms] by metis
  then have "\<exists>r psk. load_psk e s n dst c = Some (r, psk, d)"
    by (auto simp: load_psk_def Let_def split: prod.splits option.splits)
  then show thesis using l(2) that by blast
qed

lemma drop_psk_fine:
  assumes "config_fine e c"
  obtains r d where "drop_psk e s n c = Some (r, d)" "config_fine e d"
proof -
  obtain r d where l: "load_config e c = Some (r, d)" "config_fine e d" "0 \<le> r \<longrightarrow> config_wf d"
    using load_config_fine [OF assms] by metis
  show thesis
  proof (cases "0 \<le> r")
    case False
    then show ?thesis using l that by (simp add: drop_psk_def)
  next
    case True
    then have wf: "config_wf d" using l by simp
    then show ?thesis using refl
    proof (cases rule: find_ssid_cases [where ssid = s and slen = n])
      case none
      then show ?thesis using l that True by (simp add: drop_psk_def)
    next
      case (found pre ln post h)
      obtain d' where "drop_line e (Some (length (unlines pre), length (unlines pre) + length ln)) d = Some d'" "config_wf d'"
        using drop_line_wf [OF wf found(1)] by metis
      then show ?thesis using l that True found(4) by (simp add: drop_psk_def config_fine_def)
    qed
  qed
qed

end
