(* ===== verification/Apsel.thy ===== *)
theory Apsel imports Commands Config_Psk begin

text \<open>
  Selection of the access point (wsupp_apsel.c) and the saved state (the end of wsupp_config.c):
  which scan entries can be connected to, which of them is best, the station that is current, and
  what to do when a connection is made, is lost, or a scan ends.
\<close>

section \<open>Constants\<close>

abbreviation (input) TIME_TO_FG_SCAN :: int where "TIME_TO_FG_SCAN \<equiv> 60"
abbreviation (input) TIME_TO_BG_SCAN :: int where "TIME_TO_BG_SCAN \<equiv> 300"

definition ies_ccmp_ccmp :: bytes where
  "ies_ccmp_ccmp = [0x30, 0x14, 0x01, 0x00, 0x00, 0x0F, 0xAC, 0x04, 0x01, 0x00, 0x00, 0x0F, 0xAC, 0x04,
     0x01, 0x00, 0x00, 0x0F, 0xAC, 0x02, 0x00, 0x00]"

definition ies_ccmp_tkip :: bytes where
  "ies_ccmp_tkip = [0x30, 0x14, 0x01, 0x00, 0x00, 0x0F, 0xAC, 0x02, 0x01, 0x00, 0x00, 0x0F, 0xAC, 0x04,
     0x01, 0x00, 0x00, 0x0F, 0xAC, 0x02, 0x00, 0x00]"

section \<open>Choosing a scan entry\<close>

definition check_wpa :: "scan \<Rightarrow> bool" where
  "check_wpa sc \<longleftrightarrow>
     (let type = sc_type sc in
      if \<not> has type ST_RSN_PSK then False
      else if \<not> has type ST_RSN_P_CCMP then False
      else if \<not> has type (ST_RSN_G_CCMP OR ST_RSN_G_TKIP) then False
      else True)"

definition connectable :: "ap \<Rightarrow> scan \<Rightarrow> bool" where
  "connectable a sc \<longleftrightarrow>
     (if \<not> has (sc_flags sc) SF_GOOD then False
      else if has (sc_flags sc) SF_TRIED then False
      else if ap_fixed a then True
      else if \<not> has (sc_flags sc) SF_PASS then False
      else True)"

text \<open>The SSID of an entry, as the code reads it.\<close>

definition sc_name :: "scan \<Rightarrow> bytes" where
  "sc_name sc = take (unat (sc_slen sc)) (sc_ssid sc)"

definition match_ssid :: "ap \<Rightarrow> scan \<Rightarrow> bool" where
  "match_ssid a sc \<longleftrightarrow>
     (if \<not> ap_fixed a then True
      else if sc_slen sc \<noteq> ap_slen a then False
      else if memcmp (take (unat (ap_slen a)) (sc_ssid sc)) (ap_name a) \<noteq> 0 then False
      else True)"

text \<open>For a negative frequency C divides towards zero, HOL downwards; neither gives 5.\<close>

definition band_score :: "scan \<Rightarrow> int" where
  "band_score sc =
     (if sint (sc_signal sc) < - 7500 then 0
      else if sint (sc_freq sc) div 1000 = 5 then 1
      else 0)"

definition cmp :: "int \<Rightarrow> int \<Rightarrow> int" where
  "cmp a b = (if a > b then 1 else if a < b then - 1 else 0)"

definition compare :: "scan \<Rightarrow> scan option \<Rightarrow> int" where
  "compare sc best =
     (case best of
        None \<Rightarrow> 1
      | Some b \<Rightarrow>
          let r = cmp (band_score sc) (band_score b) in
          if r \<noteq> 0 then r
          else let r = cmp (sint (sc_signal sc)) (sint (sc_signal b)) in
          if r \<noteq> 0 then r else 0)"

text \<open>The loop of \<open>get_best_ap\<close>, from index \<open>i\<close> on; the pointer \<open>best\<close> is an index and its entry.\<close>

fun best_from :: "ap \<Rightarrow> nat \<Rightarrow> scan list \<Rightarrow> (nat \<times> scan) option \<Rightarrow> (nat \<times> scan) option" where
  "best_from a i [] best = best"
| "best_from a i (sc # scs) best =
     (if sc_freq sc = 0 then best_from a (i + 1) scs best
      else if \<not> connectable a sc then best_from a (i + 1) scs best
      else if \<not> match_ssid a sc then best_from a (i + 1) scs best
      else if compare sc (map_option snd best) \<le> 0 then best_from a (i + 1) scs best
      else best_from a (i + 1) scs (Some (i, sc)))"

definition get_best_ap :: "wst \<Rightarrow> nat option" where
  "get_best_ap w =
     map_option fst (best_from (w_ap w) 0 (take (snd (w_scans w)) (fst (w_scans w))) None)"

section \<open>The current station\<close>

definition clear_ap_bssid :: "wst \<Rightarrow> wst" where
  "clear_ap_bssid w =
     w\<lparr>w_ap := (w_ap w)\<lparr>ap_type := 0, ap_success := False, ap_rescans := 0, ap_bssid := replicate 6 0\<rparr>\<rparr>"

definition clear_ap_ssid :: "wst \<Rightarrow> wst" where
  "clear_ap_ssid w =
     w\<lparr>w_ap := (w_ap w)\<lparr>ap_slen := 0, ap_freq := 0, ap_fixed := False, ap_ssid := replicate SSIDLEN 0,
                        ap_unsaved := False\<rparr>,
       w_PSK := replicate 32 0\<rparr>"

definition reset_station :: "wst \<Rightarrow> wst" where
  "reset_station w = clear_ap_ssid (clear_ap_bssid w)"

definition scan_at :: "wst \<Rightarrow> nat \<Rightarrow> scan" where
  "scan_at w p = fst (w_scans w) ! p"

definition upd_scan :: "nat \<Rightarrow> (scan \<Rightarrow> scan) \<Rightarrow> wst \<Rightarrow> wst" where
  "upd_scan p f w = w\<lparr>w_scans := ((fst (w_scans w))[p := f (scan_at w p)], snd (w_scans w))\<rparr>"

definition set_flag :: "u16 \<Rightarrow> scan \<Rightarrow> scan" where
  "set_flag f sc = sc\<lparr>sc_flags := sc_flags sc OR f\<rparr>"

definition clear_flag :: "u16 \<Rightarrow> scan \<Rightarrow> scan" where
  "clear_flag f sc = sc\<lparr>sc_flags := sc_flags sc AND NOT f\<rparr>"

text \<open>\<open>load_psk\<close> on the global PSK.\<close>

definition load_psk_w :: "env \<Rightarrow> bytes \<Rightarrow> int \<Rightarrow> (int \<times> wst) act" where
  "load_psk_w E ssid slen w =
     (case load_psk (en_config E) ssid slen (w_PSK w) (w_config w) of
        None \<Rightarrow> Wild
      | Some (ret, psk, c) \<Rightarrow> Go (ret, w\<lparr>w_PSK := psk, w_config := c\<rparr>))"

definition set_current_ap :: "env \<Rightarrow> nat \<Rightarrow> (int \<times> wst) act" where
  "set_current_ap E p w =
     (let auth = sc_type (scan_at w p);
          w = upd_scan p (set_flag SF_TRIED) w;
          sc = scan_at w p;
          w = w\<lparr>w_ap := (w_ap w)\<lparr>ap_success := False, ap_freq := sc_freq sc, ap_type := sc_type sc,
                                ap_bssid := sc_bssid sc\<rparr>\<rparr> in
      if \<not> has auth ST_RSN_P_CCMP then Go (- 1, w)
      else let w = (if has auth ST_RSN_G_TKIP
                    then w\<lparr>w_ap := (w_ap w)\<lparr>ap_ies := ies_ccmp_tkip, ap_iesize := length ies_ccmp_tkip,
                                            ap_tkipgroup := True\<rparr>\<rparr>
                    else w\<lparr>w_ap := (w_ap w)\<lparr>ap_ies := ies_ccmp_ccmp, ap_iesize := length ies_ccmp_ccmp,
                                            ap_tkipgroup := False\<rparr>\<rparr>) in
      if ap_fixed (w_ap w) then Go (0, w)
      else let w = w\<lparr>w_ap := (w_ap w)\<lparr>ap_slen := sc_slen sc,
                                      ap_ssid := memcpy_at (ap_ssid (w_ap w)) 0 (sc_name sc)\<rparr>\<rparr> in
      chain (load_psk_w E (ap_ssid (w_ap w)) (int (unat (ap_slen (w_ap w)))) w) (\<lambda>(ret, w).
      if ret \<noteq> 0 then Go (- 1, w) else Go (0, w)))"

fun find_current_from :: "ap \<Rightarrow> scan list \<Rightarrow> nat option" where
  "find_current_from a [] = None"
| "find_current_from a (sc # scs) =
     (if sc_freq sc = 0 then map_option Suc (find_current_from a scs)
      else if sc_slen sc \<noteq> ap_slen a then map_option Suc (find_current_from a scs)
      else if memcmp (take (unat (ap_slen a)) (sc_ssid sc)) (ap_name a) \<noteq> 0
        then map_option Suc (find_current_from a scs)
      else if memcmp (sc_bssid sc) (ap_bssid a) \<noteq> 0 then map_option Suc (find_current_from a scs)
      else Some 0)"

definition find_current_ap :: "wst \<Rightarrow> nat option" where
  "find_current_ap w = find_current_from (w_ap w) (take (snd (w_scans w)) (fst (w_scans w)))"

text \<open>A loop that rewrites each of the first \<open>nscans\<close> entries.\<close>

definition each_scan :: "(scan \<Rightarrow> scan) \<Rightarrow> wst \<Rightarrow> wst" where
  "each_scan f w =
     (let (scs, n) = w_scans w in w\<lparr>w_scans := (map f (take n scs) @ drop n scs, n)\<rparr>)"

definition reset_scan_counters :: "wst \<Rightarrow> wst" where
  "reset_scan_counters w =
     each_scan (\<lambda>sc. if sc_freq sc = 0 then sc
                     else if \<not> match_ssid (w_ap w) sc then sc
                     else clear_flag SF_TRIED sc) w"

text \<open>A negative length is a \<open>memcpy\<close> of a huge size.\<close>

definition set_fixed :: "bytes \<Rightarrow> int \<Rightarrow> (int \<times> wst) act" where
  "set_fixed ssid slen w =
     (if slen > int SSIDLEN then Go (- ENAMETOOLONG, w)
      else if slen < 0 then Wild
      else let w = w\<lparr>w_ap := (w_ap w)\<lparr>ap_ssid := memcpy_at (ap_ssid (w_ap w)) 0 (take (nat slen) ssid),
                                      ap_slen := word_of_int slen, ap_fixed := True\<rparr>\<rparr>
           in Go (0, reset_scan_counters (clear_ap_bssid w)))"

definition set_fixed_given :: "bytes \<Rightarrow> int \<Rightarrow> bytes \<Rightarrow> (int \<times> wst) act" where
  "set_fixed_given ssid slen psk w =
     chain (set_fixed ssid slen w) (\<lambda>(ret, w).
     if ret < 0 then Go (ret, w)
     else Go (0, w\<lparr>w_PSK := take 32 psk, w_ap := (w_ap w)\<lparr>ap_unsaved := True\<rparr>\<rparr>))"

definition set_fixed_saved :: "env \<Rightarrow> bytes \<Rightarrow> int \<Rightarrow> (int \<times> wst) act" where
  "set_fixed_saved E ssid slen w =
     chain (load_psk_w E ssid slen w) (\<lambda>(ret, w).
     if ret < 0 then Go (ret, w)
     else chain (set_fixed ssid slen w) (\<lambda>(ret, w).
     if ret < 0 then Go (ret, w)
     else Go (0, w\<lparr>w_ap := (w_ap w)\<lparr>ap_unsaved := False\<rparr>\<rparr>)))"

section \<open>Trying one entry after the other\<close>

text \<open>The entry that \<open>get_best_ap\<close> finds: in use, connectable, with the right SSID.\<close>

lemma best_from_Some:
  "best_from a i scs best = Some (p, sc) \<Longrightarrow>
   best = Some (p, sc) \<or>
   (i \<le> p \<and> p < i + length scs \<and> scs ! (p - i) = sc \<and> live sc \<and> connectable a sc \<and> match_ssid a sc)"
proof (induction a i scs best rule: best_from.induct)
  case (2 a i x scs best)
  have ix: "(x # scs) ! (p - i) = scs ! (p - (i + 1))" if "i + 1 \<le> p"
    using that by (simp add: nth_Cons split: nat.splits) (metis Suc_diff_Suc Suc_le_lessD diff_Suc_1)
  show ?case
  proof (cases "sc_freq x \<noteq> 0 \<and> connectable a x \<and> match_ssid a x \<and> compare x (map_option snd best) > 0")
    case True
    then have "best_from a (i + 1) scs (Some (i, x)) = Some (p, sc)" using 2(6) by simp
    then have "Some (i, x) = Some (p, sc) \<or> i + 1 \<le> p \<and> p < i + 1 + length scs \<and>
        scs ! (p - (i + 1)) = sc \<and> live sc \<and> connectable a sc \<and> match_ssid a sc"
      using 2(5) True by simp
    then show ?thesis using True ix by (auto simp: live_def)
  next
    case False
    then have "best_from a (i + 1) scs best = Some (p, sc)" using 2(6) by (auto split: if_splits)
    then have "best = Some (p, sc) \<or> i + 1 \<le> p \<and> p < i + 1 + length scs \<and>
        scs ! (p - (i + 1)) = sc \<and> live sc \<and> connectable a sc \<and> match_ssid a sc"
      using 2(1-4) False by (smt (verit))
    then show ?thesis using ix by auto
  qed
qed simp

lemma get_best_apD:
  assumes "get_best_ap w = Some p"
  shows "p < snd (w_scans w) \<and> p < length (fst (w_scans w)) \<and> live (scan_at w p) \<and>
    connectable (w_ap w) (scan_at w p) \<and> match_ssid (w_ap w) (scan_at w p)"
proof -
  obtain sc where "best_from (w_ap w) 0 (take (snd (w_scans w)) (fst (w_scans w))) None = Some (p, sc)"
    using assms by (auto simp: get_best_ap_def)
  from best_from_Some [OF this] show ?thesis by (auto simp: scan_at_def)
qed

lemma has_bit:
  "has f SF_SEEN \<longleftrightarrow> bit f 0" "has f SF_GOOD \<longleftrightarrow> bit f 1" "has f SF_PASS \<longleftrightarrow> bit f 2"
  "has f SF_STALE \<longleftrightarrow> bit f 3" "has f SF_TRIED \<longleftrightarrow> bit f 4"
proof -
  have "f AND 2 ^ n \<noteq> 0 \<longleftrightarrow> bit f n" for n by (simp add: and_exp_eq_0_iff_not_bit)
  from this [of 0] this [of 1] this [of 2] this [of 3] this [of 4]
  show "has f SF_SEEN \<longleftrightarrow> bit f 0" "has f SF_GOOD \<longleftrightarrow> bit f 1" "has f SF_PASS \<longleftrightarrow> bit f 2"
    "has f SF_STALE \<longleftrightarrow> bit f 3" "has f SF_TRIED \<longleftrightarrow> bit f 4"
    by (simp_all add: has_def)
qed

lemma has_set_clear [simp]:
  "has (f OR SF_TRIED) SF_GOOD = has f SF_GOOD" "\<not> has (f AND NOT SF_GOOD) SF_GOOD"
  "has (f OR SF_TRIED) SF_TRIED" "has (f AND NOT SF_GOOD) SF_TRIED = has f SF_TRIED"
proof -
  have b: "bit SF_TRIED 4" "\<not> bit SF_TRIED 1" "bit SF_GOOD 1" "\<not> bit SF_GOOD 4" by simp_all
  show "has (f OR SF_TRIED) SF_GOOD = has f SF_GOOD" "\<not> has (f AND NOT SF_GOOD) SF_GOOD"
    "has (f OR SF_TRIED) SF_TRIED" "has (f AND NOT SF_GOOD) SF_TRIED = has f SF_TRIED"
    unfolding has_bit bit_or_iff bit_and_iff bit_not_iff using b by simp_all
qed

lemma sc_flags_set: "sc_flags (set_flag f sc) = sc_flags sc OR f" "sc_flags (clear_flag f sc) = sc_flags sc AND NOT f"
  by (simp_all add: set_flag_def clear_flag_def)

lemma flag_simps [simp]:
  "has (sc_flags (set_flag SF_TRIED sc)) SF_GOOD = has (sc_flags sc) SF_GOOD"
  "\<not> has (sc_flags (clear_flag SF_GOOD sc)) SF_GOOD"
  "has (sc_flags (set_flag SF_TRIED sc)) SF_TRIED"
  "has (sc_flags (clear_flag SF_GOOD sc)) SF_TRIED = has (sc_flags sc) SF_TRIED"
  unfolding sc_flags_set using has_set_clear [of "sc_flags sc"] by blast+

text \<open>The entries that are still worth a try: each iteration takes one away.\<close>

definition goods :: "wst \<Rightarrow> nat" where
  "goods w = length (filter (\<lambda>sc. has (sc_flags sc) SF_GOOD) (take (snd (w_scans w)) (fst (w_scans w))))"

lemma load_psk_w_frame:
  assumes "load_psk_w E ssid slen w = Go (r, w')"
  shows "\<exists>psk c. w' = w\<lparr>w_PSK := psk, w_config := c\<rparr>"
  using assms by (auto simp: load_psk_w_def split: option.splits)

lemma set_current_ap_scans:
  assumes "set_current_ap E p w = Go (r, w')"
  shows "w_scans w' = w_scans (upd_scan p (set_flag SF_TRIED) w)"
  using assms by (auto simp: set_current_ap_def Let_def chain_Go split: if_splits dest!: load_psk_w_frame)

lemma length_filter_update:
  "p < length xs \<Longrightarrow> (f (xs ! p) \<longrightarrow> \<not> f y) \<Longrightarrow> f (xs ! p) \<Longrightarrow>
   length (filter f (xs[p := y])) < length (filter f xs)"
proof (induction xs arbitrary: p)
  case (Cons x xs)
  then show ?case by (cases p) auto
qed simp

lemma goods_less:
  assumes "get_best_ap w = Some p" "w_scans v = w_scans (upd_scan p (set_flag SF_TRIED) w)"
  shows "goods (upd_scan p (clear_flag SF_GOOD) v) < goods w"
proof -
  obtain scs n where w: "w_scans w = (scs, n)" by (cases "w_scans w")
  have p: "p < n" "p < length scs" "has (sc_flags (scs ! p)) SF_GOOD"
    using get_best_apD [OF assms(1)] w by (auto simp: scan_at_def connectable_def split: if_splits)
  have v: "fst (w_scans (upd_scan p (clear_flag SF_GOOD) v))
      = scs[p := clear_flag SF_GOOD (set_flag SF_TRIED (scs ! p))]"
    "snd (w_scans (upd_scan p (clear_flag SF_GOOD) v)) = n"
    using assms(2) w p(2) by (simp_all add: upd_scan_def scan_at_def)
  show ?thesis unfolding goods_def v w take_update_swap
    using p by (simp add: w) (intro length_filter_update, auto)
qed

function connect_to_something :: "env \<Rightarrow> (bool \<times> wst) act" where
  "connect_to_something E w =
     (case get_best_ap w of
        None \<Rightarrow> Go (False, w)
      | Some p \<Rightarrow>
          (case set_current_ap E p w of
             Wild \<Rightarrow> Wild
           | Quit s \<Rightarrow> Quit s
           | Go (ret, w1) \<Rightarrow>
               if ret \<noteq> 0 then connect_to_something E (upd_scan p (clear_flag SF_GOOD) w1)
               else (case start_connection E w1 of
                       Wild \<Rightarrow> Wild
                     | Quit s \<Rightarrow> Quit s
                     | Go (ret, w2) \<Rightarrow>
                         if ret \<noteq> 0 then connect_to_something E (upd_scan p (clear_flag SF_GOOD) w2)
                         else Go (True, w2))))"
  by pat_completeness auto
termination
proof (relation "measure (\<lambda>(E, w). goods w)", goal_cases)
  case (2 E w p x ret w1)
  then show ?case using goods_less [of w p w1] set_current_ap_scans by auto
next
  case (3 E w p x ret w1 y ret2 w2)
  then have "rest w2 = rest w1" using start_connection_rest by auto
  then have "w_scans w2 = w_scans w1" by (rule rest_eqD)
  then show ?case using goods_less [of w p w2] set_current_ap_scans 3 by auto
qed simp

declare connect_to_something.simps [simp del]

text \<open>Any invariant of the loop's three steps is an invariant of the loop.\<close>

lemma connect_to_something_inv:
  assumes "I w"
    and "\<And>w p. I w \<Longrightarrow> get_best_ap w = Some p \<Longrightarrow> ends d (\<lambda>x. I (snd x)) Q (set_current_ap E p w)"
    and "\<And>w. I w \<Longrightarrow> ends d (\<lambda>x. I (snd x)) Q (start_connection E w)"
    and "\<And>w p. I w \<Longrightarrow> I (upd_scan p (clear_flag SF_GOOD) w)"
  shows "ends d (\<lambda>x. I (snd x)) Q (connect_to_something E w)"
  using assms(1)
proof (induction "goods w" arbitrary: w rule: less_induct)
  case less
  note step = connect_to_something.simps [of E w]
  show ?case
  proof (cases "get_best_ap w")
    case None
    then show ?thesis using less.prems by (simp add: step)
  next
    case (Some p)
    show ?thesis
    proof (cases "set_current_ap E p w")
      case (Go x)
      obtain ret w1 where x: "x = (ret, w1)" by (cases x)
      have w1: "I w1" using assms(2) [OF less.prems Some] by (simp add: Go x)
      have sc1: "w_scans w1 = w_scans (upd_scan p (set_flag SF_TRIED) w)"
        using set_current_ap_scans Go x by blast
      show ?thesis
      proof (cases "ret = 0")
        case False
        then show ?thesis
          using less.hyps [OF goods_less [OF Some sc1] assms(4) [OF w1]] by (simp add: step Some Go x)
      next
        case True
        show ?thesis
        proof (cases "start_connection E w1")
          case y: (Go y)
          obtain ret2 w2 where y2: "y = (ret2, w2)" by (cases y)
          have w2: "I w2" using assms(3) [OF w1] by (simp add: y y2)
          have "w_scans w2 = w_scans w1" using rest_eqD(1) start_connection_rest y y2 by blast
          then have "goods (upd_scan p (clear_flag SF_GOOD) w2) < goods w"
            using goods_less [OF Some] sc1 by simp
          then show ?thesis
            using less.hyps [OF _ assms(4) [OF w2]] w2 True by (simp add: step Some Go x y y2)
        qed (use True assms(3) [OF w1] in \<open>simp_all add: step Some Go x\<close>)
      qed
    qed (use assms(2) [OF less.prems Some] in \<open>simp_all add: step Some\<close>)
  qed
qed

section \<open>Events of the connection\<close>

definition save_psk_w :: "env \<Rightarrow> wst act" where
  "save_psk_w E w =
     (case save_psk (en_config E) (ap_ssid (w_ap w)) (int (unat (ap_slen (w_ap w)))) (w_PSK w) (w_config w) of
        None \<Rightarrow> Wild
      | Some c \<Rightarrow> Go (w\<lparr>w_config := c\<rparr>))"

definition handle_connect :: "env \<Rightarrow> wst act" where
  "handle_connect E w =
     (let w = w\<lparr>w_ap := (w_ap w)\<lparr>ap_success := True, ap_fixed := True\<rparr>\<rparr>;
          w = set_timer TIME_TO_BG_SCAN w;
          w = (if w_opermode w = OP_RESCAN then w\<lparr>w_opermode := OP_ACTIVE\<rparr> else w);
          w = (if w_opermode w = OP_ONESHOT then w\<lparr>w_opermode := OP_ACTIVE\<rparr> else w);
          sc = find_current_ap w;
          w = (case sc of None \<Rightarrow> w | Some p \<Rightarrow> upd_scan p (clear_flag SF_TRIED) w) in
      chain (if ap_unsaved (w_ap w) then save_psk_w E w else Go w) (\<lambda>w.
      let w = (case sc of
                 Some p \<Rightarrow> if ap_unsaved (w_ap w) then upd_scan p (set_flag SF_PASS) w else w
               | None \<Rightarrow> w);
          w = w\<lparr>w_ap := (w_ap w)\<lparr>ap_unsaved := False\<rparr>\<rparr> in
      chain (trigger_dhcp E w) (\<lambda>w. Go (report_connected E w))))"

definition rescan_current_ap :: "env \<Rightarrow> wst \<Rightarrow> wst" where
  "rescan_current_ap E w =
     (let w = w\<lparr>w_ap := (w_ap w)\<lparr>ap_success := False\<rparr>, w_opermode := OP_RESCAN\<rparr>
      in snd (start_scan E (sint (ap_freq (w_ap w))) w))"

definition snap_to_neutral :: "wst \<Rightarrow> wst" where
  "snap_to_neutral w = (clear_ap_ssid (clear_ap_bssid w))\<lparr>w_opermode := OP_NEUTRAL\<rparr>"

definition idle_then_rescan :: "wst \<Rightarrow> wst" where
  "idle_then_rescan w = set_timer TIME_TO_FG_SCAN w"

definition reassess_wifi_situation :: "env \<Rightarrow> wst act" where
  "reassess_wifi_situation E w =
     (if w_opermode w = OP_NEUTRAL then Go w
      else if w_authstate w \<noteq> AS_IDLE then Go w
      else if w_scanstate w \<noteq> SS_IDLE then Go w
      else chain (connect_to_something E w) (\<lambda>(done, w).
           if done then Go w
           else let w = report_no_connect E w in
                if w_opermode w = OP_ONESHOT then Go (snap_to_neutral w)
                else Go (idle_then_rescan w)))"

definition reconnect_to_current_ap :: "env \<Rightarrow> wst act" where
  "reconnect_to_current_ap E w =
     (let w = (if w_opermode w = OP_RESCAN then w\<lparr>w_opermode := OP_ACTIVE\<rparr> else w) in
      if find_current_ap w \<noteq> None then chain (start_connection E w) (\<lambda>(ret, w). Go w)
      else reassess_wifi_situation E w)"

definition try_some_other_ap :: "env \<Rightarrow> wst act" where
  "try_some_other_ap E w =
     (let w = clear_ap_bssid w;
          w = (if \<not> ap_fixed (w_ap w) then clear_ap_ssid w else w)
      in reassess_wifi_situation E w)"

text \<open>
  The loop of \<open>check_new_scan_results\<close>; the first \<open>got_psk_for\<close> may load the file, the rest of the
  entries see the loaded one.
\<close>

fun check_scans :: "config_env \<Rightarrow> scan list \<Rightarrow> config \<Rightarrow> (scan list \<times> config) option" where
  "check_scans e [] c = Some ([], c)"
| "check_scans e (sc # scs) c =
     (let next = (\<lambda>sc c. map_option (\<lambda>(scs, c). (sc # scs, c)) (check_scans e scs c)) in
      if sc_freq sc = 0 then next sc c
      else if has (sc_flags sc) SF_SEEN then next sc c
      else let sc = set_flag SF_SEEN sc in
           if \<not> check_wpa sc then next sc c
           else let sc = set_flag SF_GOOD sc in
                case got_psk_for e (sc_ssid sc) (int (unat (sc_slen sc))) c of
                  None \<Rightarrow> None
                | Some (got, c) \<Rightarrow> next (if got then set_flag SF_PASS sc else sc) c)"

definition check_new_scan_results :: "env \<Rightarrow> wst act" where
  "check_new_scan_results E w =
     (let (scs, n) = w_scans w in
      case check_scans (en_config E) (take n scs) (w_config w) of
        None \<Rightarrow> Wild
      | Some (scs', c) \<Rightarrow> Go (w\<lparr>w_scans := (scs' @ drop n scs, n), w_config := c\<rparr>))"

definition handle_disconnect :: "env \<Rightarrow> wst act" where
  "handle_disconnect E w =
     (let w = kill_dhcp (clr_timer w);
          w = (if w_opermode w = OP_EXITREQ then w\<lparr>w_opermode := OP_EXIT\<rparr> else w) in
      if w_opermode w = OP_EXIT then Go w
      else let w = report_disconnect E w;
               w = (if w_opermode w = OP_RESCAN then w\<lparr>w_opermode := OP_ACTIVE\<rparr> else w) in
           if w_opermode w = OP_ACTIVE then
             (if ap_success (w_ap w) then Go (rescan_current_ap E w) else try_some_other_ap E w)
           else Go (report_no_connect E (clear_ap_ssid (clear_ap_bssid w))))"

definition handle_rfrestored :: "env \<Rightarrow> wst act" where
  "handle_rfrestored E w =
     (if w_authstate w \<noteq> AS_NETDOWN then Go w
      else let w = w\<lparr>w_authstate := AS_IDLE\<rparr> in
           if w_opermode w = OP_RESCAN then Go (rescan_current_ap E w)
           else reassess_wifi_situation E w)"

section \<open>Routine scans\<close>

definition routine_bg_scan :: "env \<Rightarrow> wst \<Rightarrow> wst" where
  "routine_bg_scan E w = set_timer TIME_TO_BG_SCAN (snd (start_void_scan E w))"

definition routine_fg_scan :: "env \<Rightarrow> wst \<Rightarrow> wst" where
  "routine_fg_scan E w =
     (if \<not> ap_fixed (w_ap w) then snd (start_void_scan E (set_timer TIME_TO_FG_SCAN w))
      else if ap_freq (w_ap w) \<noteq> 0 then
        let w = set_timer 10 w;
            w = w\<lparr>w_ap := (w_ap w)\<lparr>ap_rescans := ap_rescans (w_ap w) + 1\<rparr>\<rparr>;
            w = (if ap_rescans (w_ap w) mod 6 \<noteq> 0
                 then snd (start_scan E (sint (ap_freq (w_ap w))) w)
                 else snd (start_full_scan E w)) in
        if ap_rescans (w_ap w) \<ge> 6 * 5
        then w\<lparr>w_ap := (w_ap w)\<lparr>ap_freq := 0, ap_rescans := 0\<rparr>\<rparr>
        else w
      else snd (start_full_scan E (set_timer TIME_TO_FG_SCAN w)))"

text \<open>\<open>abort_connection\<close> (wsupp_netlink.c).\<close>

definition abort_connection :: "env \<Rightarrow> wst act" where
  "abort_connection E w =
     chain (start_disconnect E w) (\<lambda>(ret, w).
     if ret \<ge> 0 then Go w else reassess_wifi_situation E w)"

section \<open>The saved state\<close>

text \<open>
  \<open>char buf[64]\<close>, filled by one \<open>read\<close>. A file that cannot be opened is left alone, one that cannot be
  read is removed.
\<close>

definition load_state :: "env \<Rightarrow> wst act" where
  "load_state E w =
     (case en_state E of
        None \<Rightarrow> Go w
      | Some None \<Rightarrow> Go (emit State_removed w)
      | Some (Some file) \<Rightarrow>
          let buf = take 64 file in
          chain (set_fixed_saved E buf (int (length buf)) w) (\<lambda>(ret, w).
          let w = (if ret < 0 then w
                   else w\<lparr>w_opermode := OP_ACTIVE, w_ap := (w_ap w)\<lparr>ap_fixed := True\<rparr>\<rparr>)
          in Go (emit State_removed w)))"

text \<open>The file is truncated and then takes what it can of the name; the result of \<open>write\<close> is not looked at.\<close>

definition save_state :: "env \<Rightarrow> wst \<Rightarrow> wst" where
  "save_state E w =
     (if \<not> ap_fixed (w_ap w) then w
      else if \<not> en_state_ok E then w
      else emit (State_written (take (en_state_wr E) (ap_name (w_ap w)))) w)"

end
