(* ===== verification/Sha1.thy ===== *)
theory Sha1 imports Prelude begin

text \<open>
  SHA-1 and HMAC-SHA-1 (crypto/sha1.c, crypto/sha1_hash.c, crypto/sha1_hmac.c): the block function
  over the five chaining words, the streaming interface with its three ways of padding the last
  block, and HMAC over it. The block function and the streaming code are shown equal to the digest of
  FIPS 180-4, stated here from the standard alone, and HMAC to the nested hash of RFC 2104.
\<close>

section \<open>The block function\<close>

type_synonym chain = "u32 \<times> u32 \<times> u32 \<times> u32 \<times> u32"

definition rol :: "u32 \<Rightarrow> nat \<Rightarrow> u32" where
  "rol x n = push_bit n x OR drop_bit (32 - n) x"

definition fa :: "u32 \<Rightarrow> u32 \<Rightarrow> u32 \<Rightarrow> u32" where
  "fa b c d = (b AND c) OR (NOT b AND d)"

definition fb :: "u32 \<Rightarrow> u32 \<Rightarrow> u32 \<Rightarrow> u32" where
  "fb b c d = b XOR c XOR d"

definition fc :: "u32 \<Rightarrow> u32 \<Rightarrow> u32 \<Rightarrow> u32" where
  "fc b c d = (b AND c) OR (b AND d) OR (c AND d)"

definition sha1_init :: chain where
  "sha1_init = (0x67452301, 0xEFCDAB89, 0x98BADCFE, 0x10325476, 0xC3D2E1F0)"

text \<open>The body of the four loops of \<open>sha1_hash\<close>, which differ in the function and the constant.\<close>

definition sha1_round :: "(u32 \<Rightarrow> u32 \<Rightarrow> u32 \<Rightarrow> u32) \<Rightarrow> u32 \<Rightarrow> u32 list \<Rightarrow> nat \<Rightarrow> chain \<Rightarrow> chain" where
  "sha1_round f k W j v =
     (let (A, B, C, D, E) = v; temp = rol A 5 + f B C D + E + W ! j + k
      in (temp, A, rol B 30, C, D))"

definition sha1_hash :: "u32 list \<Rightarrow> chain \<Rightarrow> chain" where
  "sha1_hash W H =
     (let v = fold (sha1_round fa 0x5A827999 W) [0..<20] H;
          v = fold (sha1_round fb 0x6ED9EBA1 W) [20..<40] v;
          v = fold (sha1_round fc 0x8F1BBCDC W) [40..<60] v;
          v = fold (sha1_round fb 0xCA62C1D6 W) [60..<80] v;
          (A, B, C, D, E) = v; (H0, H1, H2, H3, H4) = H
      in (H0 + A, H1 + B, H2 + C, H3 + D, H4 + E))"

definition sha1_fini :: "chain \<Rightarrow> bytes" where
  "sha1_fini H = (let (H0, H1, H2, H3, H4) = H in be32 H0 @ be32 H1 @ be32 H2 @ be32 H3 @ be32 H4)"

definition expand_word :: "u32 list \<Rightarrow> nat \<Rightarrow> u32 list" where
  "expand_word W i = W @ [rol (W ! (i - 3) XOR W ! (i - 8) XOR W ! (i - 14) XOR W ! (i - 16)) 1]"

definition sha1_load :: "bytes \<Rightarrow> u32 list" where
  "sha1_load blk =
     foldl expand_word (map (\<lambda>i. of_be32 (slice (4 * i) 4 blk)) [0..<16]) [16..<80]"

section \<open>The last block\<close>

definition sha1_put_size :: "bytes \<Rightarrow> u64 \<Rightarrow> bytes" where
  "sha1_put_size blk tot =
     (let bits = push_bit 3 tot;
          blk = memcpy_at blk (64 - 8) (be32 (ucast (drop_bit 32 bits)))
      in memcpy_at blk (64 - 4) (be32 (ucast (bits AND 0xFFFFFFFF))))"

definition sha1_load_pad1 :: "bytes \<Rightarrow> nat \<Rightarrow> u64 \<Rightarrow> u32 list" where
  "sha1_load_pad1 ptr tail tot =
     (let block = take tail ptr @ replicate (64 - tail) 0;
          block = block[tail := 0x80]
      in sha1_load (sha1_put_size block tot))"

definition sha1_load_pad2 :: "bytes \<Rightarrow> nat \<Rightarrow> u32 list" where
  "sha1_load_pad2 ptr tail =
     (let block = take tail ptr @ replicate (64 - tail) 0
      in sha1_load (block[tail := 0x80]))"

definition sha1_load_pad0 :: "u64 \<Rightarrow> u32 list" where
  "sha1_load_pad0 tot = sha1_load (sha1_put_size (replicate 64 0) tot)"

definition sha1_proc :: "bytes \<Rightarrow> chain \<Rightarrow> chain" where
  "sha1_proc blk H = sha1_hash (sha1_load blk) H"

definition sha1_last :: "bytes \<Rightarrow> nat \<Rightarrow> u64 \<Rightarrow> chain \<Rightarrow> chain" where
  "sha1_last ptr len tot H =
     (let tail = len mod 64 in
      if tail > 55 then sha1_hash (sha1_load_pad0 tot) (sha1_hash (sha1_load_pad2 ptr tail) H)
      else sha1_hash (sha1_load_pad1 ptr tail tot) H)"

section \<open>Contiguous input\<close>

text \<open>The loop over whole blocks, with what is left of the input.\<close>

function proc_blocks :: "bytes \<Rightarrow> chain \<Rightarrow> chain \<times> bytes" where
  "proc_blocks ptr H =
     (if length ptr \<ge> 64 then proc_blocks (drop 64 ptr) (sha1_proc (take 64 ptr) H) else (H, ptr))"
  by pat_completeness auto
termination
  by (relation "measure (\<lambda>(ptr, H). length ptr)") auto

declare proc_blocks.simps [simp del]

definition sha1 :: "bytes \<Rightarrow> bytes" where
  "sha1 input =
     (let (H, ptr) = proc_blocks input sha1_init
      in sha1_fini (sha1_last ptr (length ptr) (word_of_nat (length input)) H))"

definition hmac_xor :: "bytes \<Rightarrow> byte \<Rightarrow> bytes" where
  "hmac_xor pad val = map (\<lambda>b. b XOR val) pad"

definition hash_rest :: "bytes \<Rightarrow> nat \<Rightarrow> chain \<Rightarrow> chain" where
  "hash_rest input prev H =
     (let (H, ptr) = proc_blocks input H
      in sha1_last ptr (length ptr) (word_of_nat (length input + prev)) H)"

definition hmac_sha1 :: "bytes \<Rightarrow> int \<Rightarrow> bytes \<Rightarrow> bytes" where
  "hmac_sha1 key klen input =
     (let klen = (if klen < 0 then 0 else klen);
          klen = nat (if klen > 64 then 64 else klen);
          pad = hmac_xor (take klen key @ replicate (64 - klen) 0) 0x36;
          hash = sha1_fini (hash_rest input 64 (sha1_proc pad sha1_init));
          pad = hmac_xor (take klen key @ replicate (64 - klen) 0) 0x5C
      in sha1_fini (sha1_last hash 20 (64 + 20) (sha1_proc pad sha1_init)))"

section \<open>The standard's definition\<close>

text \<open>
  FIPS 180-4, written from the standard and from nothing above: the message is padded with a one bit,
  zeroes up to 448 bits modulo 512 and its length in bits as a 64-bit big-endian integer (section
  5.1.1), and cut into 512-bit blocks. A step takes its function and its constant from its number
  (4.1.1, 4.2.1), the schedule is a recursion on the number of the word (6.1.2), rotations are those of
  the word library, and integers are read and written in base 256.
\<close>

definition big_endian :: "bytes \<Rightarrow> nat" where
  "big_endian bs = foldl (\<lambda>n b. 256 * n + unat b) 0 bs"

definition octets :: "nat \<Rightarrow> nat \<Rightarrow> bytes" where
  "octets k n = map (\<lambda>i. word_of_nat (n div 256 ^ (k - 1 - i))) [0..<k]"

function blocks64 :: "bytes \<Rightarrow> bytes list" where
  "blocks64 m = (if length m < 64 then [] else take 64 m # blocks64 (drop 64 m))"
  by pat_completeness auto
termination
  by (relation "measure length") auto

declare blocks64.simps [simp del]

definition fips_pad :: "nat \<Rightarrow> bytes" where
  "fips_pad len = 0x80 # replicate ((119 - len mod 64) mod 64) 0 @ octets 8 (8 * len)"

definition fips_Ch :: "u32 \<Rightarrow> u32 \<Rightarrow> u32 \<Rightarrow> u32" where
  "fips_Ch x y z = (x AND y) XOR (NOT x AND z)"

definition fips_Parity :: "u32 \<Rightarrow> u32 \<Rightarrow> u32 \<Rightarrow> u32" where
  "fips_Parity x y z = x XOR y XOR z"

definition fips_Maj :: "u32 \<Rightarrow> u32 \<Rightarrow> u32 \<Rightarrow> u32" where
  "fips_Maj x y z = (x AND y) XOR (x AND z) XOR (y AND z)"

definition fips_f :: "nat \<Rightarrow> u32 \<Rightarrow> u32 \<Rightarrow> u32 \<Rightarrow> u32" where
  "fips_f t = (if t \<le> 19 then fips_Ch else if t \<le> 39 then fips_Parity
               else if t \<le> 59 then fips_Maj else fips_Parity)"

definition fips_K :: "nat \<Rightarrow> u32" where
  "fips_K t = (if t \<le> 19 then 0x5a827999 else if t \<le> 39 then 0x6ed9eba1
               else if t \<le> 59 then 0x8f1bbcdc else 0xca62c1d6)"

definition fips_H0 :: "u32 list" where
  "fips_H0 = [0x67452301, 0xefcdab89, 0x98badcfe, 0x10325476, 0xc3d2e1f0]"

fun fips_W :: "bytes \<Rightarrow> nat \<Rightarrow> u32" where
  "fips_W M t =
     (if t \<le> 15 then word_of_nat (big_endian (take 4 (drop (4 * t) M)))
      else word_rotl 1 (fips_W M (t - 3) XOR fips_W M (t - 8) XOR fips_W M (t - 14) XOR fips_W M (t - 16)))"

declare fips_W.simps [simp del]

fun fips_step :: "(nat \<Rightarrow> u32) \<Rightarrow> nat \<Rightarrow> u32 list \<Rightarrow> u32 list" where
  "fips_step W t [a, b, c, d, e] =
     [word_rotl 5 a + fips_f t b c d + e + fips_K t + W t, a, word_rotl 30 b, c, d]"
| "fips_step W t v = v"

definition fips_block :: "bytes \<Rightarrow> u32 list \<Rightarrow> u32 list" where
  "fips_block M H = map2 (+) (fold (fips_step (fips_W M)) [0..<80] H) H"

definition sha1_spec :: "bytes \<Rightarrow> bytes" where
  "sha1_spec m =
     concat (map (\<lambda>h. octets 4 (unat h)) (fold fips_block (blocks64 (m @ fips_pad (length m))) fips_H0))"

definition hmac_spec :: "bytes \<Rightarrow> bytes \<Rightarrow> bytes" where
  "hmac_spec key m =
     (let k = key @ replicate (64 - length key) 0
      in sha1_spec (map (\<lambda>b. b XOR 0x5C) k @ sha1_spec (map (\<lambda>b. b XOR 0x36) k @ m)))"

section \<open>The block function is the standard's\<close>

text \<open>The size and the padding as the code stores them.\<close>

definition size_field :: "u64 \<Rightarrow> bytes" where
  "size_field tot =
     be32 (ucast (drop_bit 32 (push_bit 3 tot))) @ be32 (ucast (push_bit 3 tot AND 0xFFFFFFFF))"

definition padding :: "nat \<Rightarrow> u64 \<Rightarrow> bytes" where
  "padding len tot = 0x80 # replicate ((119 - len mod 64) mod 64) 0 @ size_field tot"

lemma Ch_fa: "fips_Ch = fa"
  by (intro ext bit_word_eqI) (auto simp: fips_Ch_def fa_def bit_simps)

lemma Parity_fb: "fips_Parity = fb"
  by (intro ext) (simp add: fips_Parity_def fb_def)

lemma Maj_fc: "fips_Maj = fc"
  by (intro ext bit_word_eqI) (auto simp: fips_Maj_def fc_def bit_simps)


lemma rol_rotl:
  assumes "0 < n" "n < 32"
  shows "rol x n = word_rotl n x"
proof (rule bit_word_eqI)
  fix k assume k: "k < LENGTH(32)"
  have "bit (word_rotl n x) k = bit x ((k + (32 - n)) mod 32)"
    using assms k by (simp add: bit_word_rotl_iff)
  also have "\<dots> = bit (rol x n) k"
  proof (cases "k < n")
    case True
    then have "(k + (32 - n)) mod 32 = 32 - n + k" using assms by simp
    then show ?thesis using True assms k by (simp add: rol_def bit_simps)
  next
    case False
    then have "k + (32 - n) = (k - n) + 32" using assms by simp
    then have "(k + (32 - n)) mod 32 = (k - n) mod 32" by (simp only: mod_add_self2)
    then have "(k + (32 - n)) mod 32 = k - n" using k by simp
    then show ?thesis using False assms k by (auto simp: rol_def bit_simps dest: bit_imp_le_length)
  qed
  finally show "bit (rol x n) k = bit (word_rotl n x) k" ..
qed

lemma octets4: "octets 4 (unat w) = be32 w"
proof -
  have "(word_of_nat (unat w div 2 ^ k) :: byte) = ucast (drop_bit k w)" for k
    by (rule bit_word_eqI) (simp add: bit_simps flip: drop_bit_eq_div)
  from this [of 0] this [of 8] this [of 16] this [of 24] show ?thesis
    by (simp add: octets_def be32_def upt_rec)
qed

lemma word_big_endian: "word_of_nat (big_endian [a, b, c, d]) = of_be32 [a, b, c, d]"
proof -
  have "of_be32 [a, b, c, d]
      = ((push_bit 24 (ucast a) + push_bit 16 (ucast b)) + push_bit 8 (ucast c)) + ucast d"
    by (subst disjunctive_add, force simp: bit_simps)+ (simp add: or.assoc)
  then show ?thesis
    by (simp add: big_endian_def push_bit_eq_mult algebra_simps)
qed


lemma four_bytes:
  assumes "length bs = 4"
  obtains a b c d where "bs = [a, b, c, d]"
  using assms by (auto simp: length_Suc_conv numeral_eq_Suc)

lemma octet_of_count:
  assumes "j \<le> 56"
  shows "(word_of_nat (8 * n div 2 ^ j) :: byte) = ucast (drop_bit j (push_bit 3 (word_of_nat n :: u64)))"
proof -
  have "8 * n div 2 ^ j = drop_bit j (push_bit 3 n)"
    by (simp add: drop_bit_eq_div push_bit_eq_mult mult.commute)
  with assms show ?thesis
    by (auto simp: bit_simps intro!: bit_word_eqI)
qed

lemma size_field_octets:
  "size_field tot = map (\<lambda>j. ucast (drop_bit j (push_bit 3 tot))) [56, 48, 40, 32, 24, 16, 8, 0]"
proof -
  have m32: "bit (4294967295 :: int) i = (i < 32)" for i
    using bit_mask_iff [of 32 i, where 'a = int] by (auto simp: mask_eq_exp_minus_1)
  show ?thesis
    by (auto simp: size_field_def be32_def m32 bit_simps intro!: bit_word_eqI)
qed

lemma octets8: "octets 8 (8 * n) = size_field (word_of_nat n)"
  using octet_of_count [of 56 n] octet_of_count [of 48 n] octet_of_count [of 40 n] octet_of_count [of 32 n]
    octet_of_count [of 24 n] octet_of_count [of 16 n] octet_of_count [of 8 n] octet_of_count [of 0 n]
  by (simp add: octets_def size_field_octets upt_rec)

lemma fips_pad_padding: "fips_pad len = padding len (word_of_nat len)"
  by (simp add: fips_pad_def padding_def octets8)

definition chain_list :: "chain \<Rightarrow> u32 list" where
  "chain_list v = (let (a, b, c, d, e) = v in [a, b, c, d, e])"

lemma fini_octets: "concat (map (\<lambda>h. octets 4 (unat h)) (chain_list H)) = sha1_fini H"
  by (cases H) (simp add: chain_list_def sha1_fini_def octets4)

lemma expand_words:
  assumes "length blk = 64" "n \<le> 64"
  shows "foldl expand_word (map (\<lambda>i. of_be32 (slice (4 * i) 4 blk)) [0..<16]) [16..<16 + n] = map (fips_W blk) [0..<16 + n]"
  using assms(2)
proof (induction n)
  case 0
  have "of_be32 (slice (4 * i) 4 blk) = fips_W blk i" if "i < 16" for i
  proof -
    have "length (take 4 (drop (4 * i) blk)) = 4" using that assms(1) by simp
    then obtain a b c d where "take 4 (drop (4 * i) blk) = [a, b, c, d]"
      by (rule four_bytes)
    with that show ?thesis
      by (subst fips_W.simps) (simp add: slice_def word_big_endian)
  qed
  then show ?case by simp
next
  case (Suc n)
  have up: "[m..<16 + Suc n] = [m..<16 + n] @ [16 + n]" if "m \<le> 16" for m
    using that upt_Suc_append [of m "16 + n"] by (simp del: upt_Suc)
  show ?case
    using Suc by (simp only: up foldl_append map_append) (simp add: expand_word_def fips_W.simps [of blk "16 + n"] rol_rotl)
qed

lemma fips_steps:
  assumes "\<And>j. j \<in> set js \<Longrightarrow> f = fips_f j \<and> k = fips_K j \<and> W ! j = fips_W M j"
  shows "fold (fips_step (fips_W M)) js (chain_list v) = chain_list (fold (sha1_round f k W) js v)"
  using assms
proof (induction js arbitrary: v)
  case (Cons j js)
  have "fips_step (fips_W M) j (chain_list v) = chain_list (sha1_round f k W j v)"
    using Cons.prems [of j] by (cases v) (simp add: chain_list_def sha1_round_def rol_rotl)
  with Cons show ?case by simp
qed simp

lemma upt_80: "[0..<80] = [0..<20] @ [20..<40] @ [40..<60] @ [60..<80]"
  using upt_add_eq_append [of 0 20 60] upt_add_eq_append [of 20 40 40] upt_add_eq_append [of 40 60 20] by (simp del: upt_Suc)

lemma fips_block_proc:
  assumes "length blk = 64"
  shows "fips_block blk (chain_list H) = chain_list (sha1_proc blk H)"
proof -
  let ?W = "sha1_load blk"
  have W: "?W ! j = fips_W blk j" if "j < 80" for j
    using that expand_words [OF assms, of 64] by (simp add: sha1_load_def)
  have split: "[0..<80] = [0..<20] @ [20..<40] @ [40..<60] @ [60..<80]"
    by (rule upt_80)
  have 1: "fold (fips_step (fips_W blk)) [0..<20] (chain_list v)
      = chain_list (fold (sha1_round fa 0x5A827999 ?W) [0..<20] v)" for v
    by (rule fips_steps) (auto simp: fips_f_def fips_K_def Ch_fa W)
  have 2: "fold (fips_step (fips_W blk)) [20..<40] (chain_list v)
      = chain_list (fold (sha1_round fb 0x6ED9EBA1 ?W) [20..<40] v)" for v
    by (rule fips_steps) (auto simp: fips_f_def fips_K_def Parity_fb W)
  have 3: "fold (fips_step (fips_W blk)) [40..<60] (chain_list v)
      = chain_list (fold (sha1_round fc 0x8F1BBCDC ?W) [40..<60] v)" for v
    by (rule fips_steps) (auto simp: fips_f_def fips_K_def Maj_fc W)
  have 4: "fold (fips_step (fips_W blk)) [60..<80] (chain_list v)
      = chain_list (fold (sha1_round fb 0xCA62C1D6 ?W) [60..<80] v)" for v
    by (rule fips_steps) (auto simp: fips_f_def fips_K_def Parity_fb W)
  have add: "map2 (+) (chain_list v) (chain_list H) = chain_list (case v of (A, B, C, D, E) \<Rightarrow> case H of
      (H0, H1, H2, H3, H4) \<Rightarrow> (H0 + A, H1 + B, H2 + C, H3 + D, H4 + E))" for v
    by (cases v; cases H) (simp add: chain_list_def add.commute)
  show ?thesis
    by (simp only: fips_block_def split fold_append o_apply 1 2 3 4 add sha1_proc_def sha1_hash_def Let_def)
qed

lemma blocks64_length: "b \<in> set (blocks64 m) \<Longrightarrow> length b = 64"
  by (induction m rule: blocks64.induct) (subst (asm) (2) blocks64.simps, auto split: if_splits)

lemma fold_fips_block:
  "(\<And>b. b \<in> set bs \<Longrightarrow> length b = 64) \<Longrightarrow> fold fips_block bs (chain_list H) = chain_list (fold sha1_proc bs H)"
  by (induction bs arbitrary: H) (simp_all add: fips_block_proc)

lemma sha1_spec_fold:
  "sha1_spec m = sha1_fini (fold sha1_proc (blocks64 (m @ padding (length m) (word_of_nat (length m)))) sha1_init)"
proof -
  have H: "fips_H0 = chain_list sha1_init"
    by (simp add: fips_H0_def chain_list_def sha1_init_def)
  show ?thesis
    by (simp only: H sha1_spec_def fips_pad_padding fold_fips_block [OF blocks64_length] fini_octets)
qed

section \<open>The streaming code meets the definition\<close>

lemma length_sha1_fini [simp]: "length (sha1_fini H) = 20"
  by (cases H) (simp add: sha1_fini_def)

lemma length_size_field [simp]: "length (size_field tot) = 8"
  by (simp add: size_field_def)

lemma blocks64_Nil [simp]: "blocks64 [] = []"
  by (subst blocks64.simps) simp

lemma blocks64_append [simp]:
  "length b = 64 \<Longrightarrow> blocks64 (b @ m) = b # blocks64 m"
  by (subst blocks64.simps) simp

lemma blocks64_one [simp]: "length b = 64 \<Longrightarrow> blocks64 b = [b]"
  using blocks64_append [of b "[]"] by simp

lemma put_size_whole: "length b = 56 \<Longrightarrow> length z = 8 \<Longrightarrow> sha1_put_size (b @ z) tot = b @ size_field tot"
  by (simp add: sha1_put_size_def size_field_def memcpy_at_def Let_def)

lemma replicate_split: "m \<le> n \<Longrightarrow> replicate n x = replicate m x @ replicate (n - m) x"
  by (simp flip: replicate_add)

lemma pad_gap:
  assumes "(t :: nat) \<le> 55"
  shows "(119 - t) mod 64 = 55 - t"
proof -
  have "119 - t = 64 + (55 - t)" using assms by linarith
  also have "(64 + (55 - t)) mod 64 = (55 - t) mod 64" by (rule mod_add_self1)
  also have "\<dots> = 55 - t" by (rule mod_less) linarith
  finally show ?thesis .
qed

lemma pad1_block:
  assumes "length ptr = tail" and "tail \<le> 55"
  shows "sha1_load_pad1 ptr tail tot = sha1_load (ptr @ padding tail tot)"
proof -
  have z: "replicate (63 - tail) (0 :: byte) = replicate (55 - tail) 0 @ replicate 8 0"
    using assms(2) replicate_split [of "55 - tail" "63 - tail" "0 :: byte"] by simp
  have "(ptr @ replicate (64 - tail) 0)[tail := 0x80] = ptr @ 0x80 # replicate (63 - tail) (0 :: byte)"
    using assms by (cases "64 - tail") (simp_all add: list_update_append)
  also have "\<dots> = (ptr @ 0x80 # replicate (55 - tail) 0) @ replicate 8 0"
    by (simp add: z)
  finally have blk: "(ptr @ replicate (64 - tail) 0)[tail := 0x80] = \<dots>" .
  have "(119 - tail mod 64) mod 64 = 55 - tail"
    using assms(2) pad_gap [of tail] by simp
  then show ?thesis
    unfolding sha1_load_pad1_def Let_def
    using assms by (simp add: blk [simplified] put_size_whole [of "ptr @ 0x80 # replicate (55 - tail) 0", simplified] padding_def)
qed

lemma pad2_block:
  assumes "length ptr = tail" and "tail < 64"
  shows "sha1_load_pad2 ptr tail = sha1_load (ptr @ 0x80 # replicate (63 - tail) 0)"
proof -
  have "(ptr @ replicate (64 - tail) 0)[tail := 0x80] = ptr @ 0x80 # replicate (63 - tail) (0 :: byte)"
    using assms by (cases "64 - tail") (simp_all add: list_update_append)
  then show ?thesis using assms by (simp add: sha1_load_pad2_def)
qed

lemma pad0_block: "sha1_load_pad0 tot = sha1_load (replicate 56 0 @ size_field tot)"
  using put_size_whole [of "replicate 56 0" "replicate 8 0" tot]
  by (simp add: sha1_load_pad0_def flip: replicate_add)

lemma sha1_last_blocks:
  assumes "length ptr < 64"
  shows "sha1_last ptr (length ptr) tot H
     = fold sha1_proc (blocks64 (ptr @ padding (length ptr) tot)) H"
proof (cases "length ptr > 55")
  case True
  let ?t = "length ptr"
  have "(119 - ?t mod 64) mod 64 = 63 - ?t + 56"
    using True assms by (simp add: mod_if)
  then have "ptr @ padding ?t tot
      = (ptr @ 0x80 # replicate (63 - ?t) 0) @ (replicate 56 0 @ size_field tot)"
    by (simp add: padding_def replicate_add)
  moreover have "length (ptr @ 0x80 # replicate (63 - ?t) 0) = 64" using assms by simp
  ultimately have "blocks64 (ptr @ padding ?t tot)
      = [ptr @ 0x80 # replicate (63 - ?t) 0, replicate 56 0 @ size_field tot]"
    by (simp only: blocks64_append) simp
  with True assms show ?thesis
    by (simp add: sha1_last_def Let_def pad2_block pad0_block sha1_proc_def)
next
  case False
  then have "length (ptr @ padding (length ptr) tot) = 64"
    using pad_gap [of "length ptr"] by (simp add: padding_def)
  with False assms show ?thesis
    by (simp add: sha1_last_def Let_def pad1_block sha1_proc_def)
qed

lemma hash_tail_blocks:
  "(let (H', ptr) = proc_blocks m H in sha1_last ptr (length ptr) tot H')
     = fold sha1_proc (blocks64 (m @ padding (length m) tot)) H"
proof (induction m H rule: proc_blocks.induct)
  case (1 m H)
  show ?case
  proof (cases "length m \<ge> 64")
    case True
    then have split: "blocks64 (m @ padding (length m) tot)
        = take 64 m # blocks64 (drop 64 m @ padding (length m) tot)"
      by (subst blocks64.simps) simp
    have "(length m - 64) mod 64 = length m mod 64"
      using True by (simp add: le_mod_geq)
    then have "padding (length (drop 64 m)) tot = padding (length m) tot"
      by (simp add: padding_def)
    with True 1 split show ?thesis by (simp add: proc_blocks.simps [of m])
  next
    case False
    then show ?thesis by (simp add: proc_blocks.simps [of m] sha1_last_blocks)
  qed
qed

text \<open>
  C29. For every input \<open>sha1\<close> computes the digest of FIPS 180-4 as \<open>sha1_spec\<close> writes it out from the
  standard: padding, message schedule with its rotation, functions, constants and initial value are the
  standard's own there, not the code's. (The standard's digest of "abc" is \<open>sha1_abc\<close> below.)
\<close>

theorem sha1_meets_spec: "sha1 m = sha1_spec m"
proof -
  have "sha1 m = sha1_fini (let (H', ptr) = proc_blocks m sha1_init
      in sha1_last ptr (length ptr) (word_of_nat (length m)) H')"
    by (simp add: sha1_def Let_def case_prod_beta)
  then show ?thesis by (simp only: hash_tail_blocks sha1_spec_fold)
qed

lemma hash_rest_blocks:
  "hash_rest m prev H = fold sha1_proc (blocks64 (m @ padding (length m) (word_of_nat (length m + prev)))) H"
  unfolding hash_rest_def by (rule hash_tail_blocks)

lemma prefix_block:
  assumes "length b = 64"
  shows "sha1_spec (b @ m) = sha1_fini (fold sha1_proc (blocks64 (m @ padding (length m) (word_of_nat (length m + 64)))) (sha1_proc b sha1_init))"
proof -
  have "padding (length (b @ m)) tot = padding (length m) tot" for tot
    using assms by (simp add: padding_def)
  with assms show ?thesis by (simp add: sha1_spec_fold add.commute)
qed

text \<open>
  \<open>hmac_sha1\<close>, which never concatenates pad and message, computes the HMAC of RFC 2104 for every
  message and every key of at most one block (longer keys are cut, see \<open>hmac_key_cut\<close>).
\<close>

lemma hmac_meets_spec:
  assumes "length key \<le> 64"
  shows "hmac_sha1 key (int (length key)) m = hmac_spec key m"
proof -
  let ?k = "key @ replicate (64 - length key) 0"
  have len: "length (map f ?k) = 64" for f :: "byte \<Rightarrow> byte"
    using assms by simp
  have inner: "sha1_spec (map (\<lambda>b. b XOR 0x36) ?k @ m)
      = sha1_fini (hash_rest m 64 (sha1_proc (map (\<lambda>b. b XOR 0x36) ?k) sha1_init))"
    by (simp only: prefix_block [OF len] hash_rest_blocks)
  have outer: "sha1_spec (map (\<lambda>b. b XOR 0x5C) ?k @ h)
      = sha1_fini (sha1_last h 20 (64 + 20) (sha1_proc (map (\<lambda>b. b XOR 0x5C) ?k) sha1_init))"
    if "length h = 20" for h
    using sha1_last_blocks [of h "84" ] that by (simp only: prefix_block [OF len]) simp
  have "hmac_sha1 key (int (length key)) m
      = sha1_fini (sha1_last (sha1_spec (map (\<lambda>b. b XOR 0x36) ?k @ m)) 20 (64 + 20)
          (sha1_proc (map (\<lambda>b. b XOR 0x5C) ?k) sha1_init))"
    using assms by (simp add: hmac_sha1_def hmac_xor_def Let_def inner [simplified])
  also have "\<dots> = hmac_spec key m"
    unfolding hmac_spec_def Let_def by (rule outer [symmetric]) (simp add: sha1_spec_fold)
  finally show ?thesis .
qed

text \<open>A key longer than a block is cut to its first 64 bytes, where RFC 2104 hashes it.\<close>

lemma hmac_key_cut: "64 \<le> length key \<Longrightarrow> hmac_sha1 key (int (length key)) m = hmac_sha1 (take 64 key) 64 m"
  by (simp add: hmac_sha1_def Let_def)

lemma length_hmac [simp]: "length (hmac_sha1 key klen m) = 20"
  by (simp add: hmac_sha1_def Let_def)

lemma length_sha1_spec [simp]: "length (sha1_spec m) = 20"
  by (simp add: sha1_spec_fold)

lemma length_hmac_spec [simp]: "length (hmac_spec P m) = 20"
  by (simp add: hmac_spec_def Let_def)

section \<open>A published digest\<close>

text \<open>The message "abc" of FIPS 180: its block, the eighty words of its schedule and the chaining words after each twenty steps.\<close>

definition abc_block :: bytes where
  "abc_block = [0x61, 0x62, 0x63, 0x80] @ replicate 59 0 @ [24]"

definition abc_words :: "u32 list" where
  "abc_words =
     [0x61626380, 0x00000000, 0x00000000, 0x00000000, 0x00000000, 0x00000000, 0x00000000, 0x00000000,
      0x00000000, 0x00000000, 0x00000000, 0x00000000, 0x00000000, 0x00000000, 0x00000000, 0x00000018,
      0xc2c4c700, 0x00000000, 0x00000030, 0x85898e01, 0x00000000, 0x00000060, 0x0b131c03, 0x00000030,
      0x85898ec1, 0x16263806, 0x00000000, 0x00000180, 0x2c4c700c, 0x000000f0, 0x93afb507, 0x5898e048,
      0x8e9a9202, 0x00000600, 0xb131c0f0, 0x16263bc6, 0x4ebed41e, 0x626380a1, 0x16263806, 0x000018c0,
      0xd2e138c4, 0x00000f00, 0x3afb5079, 0x898e04e5, 0xe2ba3c2b, 0x000060c0, 0x053a37cd, 0x74458547,
      0xda9415ed, 0x26380a16, 0x626383a1, 0x4ebf54de, 0x3835b44b, 0x0000f600, 0x1e84c7a3, 0x98e04d98,
      0x651d16a0, 0x62658ca1, 0x458544d6, 0x44584cb7, 0x7ba06619, 0x6380aea2, 0x0ae55269, 0x627b49a1,
      0x7cd45c9d, 0x000f0000, 0xfb50753a, 0xec6765e8, 0xba3c2be2, 0x0060c000, 0x3a37cd05, 0x458546f4,
      0xb8599dd6, 0x380a1a26, 0x01e02203, 0xe7cc3456, 0xe6e60b69, 0x00f60a00, 0x5795ef4f, 0x822e0879]"

lemma replicate_pred_numeral: "replicate (numeral k) x = x # replicate (pred_numeral k) x"
  by (simp add: numeral_eq_Suc)

lemma upt_16: "[0..<16] = [0, 1, 2, 3, 4, 5, 6, 7, 8, 9, 10, 11, 12, 13, 14, 15]"
  by (simp add: upt_rec)

lemma upt_20: "[0..<20] = [0, 1] @ [2..<20]"
  by (simp add: upt_rec)

lemma abc_schedule: "sha1_load abc_block = abc_words"
proof -
  have "map (\<lambda>i. of_be32 (slice (4 * i) 4 abc_block)) [0..<16] = [0x61626380, 0, 0, 0, 0, 0, 0, 0, 0, 0, 0, 0, 0, 0, 0, 0x18]"
    by (simp add: abc_block_def slice_def replicate_pred_numeral upt_16)
  then show ?thesis
    by (simp add: sha1_load_def expand_word_def rol_def abc_words_def)
qed

lemma abc_rounds:
  "fold (sha1_round fa 0x5A827999 abc_words) [0..<20] sha1_init = (0xfd9e1d7d, 0xdc64901d, 0x20aa99ca, 0xd3a49608, 0xc82f758b)"
  "fold (sha1_round fb 0x6ED9EBA1 abc_words) [20..<40] (0xfd9e1d7d, 0xdc64901d, 0x20aa99ca, 0xd3a49608, 0xc82f758b)
     = (0x32de1cba, 0x4c986405, 0xf718e5cf, 0x03d447f6, 0xf72eec32)"
  "fold (sha1_round fc 0x8F1BBCDC abc_words) [40..<60] (0x32de1cba, 0x4c986405, 0xf718e5cf, 0x03d447f6, 0xf72eec32)
     = (0x3f52de5a, 0x09d785fd, 0x3498bfd4, 0xf211824f, 0xd79915ab)"
  "fold (sha1_round fb 0xCA62C1D6 abc_words) [60..<80] (0x3f52de5a, 0x09d785fd, 0x3498bfd4, 0xf211824f, 0xd79915ab)
     = (0x42541b35, 0x5738d5e1, 0x21834873, 0x681e6df6, 0xd8fdf6ad)"
  by (simp_all add: sha1_round_def rol_def sha1_init_def fa_def fb_def fc_def abc_words_def upt_20)

lemma sha1_abc:
  "sha1 [0x61, 0x62, 0x63]
     = [0xa9, 0x99, 0x3e, 0x36, 0x47, 0x06, 0x81, 0x6a, 0xba, 0x3e, 0x25, 0x71, 0x78, 0x50, 0xc2, 0x6c, 0x9c, 0xd0, 0xd8, 0x9d]"
proof -
  have "sha1_load_pad1 [0x61, 0x62, 0x63] 3 3 = sha1_load abc_block"
    by (simp add: sha1_load_pad1_def sha1_put_size_def memcpy_at_def be32_def abc_block_def replicate_pred_numeral)
  then have "sha1 [0x61, 0x62, 0x63] = sha1_fini (sha1_hash abc_words sha1_init)"
    by (simp add: sha1_def proc_blocks.simps sha1_last_def abc_schedule)
  also have "\<dots> = sha1_fini (0xa9993e36, 0x4706816a, 0xba3e2571, 0x7850c26c, 0x9cd0d89d)"
    by (simp only: sha1_hash_def abc_rounds Let_def) (simp add: sha1_init_def sha1_fini_def be32_def)
  finally show ?thesis by (simp add: sha1_fini_def be32_def)
qed

end
