(* ===== verification/Aes128.thy ===== *)
theory Aes128 imports Prelude begin

text \<open>
  AES-128 (crypto/aes128.c): the tables, the key schedule and the two directions of the cipher,
  over a state of four 32-bit columns as the code keeps it. The main result is that decryption
  inverts encryption under every key schedule.
\<close>

section \<open>Tables\<close>

definition sbox :: bytes where
  "sbox = [
   0x63, 0x7c, 0x77, 0x7b, 0xf2, 0x6b, 0x6f, 0xc5, 0x30, 0x01, 0x67, 0x2b, 0xfe, 0xd7, 0xab, 0x76,
   0xca, 0x82, 0xc9, 0x7d, 0xfa, 0x59, 0x47, 0xf0, 0xad, 0xd4, 0xa2, 0xaf, 0x9c, 0xa4, 0x72, 0xc0,
   0xb7, 0xfd, 0x93, 0x26, 0x36, 0x3f, 0xf7, 0xcc, 0x34, 0xa5, 0xe5, 0xf1, 0x71, 0xd8, 0x31, 0x15,
   0x04, 0xc7, 0x23, 0xc3, 0x18, 0x96, 0x05, 0x9a, 0x07, 0x12, 0x80, 0xe2, 0xeb, 0x27, 0xb2, 0x75,
   0x09, 0x83, 0x2c, 0x1a, 0x1b, 0x6e, 0x5a, 0xa0, 0x52, 0x3b, 0xd6, 0xb3, 0x29, 0xe3, 0x2f, 0x84,
   0x53, 0xd1, 0x00, 0xed, 0x20, 0xfc, 0xb1, 0x5b, 0x6a, 0xcb, 0xbe, 0x39, 0x4a, 0x4c, 0x58, 0xcf,
   0xd0, 0xef, 0xaa, 0xfb, 0x43, 0x4d, 0x33, 0x85, 0x45, 0xf9, 0x02, 0x7f, 0x50, 0x3c, 0x9f, 0xa8,
   0x51, 0xa3, 0x40, 0x8f, 0x92, 0x9d, 0x38, 0xf5, 0xbc, 0xb6, 0xda, 0x21, 0x10, 0xff, 0xf3, 0xd2,
   0xcd, 0x0c, 0x13, 0xec, 0x5f, 0x97, 0x44, 0x17, 0xc4, 0xa7, 0x7e, 0x3d, 0x64, 0x5d, 0x19, 0x73,
   0x60, 0x81, 0x4f, 0xdc, 0x22, 0x2a, 0x90, 0x88, 0x46, 0xee, 0xb8, 0x14, 0xde, 0x5e, 0x0b, 0xdb,
   0xe0, 0x32, 0x3a, 0x0a, 0x49, 0x06, 0x24, 0x5c, 0xc2, 0xd3, 0xac, 0x62, 0x91, 0x95, 0xe4, 0x79,
   0xe7, 0xc8, 0x37, 0x6d, 0x8d, 0xd5, 0x4e, 0xa9, 0x6c, 0x56, 0xf4, 0xea, 0x65, 0x7a, 0xae, 0x08,
   0xba, 0x78, 0x25, 0x2e, 0x1c, 0xa6, 0xb4, 0xc6, 0xe8, 0xdd, 0x74, 0x1f, 0x4b, 0xbd, 0x8b, 0x8a,
   0x70, 0x3e, 0xb5, 0x66, 0x48, 0x03, 0xf6, 0x0e, 0x61, 0x35, 0x57, 0xb9, 0x86, 0xc1, 0x1d, 0x9e,
   0xe1, 0xf8, 0x98, 0x11, 0x69, 0xd9, 0x8e, 0x94, 0x9b, 0x1e, 0x87, 0xe9, 0xce, 0x55, 0x28, 0xdf,
   0x8c, 0xa1, 0x89, 0x0d, 0xbf, 0xe6, 0x42, 0x68, 0x41, 0x99, 0x2d, 0x0f, 0xb0, 0x54, 0xbb, 0x16]"

definition rbox :: bytes where
  "rbox = [
   0x52, 0x09, 0x6a, 0xd5, 0x30, 0x36, 0xa5, 0x38, 0xbf, 0x40, 0xa3, 0x9e, 0x81, 0xf3, 0xd7, 0xfb,
   0x7c, 0xe3, 0x39, 0x82, 0x9b, 0x2f, 0xff, 0x87, 0x34, 0x8e, 0x43, 0x44, 0xc4, 0xde, 0xe9, 0xcb,
   0x54, 0x7b, 0x94, 0x32, 0xa6, 0xc2, 0x23, 0x3d, 0xee, 0x4c, 0x95, 0x0b, 0x42, 0xfa, 0xc3, 0x4e,
   0x08, 0x2e, 0xa1, 0x66, 0x28, 0xd9, 0x24, 0xb2, 0x76, 0x5b, 0xa2, 0x49, 0x6d, 0x8b, 0xd1, 0x25,
   0x72, 0xf8, 0xf6, 0x64, 0x86, 0x68, 0x98, 0x16, 0xd4, 0xa4, 0x5c, 0xcc, 0x5d, 0x65, 0xb6, 0x92,
   0x6c, 0x70, 0x48, 0x50, 0xfd, 0xed, 0xb9, 0xda, 0x5e, 0x15, 0x46, 0x57, 0xa7, 0x8d, 0x9d, 0x84,
   0x90, 0xd8, 0xab, 0x00, 0x8c, 0xbc, 0xd3, 0x0a, 0xf7, 0xe4, 0x58, 0x05, 0xb8, 0xb3, 0x45, 0x06,
   0xd0, 0x2c, 0x1e, 0x8f, 0xca, 0x3f, 0x0f, 0x02, 0xc1, 0xaf, 0xbd, 0x03, 0x01, 0x13, 0x8a, 0x6b,
   0x3a, 0x91, 0x11, 0x41, 0x4f, 0x67, 0xdc, 0xea, 0x97, 0xf2, 0xcf, 0xce, 0xf0, 0xb4, 0xe6, 0x73,
   0x96, 0xac, 0x74, 0x22, 0xe7, 0xad, 0x35, 0x85, 0xe2, 0xf9, 0x37, 0xe8, 0x1c, 0x75, 0xdf, 0x6e,
   0x47, 0xf1, 0x1a, 0x71, 0x1d, 0x29, 0xc5, 0x89, 0x6f, 0xb7, 0x62, 0x0e, 0xaa, 0x18, 0xbe, 0x1b,
   0xfc, 0x56, 0x3e, 0x4b, 0xc6, 0xd2, 0x79, 0x20, 0x9a, 0xdb, 0xc0, 0xfe, 0x78, 0xcd, 0x5a, 0xf4,
   0x1f, 0xdd, 0xa8, 0x33, 0x88, 0x07, 0xc7, 0x31, 0xb1, 0x12, 0x10, 0x59, 0x27, 0x80, 0xec, 0x5f,
   0x60, 0x51, 0x7f, 0xa9, 0x19, 0xb5, 0x4a, 0x0d, 0x2d, 0xe5, 0x7a, 0x9f, 0x93, 0xc9, 0x9c, 0xef,
   0xa0, 0xe0, 0x3b, 0x4d, 0xae, 0x2a, 0xf5, 0xb0, 0xc8, 0xeb, 0xbb, 0x3c, 0x83, 0x53, 0x99, 0x61,
   0x17, 0x2b, 0x04, 0x7e, 0xba, 0x77, 0xd6, 0x26, 0xe1, 0x69, 0x14, 0x63, 0x55, 0x21, 0x0c, 0x7d]"

definition rcon :: bytes where
  "rcon = [0x8d, 0x01, 0x02, 0x04, 0x08, 0x10, 0x20, 0x40, 0x80, 0x1b, 0x36]"

section \<open>Words and bytes\<close>

definition B0 :: "u32 \<Rightarrow> byte" where "B0 w = ucast (drop_bit 24 w)"
definition B1 :: "u32 \<Rightarrow> byte" where "B1 w = ucast (drop_bit 16 w)"
definition B2 :: "u32 \<Rightarrow> byte" where "B2 w = ucast (drop_bit 8 w)"
definition B3 :: "u32 \<Rightarrow> byte" where "B3 w = ucast w"

definition W4 :: "byte \<Rightarrow> byte \<Rightarrow> byte \<Rightarrow> byte \<Rightarrow> u32" where
  "W4 a b c d =
     push_bit 24 (ucast a) OR push_bit 16 (ucast b) OR push_bit 8 (ucast c) OR ucast d"

definition rotword :: "u32 \<Rightarrow> u32" where
  "rotword x = push_bit 8 x OR (drop_bit 24 x AND 0xFF)"

definition subword :: "u32 \<Rightarrow> bytes \<Rightarrow> u32" where
  "subword x box = W4 (box ! unat (B0 x)) (box ! unat (B1 x)) (box ! unat (B2 x)) (box ! unat (B3 x))"

definition xtime :: "byte \<Rightarrow> byte" where
  "xtime x = push_bit 1 x XOR ((drop_bit 7 x AND 1) * 0x1b)"

text \<open>The five rounds of the loop of \<open>xmul\<close>.\<close>

fun xmul_loop :: "nat \<Rightarrow> byte \<Rightarrow> byte \<Rightarrow> byte \<Rightarrow> byte" where
  "xmul_loop 0 m x y = m"
| "xmul_loop (Suc n) m x y =
     xmul_loop n (if y AND 1 \<noteq> 0 then m XOR x else m) (xtime x) (drop_bit 1 y)"

definition xmul :: "byte \<Rightarrow> byte \<Rightarrow> byte" where
  "xmul x y = xmul_loop 5 0 x y"

section \<open>Steps of a round\<close>

text \<open>The state \<open>S\<close> is a list of four columns, \<open>W\<close> the 44 words of the key schedule.\<close>

definition add_round_key :: "u32 list \<Rightarrow> u32 list \<Rightarrow> nat \<Rightarrow> u32 list" where
  "add_round_key S W r = map (\<lambda>c. S ! c XOR W ! (r * 4 + c)) [0..<4]"

definition rowshift :: "u32 list \<Rightarrow> nat \<Rightarrow> nat \<Rightarrow> nat \<Rightarrow> nat \<Rightarrow> u32" where
  "rowshift S a b c d = W4 (B0 (S ! a)) (B1 (S ! b)) (B2 (S ! c)) (B3 (S ! d))"

definition inv_shift_rows :: "u32 list \<Rightarrow> u32 list" where
  "inv_shift_rows S =
     [rowshift S 0 3 2 1, rowshift S 1 0 3 2, rowshift S 2 1 0 3, rowshift S 3 2 1 0]"

definition fwd_shift_rows :: "u32 list \<Rightarrow> u32 list" where
  "fwd_shift_rows S =
     [rowshift S 0 1 2 3, rowshift S 1 2 3 0, rowshift S 2 3 0 1, rowshift S 3 0 1 2]"

definition colmul :: "u32 \<Rightarrow> byte \<Rightarrow> byte \<Rightarrow> byte \<Rightarrow> byte \<Rightarrow> byte" where
  "colmul Si a b c d = xmul (B0 Si) a XOR xmul (B1 Si) b XOR xmul (B2 Si) c XOR xmul (B3 Si) d"

definition inv_sub_bytes :: "u32 list \<Rightarrow> u32 list" where
  "inv_sub_bytes S = map (\<lambda>i. subword (S ! i) rbox) [0..<4]"

definition fwd_sub_bytes :: "u32 list \<Rightarrow> u32 list" where
  "fwd_sub_bytes S = map (\<lambda>i. subword (S ! i) sbox) [0..<4]"

definition inv_mix_columns :: "u32 list \<Rightarrow> u32 list" where
  "inv_mix_columns S = map (\<lambda>i. let Si = S ! i in
     W4 (colmul Si 0x0E 0x0B 0x0D 0x09)
        (colmul Si 0x09 0x0E 0x0B 0x0D)
        (colmul Si 0x0D 0x09 0x0E 0x0B)
        (colmul Si 0x0B 0x0D 0x09 0x0E)) [0..<4]"

definition fwd_mix_columns :: "u32 list \<Rightarrow> u32 list" where
  "fwd_mix_columns S = map (\<lambda>i. let Si = S ! i in
     W4 (colmul Si 0x02 0x03 0x01 0x01)
        (colmul Si 0x01 0x02 0x03 0x01)
        (colmul Si 0x01 0x01 0x02 0x03)
        (colmul Si 0x03 0x01 0x01 0x02)) [0..<4]"

definition load_word :: "bytes \<Rightarrow> nat \<Rightarrow> u32" where
  "load_word inp off = W4 (inp ! off) (inp ! (off + 1)) (inp ! (off + 2)) (inp ! (off + 3))"

definition load_block :: "bytes \<Rightarrow> u32 list" where
  "load_block inp = [load_word inp 0, load_word inp 4, load_word inp 8, load_word inp 12]"

definition save_word :: "u32 \<Rightarrow> bytes" where
  "save_word w = [B0 w, B1 w, B2 w, B3 w]"

definition save_block :: "u32 list \<Rightarrow> bytes" where
  "save_block B = save_word (B ! 0) @ save_word (B ! 1) @ save_word (B ! 2) @ save_word (B ! 3)"

section \<open>Key schedule and cipher\<close>

definition expand_step :: "u32 list \<Rightarrow> nat \<Rightarrow> u32 list" where
  "expand_step W i =
     (let temp = W ! (i - 1);
          temp = (if i mod 4 = 0
                  then subword (rotword temp) sbox XOR push_bit 24 (ucast (rcon ! (i div 4)))
                  else temp)
      in W @ [W ! (i - 4) XOR temp])"

definition aes128_init :: "bytes \<Rightarrow> u32 list" where
  "aes128_init key = foldl expand_step (load_block key) [4..<44]"

definition dec_round :: "u32 list \<Rightarrow> nat \<Rightarrow> u32 list \<Rightarrow> u32 list" where
  "dec_round W r S = inv_mix_columns (add_round_key (inv_sub_bytes (inv_shift_rows S)) W r)"

definition aes128_decrypt :: "u32 list \<Rightarrow> bytes \<Rightarrow> bytes" where
  "aes128_decrypt W blk =
     (let S = add_round_key (load_block blk) W 10;
          S = fold (dec_round W) (rev [1..<10]) S
      in save_block (add_round_key (inv_sub_bytes (inv_shift_rows S)) W 0))"

definition enc_round :: "u32 list \<Rightarrow> nat \<Rightarrow> u32 list \<Rightarrow> u32 list" where
  "enc_round W r S = add_round_key (fwd_mix_columns (fwd_shift_rows (fwd_sub_bytes S))) W r"

definition aes128_encrypt :: "u32 list \<Rightarrow> bytes \<Rightarrow> bytes" where
  "aes128_encrypt W blk =
     (let S = add_round_key (load_block blk) W 0;
          S = fold (enc_round W) [1..<10] S
      in save_block (add_round_key (fwd_shift_rows (fwd_sub_bytes S)) W 10))"

section \<open>Words and bytes: inverses\<close>

lemma W4_bytes [simp]: "B0 (W4 a b c d) = a" "B1 (W4 a b c d) = b" "B2 (W4 a b c d) = c" "B3 (W4 a b c d) = d"
  unfolding B0_def B1_def B2_def B3_def W4_def
  by (rule bit_word_eqI; auto simp: bit_simps)+

lemma W4_of_bytes [simp]: "W4 (B0 w) (B1 w) (B2 w) (B3 w) = w"
  using of_be32_be32' [of w] by (simp add: be32_def W4_def B0_def B1_def B2_def B3_def)

lemma upt_4: "[0..<4] = [0, 1, 2, 3 :: nat]"
  by (simp add: upt_rec)

lemma four_cols:
  assumes "length (S :: 'a list) = 4"
  shows "S = [S ! 0, S ! 1, S ! 2, S ! 3]"
  using assms by (auto simp: length_Suc_conv numeral_eq_Suc)

lemma inv_fwd_shift_rows: "length S = 4 \<Longrightarrow> inv_shift_rows (fwd_shift_rows S) = S"
  by (subst (2) four_cols) (simp_all add: inv_shift_rows_def fwd_shift_rows_def rowshift_def)

lemma add_round_key_twice: "length S = 4 \<Longrightarrow> add_round_key (add_round_key S W r) W r = S"
  by (subst (2) four_cols) (simp_all add: add_round_key_def upt_4 xor.assoc)

lemma rbox_sbox_table: "list_all (\<lambda>i. rbox ! unat (sbox ! i) = word_of_nat i) [0..<256]"
  by code_simp

lemma rbox_sbox [simp]: "rbox ! unat (sbox ! unat x) = x"
proof -
  have "unat x < 256" using unsigned_less [of x] by simp
  then have "unat x \<in> set [0..<256]" by simp
  then have "rbox ! unat (sbox ! unat x) = word_of_nat (unat x)"
    using rbox_sbox_table unfolding list_all_iff by blast
  then show ?thesis by simp
qed

lemma inv_fwd_sub_bytes: "length S = 4 \<Longrightarrow> inv_sub_bytes (fwd_sub_bytes S) = S"
  by (subst (2) four_cols) (simp_all add: inv_sub_bytes_def fwd_sub_bytes_def subword_def upt_4)

section \<open>Arithmetic of the column mix\<close>

lemma xtime_alt: "xtime x = push_bit 1 x XOR (if bit x 7 then 0x1b else 0)"
proof -
  have "(drop_bit 7 x AND 1) = (if bit x 7 then 1 else 0)"
    by (simp add: and_one_eq odd_iff_mod_2_eq_one bit_iff_odd_drop_bit flip: even_iff_mod_2_eq_zero)
  then show ?thesis by (simp add: xtime_def)
qed

lemma xtime_xor: "xtime (a XOR b) = xtime a XOR xtime b"
  by (auto simp: xtime_alt bit_xor_iff push_bit_xor xor.assoc xor.commute xor.left_commute)

lemma xmul_unfold:
  "xmul x y = xmul_loop (Suc (Suc (Suc (Suc (Suc 0))))) 0 x y"
  unfolding xmul_def by (rule arg_cong [of _ _ "\<lambda>n. xmul_loop n 0 x y"]) simp

lemma xmul_consts:
  "xmul x 1 = x"
  "xmul x 2 = xtime x"
  "xmul x 3 = x XOR xtime x"
  "xmul x 9 = x XOR xtime (xtime (xtime x))"
  "xmul x 0xB = x XOR xtime x XOR xtime (xtime (xtime x))"
  "xmul x 0xD = x XOR xtime (xtime x) XOR xtime (xtime (xtime x))"
  "xmul x 0xE = xtime x XOR xtime (xtime x) XOR xtime (xtime (xtime x))"
  by (simp_all add: xmul_unfold xor.assoc)

text \<open>
  The products of the coefficients of the two mixes cancel as polynomials: XOR is associative,
  commutative and self-inverse, and \<open>xtime\<close> distributes over it.
\<close>

lemma xor_cancel: "x XOR (x XOR y) = (y :: byte)"
  by (simp flip: xor.assoc)

lemmas mix_simps = xmul_consts xtime_xor xor_cancel xor.assoc xor.commute xor.left_commute

lemma mix_column_inverse:
  fixes a b c d :: byte
  defines "a' \<equiv> xmul a 2 XOR xmul b 3 XOR xmul c 1 XOR xmul d 1"
    and "b' \<equiv> xmul a 1 XOR xmul b 2 XOR xmul c 3 XOR xmul d 1"
    and "c' \<equiv> xmul a 1 XOR xmul b 1 XOR xmul c 2 XOR xmul d 3"
    and "d' \<equiv> xmul a 3 XOR xmul b 1 XOR xmul c 1 XOR xmul d 2"
  shows "xmul a' 0x0E XOR xmul b' 0x0B XOR xmul c' 0x0D XOR xmul d' 0x09 = a"
    and "xmul a' 0x09 XOR xmul b' 0x0E XOR xmul c' 0x0B XOR xmul d' 0x0D = b"
    and "xmul a' 0x0D XOR xmul b' 0x09 XOR xmul c' 0x0E XOR xmul d' 0x0B = c"
    and "xmul a' 0x0B XOR xmul b' 0x0D XOR xmul c' 0x09 XOR xmul d' 0x0E = d"
  unfolding a'_def b'_def c'_def d'_def by (simp_all only: mix_simps) simp_all

lemma colmul_W4: "colmul (W4 a b c d) x y z w = xmul a x XOR xmul b y XOR xmul c z XOR xmul d w"
  by (simp add: colmul_def)

lemma inv_fwd_mix_columns:
  assumes "length S = 4"
  shows "inv_mix_columns (fwd_mix_columns S) = S"
proof -
  have "inv_mix_columns (fwd_mix_columns S) = map (\<lambda>i. S ! i) [0..<4]"
    unfolding inv_mix_columns_def fwd_mix_columns_def
    by (rule map_cong [OF refl])
      (simp add: Let_def colmul_W4 mix_column_inverse colmul_def [of "_ ! _"])
  also have "\<dots> = S"
    using four_cols [OF assms] by (simp add: upt_4)
  finally show ?thesis .
qed

section \<open>Decryption inverts encryption\<close>

lemma length_steps [simp]:
  "length (add_round_key S W r) = 4" "length (fwd_shift_rows S) = 4" "length (fwd_sub_bytes S) = 4"
  "length (fwd_mix_columns S) = 4" "length (enc_round W r S) = 4" "length (load_block inp) = 4"
  "length (inv_shift_rows S) = 4" "length (inv_sub_bytes S) = 4" "length (inv_mix_columns S) = 4"
  "length (dec_round W r S) = 4"
  by (simp_all add: add_round_key_def fwd_shift_rows_def fwd_sub_bytes_def fwd_mix_columns_def
      enc_round_def load_block_def inv_shift_rows_def inv_sub_bytes_def inv_mix_columns_def dec_round_def)

lemma length_save_block [simp]: "length (save_block S) = 16"
  by (simp add: save_block_def save_word_def)

lemma load_save_block [simp]: "length S = 4 \<Longrightarrow> load_block (save_block S) = S"
  by (subst (2) four_cols) (simp_all add: load_block_def load_word_def save_block_def save_word_def)

lemma save_load_block: "length B = 16 \<Longrightarrow> save_block (load_block B) = B"
  by (auto simp: load_block_def load_word_def save_block_def save_word_def length_Suc_conv numeral_eq_Suc)

lemma dec_enc_round:
  "length S = 4 \<Longrightarrow>
   dec_round W r (fwd_shift_rows (fwd_sub_bytes (enc_round W r S))) = fwd_shift_rows (fwd_sub_bytes S)"
  by (simp add: dec_round_def enc_round_def inv_fwd_shift_rows inv_fwd_sub_bytes
      add_round_key_twice inv_fwd_mix_columns)

lemma dec_enc_rounds:
  "length S = 4 \<Longrightarrow>
   fold (dec_round W) (rev rs) (fwd_shift_rows (fwd_sub_bytes (fold (enc_round W) rs S)))
     = fwd_shift_rows (fwd_sub_bytes S)"
proof (induction rs arbitrary: S)
  case (Cons r rs)
  then show ?case by (simp add: dec_enc_round)
qed simp

lemma length_fold_enc [simp]: "length S = 4 \<Longrightarrow> length (fold (enc_round W) rs S) = 4"
  by (induction rs arbitrary: S) simp_all

lemma aes128_inverse:
  assumes "length blk = 16"
  shows "aes128_decrypt W (aes128_encrypt W blk) = blk"
proof -
  let ?S = "add_round_key (load_block blk) W 0"
  let ?S9 = "fold (enc_round W) [1..<10] ?S"
  have "aes128_decrypt W (aes128_encrypt W blk) = save_block (add_round_key (inv_sub_bytes (inv_shift_rows
      (fold (dec_round W) (rev [1..<10]) (fwd_shift_rows (fwd_sub_bytes ?S9))))) W 0)"
    by (simp only: aes128_decrypt_def aes128_encrypt_def Let_def load_save_block length_steps
        add_round_key_twice)
  also have "\<dots> = save_block (add_round_key (inv_sub_bytes (inv_shift_rows
      (fwd_shift_rows (fwd_sub_bytes ?S)))) W 0)"
    by (simp only: dec_enc_rounds length_steps)
  also have "\<dots> = blk"
    by (simp add: inv_fwd_shift_rows inv_fwd_sub_bytes add_round_key_twice save_load_block assms)
  finally show ?thesis .
qed

text \<open>
  C27. \<open>aes128_decrypt\<close> inverts \<open>aes128_encrypt\<close> on every 16-byte block, for every key schedule:
  in particular for the one \<open>aes128_init\<close> makes of any key.
\<close>

theorem aes128_decrypt_encrypt:
  assumes "length blk = 16"
  shows "aes128_decrypt W (aes128_encrypt W blk) = blk"
  using assms by (rule aes128_inverse)

lemma length_aes128_encrypt [simp]: "length (aes128_encrypt W blk) = 16"
  by (simp add: aes128_encrypt_def Let_def)

lemma length_aes128_decrypt [simp]: "length (aes128_decrypt W blk) = 16"
  by (simp add: aes128_decrypt_def Let_def)

text \<open>
  The worked example of FIPS-197, appendix B: the key, the input block, the first expanded key word
  and the state at the start of round 2.
\<close>

definition fips_key :: bytes where
  "fips_key = [0x2b, 0x7e, 0x15, 0x16, 0x28, 0xae, 0xd2, 0xa6, 0xab, 0xf7, 0x15, 0x88, 0x09, 0xcf, 0x4f, 0x3c]"

definition fips_block :: bytes where
  "fips_block = [0x32, 0x43, 0xf6, 0xa8, 0x88, 0x5a, 0x30, 0x8d, 0x31, 0x31, 0x98, 0xa2, 0xe0, 0x37, 0x07, 0x34]"

lemma aes128_decrypt_encrypt_witness:
  "length fips_block = 16 \<and>
   aes128_decrypt (aes128_init fips_key) (aes128_encrypt (aes128_init fips_key) fips_block) = fips_block"
proof -
  have "length fips_block = 16" by (simp add: fips_block_def)
  then show ?thesis using aes128_decrypt_encrypt [of fips_block] by simp
qed

lemma expand_step_fips: "expand_step (load_block fips_key) 4 ! 4 = 0xa0fafe17"
  by code_simp

lemma enc_round_fips:
  "enc_round [0x2b7e1516, 0x28aed2a6, 0xabf71588, 0x09cf4f3c, 0xa0fafe17, 0x88542cb1, 0x23a33939, 0x2a6c7605] 1
     [0x193de3be, 0xa0f4e22b, 0x9ac68d2a, 0xe9f84808] = [0xa49c7ff2, 0x689f352b, 0x6b5bea43, 0x026a5049]"
  by code_simp

end
