(* ===== verification/Aes_Wrap.thy ===== *)
theory Aes_Wrap imports Aes128 begin

text \<open>
  RFC 3394 key wrapping (crypto/aes128_wrap.c, crypto/aes128_unwrap.c). The in-place loops over
  the 64-bit registers are modelled on the byte buffer, with the counter XORed into the first
  register the way a little-endian host does it. Unwrapping inverts wrapping for any block cipher
  whose decryption inverts its encryption, and so for AES-128.
\<close>

section \<open>64-bit registers\<close>

definition le64 :: "u64 \<Rightarrow> bytes" where
  "le64 w = le32 (ucast w) @ le32 (ucast (drop_bit 32 w))"

definition of_le64 :: "bytes \<Rightarrow> u64" where
  "of_le64 bs = ucast (of_le32 (take 4 bs)) OR push_bit 32 (ucast (of_le32 (drop 4 bs)))"

lemma length_le64 [simp]: "length (le64 w) = 8"
  by (simp add: le64_def)

lemma of_le64_le64 [simp, endian]: "of_le64 (le64 w) = w"
proof (rule bit_word_eqI)
  fix n assume "n < LENGTH(64)"
  then show "bit (of_le64 (le64 w)) n = bit w n"
    by (cases "n < 32") (auto simp: of_le64_def le64_def bit_simps)
qed

lemma ucast_halves:
  fixes x y :: u32
  shows "ucast (ucast x OR push_bit 32 (ucast y) :: u64) = x"
    and "ucast (drop_bit 32 (ucast x OR push_bit 32 (ucast y) :: u64)) = y"
  by (rule bit_word_eqI; use bit_imp_le_length in \<open>fastforce simp: bit_simps\<close>)+

lemma le64_of_le64 [simp, endian]: "length bs = 8 \<Longrightarrow> le64 (of_le64 bs) = bs"
  unfolding le64_def of_le64_def ucast_halves by simp

section \<open>The two algorithms\<close>

definition htonl :: "u32 \<Rightarrow> u32" where
  "htonl w = of_le32 (be32 w)"

definition wrapmask :: "nat \<Rightarrow> u64" where
  "wrapmask n = push_bit 32 (ucast (htonl (word_of_nat n)))"

text \<open>\<open>R[0] ^= m\<close>.\<close>

definition xor_R0 :: "bytes \<Rightarrow> u64 \<Rightarrow> bytes" where
  "xor_R0 buf m = memcpy_at buf 0 (le64 (of_le64 (slice 0 8 buf) XOR m))"

definition wrap_step :: "(bytes \<Rightarrow> bytes) \<Rightarrow> nat \<Rightarrow> nat \<Rightarrow> nat \<Rightarrow> bytes \<Rightarrow> bytes" where
  "wrap_step enc n j i buf =
     (let B = slice 0 8 buf @ slice (8 * i) 8 buf;
          B = enc B;
          buf = memcpy_at buf 0 (slice 0 8 B);
          buf = memcpy_at buf (8 * i) (slice 8 8 B)
      in xor_R0 buf (wrapmask (n * j + i)))"

definition unwrap_step :: "(bytes \<Rightarrow> bytes) \<Rightarrow> nat \<Rightarrow> nat \<Rightarrow> nat \<Rightarrow> bytes \<Rightarrow> bytes" where
  "unwrap_step dec n j i buf =
     (let buf = xor_R0 buf (wrapmask (n * j + i));
          B = slice 0 8 buf @ slice (8 * i) 8 buf;
          B = dec B;
          buf = memcpy_at buf 0 (slice 0 8 B)
      in memcpy_at buf (8 * i) (slice 8 8 B))"

definition wrap_with :: "(bytes \<Rightarrow> bytes) \<Rightarrow> bytes \<Rightarrow> nat \<Rightarrow> bytes" where
  "wrap_with enc buf len =
     (let n = len div 8 - 1
      in fold (\<lambda>j. fold (wrap_step enc n j) [1..<n + 1]) [0..<6] buf)"

definition unwrap_with :: "(bytes \<Rightarrow> bytes) \<Rightarrow> bytes \<Rightarrow> nat \<Rightarrow> bytes" where
  "unwrap_with dec buf len =
     (let n = len div 8 - 1
      in fold (\<lambda>j. fold (unwrap_step dec n j) (rev [1..<n + 1])) (rev [0..<6]) buf)"

definition aes128_wrap :: "bytes \<Rightarrow> bytes \<Rightarrow> nat \<Rightarrow> bytes" where
  "aes128_wrap key buf len = wrap_with (aes128_encrypt (aes128_init key)) buf len"

definition aes128_unwrap :: "bytes \<Rightarrow> bytes \<Rightarrow> nat \<Rightarrow> bytes" where
  "aes128_unwrap key buf len = unwrap_with (aes128_decrypt (aes128_init key)) buf len"

section \<open>Unwrapping inverts wrapping\<close>

lemma xor_R0_length [simp]: "8 \<le> length buf \<Longrightarrow> length (xor_R0 buf m) = length buf"
  by (simp add: xor_R0_def length_memcpy_at)

lemma xor_R0_twice:
  assumes "8 \<le> length buf"
  shows "xor_R0 (xor_R0 buf m) m = buf"
proof -
  have "slice 0 8 (xor_R0 buf m) = le64 (of_le64 (slice 0 8 buf) XOR m)"
    using assms slice_memcpy_same [of 0 "le64 (of_le64 (slice 0 8 buf) XOR m)" buf]
    by (simp add: xor_R0_def)
  then have "xor_R0 (xor_R0 buf m) m = memcpy_at (xor_R0 buf m) 0 (slice 0 8 buf)"
    using assms by (simp add: xor_R0_def [of "xor_R0 buf m"] xor.assoc)
  also have "\<dots> = buf"
    using assms by (simp add: xor_R0_def memcpy_at_def slice_def)
  finally show ?thesis .
qed

text \<open>Two disjoint 8-byte registers written over and written back.\<close>

lemma registers_restore:
  assumes "1 \<le> i" and "8 * i + 8 \<le> length buf" and "length x = 8" and "length y = 8"
  shows "memcpy_at (memcpy_at (memcpy_at (memcpy_at buf 0 x) (8 * i) y) 0 (slice 0 8 buf))
           (8 * i) (slice (8 * i) 8 buf) = buf" (is "?l = _")
    and "slice 0 8 (memcpy_at (memcpy_at buf 0 x) (8 * i) y) = x"
    and "slice (8 * i) 8 (memcpy_at (memcpy_at buf 0 x) (8 * i) y) = y"
proof -
  obtain p q r s where buf: "buf = p @ q @ r @ s" "length p = 8" "length q = 8 * i - 8" "length r = 8"
  proof (rule that)
    show "buf = take 8 buf @ take (8 * i - 8) (drop 8 buf) @ take 8 (drop (8 * i - 8) (drop 8 buf)) @
        drop 8 (drop (8 * i - 8) (drop 8 buf))"
      by (simp only: append_take_drop_id)
  qed (use assms in auto)
  show "?l = buf" "slice 0 8 (memcpy_at (memcpy_at buf 0 x) (8 * i) y) = x"
    "slice (8 * i) 8 (memcpy_at (memcpy_at buf 0 x) (8 * i) y) = y"
    using assms buf(2-4) by (simp_all add: buf(1) memcpy_at_def slice_def)
qed

locale block_cipher =
  fixes enc dec :: "bytes \<Rightarrow> bytes"
  assumes enc_length: "length B = 16 \<Longrightarrow> length (enc B) = 16"
    and dec_enc: "length B = 16 \<Longrightarrow> dec (enc B) = B"
begin

lemma wrap_step_length:
  assumes "1 \<le> i" and "8 * i + 8 \<le> length buf"
  shows "length (wrap_step enc n j i buf) = length buf"
proof -
  have "length (enc (slice 0 8 buf @ slice (8 * i) 8 buf)) = 16"
    using assms by (intro enc_length) simp
  with assms show ?thesis by (simp add: wrap_step_def Let_def length_memcpy_at)
qed

lemma unwrap_wrap_step:
  assumes "1 \<le> i" and "8 * i + 8 \<le> length buf"
  shows "unwrap_step dec n j i (wrap_step enc n j i buf) = buf"
proof -
  let ?B = "slice 0 8 buf @ slice (8 * i) 8 buf"
  let ?x = "slice 0 8 (enc ?B)" and ?y = "slice 8 8 (enc ?B)"
  let ?buf = "memcpy_at (memcpy_at buf 0 ?x) (8 * i) ?y"
  have len: "length ?B = 16" "length (enc ?B) = 16" using assms enc_length by simp_all
  then have xy: "length ?x = 8" "length ?y = 8" "?x @ ?y = enc ?B"
    by (simp_all add: slice_def)
  have "length ?buf = length buf" using assms xy by (simp add: length_memcpy_at)
  then have undo: "xor_R0 (wrap_step enc n j i buf) (wrapmask (n * j + i)) = ?buf"
    using assms by (simp add: wrap_step_def Let_def xor_R0_twice)
  have "slice 0 8 ?B = slice 0 8 buf" "slice 8 8 ?B = slice (8 * i) 8 buf"
    using assms by (simp_all add: slice_def)
  then show ?thesis
    using registers_restore [OF assms xy(1,2)] xy(3) dec_enc [OF len(1)] undo
    by (simp add: unwrap_step_def Let_def)
qed

lemma unwrap_wrap:
  assumes "8 \<le> len" and "len \<le> length buf"
  shows "unwrap_with dec (wrap_with enc buf len) len = buf"
    and "length (wrap_with enc buf len) = length buf"
proof -
  let ?n = "len div 8 - 1" and ?P = "\<lambda>b. length b = length buf"
  have room: "8 * i + 8 \<le> length buf" if "i \<in> set [1..<?n + 1]" for i
  proof -
    have "8 * (len div 8) \<le> len" by simp
    with that assms show ?thesis by auto
  qed
  have row: "?P (fold (wrap_step enc ?n j) [1..<?n + 1] b) \<and>
      fold (unwrap_step dec ?n j) (rev [1..<?n + 1]) (fold (wrap_step enc ?n j) [1..<?n + 1] b) = b"
    if "?P b" for b j
    using that room
    by (intro fold_undo [where P = ?P]) (auto simp: wrap_step_length unwrap_wrap_step)
  show "unwrap_with dec (wrap_with enc buf len) len = buf"
    and "length (wrap_with enc buf len) = length buf"
    using fold_undo [where P = ?P and xs = "[0..<6]" and s = buf
        and f = "\<lambda>j. fold (wrap_step enc ?n j) [1..<?n + 1]"
        and g = "\<lambda>j. fold (unwrap_step dec ?n j) (rev [1..<?n + 1])"] row
    by (simp_all add: wrap_with_def unwrap_with_def Let_def)
qed

end

interpretation aes: block_cipher "aes128_encrypt W" "aes128_decrypt W" for W
  by unfold_locales (simp_all add: aes128_inverse)

lemma unwrap_of_wrap:
  assumes "8 \<le> len" and "len \<le> length buf"
  shows "aes128_unwrap key (aes128_wrap key buf len) len = buf"
  using aes.unwrap_wrap(1) [OF assms] by (simp add: aes128_wrap_def aes128_unwrap_def)

text \<open>
  C28. \<open>aes128_unwrap\<close> under a key inverts \<open>aes128_wrap\<close> under the same key, in place and on
  every buffer that holds at least the 8-byte check block; bytes past the last whole register stay.
\<close>

theorem aes128_unwrap_wrap:
  assumes "8 \<le> len" and "len \<le> length buf"
  shows "aes128_unwrap key (aes128_wrap key buf len) len = buf"
  using assms by (rule unwrap_of_wrap)

lemma aes128_unwrap_wrap_witness:
  "8 \<le> (24 :: nat) \<and> aes128_unwrap fips_key (aes128_wrap fips_key (replicate 24 0xA6) 24) 24 = replicate 24 0xA6"
  using aes128_unwrap_wrap [of 24 "replicate 24 0xA6" fips_key] by simp

lemma length_aes128_wrap: "8 \<le> len \<Longrightarrow> len \<le> length buf \<Longrightarrow> length (aes128_wrap key buf len) = length buf"
  using aes.unwrap_wrap(2) by (simp add: aes128_wrap_def)

end
