(* ===== verification/Wpa_Crypto.thy ===== *)
theory Wpa_Crypto imports Sha1 Aes_Wrap begin

text \<open>
  The cryptographic routines of the key handshake (wsupp_crypto.c): the pseudo-random function that
  expands the pairwise key, making and checking the message integrity code inside a packet buffer,
  and unwrapping the encrypted key data.
\<close>

section \<open>The code\<close>

text \<open>\<open>memadd\<close> copies and returns the advanced pointer: buffer and offset are threaded.\<close>

definition memadd :: "bytes \<Rightarrow> bytes \<times> nat \<Rightarrow> bytes \<times> nat" where
  "memadd src bp = (memcpy_at (fst bp) (snd bp) src, snd bp + length src)"

fun memxcmp_loop :: "bytes \<Rightarrow> bytes \<Rightarrow> int \<Rightarrow> int" where
  "memxcmp_loop (a # as) (b # bs) ret = memxcmp_loop as bs (ret OR (uint a - uint b))"
| "memxcmp_loop _ _ ret = ret"

definition memxcmp :: "bytes \<Rightarrow> bytes \<Rightarrow> int" where
  "memxcmp a b = memxcmp_loop a b 0"

text \<open>
  \<open>ibuf\<close> is the stack buffer, of \<open>ilen + 10\<close> bytes and arbitrary contents at first; \<open>str\<close> is
  the label without its terminating zero.
\<close>

definition PRF480 :: "bytes \<Rightarrow> bytes \<Rightarrow> bytes \<Rightarrow> bytes \<Rightarrow> bytes \<Rightarrow> bytes \<Rightarrow> bytes \<Rightarrow> bytes" where
  "PRF480 ibuf key str mac1 mac2 nonce1 nonce2 =
     (let slen = length str;
          ilen = slen + 1 + 2 * 6 + 2 * 32 + 1;
          (ibuf, p) = memadd nonce2 (memadd nonce1 (memadd mac2 (memadd mac1
             (memadd (str @ [0]) (ibuf, 0)))))
      in concat (map (\<lambda>i. hmac_sha1 key 32 (take ilen (ibuf[p := word_of_nat i]))) [0..<3]))"

text \<open>The MIC field starts at \<open>mic\<close> in the packet buffer \<open>buf\<close>, of which \<open>len\<close> bytes are hashed.\<close>

definition make_mic :: "bytes \<Rightarrow> nat \<Rightarrow> bytes \<Rightarrow> nat \<Rightarrow> bytes" where
  "make_mic buf mic kck len =
     (let hash = hmac_sha1 kck 16 (take len buf)
      in memcpy_at buf mic (take 16 hash))"

definition check_mic :: "bytes \<Rightarrow> nat \<Rightarrow> bytes \<Rightarrow> nat \<Rightarrow> int \<times> bytes" where
  "check_mic buf mic kck len =
     (let copy = slice mic 16 buf;
          buf = memzero buf mic 16;
          hash = hmac_sha1 kck 16 (take len buf)
      in (memxcmp (take 16 hash) copy, buf))"

definition wrap_iv :: bytes where
  "wrap_iv = [0xA6, 0xA6, 0xA6, 0xA6, 0xA6, 0xA6, 0xA6, 0xA6]"

text \<open>Unwraps the first \<open>len\<close> bytes of \<open>buf\<close> in place; zero means the check block is right.\<close>

definition unwrap_key :: "bytes \<Rightarrow> bytes \<Rightarrow> nat \<Rightarrow> int \<times> bytes" where
  "unwrap_key kek buf len =
     (if len mod 8 \<noteq> 0 \<or> len < 16 then (- 1, buf)
      else let buf = aes128_unwrap kek buf len in (memxcmp (take 8 buf) wrap_iv, buf))"

section \<open>Constant-time comparison\<close>

lemma memxcmp_loop_zero:
  "length as = length bs \<Longrightarrow> memxcmp_loop as bs ret = 0 \<longleftrightarrow> ret = 0 \<and> as = bs"
  by (induction as bs arbitrary: ret rule: list_induct2) (auto simp: or_eq_0_iff dest: unsigned_word_eqI)

lemma memxcmp_zero: "length as = length bs \<Longrightarrow> memxcmp as bs = 0 \<longleftrightarrow> as = bs"
  by (simp add: memxcmp_def memxcmp_loop_zero)

section \<open>Key expansion\<close>

text \<open>IEEE 802.11-2012 11.6.1.2: \<open>H-SHA-1(K, A, B, i) = HMAC(K, A | 0 | B | i)\<close>, concatenated.\<close>

definition PRF_spec :: "bytes \<Rightarrow> bytes \<Rightarrow> bytes \<Rightarrow> bytes" where
  "PRF_spec K A B = concat (map (\<lambda>i. hmac_spec K (A @ [0] @ B @ [word_of_nat i])) [0..<3])"

lemma PRF480_is_spec:
  assumes "length key = 32" and "length mac1 = 6" and "length mac2 = 6"
    and "length nonce1 = 32" and "length nonce2 = 32"
    and "length ibuf = length str + 1 + 2 * 6 + 2 * 32 + 1 + 10"
  shows "PRF480 ibuf key str mac1 mac2 nonce1 nonce2 = PRF_spec key str (mac1 @ mac2 @ nonce1 @ nonce2)"
proof -
  let ?p = "length str + 77" and ?A = "str @ [0] @ mac1 @ mac2 @ nonce1 @ nonce2"
  obtain t where fill: "memadd nonce2 (memadd nonce1 (memadd mac2 (memadd mac1 (memadd (str @ [0]) (ibuf, 0)))))
      = (?A @ t, ?p)" and t: "length t = 11"
  proof
    show "memadd nonce2 (memadd nonce1 (memadd mac2 (memadd mac1 (memadd (str @ [0]) (ibuf, 0)))))
        = (?A @ drop ?p ibuf, ?p)"
      using assms by (simp add: memadd_def memcpy_at_def add.commute)
  qed (use assms in simp)
  have "take (?p + 1) ((?A @ t)[?p := word_of_nat i]) = ?A @ [word_of_nat i]" for i
    using assms t by (cases t) (simp_all add: list_update_append)
  then show ?thesis
    using assms(1) hmac_meets_spec [of key]
    by (simp add: PRF480_def fill PRF_spec_def)
qed

text \<open>
  C31. \<open>PRF480\<close> computes the PRF of 802.11 over the label, a zero byte, the two addresses and the
  two nonces, whatever its stack buffer held before: it reads none of the ten guard bytes and the
  counter byte is the only one that changes between the three hashes.
\<close>

theorem PRF480_meets_spec:
  assumes "length key = 32" and "length mac1 = 6" and "length mac2 = 6"
    and "length nonce1 = 32" and "length nonce2 = 32"
    and "length ibuf = length str + 1 + 2 * 6 + 2 * 32 + 1 + 10"
  shows "PRF480 ibuf key str mac1 mac2 nonce1 nonce2 = PRF_spec key str (mac1 @ mac2 @ nonce1 @ nonce2)"
  using assms by (rule PRF480_is_spec)

lemma PRF480_meets_spec_witness:
  "PRF480 (replicate 90 7) (replicate 32 1) [0x50, 0x61] (replicate 6 2) (replicate 6 3) (replicate 32 4) (replicate 32 5)
     = PRF_spec (replicate 32 1) [0x50, 0x61] (replicate 6 2 @ replicate 6 3 @ replicate 32 4 @ replicate 32 5)"
  by (rule PRF480_meets_spec) simp_all

section \<open>Message integrity\<close>

lemma check_mic_zero_iff:
  assumes "mic + 16 \<le> len" and "len \<le> length buf" and "length kck = 16"
  shows "(fst (check_mic buf mic kck len) = 0 \<longleftrightarrow>
      slice mic 16 buf = take 16 (hmac_spec kck (take len (memcpy_at buf mic (replicate 16 0))))) \<and>
    snd (check_mic buf mic kck len) = memcpy_at buf mic (replicate 16 0)"
  using assms hmac_meets_spec [of kck]
    memxcmp_zero [of "take 16 (hmac_spec kck (take len (memcpy_at buf mic (replicate 16 0))))" "slice mic 16 buf"]
  by (auto simp: check_mic_def Let_def memzero_replicate)

text \<open>
  C32. \<open>check_mic\<close> returns zero exactly when the sixteen bytes of the MIC field are the HMAC of the
  packet with that field zeroed; it leaves the field zeroed and touches nothing else.
\<close>

theorem check_mic_iff:
  assumes "mic + 16 \<le> len" and "len \<le> length buf" and "length kck = 16"
  shows "(fst (check_mic buf mic kck len) = 0 \<longleftrightarrow>
      slice mic 16 buf = take 16 (hmac_spec kck (take len (memcpy_at buf mic (replicate 16 0))))) \<and>
    snd (check_mic buf mic kck len) = memcpy_at buf mic (replicate 16 0)"
  using assms by (rule check_mic_zero_iff)

lemma check_mic_iff_witness:
  "(81 + 16 \<le> (99 :: nat) \<and> (99 :: nat) \<le> length (replicate 1024 0 :: bytes) \<and> length (replicate 16 7 :: bytes) = 16) \<and>
   snd (check_mic (replicate 1024 0) 81 (replicate 16 7) 99) = memcpy_at (replicate 1024 0) 81 (replicate 16 0)"
  using check_mic_iff [of 81 99 "replicate 1024 0" "replicate 16 7"] by simp

text \<open>
  A packet whose zeroed MIC field was filled in by \<open>make_mic\<close> passes \<open>check_mic\<close> under the
  same key, and checking restores the packet with the field zeroed.
\<close>

lemma check_make_mic:
  assumes "mic + 16 \<le> len" and "len \<le> length buf" and "length kck = 16"
    and "slice mic 16 buf = replicate 16 0"
  shows "check_mic (make_mic buf mic kck len) mic kck len = (0, buf)"
proof -
  let ?h = "take 16 (hmac_sha1 kck 16 (take len buf))"
  let ?m = "make_mic buf mic kck len"
  have m: "?m = memcpy_at buf mic ?h" by (simp add: make_mic_def Let_def)
  have len: "length ?h = 16" "length ?m = length buf"
    using assms by (simp_all add: m length_memcpy_at)
  have "slice mic 16 ?m = ?h"
    using assms len slice_memcpy_same [of mic ?h buf] by (simp add: m)
  moreover have "memcpy_at ?m mic (replicate 16 0) = memcpy_at buf mic (slice mic 16 buf)"
    using assms len by (simp add: m memcpy_at_def)
  moreover have "memcpy_at buf mic (slice mic 16 buf) = buf"
    using assms(1,2) by (simp add: memcpy_at_self)
  ultimately show ?thesis
    using assms len memxcmp_zero [of ?h ?h] by (simp add: check_mic_def Let_def memzero_replicate)
qed

section \<open>Key data\<close>

text \<open>
  \<open>unwrap_key\<close> accepts what \<open>aes128_wrap\<close> makes, under the same key, of the standard check
  block followed by data of at least one whole register, and leaves the data in the clear behind
  the check block.
\<close>

lemma unwrap_key_of_wrap:
  assumes "length data mod 8 = 0" and "8 \<le> length data"
  shows "unwrap_key kek (aes128_wrap kek (wrap_iv @ data) (8 + length data)) (8 + length data)
      = (0, wrap_iv @ data)"
proof -
  have iv: "length wrap_iv = 8" by (simp add: wrap_iv_def)
  have "(8 + length data) mod 8 = 0" using assms(1) by simp
  then show ?thesis
    using assms iv unwrap_of_wrap [of "8 + length data" "wrap_iv @ data" kek] memxcmp_zero [of wrap_iv wrap_iv]
    by (simp add: unwrap_key_def Let_def)
qed

text \<open>Key data of a length that is no whole number of registers, or too short, is left alone.\<close>

lemma unwrap_key_bad_length: "len mod 8 \<noteq> 0 \<or> len < 16 \<Longrightarrow> unwrap_key kek buf len = (- 1, buf)"
  by (auto simp: unwrap_key_def)

end
