(* ===== verification/Eapol.thy ===== *)
theory Eapol imports Apsel Wpa_Crypto begin

text \<open>
  The key handshake (wsupp_eapol.c): the packet buffer and the fields of an EAPOL-Key packet in it,
  derivation of the pairwise keys, the group key in the key data, and the supplicant's side of the
  four-way handshake and of the group key update.
\<close>

section \<open>Packets (wsupp_eapol.h)\<close>

abbreviation (input) EAPOL_KEY :: byte where "EAPOL_KEY \<equiv> 3"
abbreviation (input) EAPOL_KEY_RSN :: byte where "EAPOL_KEY_RSN \<equiv> 2"

abbreviation (input) KI_TYPEMASK :: u16 where "KI_TYPEMASK \<equiv> 0x0007"
abbreviation (input) KI_SHA :: u16 where "KI_SHA \<equiv> 2"
abbreviation (input) KI_PAIRWISE :: u16 where "KI_PAIRWISE \<equiv> 0x0008"
abbreviation (input) KI_ACK :: u16 where "KI_ACK \<equiv> 0x0080"
abbreviation (input) KI_MIC :: u16 where "KI_MIC \<equiv> 0x0100"
abbreviation (input) KI_SECURE :: u16 where "KI_SECURE \<equiv> 0x0200"
abbreviation (input) KI_ENCRYPTED :: u16 where "KI_ENCRYPTED \<equiv> 0x1000"

text \<open>Where the fields of struct eapolkey start; its size without the payload.\<close>

abbreviation (input) EK_VERSION :: nat where "EK_VERSION \<equiv> 0"
abbreviation (input) EK_PACTYPE :: nat where "EK_PACTYPE \<equiv> 1"
abbreviation (input) EK_PACLEN :: nat where "EK_PACLEN \<equiv> 2"
abbreviation (input) EK_TYPE :: nat where "EK_TYPE \<equiv> 4"
abbreviation (input) EK_KEYINFO :: nat where "EK_KEYINFO \<equiv> 5"
abbreviation (input) EK_KEYLEN :: nat where "EK_KEYLEN \<equiv> 7"
abbreviation (input) EK_REPLAY :: nat where "EK_REPLAY \<equiv> 9"
abbreviation (input) EK_NONCE :: nat where "EK_NONCE \<equiv> 17"
abbreviation (input) EK_IV :: nat where "EK_IV \<equiv> 49"
abbreviation (input) EK_RSC :: nat where "EK_RSC \<equiv> 65"
abbreviation (input) EK_RESERVED :: nat where "EK_RESERVED \<equiv> 73"
abbreviation (input) EK_MIC :: nat where "EK_MIC \<equiv> 81"
abbreviation (input) EK_PAYLEN :: nat where "EK_PAYLEN \<equiv> 97"
abbreviation (input) EK_SIZE :: nat where "EK_SIZE \<equiv> 99"

definition ek_byte :: "nat \<Rightarrow> bytes \<Rightarrow> byte" where
  "ek_byte off pkt = pkt ! off"

definition ek_short :: "nat \<Rightarrow> bytes \<Rightarrow> u16" where
  "ek_short off pkt = of_be16 (drop off pkt)"

text \<open>A field assigned in the packet buffer.\<close>

definition put_ek :: "nat \<Rightarrow> bytes \<Rightarrow> wst \<Rightarrow> wst" where
  "put_ek off bs w = w\<lparr>w_packet := memcpy_at (w_packet w) off bs\<rparr>"

definition zero_ek :: "nat \<Rightarrow> nat \<Rightarrow> wst \<Rightarrow> wst" where
  "zero_ek off n w = w\<lparr>w_packet := memzero (w_packet w) off n\<rparr>"

section \<open>Keys\<close>

text \<open>The label ``Pairwise key expansion''.\<close>

definition astr :: bytes where
  "astr = [0x50, 0x61, 0x69, 0x72, 0x77, 0x69, 0x73, 0x65, 0x20, 0x6B, 0x65, 0x79, 0x20,
     0x65, 0x78, 0x70, 0x61, 0x6E, 0x73, 0x69, 0x6F, 0x6E]"

definition pmk_to_ptk :: "env \<Rightarrow> wst \<Rightarrow> wst" where
  "pmk_to_ptk E w =
     (let w = w\<lparr>w_amac := ap_bssid (w_ap w)\<rparr>;
          (mac1, mac2) = (if memcmp (w_smac w) (w_amac w) < 0 then (w_smac w, w_amac w)
                          else (w_amac w, w_smac w));
          (nonce1, nonce2) = (if memcmp (w_snonce w) (w_anonce w) < 0 then (w_snonce w, w_anonce w)
                              else (w_anonce w, w_snonce w));
          key = PRF480 (replicate (22 + 1 + 2 * 6 + 2 * 32 + 1 + 10) (en_stack E)) (w_PSK w) astr
                  mac1 mac2 nonce1 nonce2
      in w\<lparr>w_KCK := slice 0 16 key, w_KEK := slice 16 16 key, w_PTK := slice 32 16 key\<rparr>)"

definition kde_type_gtk :: bytes where
  "kde_type_gtk = [0x00, 0x0F, 0xAC, 0x01]"

definition store_gtk :: "byte \<Rightarrow> bytes \<Rightarrow> nat \<Rightarrow> nat \<Rightarrow> wst \<Rightarrow> int \<times> wst" where
  "store_gtk idx pkt buf len w =
     (let explen = (if ap_tkipgroup (w_ap w) then 32 else 16) in
      if len \<noteq> explen then (- 1, w)
      else let w = w\<lparr>w_gtkindex := idx, w_GTK := memcpy_at (w_GTK w) 0 (slice buf 16 pkt)\<rparr> in
           if ap_tkipgroup (w_ap w)
           then (0, w\<lparr>w_GTK := memcpy_at (memcpy_at (w_GTK w) 16 (slice (buf + 24) 8 pkt))
                                24 (slice (buf + 16) 8 pkt)\<rparr>)
           else (0, w))"

text \<open>The loop of \<open>fetch_gtk\<close> from \<open>ptr\<close> to \<open>e\<close>, offsets in the packet; a kde has six bytes of header.\<close>

function fetch_gtk_loop :: "bytes \<Rightarrow> nat \<Rightarrow> nat \<Rightarrow> wst \<Rightarrow> int \<times> wst" where
  "fetch_gtk_loop pkt ptr e w =
     (if \<not> ptr + 6 < e then (- 1, w)
      else let kd = ptr; len = unat (pkt ! (kd + 1)); ptr' = ptr + (2 + len) in
           if ptr' > e then (- 1, w)
           else let datalen = int len + 2 - 6 in
                if pkt ! kd \<noteq> 0xDD then fetch_gtk_loop pkt ptr' e w
                else if memcmp (slice (kd + 2) 4 pkt) kde_type_gtk \<noteq> 0 then fetch_gtk_loop pkt ptr' e w
                else if datalen < 2 + 16 then fetch_gtk_loop pkt ptr' e w
                else let idx = pkt ! (kd + 6) AND 0x3 in
                     if idx = 0 then (- 1, w)
                     else store_gtk idx pkt (kd + 8) (nat (datalen - 2)) w)"
  by pat_completeness auto
termination by (relation "measure (\<lambda>(pkt, ptr, e, w). e - ptr)") auto

declare fetch_gtk_loop.simps [simp del]

definition fetch_gtk :: "nat \<Rightarrow> nat \<Rightarrow> wst \<Rightarrow> int \<times> wst" where
  "fetch_gtk buf len w = fetch_gtk_loop (w_packet w) buf (buf + len) w"

text \<open>A source of 32 random bytes, or one that fails or runs short.\<close>

definition fill_rand :: "env \<Rightarrow> wst act" where
  "fill_rand E w =
     (case en_rand E of
        None \<Rightarrow> quit E w
      | Some rand \<Rightarrow> if length rand < 32 then quit E w else Go (w\<lparr>w_snonce := take 32 rand\<rparr>))"

definition cleanup_keys :: "wst \<Rightarrow> wst" where
  "cleanup_keys w =
     w\<lparr>w_packet := replicate 1024 0, w_anonce := replicate 32 0, w_snonce := replicate 32 0,
       w_PTK := replicate 16 0, w_GTK := replicate 32 0\<rparr>"

definition reset_eapol_state :: "wst \<Rightarrow> wst" where
  "reset_eapol_state w =
     (cleanup_keys w)\<lparr>w_KCK := replicate 16 0, w_GTK := replicate 32 0, w_KEK := replicate 16 0,
       w_snonce := replicate 32 0, w_anonce := replicate 32 0, w_amac := replicate 6 0, w_version := 0\<rparr>"

definition prime_eapol_state :: "wst \<Rightarrow> wst" where
  "prime_eapol_state w = w\<lparr>w_eapolstate := ES_WAITING_1_4, w_eapolsends := False\<rparr>"

section \<open>Packets out and in\<close>

definition send_packet :: "env \<Rightarrow> nat \<Rightarrow> (int \<times> wst) act" where
  "send_packet E len w =
     (let buf = take len (w_packet w); wr = en_raw_send E buf;
          w = (if wr < 0 then w else emit (Raw_sent (w_amac w) (take (nat wr) buf)) w) in
      if wr = int len then Go (0, w)
      else chain (abort_connection E w) (\<lambda>w. Go (- 1, w)))"

definition ptype :: "bytes \<Rightarrow> u16 \<Rightarrow> bool" where
  "ptype pkt bits \<longleftrightarrow>
     (let keyinfo = ek_short EK_KEYINFO pkt;
          keytype = keyinfo AND KI_TYPEMASK;
          mask = KI_PAIRWISE OR KI_ACK OR KI_SECURE OR KI_MIC OR KI_ENCRYPTED in
      if keytype \<noteq> KI_SHA then False
      else if keyinfo AND mask \<noteq> bits then False
      else True)"

text \<open>What packets 2, 4 and the group answer have in common: everything up to the payload.\<close>

definition put_header :: "u16 \<Rightarrow> u16 \<Rightarrow> bytes \<Rightarrow> wst \<Rightarrow> wst" where
  "put_header keyinfo keylen nonce w =
     (let w = put_ek EK_VERSION [w_version w] w;
          w = put_ek EK_PACTYPE [EAPOL_KEY] w;
          w = put_ek EK_TYPE [EAPOL_KEY_RSN] w;
          w = put_ek EK_KEYINFO (be16 keyinfo) w;
          w = put_ek EK_KEYLEN (be16 keylen) w;
          w = put_ek EK_REPLAY (w_replay w) w;
          w = put_ek EK_NONCE nonce w;
          w = zero_ek EK_IV 16 w;
          w = zero_ek EK_RSC 8 w;
          w = zero_ek EK_MIC 16 w
      in zero_ek EK_RESERVED 8 w)"

definition sign_packet :: "nat \<Rightarrow> wst \<Rightarrow> wst" where
  "sign_packet paclen w = w\<lparr>w_packet := make_mic (w_packet w) EK_MIC (w_KCK w) paclen\<rparr>"

definition send_packet_2 :: "env \<Rightarrow> wst act" where
  "send_packet_2 E w =
     (let w = put_header (KI_SHA OR KI_PAIRWISE OR KI_MIC) 16 (w_snonce w) w;
          paylen = ap_iesize (w_ap w);
          paclen = EK_SIZE + paylen;
          w = put_ek EK_PAYLEN (be16 (word_of_nat paylen)) w;
          w = put_ek EK_PACLEN (be16 (word_of_nat (paclen - 4))) w;
          w = put_ek EK_SIZE (take paylen (ap_ies (w_ap w))) w;
          w = sign_packet paclen w in
      chain (send_packet E paclen w) (\<lambda>(ret, w).
      if ret \<noteq> 0 then Go w else Go (w\<lparr>w_eapolstate := ES_WAITING_3_4\<rparr>)))"

definition allow_eapol_sends :: "env \<Rightarrow> wst act" where
  "allow_eapol_sends E w =
     (if w_eapolstate w = ES_WAITING_1_4 then Go (w\<lparr>w_eapolsends := True\<rparr>) else send_packet_2 E w)"

definition recv_packet_1 :: "env \<Rightarrow> wst act" where
  "recv_packet_1 E w =
     (let ek = w_packet w in
      if ek_byte EK_TYPE ek \<noteq> EAPOL_KEY_RSN then abort_connection E w
      else if \<not> ptype ek (KI_PAIRWISE OR KI_ACK) then Go w
      else let w = w\<lparr>w_version := ek_byte EK_VERSION ek, w_anonce := slice EK_NONCE 32 ek,
                     w_replay := slice EK_REPLAY 8 ek\<rparr> in
           chain (fill_rand E w) (\<lambda>w.
           let w = pmk_to_ptk E w in
           if w_eapolsends w then send_packet_2 E w
           else Go (w\<lparr>w_eapolstate := ES_WAITING_2_4\<rparr>)))"

definition send_packet_4 :: "env \<Rightarrow> wst act" where
  "send_packet_4 E w =
     (let w = put_header (KI_SHA OR KI_PAIRWISE OR KI_MIC OR KI_SECURE) 0 (replicate 32 0) w;
          paclen = EK_SIZE;
          w = put_ek EK_PAYLEN (be16 0) w;
          w = put_ek EK_PACLEN (be16 (word_of_nat (paclen - 4))) w;
          w = sign_packet paclen w in
      chain (send_packet E paclen w) (\<lambda>(ret, w).
      if ret \<noteq> 0 then Go w
      else chain (upload_ptk E (w\<lparr>w_eapolstate := ES_NEGOTIATED\<rparr>)) (\<lambda>w.
           chain (upload_gtk E w) (\<lambda>w.
           handle_connect E (cleanup_keys w)))))"

text \<open>
  What packet 3 and a group key packet share after the check of their bits: MIC, key data, group
  key, counters. The failures before the unwrapping are told apart from the later ones.
\<close>

definition mic_fails :: "wst \<Rightarrow> int \<times> wst" where
  "mic_fails w =
     (let paclen = 4 + unat (ek_short EK_PACLEN (w_packet w));
          (ret, pkt) = check_mic (w_packet w) EK_MIC (w_KCK w) paclen
      in (ret, w\<lparr>w_packet := pkt\<rparr>))"

definition take_keys :: "wst \<Rightarrow> int \<times> wst" where
  "take_keys w =
     (let paylen = unat (ek_short EK_PAYLEN (w_packet w));
          (ret, payload) = unwrap_key (w_KEK w) (drop EK_SIZE (w_packet w)) paylen;
          w = w\<lparr>w_packet := take EK_SIZE (w_packet w) @ payload\<rparr> in
      if ret \<noteq> 0 then (- 1, w)
      else let (ret, w) = fetch_gtk (EK_SIZE + 8) (paylen - 8) w in
      if ret \<noteq> 0 then (- 1, w)
      else (0, w\<lparr>w_RSC := slice EK_RSC 6 (w_packet w), w_replay := slice EK_REPLAY 8 (w_packet w)\<rparr>))"

definition recv_packet_3 :: "env \<Rightarrow> wst act" where
  "recv_packet_3 E w =
     (let ek = w_packet w in
      if ptype ek (KI_PAIRWISE OR KI_ACK) then abort_connection E w
      else if \<not> ptype ek (KI_PAIRWISE OR KI_ACK OR KI_MIC OR KI_ENCRYPTED OR KI_SECURE)
        then abort_connection E w
      else if memcmp (w_anonce w) (slice EK_NONCE 32 ek) \<noteq> 0 then abort_connection E w
      else if memcmp (w_replay w) (slice EK_REPLAY 8 ek) \<ge> 0 then abort_connection E w
      else let (ret, w) = mic_fails w in
      if ret \<noteq> 0 then abort_connection E w
      else let (ret, w) = take_keys w in
      if ret \<noteq> 0 then abort_connection E w
      else send_packet_4 E w)"

text \<open>The length field of this packet does not leave out its first four bytes.\<close>

definition send_group_2 :: "env \<Rightarrow> wst act" where
  "send_group_2 E w =
     (let w = put_header (KI_MIC OR KI_SECURE) 0 (replicate 32 0) w;
          paclen = EK_SIZE;
          w = put_ek EK_PAYLEN (be16 0) w;
          w = put_ek EK_PACLEN (be16 (word_of_nat paclen)) w;
          w = sign_packet paclen w in
      chain (send_packet E paclen w) (\<lambda>(ret, w).
      if ret \<noteq> 0 then Go w else upload_gtk E w))"

definition recv_group_1 :: "env \<Rightarrow> wst act" where
  "recv_group_1 E w =
     (let ek = w_packet w in
      if ek_byte EK_TYPE ek \<noteq> EAPOL_KEY_RSN then Go w
      else if \<not> ptype ek (KI_SECURE OR KI_ENCRYPTED OR KI_ACK OR KI_MIC) then Go w
      else if memcmp (w_replay w) (slice EK_REPLAY 8 ek) \<ge> 0 then Go w
      else let (ret, w) = mic_fails w in
      if ret \<noteq> 0 then Go w
      else let (ret, w) = take_keys w in
      if ret \<noteq> 0 then abort_connection E w
      else send_group_2 E w)"

definition dispatch_eapol :: "env \<Rightarrow> wst act" where
  "dispatch_eapol E w =
     (case w_eapolstate w of
        ES_WAITING_1_4 \<Rightarrow> recv_packet_1 E w
      | ES_WAITING_3_4 \<Rightarrow> recv_packet_3 E w
      | ES_NEGOTIATED \<Rightarrow> recv_group_1 E w
      | _ \<Rightarrow> Go w)"

text \<open>What \<open>recvfrom\<close> gives: None for an error, else the sender's address and the datagram.\<close>

definition handle_rawsock :: "env \<Rightarrow> (bytes \<times> bytes) option \<Rightarrow> wst act" where
  "handle_rawsock E recv w =
     (case recv of
        None \<Rightarrow> Go w
      | Some (sender, data) \<Rightarrow>
          (let got = take 1024 data; rd = length got;
               w = w\<lparr>w_packet := memcpy_at (w_packet w) 0 got\<rparr>;
               ek = w_packet w in
           if memcmp (ap_bssid (w_ap w)) (take 6 sender) \<noteq> 0 then Go w
           else if rd < EK_SIZE then Go w
           else if unat (ek_short EK_PACLEN ek) + 4 \<noteq> rd then Go w
           else if EK_SIZE + unat (ek_short EK_PAYLEN ek) > rd then Go w
           else if ek_byte EK_PACTYPE ek \<noteq> EAPOL_KEY then Go w
           else dispatch_eapol E w))"

end
