(* ===== verification/Rx_Frame.thy ===== *)
theory Rx_Frame imports Eapol begin

text \<open>
  Nothing that handles an event touches the receive half of the netlink context, so that the loop
  of \<open>handle_netlink\<close> over the messages received works through the buffer and ends.
\<close>

named_theorems rx_rules \<open>operations that leave the receive buffer alone\<close>

definition nl_rx :: "netlink \<Rightarrow> bytes \<times> nat \<times> nat \<times> nat" where
  "nl_rx nl = (nl_rxbuf nl, nl_rxend nl, nl_msgptr nl, nl_msgend nl)"

abbreviation (input) rx :: "wst \<Rightarrow> bytes \<times> nat \<times> nat \<times> nat" where
  "rx w \<equiv> nl_rx (w_nl w)"

abbreviation (input) keeps_rx :: "wst \<Rightarrow> (wst, wst) outcome \<Rightarrow> bool" where
  "keeps_rx w r \<equiv> yields (\<lambda>v. nl_rx (w_nl v) = nl_rx (w_nl w)) r"

abbreviation (input) keeps_rx2 :: "wst \<Rightarrow> (wst, 'a \<times> wst) outcome \<Rightarrow> bool" where
  "keeps_rx2 w r \<equiv> yields (\<lambda>x. nl_rx (w_nl (snd x)) = nl_rx (w_nl w)) r"

section \<open>The library\<close>

lemma nl_rx_updates [simp]:
  "nl_rx (nl\<lparr>nl_txover := o1\<rparr>) = nl_rx nl" "nl_rx (nl\<lparr>nl_txend := n\<rparr>) = nl_rx nl"
  "nl_rx (nl\<lparr>nl_txbuf := bs\<rparr>) = nl_rx nl" "nl_rx (nl\<lparr>nl_err := e\<rparr>) = nl_rx nl"
  "nl_rx (nl\<lparr>nl_seq := s\<rparr>) = nl_rx nl"
  by (simp_all add: nl_rx_def)

lemma nl_rx_alloc: "nl_rx (snd (nl_alloc nl n)) = nl_rx nl"
  by (simp add: nl_alloc_def Let_def)

lemma nl_rx_poke [simp]: "nl_rx (nl_poke off bs nl) = nl_rx nl"
  by (simp add: nl_poke_def)

lemma nl_rx_put [simp]: "nl_rx (nl_put nl k bs) = nl_rx nl"
  using nl_rx_alloc [of nl "4 + length bs"]
  by (auto simp: nl_put_def Let_def split: option.splits prod.splits)

lemma nl_rx_puts [simp]:
  "nl_rx (nl_put_u8 nl k b) = nl_rx nl" "nl_rx (nl_put_u32 nl k v) = nl_rx nl"
  "nl_rx (nl_put_empty nl k) = nl_rx nl" "nl_rx (snd (nl_put_nest nl k)) = nl_rx nl"
  "nl_rx (nl_end_nest nl at) = nl_rx nl"
  using nl_rx_alloc [of nl 4]
  by (auto simp: nl_put_u8_def nl_put_u32_def nl_put_empty_def nl_put_nest_def nl_end_nest_def
      split: option.splits prod.splits)

lemma nl_rx_new_cmd [simp]: "nl_rx (nl_new_cmd nl fam cmd ver) = nl_rx nl"
  using nl_rx_alloc [of "nl\<lparr>nl_txend := 0, nl_txover := False, nl_seq := nl_seq nl + 1\<rparr>" 20]
  by (auto simp: nl_new_cmd_def nl_start_packet_def split: option.splits prod.splits)

lemma nl_rx_send [simp]:
  "nl_rx (snd (snd (nl_send ok nl))) = nl_rx nl" "nl_rx (snd (snd (nl_send_dump ok nl))) = nl_rx nl"
  by (auto simp: nl_send_eq nl_send_dump_def nl_or_flags_def Let_def split: option.splits)

lemma rx_state [simp]:
  "rx (emit x w) = rx w" "rx (emit_nl m w) = rx w" "nl_rx (new_cmd c w) = rx w" "rx (clr_timer w) = rx w"
  "rx (set_timer n w) = rx w" "rx (upd_scan p f w) = rx w" "rx (each_scan f w) = rx w"
  "rx (clear_ap_bssid w) = rx w" "rx (clear_ap_ssid w) = rx w" "rx (kill_dhcp w) = rx w"
  by (simp_all add: emit_def emit_nl_def new_cmd_def clr_timer_def set_timer_def upd_scan_def each_scan_def
      clear_ap_bssid_def clear_ap_ssid_def kill_dhcp_def case_prod_beta split: option.splits)

lemma rx_send_to_conns [simp]: "rx (send_to_conns E buf cns w) = rx w"
  by (induction E buf cns w rule: send_to_conns.induct) auto

lemma rx_reports [simp]:
  "rx (report_simple E c w) = rx w" "rx (report_station E c w) = rx w"
  by (simp_all add: report_simple_def report_station_def send_report_def Let_def)

lemma rx_send_nl [simp]: "rx (snd (send_nl E w)) = rx w"
  by (simp add: send_nl_def case_prod_beta)

section \<open>Commands\<close>

lemma rx_send_check [rx_rules]: "rx w = r \<Longrightarrow> yields (\<lambda>v. rx v = r) (send_check E w)"
  by (auto simp: send_check_def case_prod_beta quit_def Let_def)

lemma rx_send_set_authstate [rx_rules]:
  "rx w = r \<Longrightarrow> yields (\<lambda>v. rx v = r) (send_set_authstate E as w)"
  by (auto simp: send_set_authstate_def intro!: ends_chain rx_rules)

lemma rx_put_ap [simp]: "nl_rx (put_ap w nl) = nl_rx nl"
  by (simp add: put_ap_def)

lemma rx_put_key_types [simp]: "nl_rx (put_key_types k nl) = nl_rx nl"
  by (simp add: put_key_types_def case_prod_beta)

lemma rx_start_scan [simp]: "rx (snd (start_scan E freq w)) = rx w"
  by (simp add: start_scan_def send_scan_def Let_def case_prod_beta)

lemma rx_trigger_scan_dump [simp]: "rx (trigger_scan_dump E w) = rx w"
  by (simp add: trigger_scan_dump_def reset_scan_state_def Let_def case_prod_beta)

lemma rx_start_connection [rx_rules]:
  "rx w = r \<Longrightarrow> yields (\<lambda>x. rx (snd x) = r) (start_connection E w)"
  by (auto simp: start_connection_def reopen_rawsock_def open_rawsock_def trigger_authentication_def quit_def
      Let_def case_prod_beta intro!: ends_chain [where P' = "\<lambda>v. rx v = r"] rx_rules)

lemma rx_start_disconnect [rx_rules]:
  "rx w = r \<Longrightarrow> yields (\<lambda>x. rx (snd x) = r) (start_disconnect E w)"
  by (auto simp: start_disconnect_def trigger_disconnect_def
      intro!: ends_chain [where P' = "\<lambda>v. rx v = r"] rx_rules split: authstate.splits)

lemma rx_commands [rx_rules]:
  "rx w = r \<Longrightarrow> yields (\<lambda>v. rx v = r) (trigger_association E w)"
  "rx w = r \<Longrightarrow> yields (\<lambda>v. rx v = r) (upload_ptk E w)"
  "rx w = r \<Longrightarrow> yields (\<lambda>v. rx v = r) (upload_gtk E w)"
  by (auto simp: trigger_association_def upload_ptk_def upload_gtk_def Let_def intro!: rx_rules)

section \<open>Selection\<close>

lemma rx_load_psk [rx_rules]: "rx w = r \<Longrightarrow> yields (\<lambda>x. rx (snd x) = r) (load_psk_w E s n w)"
  by (auto simp: load_psk_w_def split: option.splits)

lemma rx_set_current_ap [rx_rules]:
  "rx w = r \<Longrightarrow> yields (\<lambda>x. rx (snd x) = r) (set_current_ap E p w)"
  by (auto simp: set_current_ap_def Let_def case_prod_beta
      intro!: ends_chain [where P' = "\<lambda>x. rx (snd x) = r"] rx_rules)

lemma rx_connect_to_something [rx_rules]:
  "rx w = r \<Longrightarrow> yields (\<lambda>x. rx (snd x) = r) (connect_to_something E w)"
  by (rule connect_to_something_inv) (auto intro: rx_rules)

lemma rx_reassess [rx_rules]: "rx w = r \<Longrightarrow> yields (\<lambda>v. rx v = r) (reassess_wifi_situation E w)"
  by (auto simp: reassess_wifi_situation_def snap_to_neutral_def idle_then_rescan_def report_no_connect_def
      Let_def case_prod_beta intro!: ends_chain [where P' = "\<lambda>x. rx (snd x) = r"] rx_rules)

lemma rx_reconnect [rx_rules]: "rx w = r \<Longrightarrow> yields (\<lambda>v. rx v = r) (reconnect_to_current_ap E w)"
  by (auto simp: reconnect_to_current_ap_def case_prod_beta Let_def
      intro!: ends_chain [where P' = "\<lambda>x. rx (snd x) = r"] rx_rules)

lemma rx_try_other [rx_rules]: "rx w = r \<Longrightarrow> yields (\<lambda>v. rx v = r) (try_some_other_ap E w)"
  by (auto simp: try_some_other_ap_def Let_def intro!: rx_rules)

lemma rx_rescan [simp]: "rx (rescan_current_ap E w) = rx w"
  by (simp add: rescan_current_ap_def Let_def)

lemma rx_check_results [rx_rules]: "rx w = r \<Longrightarrow> yields (\<lambda>v. rx v = r) (check_new_scan_results E w)"
  by (auto simp: check_new_scan_results_def Let_def split: prod.splits option.splits)

lemma rx_handle_disconnect [rx_rules]: "rx w = r \<Longrightarrow> yields (\<lambda>v. rx v = r) (handle_disconnect E w)"
  by (auto simp: handle_disconnect_def report_disconnect_def report_no_connect_def Let_def intro!: rx_rules)

lemma rx_abort [rx_rules]: "rx w = r \<Longrightarrow> yields (\<lambda>v. rx v = r) (abort_connection E w)"
  by (auto simp: abort_connection_def case_prod_beta
      intro!: ends_chain [where P' = "\<lambda>x. rx (snd x) = r"] rx_rules)

section \<open>The handshake\<close>

lemma rx_packet [simp]:
  "rx (put_ek off bs w) = rx w" "rx (zero_ek off n w) = rx w" "rx (put_header ki kl nonce w) = rx w"
  "rx (sign_packet n w) = rx w" "rx (reset_eapol_state w) = rx w" "rx (prime_eapol_state w) = rx w"
  by (simp_all add: put_header_def put_ek_def zero_ek_def sign_packet_def reset_eapol_state_def
      cleanup_keys_def prime_eapol_state_def Let_def)

lemma rx_send_packet [rx_rules]: "rx w = r \<Longrightarrow> yields (\<lambda>x. rx (snd x) = r) (send_packet E n w)"
  by (auto simp: send_packet_def Let_def intro!: ends_chain [where P' = "\<lambda>v. rx v = r"] rx_rules)

lemma rx_send_packet_2 [rx_rules]: "rx w = r \<Longrightarrow> yields (\<lambda>v. rx v = r) (send_packet_2 E w)"
  by (auto simp: send_packet_2_def Let_def case_prod_beta
      intro!: ends_chain [where P' = "\<lambda>x. rx (snd x) = r"] rx_rules)

lemma rx_allow_sends [rx_rules]: "rx w = r \<Longrightarrow> yields (\<lambda>v. rx v = r) (allow_eapol_sends E w)"
  by (auto simp: allow_eapol_sends_def intro!: rx_rules)

end
