(* ===== verification/Station_IEs.thy ===== *)
theory Station_IEs imports Slots begin

text \<open>
  Information elements of a scan result (wsupp_sta_ies.c): the SSID and the security types that the
  scan entry of a station gets from them. Pointers are offsets into the element's payload; a pointer
  may run past the end, every read is checked as in the code.
\<close>

section \<open>The code\<close>

text \<open>Both return zero past the end; \<open>get2le\<close> asks for three bytes.\<close>

definition get2le :: "bytes \<Rightarrow> nat \<Rightarrow> nat" where
  "get2le buf p = (if p + 3 > length buf then 0 else unat (of_le16 (drop p buf)))"

definition get4be :: "bytes \<Rightarrow> nat \<Rightarrow> u32" where
  "get4be buf p = (if p + 4 > length buf then 0 else of_be32 (drop p buf))"

definition pair_type :: "u32 \<Rightarrow> u16" where
  "pair_type v = (if v = 0x000FAC02 then ST_RSN_P_TKIP else if v = 0x000FAC04 then ST_RSN_P_CCMP else 0)"

definition akm_type :: "u32 \<Rightarrow> u16" where
  "akm_type v = (if v = 0x000FAC02 then ST_RSN_PSK else 0)"

definition group_type :: "u32 \<Rightarrow> u16" where
  "group_type v = (if v = 0x000FAC02 then ST_RSN_G_TKIP else if v = 0x000FAC04 then ST_RSN_G_CCMP else 0)"

text \<open>The two loops over suites: \<open>n\<close> of them from \<open>p\<close> on.\<close>

fun suites :: "(u32 \<Rightarrow> u16) \<Rightarrow> bytes \<Rightarrow> nat \<Rightarrow> nat \<Rightarrow> u16 \<Rightarrow> u16" where
  "suites f buf p 0 type = type"
| "suites f buf p (Suc n) type = suites f buf (p + 4) n (type OR f (get4be buf p))"

definition parse_rsn_ie :: "scan \<Rightarrow> bytes \<Rightarrow> scan" where
  "parse_rsn_ie sc buf =
     (let type = sc_type sc; p = 0;
          ver = get2le buf p; p = p + 2 in
      if ver \<noteq> 1 then sc
      else let group = get4be buf p; p = p + 4;
               pcnt = get2le buf p; p = p + 2;
               pair = p; p = p + 4 * pcnt;
               acnt = get2le buf p; p = p + 2;
               akm = p;
               type = suites pair_type buf pair pcnt type;
               type = suites akm_type buf akm acnt type;
               type = type OR group_type group
           in sc\<lparr>sc_type := type\<rparr>)"

definition ms_oui :: bytes where
  "ms_oui = [0x00, 0x50, 0xF2]"

definition parse_vendor :: "scan \<Rightarrow> bytes \<Rightarrow> scan" where
  "parse_vendor sc buf =
     (if length buf < 4 then sc
      else if memcmp (take 3 buf) ms_oui \<noteq> 0 then sc
      else if buf ! 3 = 1 then sc\<lparr>sc_type := sc_type sc OR ST_WPA\<rparr>
      else if buf ! 3 = 4 then sc\<lparr>sc_type := sc_type sc OR ST_WPS\<rparr>
      else sc)"

text \<open>The length up to the last nonzero byte.\<close>

fun trim_zeros :: "bytes \<Rightarrow> nat \<Rightarrow> nat" where
  "trim_zeros buf 0 = 0"
| "trim_zeros buf (Suc i) = (if buf ! i \<noteq> 0 then Suc i else trim_zeros buf i)"

definition set_station_ssid :: "scan \<Rightarrow> bytes \<Rightarrow> scan" where
  "set_station_ssid sc buf =
     (let len = (if length buf > SSIDLEN then SSIDLEN else length buf)
      in sc\<lparr>sc_ssid := memcpy_at (sc_ssid sc) 0 (take len buf),
             sc_slen := word_of_nat (trim_zeros buf len)\<rparr>)"

text \<open>What one element does, by its type.\<close>

definition parse_ie :: "scan \<Rightarrow> byte \<Rightarrow> bytes \<Rightarrow> scan" where
  "parse_ie sc type payload =
     (if type = 0 then set_station_ssid sc payload
      else if type = 48 then parse_rsn_ie sc payload
      else if type = 221 then parse_vendor sc payload
      else sc)"

text \<open>
  The loop over the rest of the buffer. The length of an element is read without a check: in a
  buffer that ends after a type byte it is \<open>past\<close>, whatever byte lies behind the buffer.
\<close>

function parse_station_ies :: "byte \<Rightarrow> scan \<Rightarrow> bytes \<Rightarrow> scan" where
  "parse_station_ies past sc ptr =
     (if ptr = [] then sc
      else let len = (if length ptr > 1 then ptr ! 1 else past); ielen = 2 + unat len in
           if ielen > length ptr then sc
           else parse_station_ies past (parse_ie sc (ptr ! 0) (slice 2 (unat len) ptr)) (drop ielen ptr))"
  by pat_completeness auto
termination by (relation "measure (\<lambda>(past, sc, ptr). length ptr)") auto

declare parse_station_ies.simps [simp del]

section \<open>Frame and bounds\<close>

text \<open>What parsing may change: the SSID, and bits of \<open>type\<close> that are only ever set.\<close>

definition ies_frame :: "scan \<Rightarrow> scan \<Rightarrow> bool" where
  "ies_frame sc sc' \<longleftrightarrow>
     (wf_scan sc \<longrightarrow> wf_scan sc') \<and>
     (unat (sc_slen sc) \<le> SSIDLEN \<longrightarrow> unat (sc_slen sc') \<le> SSIDLEN) \<and>
     sc_freq sc' = sc_freq sc \<and> sc_signal sc' = sc_signal sc \<and> sc_flags sc' = sc_flags sc \<and>
     sc_bssid sc' = sc_bssid sc \<and> sc_type sc' AND sc_type sc = sc_type sc"

lemma ies_frame_refl [simp]: "ies_frame sc sc"
  by (simp add: ies_frame_def)

lemma and_sub_trans: "a AND b = b \<Longrightarrow> c AND a = a \<Longrightarrow> c AND b = b" for a b c :: u16
  by (metis and.assoc)

lemma ies_frame_trans: "ies_frame a b \<Longrightarrow> ies_frame b c \<Longrightarrow> ies_frame a c"
  by (auto simp: ies_frame_def intro: and_sub_trans)

lemma or_and_absorb: "(a OR b) AND a = a" for a b :: u16
  by (auto simp: bit_eq_iff bit_simps)

lemma suites_grow: "suites f buf p n type AND type = type"
proof (induction n arbitrary: p type)
  case (Suc n)
  then show ?case
    using and_sub_trans [OF or_and_absorb Suc.IH] by simp
qed simp

lemma trim_zeros_le: "trim_zeros buf n \<le> n"
  by (induction n) simp_all

lemma ies_frame_type: "t AND sc_type sc = sc_type sc \<Longrightarrow> ies_frame sc (sc\<lparr>sc_type := t\<rparr>)"
  by (simp add: ies_frame_def wf_scan_def)

lemma parse_ie_frame: "ies_frame sc (parse_ie sc type payload)"
proof -
  have "unat (word_of_nat n :: u16) \<le> n" for n
    by (simp add: unsigned_of_nat take_bit_eq_mod)
  then have "unat (word_of_nat (trim_zeros payload n) :: u16) \<le> 32" if "n \<le> 32" for n
    by (meson that trim_zeros_le order.trans)
  then have "ies_frame sc (set_station_ssid sc payload)"
    by (auto simp: ies_frame_def set_station_ssid_def wf_scan_def length_memcpy_at Let_def)
  moreover have "ies_frame sc (parse_rsn_ie sc payload)"
    by (simp add: parse_rsn_ie_def Let_def)
       (intro impI ies_frame_type and_sub_trans [OF suites_grow and_sub_trans [OF suites_grow or_and_absorb]])
  moreover have "ies_frame sc (parse_vendor sc payload)"
    by (simp add: parse_vendor_def ies_frame_type or_and_absorb)
  ultimately show ?thesis by (simp add: parse_ie_def)
qed

lemma ies_frame_elements: "ies_frame sc (parse_station_ies past sc ptr)"
proof (induction past sc ptr rule: parse_station_ies.induct)
  case (1 past sc ptr)
  have "ies_frame sc sc'" if "ies_frame (parse_ie sc t p) sc'" for sc' t p
    using ies_frame_trans [OF parse_ie_frame that] .
  note step = this
  show ?case
    by (subst parse_station_ies.simps) (auto simp: Let_def intro!: step 1)
qed

text \<open>
  C35. Parsing the information elements of any buffer keeps the scan entry well-formed and its SSID
  length within bounds, touches nothing but the SSID and the type, and only ever adds type bits.
\<close>

theorem parse_station_ies_frame: "ies_frame sc (parse_station_ies past sc ptr)"
  by (rule ies_frame_elements)

text \<open>
  The byte that the loop may read behind the end of the buffer never matters.
\<close>

lemma parse_station_ies_past: "parse_station_ies past sc ptr = parse_station_ies past' sc ptr"
proof (induction past sc ptr rule: parse_station_ies.induct)
  case (1 past sc ptr)
  then show ?case
    by (cases "length ptr > 1")
       (auto simp: parse_station_ies.simps [of _ sc ptr] Let_def Suc_lessI)
qed

section \<open>Well-formed elements\<close>

text \<open>An element as 802.11 defines it, and the body of a buffer made of elements.\<close>

definition ie :: "byte \<times> bytes \<Rightarrow> bytes" where
  "ie tp = fst tp # word_of_nat (length (snd tp)) # snd tp"

text \<open>
  C34. On a buffer made of complete elements the parser applies each element in order; a truncated
  element at the end is ignored.
\<close>

theorem parse_station_ies_elements:
  assumes "\<forall>tp \<in> set ies. length (snd tp) < 256" and "t = [] \<or> length t = 1 \<or> length t < 2 + unat (t ! 1)"
  shows "parse_station_ies past sc (concat (map ie ies) @ t) = fold (\<lambda>tp sc. parse_ie sc (fst tp) (snd tp)) ies sc"
  using assms(1)
proof (induction ies arbitrary: sc)
  case Nil
  then show ?case
    using assms(2) by (auto simp: parse_station_ies.simps [of _ _ t] Let_def)
next
  case (Cons tp ies)
  obtain ty pl where tp: "tp = (ty, pl)" by (cases tp)
  have "unat (word_of_nat (length pl) :: byte) = length pl"
    using Cons.prems tp by (simp add: unsigned_of_nat take_bit_eq_mod)
  then show ?case
    using Cons.IH [of "parse_ie sc ty pl"] Cons.prems
    by (subst parse_station_ies.simps) (simp add: tp ie_def [of "(ty, pl)"] Let_def slice_def)
qed

lemma parse_station_ies_elements_witness:
  "take 3 (sc_ssid (parse_station_ies 7 zero_scan (ie (0, [0x61, 0x62, 0]) @ [48]))) = [0x61, 0x62, 0] \<and>
   sc_slen (parse_station_ies 7 zero_scan (ie (0, [0x61, 0x62, 0]) @ [48])) = 2"
proof -
  have "parse_station_ies 7 zero_scan (ie (0, [0x61, 0x62, 0]) @ [48]) = parse_ie zero_scan 0 [0x61, 0x62, 0]"
    using parse_station_ies_elements [of "[(0, [0x61, 0x62, 0])]" "[48]" 7 zero_scan] by simp
  then show ?thesis
    by (simp add: parse_ie_def set_station_ssid_def memcpy_at_def numeral_3_eq_3)
qed

section \<open>RSN elements\<close>

definition be_suites :: "u32 list \<Rightarrow> bytes" where
  "be_suites vs = concat (map be32 vs)"

text \<open>802.11-2012 8.4.2.27: version, group suite, pairwise suites, AKM suites, and the rest.\<close>

definition rsn_ie :: "u32 \<Rightarrow> u32 list \<Rightarrow> u32 list \<Rightarrow> bytes \<Rightarrow> bytes" where
  "rsn_ie gs pairs akms rest =
     le16 1 @ be32 gs @ le16 (word_of_nat (length pairs)) @ be_suites pairs
     @ le16 (word_of_nat (length akms)) @ be_suites akms @ rest"

lemma length_be_suites [simp]: "length (be_suites vs) = 4 * length vs"
  by (induction vs) (simp_all add: be_suites_def)

lemma suites_list: "suites f (a @ be_suites vs @ r) (length a) (length vs) t = fold (\<lambda>v t. t OR f v) vs t"
proof (induction vs arbitrary: a t)
  case (Cons v vs)
  have "get4be (a @ be_suites (v # vs) @ r) (length a) = v"
    by (simp add: get4be_def be_suites_def)
  with Cons [of "a @ be32 v"] show ?case by (simp add: be_suites_def)
qed simp

lemma get2le_at: "r \<noteq> [] \<Longrightarrow> get2le (a @ le16 w @ r) (length a) = unat w"
  by (cases r) (simp_all add: get2le_def)

lemma fold_or: "fold (\<lambda>v t. t OR f v) vs t = t OR fold (\<lambda>v t. t OR f v) vs (0 :: u16)"
proof (induction vs arbitrary: t)
  case (Cons v vs)
  from Cons [of "t OR f v"] Cons [of "f v"] show ?case by (simp add: or.assoc)
qed simp

text \<open>
  C33. From an RSN element of any number of suites the parser gets exactly the bits of the group
  cipher, of all pairwise ciphers and of all key management suites; that \<open>get2le\<close> asks for one byte
  more than it reads makes no difference.
\<close>

theorem parse_rsn_ie_meets_spec:
  assumes "length pairs < 65536" and "length akms < 65536"
  shows "sc_type (parse_rsn_ie sc (rsn_ie gs pairs akms rest)) =
    sc_type sc OR fold (\<lambda>v t. t OR pair_type v) pairs 0 OR fold (\<lambda>v t. t OR akm_type v) akms 0 OR group_type gs"
proof -
  let ?np = "word_of_nat (length pairs) :: u16" and ?na = "word_of_nat (length akms) :: u16"
  let ?a = "le16 1 @ be32 gs @ le16 ?np"
  let ?b = "?a @ be_suites pairs @ le16 ?na"
  let ?buf = "rsn_ie gs pairs akms rest"
  have n: "unat ?np = length pairs" "unat ?na = length akms"
    using assms by (simp_all add: unsigned_of_nat take_bit_eq_mod)
  have ver: "get2le ?buf 0 = 1"
    by (simp add: get2le_def rsn_ie_def)
  have grp: "get4be ?buf (Suc (Suc 0)) = gs"
    by (simp add: get4be_def rsn_ie_def)
  have pcnt: "get2le ?buf 6 = length pairs"
    using get2le_at [of "be_suites pairs @ le16 ?na @ be_suites akms @ rest" "le16 1 @ be32 gs" ?np]
    by (simp add: rsn_ie_def n) (simp add: le16_def)
  have acnt: "get2le ?buf (8 + 4 * length pairs) = length akms"
  proof (cases "be_suites akms @ rest = []")
    case True
    then have "akms = []" using length_be_suites [of akms] by (cases akms) auto
    with True show ?thesis by (simp add: get2le_def rsn_ie_def)
  next
    case False
    from get2le_at [OF this, of "?a @ be_suites pairs" ?na] show ?thesis
      by (simp add: rsn_ie_def n add.commute)
  qed
  have pairs: "suites pair_type ?buf 8 (length pairs) t = fold (\<lambda>v t. t OR pair_type v) pairs t" for t
    using suites_list [of pair_type ?a pairs "le16 ?na @ be_suites akms @ rest" t] by (simp add: rsn_ie_def)
  have akms: "suites akm_type ?buf (10 + 4 * length pairs) (length akms) t = fold (\<lambda>v t. t OR akm_type v) akms t" for t
    using suites_list [of akm_type ?b akms rest t] by (simp add: rsn_ie_def add.commute)
  show ?thesis
    using fold_or [of pair_type pairs "sc_type sc"]
      fold_or [of akm_type akms "sc_type sc OR fold (\<lambda>v t. t OR pair_type v) pairs 0"]
    by (simp add: parse_rsn_ie_def Let_def ver grp pcnt acnt pairs akms or.assoc)
qed

lemma parse_rsn_ie_meets_spec_witness:
  "sc_type (parse_rsn_ie zero_scan (rsn_ie 0x000FAC02 [0x000FAC04] [0x000FAC02] [0, 0])) =
   ST_RSN_P_CCMP OR ST_RSN_PSK OR ST_RSN_G_TKIP"
  using parse_rsn_ie_meets_spec [of "[0x000FAC04]" "[0x000FAC02]" zero_scan "0x000FAC02" "[0, 0]"]
  by (simp add: zero_scan_def pair_type_def akm_type_def group_type_def)

end
