(* ===== verification/Events.thy ===== *)
theory Events imports Rx_Frame Station_IEs begin

text \<open>
  What the kernel tells over netlink (the rest of wsupp_netlink.c): scan results, the progress of
  scans and connections, errors, and the loop that takes the messages off the socket. \<open>m\<close> is the
  receive buffer, messages and attributes are offsets in it.
\<close>

section \<open>Scan results\<close>

text \<open>The inner loop of \<open>mark_stale_scan_slots\<close>: is the frequency among the attributes of the nest?\<close>

function find_freq :: "bytes \<Rightarrow> nat \<Rightarrow> int \<Rightarrow> nat option \<Rightarrow> nat option" where
  "find_freq m at freq None = None"
| "find_freq m at freq (Some sb) =
     (case nl_bin m (Some sb) 4 of
        None \<Rightarrow> find_freq m at freq (nl_sub_n m at sb)
      | Some fq \<Rightarrow>
          if sint (of_le32 (drop fq m)) = freq then Some sb
          else find_freq m at freq (nl_sub_n m at sb))"
  by pat_completeness auto
termination
proof (relation "measure (\<lambda>(m, at, freq, sb). case sb of None \<Rightarrow> 0
    | Some p \<Rightarrow> 1 + nat (int (at + 4) + (int (at_len m at) - 4) - int p))", goal_cases)
  case (2 m at freq sb)
  then show ?case
    using nl_attr_n_in_step [of m "at + 4" "int (at_len m at) - 4" sb]
    by (auto simp: nl_sub_n_def split: option.splits)
next
  case (3 m at freq sb fq)
  then show ?case
    using nl_attr_n_in_step [of m "at + 4" "int (at_len m at) - 4" sb]
    by (auto simp: nl_sub_n_def split: option.splits)
qed simp

definition mark_stale_scan_slots :: "bytes \<Rightarrow> nat \<Rightarrow> wst \<Rightarrow> wst" where
  "mark_stale_scan_slots m msg w =
     (case nl_get_nest m msg NL80211_ATTR_SCAN_FREQUENCIES of
        None \<Rightarrow> w
      | Some at \<Rightarrow>
          each_scan (\<lambda>sc. if sc_freq sc = 0 then sc
                          else if find_freq m at (sint (sc_freq sc)) (nl_sub_0 m at) \<noteq> None
                            then set_flag SF_STALE sc else sc) w)"

definition get_i32_or_zero :: "bytes \<Rightarrow> nat \<Rightarrow> u16 \<Rightarrow> u32" where
  "get_i32_or_zero m bss key =
     (case nl_sub_of_len m bss key 4 of None \<Rightarrow> 0 | Some val \<Rightarrow> of_le32 (drop val m))"

text \<open>
  An attribute shorter than its header passes \<open>nl_check_nest\<close> and has a negative length here, which
  \<open>parse_station_ies\<close> takes as unsigned.
\<close>

definition parse_scan_result :: "bytes \<Rightarrow> nat \<Rightarrow> wst act" where
  "parse_scan_result m msg w =
     (case nl_get_nest m msg NL80211_ATTR_BSS of
        None \<Rightarrow> Go w
      | Some bss \<Rightarrow>
        (case nl_sub_of_len m bss NL80211_BSS_BSSID 6 of
           None \<Rightarrow> Go w
         | Some bp \<Rightarrow>
             (let bssid = slice bp 6 m in
              case grab_scan_slot (w_scans w) bssid of
                (None, t) \<Rightarrow> Go (w\<lparr>w_scans := t\<rparr>)
              | (Some p, t) \<Rightarrow>
                  (let w = w\<lparr>w_scans := t\<rparr>;
                       w = upd_scan p (\<lambda>sc. clear_flag SF_STALE
                             (sc\<lparr>sc_bssid := bssid,
                                 sc_freq := ucast (get_i32_or_zero m bss NL80211_BSS_FREQUENCY),
                                 sc_signal := ucast (get_i32_or_zero m bss NL80211_BSS_SIGNAL_MBM),
                                 sc_type := 0\<rparr>)) w in
                   case nl_sub m bss NL80211_BSS_INFORMATION_ELEMENTS of
                     None \<Rightarrow> Go w
                   | Some ies \<Rightarrow>
                       if nl_attr_len m ies < 0 then Wild
                       else Go (upd_scan p (\<lambda>sc. parse_station_ies ((m @ [0]) ! (ies + at_len m ies)) sc
                                  (slice (ies + 4) (nat (nl_attr_len m ies)) m)) w)))))"

section \<open>Progress of scans\<close>

definition cmd_trigger_scan :: "env \<Rightarrow> bytes \<Rightarrow> nat \<Rightarrow> wst act" where
  "cmd_trigger_scan E m msg w =
     (if w_scanstate w \<noteq> SS_SCANNING then Go w
      else Go (report_scanning E (mark_stale_scan_slots m msg w)))"

definition cmd_scan_results :: "env \<Rightarrow> bytes \<Rightarrow> nat \<Rightarrow> wst act" where
  "cmd_scan_results E m msg w =
     (if nlm_flags m msg AND NLM_F_MULTI \<noteq> 0 then parse_scan_result m msg w
      else if w_scanstate w = SS_SCANNING then Go (trigger_scan_dump E w)
      else Go w)"

definition cmd_scan_aborted :: "env \<Rightarrow> wst act" where
  "cmd_scan_aborted E w =
     (if w_scanstate w \<noteq> SS_SCANNING then Go w
      else Go (reset_scan_state (report_scan_fail E w)))"

text \<open>The loop of \<open>drop_stale_scan_slots\<close>: freeing may lower the count it runs to.\<close>

fun drop_stale_from :: "nat \<Rightarrow> nat \<Rightarrow> scan slots \<Rightarrow> scan slots" where
  "drop_stale_from i 0 t = t"
| "drop_stale_from i (Suc n) t =
     (if i < snd t
      then drop_stale_from (i + 1) n (if has (sc_flags (fst t ! i)) SF_STALE then free_scan_slot t i else t)
      else t)"

definition drop_stale_scan_slots :: "wst \<Rightarrow> wst" where
  "drop_stale_scan_slots w = w\<lparr>w_scans := drop_stale_from 0 (snd (w_scans w)) (w_scans w)\<rparr>"

definition genl_done :: "env \<Rightarrow> wst act" where
  "genl_done E w =
     (let cur = w_scanreq w in
      if w_scanstate w \<noteq> SS_SCANDUMP then Go w
      else let w = drop_stale_scan_slots (reset_scan_state w) in
           chain (check_new_scan_results E w) (\<lambda>w.
           let w = report_scan_done E w in
           if cur AND SR_RECONNECT_CURRENT \<noteq> 0 then reconnect_to_current_ap E w
           else if cur AND SR_CONNECT_SOMETHING \<noteq> 0 then reassess_wifi_situation E w
           else Go w))"

section \<open>Progress of a connection\<close>

definition snap_to_disabled :: "env \<Rightarrow> wst act" where
  "snap_to_disabled E w =
     (let w = w\<lparr>w_opermode := OP_NEUTRAL, w_authstate := AS_EXTERNAL\<rparr>
      in handle_disconnect E (reset_eapol_state w))"

definition cmd_authenticate :: "env \<Rightarrow> wst act" where
  "cmd_authenticate E w =
     (if w_authstate w = AS_EXTERNAL then Go w
      else if w_authstate w \<noteq> AS_AUTHENTICATING then snap_to_disabled E w
      else trigger_association E (prime_eapol_state w))"

definition cmd_associate :: "env \<Rightarrow> wst act" where
  "cmd_associate E w =
     (if w_authstate w = AS_EXTERNAL then Go w
      else if w_authstate w \<noteq> AS_ASSOCIATING then snap_to_disabled E w
      else chain (allow_eapol_sends E w) (\<lambda>w. Go (w\<lparr>w_authstate := AS_CONNECTING\<rparr>)))"

text \<open>No return after \<open>snap_to_disabled\<close> here.\<close>

definition cmd_connect_event :: "env \<Rightarrow> wst act" where
  "cmd_connect_event E w =
     (if w_authstate w = AS_EXTERNAL then Go w
      else chain (if w_authstate w \<noteq> AS_CONNECTING then snap_to_disabled E w else Go w)
             (\<lambda>w. Go (w\<lparr>w_authstate := AS_CONNECTED\<rparr>)))"

definition cmd_disconnect :: "env \<Rightarrow> wst act" where
  "cmd_disconnect E w =
     (if w_authstate w = AS_IDLE then Go w
      else handle_disconnect E ((reset_eapol_state w)\<lparr>w_authstate := AS_IDLE\<rparr>))"

section \<open>Errors\<close>

definition handle_scan_error :: "env \<Rightarrow> int \<Rightarrow> wst \<Rightarrow> wst" where
  "handle_scan_error E err w = (if err = 0 then w else report_scan_fail E (reset_scan_state w))"

definition snap_to_netdown :: "env \<Rightarrow> wst \<Rightarrow> wst" where
  "snap_to_netdown E w =
     (let w = reset_scan_state w;
          w = (if w_rfkilled w then w\<lparr>w_authstate := AS_IDLE\<rparr>
               else set_timer 1 (w\<lparr>w_authstate := AS_NETDOWN\<rparr>))
      in report_net_down E w)"

definition handle_auth_error :: "env \<Rightarrow> int \<Rightarrow> wst act" where
  "handle_auth_error E err w =
     (if w_authstate w = AS_DISCONNECTING then reassess_wifi_situation E (w\<lparr>w_authstate := AS_IDLE\<rparr>)
      else if w_authstate w = AS_AUTHENTICATING \<and> err = - ENOENT then
        Go (snd (start_scan E (sint (ap_freq (w_ap w))) (w\<lparr>w_authstate := AS_IDLE\<rparr>)))
      else abort_connection E w)"

definition genl_error :: "env \<Rightarrow> bytes \<Rightarrow> nat \<Rightarrow> wst act" where
  "genl_error E m msg w =
     (if nle_err m msg = - ENETDOWN then Go (snap_to_netdown E w)
      else if nlm_seq m msg = w_scanseq w then Go (handle_scan_error E (nle_err m msg) w)
      else if w_authstate w \<noteq> AS_IDLE then handle_auth_error E (nle_err m msg) w
      else Go w)"

section \<open>Messages\<close>

text \<open>The table \<open>cmds\<close> and its search.\<close>

definition dispatch_genl :: "env \<Rightarrow> bytes \<Rightarrow> nat \<Rightarrow> wst act" where
  "dispatch_genl E m msg w =
     (let cmd = gen_cmd m msg in
      if cmd = NL80211_CMD_TRIGGER_SCAN then cmd_trigger_scan E m msg w
      else if cmd = NL80211_CMD_NEW_SCAN_RESULTS then cmd_scan_results E m msg w
      else if cmd = NL80211_CMD_SCAN_ABORTED then cmd_scan_aborted E w
      else if cmd = NL80211_CMD_AUTHENTICATE then cmd_authenticate E w
      else if cmd = NL80211_CMD_ASSOCIATE then cmd_associate E w
      else if cmd = NL80211_CMD_CONNECT then cmd_connect_event E w
      else if cmd = NL80211_CMD_DISCONNECT then cmd_disconnect E w
      else Go w)"

definition match_ifi :: "bytes \<Rightarrow> nat \<Rightarrow> wst \<Rightarrow> bool" where
  "match_ifi m msg w \<longleftrightarrow>
     (case nl_get_of_len m msg NL80211_ATTR_IFINDEX 4 of
        None \<Rightarrow> False
      | Some ifi \<Rightarrow> if of_le32 (drop ifi m) \<noteq> w_ifindex w then False else True)"

text \<open>The body of the loop in \<open>handle_netlink\<close>.\<close>

definition handle_msg :: "env \<Rightarrow> nat \<Rightarrow> wst act" where
  "handle_msg E msg w =
     (let m = nl_rxbuf (w_nl w) in
      if nlm_type m msg = NLMSG_DONE then genl_done E w
      else if nl_err_msg m msg \<noteq> None then genl_error E m msg w
      else case nl_gen m msg of
             None \<Rightarrow> Go w
           | Some gen \<Rightarrow> if \<not> match_ifi m gen w then Go w else dispatch_genl E m gen w)"

lemma rx_handle_msg: "rx w = r \<Longrightarrow> yields (\<lambda>v. rx v = r) (handle_msg E msg w)"
proof -
  assume w: "rx w = r"
  have fin: "yields (\<lambda>v. rx v = r) (genl_done E w)"
    using w by (auto simp: genl_done_def drop_stale_scan_slots_def reset_scan_state_def report_scan_done_def Let_def
        intro!: ends_chain [where P' = "\<lambda>v. rx v = r"] rx_rules)
  have err: "yields (\<lambda>v. rx v = r) (genl_error E m msg w)" for m
    using w by (auto simp: genl_error_def snap_to_netdown_def handle_scan_error_def handle_auth_error_def
        reset_scan_state_def report_net_down_def report_scan_fail_def Let_def intro!: rx_rules)
  have scan: "yields (\<lambda>v. rx v = r) (cmd_trigger_scan E m p w)"
    "yields (\<lambda>v. rx v = r) (cmd_scan_results E m p w)" "yields (\<lambda>v. rx v = r) (cmd_scan_aborted E w)" for m p
    using w by (auto simp: cmd_trigger_scan_def mark_stale_scan_slots_def report_scanning_def cmd_scan_results_def
        parse_scan_result_def cmd_scan_aborted_def reset_scan_state_def report_scan_fail_def Let_def
        split: option.splits prod.splits)
  have dis: "yields (\<lambda>u. rx u = rx v) (snap_to_disabled E v)" for v
    by (auto simp: snap_to_disabled_def Let_def intro!: rx_rules)
  have conn: "yields (\<lambda>v. rx v = r) (cmd_authenticate E w)" "yields (\<lambda>v. rx v = r) (cmd_associate E w)"
    "yields (\<lambda>v. rx v = r) (cmd_connect_event E w)" "yields (\<lambda>v. rx v = r) (cmd_disconnect E w)"
    using w by (auto simp: cmd_authenticate_def cmd_associate_def cmd_connect_event_def cmd_disconnect_def
        intro!: ends_chain [where P' = "\<lambda>v. rx v = r"] dis rx_rules)
  show ?thesis
    using w fin err scan conn
    by (auto simp: handle_msg_def dispatch_genl_def Let_def split: option.splits)
qed

text \<open>The loop: each message taken moves \<open>msgend\<close> on, up to \<open>rxend\<close>.\<close>

lemma nl_get_nowait_step:
  assumes "nl_get_nowait nl = (Some p, nl')"
  shows "nl_msgend nl < nl_msgend nl' \<and> nl_msgend nl' \<le> nl_rxend nl' \<and> nl_rxend nl' = nl_rxend nl \<and>
    nl_rxbuf nl' = nl_rxbuf nl"
  using assms by (auto simp: nl_get_nowait_def nl_got_message_def Let_def split: if_splits)

function handle_msgs :: "env \<Rightarrow> wst act" where
  "handle_msgs E w =
     (case nl_get_nowait (w_nl w) of
        (None, nl) \<Rightarrow> Go (w\<lparr>w_nl := nl\<rparr>)
      | (Some msg, nl) \<Rightarrow>
          (case handle_msg E msg (w\<lparr>w_nl := nl\<rparr>) of
             Wild \<Rightarrow> Wild
           | Quit s \<Rightarrow> Quit s
           | Go w' \<Rightarrow> handle_msgs E w'))"
  by pat_completeness auto
termination
proof (relation "measure (\<lambda>(E, w). nl_rxend (w_nl w) - nl_msgend (w_nl w))")
  fix E w x y msg w'
  assume "(x, y) = nl_get_nowait (w_nl w)" "x = Some msg" "handle_msg E msg (w\<lparr>w_nl := y\<rparr>) = Go w'"
  then have get: "nl_get_nowait (w_nl w) = (Some msg, y)" by simp
  have "rx w' = nl_rx y"
    using rx_handle_msg [OF refl, of "w\<lparr>w_nl := y\<rparr>" E msg] \<open>handle_msg E msg (w\<lparr>w_nl := y\<rparr>) = Go w'\<close> by simp
  then have "nl_rxend (w_nl w') = nl_rxend y" "nl_msgend (w_nl w') = nl_msgend y" by (simp_all add: nl_rx_def)
  with nl_get_nowait_step [OF get]
  show "((E, w'), (E, w)) \<in> measure (\<lambda>(E, w). nl_rxend (w_nl w) - nl_msgend (w_nl w))" by (simp; linarith)
qed simp_all

declare handle_msgs.simps [simp del]

text \<open>\<open>recv\<close> failing ends the program; nothing at all (an empty datagram) is no failure.\<close>

definition handle_netlink :: "env \<Rightarrow> rx_event \<Rightarrow> wst act" where
  "handle_netlink E ev w =
     (let (ret, nl) = nl_recv_nowait ev (w_nl w); w = w\<lparr>w_nl := nl\<rparr> in
      if ret < 0 then quit E w
      else chain (handle_msgs E w) (\<lambda>w. Go (w\<lparr>w_nl := nl_shift_rxbuf (w_nl w)\<rparr>)))"

end
