(* ===== verification/Control.thy ===== *)
theory Control imports Events begin

text \<open>
  The control socket (wsupp_cntrl.c): replies, the status message, the six commands of a client and
  the loop that takes them off a connection. \<open>p\<close> is the index of the connection in \<open>conns\<close>; \<open>m\<close> and
  \<open>msg\<close> are the receive buffer and the offset of the request in it.
\<close>

section \<open>Replies\<close>

text \<open>\<open>txbuf\<close> is a hundred bytes; \<open>over\<close> keeps its value.\<close>

definition start_reply :: "env \<Rightarrow> u32 \<Rightarrow> wst \<Rightarrow> wst" where
  "start_reply E cmd w =
     w\<lparr>w_uc := uc_put_hdr ((w_uc w)\<lparr>uc_buf := replicate 100 (en_stack E), uc_ptr := 0\<rparr>) cmd\<rparr>"

text \<open>
  The result is REPLIED whatever \<open>writeall\<close> returns. A connection that does not take all the bytes is
  left to \<open>poll\<close>.
\<close>

definition send_reply :: "env \<Rightarrow> nat \<Rightarrow> wst \<Rightarrow> int \<times> wst" where
  "send_reply E p w =
     (let w = w\<lparr>w_uc := uc_put_end (w_uc w)\<rparr>; fd = cn_fd (fst (w_conns w) ! p);
          sent = conn_takes E fd (take (uc_ptr (w_uc w)) (uc_buf (w_uc w)))
      in (1, if en_conn_ok E fd \<or> sent \<noteq> [] then emit (Conn_sent fd sent) w else w))"

definition reply :: "env \<Rightarrow> nat \<Rightarrow> int \<Rightarrow> wst \<Rightarrow> int \<times> wst" where
  "reply E p err w = send_reply E p (start_reply E (word_of_int err) w)"

text \<open>\<open>sizeof(struct scan)\<close> is 48 and \<open>sizeof(struct ucattr)\<close> 4.\<close>

definition estimate_status :: "wst \<Rightarrow> nat" where
  "estimate_status w = (let scansp = snd (w_scans w) * (48 + 10 * 4) in scansp + 128)"

text \<open>None is the null pointer that \<open>malloc\<close> returned.\<close>

definition prep_heap :: "env \<Rightarrow> nat \<Rightarrow> bytes option" where
  "prep_heap E sz =
     (if en_malloc_ok E then Some (replicate (sz + (PAGE - sz mod PAGE) mod PAGE) (en_stack E)) else None)"

abbreviation (input) WS_IDLE :: u32 where "WS_IDLE \<equiv> 0"
abbreviation (input) WS_RFKILLED :: u32 where "WS_RFKILLED \<equiv> 1"
abbreviation (input) WS_NETDOWN :: u32 where "WS_NETDOWN \<equiv> 2"
abbreviation (input) WS_EXTERNAL :: u32 where "WS_EXTERNAL \<equiv> 3"
abbreviation (input) WS_SCANNING :: u32 where "WS_SCANNING \<equiv> 4"
abbreviation (input) WS_CONNECTING :: u32 where "WS_CONNECTING \<equiv> 5"
abbreviation (input) WS_CONNECTED :: u32 where "WS_CONNECTED \<equiv> 6"

definition common_wifi_state :: "wst \<Rightarrow> u32" where
  "common_wifi_state w =
     (if w_authstate w = AS_CONNECTED then WS_CONNECTED
      else if w_authstate w = AS_NETDOWN then (if w_rfkilled w then WS_RFKILLED else WS_NETDOWN)
      else if w_authstate w = AS_EXTERNAL then WS_EXTERNAL
      else if w_authstate w \<noteq> AS_IDLE then WS_CONNECTING
      else if w_scanstate w \<noteq> SS_IDLE then WS_SCANNING
      else WS_IDLE)"

definition put_status_wifi :: "wst \<Rightarrow> ucbuf \<Rightarrow> ucbuf" where
  "put_status_wifi w uc =
     (let uc = uc_put_int uc ATTR_IFI (w_ifindex w);
          uc = uc_put_str uc ATTR_NAME (w_ifname w);
          uc = uc_put_int uc ATTR_STATE (common_wifi_state w);
          uc = (if w_authstate w \<noteq> AS_IDLE \<or> ap_fixed (w_ap w)
                then uc_put_bin uc ATTR_SSID (ap_name (w_ap w)) else uc)
      in if w_authstate w \<noteq> AS_IDLE
         then uc_put_int (uc_put_bin uc ATTR_BSSID (ap_bssid (w_ap w))) ATTR_FREQ (int_of_short (ap_freq (w_ap w)))
         else uc)"

text \<open>One iteration of the loop of \<open>put_status_scans\<close>.\<close>

definition put_scan :: "scan \<Rightarrow> ucbuf \<Rightarrow> ucbuf" where
  "put_scan sc uc =
     (if sc_freq sc = 0 then uc
      else let (nn, uc) = uc_put_nest uc ATTR_SCAN;
               uc = uc_put_int uc ATTR_FREQ (int_of_short (sc_freq sc));
               uc = uc_put_int uc ATTR_TYPE (int_of_short (sc_type sc));
               uc = uc_put_int uc ATTR_SIGNAL (int_of_short (sc_signal sc));
               uc = uc_put_bin uc ATTR_BSSID (sc_bssid sc);
               uc = uc_put_bin uc ATTR_SSID (sc_name sc);
               uc = (if \<not> has (sc_flags sc) SF_PASS then uc
                     else if \<not> has (sc_flags sc) SF_GOOD then uc
                     else uc_put_flag uc ATTR_PRIO)
           in uc_end_nest uc nn)"

definition put_status_scans :: "wst \<Rightarrow> ucbuf \<Rightarrow> ucbuf" where
  "put_status_scans w uc = fold put_scan (take (snd (w_scans w)) (fst (w_scans w))) uc"

section \<open>Commands\<close>

definition set_rep :: "nat \<Rightarrow> u32 \<Rightarrow> wst \<Rightarrow> wst" where
  "set_rep p r w = w\<lparr>w_conns := ((fst (w_conns w))[p := (fst (w_conns w) ! p)\<lparr>cn_rep := r\<rparr>], snd (w_conns w))\<rparr>"

text \<open>The header goes to where the heap is said to be, a null pointer included.\<close>

definition cmd_status :: "env \<Rightarrow> nat \<Rightarrow> (int \<times> wst) act" where
  "cmd_status E p w =
     (case prep_heap E (estimate_status w) of
        None \<Rightarrow> Wild
      | Some hp \<Rightarrow>
          (let uc = uc_buf_set hp;
               uc = uc_put_hdr uc 0;
               uc = put_status_wifi w uc;
               uc = put_status_scans w uc;
               uc = uc_put_end uc;
               (ret, w) = send_reply E p (w\<lparr>w_uc := uc\<rparr>)
           in Go (ret, set_rep p 0 w)))"

definition cmd_device :: "env \<Rightarrow> nat \<Rightarrow> (int \<times> wst) act" where
  "cmd_device E p w =
     (let uc = uc_buf_set (replicate 64 (en_stack E));
          uc = uc_put_hdr uc 0;
          uc = uc_put_int uc ATTR_IFI (w_ifindex w);
          uc = uc_put_str uc ATTR_NAME (w_ifname w);
          uc = uc_put_end uc
      in Go (send_reply E p (w\<lparr>w_uc := uc\<rparr>)))"

definition cmd_scan :: "env \<Rightarrow> nat \<Rightarrow> (int \<times> wst) act" where
  "cmd_scan E p w =
     (let (ret, w) = start_void_scan E w in
      if ret < 0 then Go (ret, w) else Go (0, set_rep p 1 w))"

definition cmd_neutral :: "env \<Rightarrow> nat \<Rightarrow> (int \<times> wst) act" where
  "cmd_neutral E p w =
     chain (start_disconnect E (w\<lparr>w_opermode := OP_NEUTRAL\<rparr>)) (\<lambda>(ret, w).
     if ret < 0 then Go (ret, w) else Go (0, clr_timer (set_rep p 1 w)))"

text \<open>
  The payload of an attribute, Wild when it reaches past the receive buffer: a request that claims
  fewer than eight bytes makes \<open>uc_get\<close> look at whatever follows.
\<close>

definition payload_in :: "bytes \<Rightarrow> nat \<Rightarrow> int \<Rightarrow> ('s, bytes) outcome" where
  "payload_in m at len =
     (if int (uc_payload at) + len > int (length m) then Wild else Go (slice (uc_payload at) (nat len) m))"

definition configure_station :: "env \<Rightarrow> bytes \<Rightarrow> nat \<Rightarrow> (int \<times> wst) act" where
  "configure_station E m msg w =
     (let w = reset_station w in
      case uc_get m msg ATTR_SSID of
        None \<Rightarrow> Go (0, w)
      | Some assid \<Rightarrow>
          (let slen = uc_paylen m assid in
           chain (payload_in m assid slen) (\<lambda>ssid.
           case uc_get m msg ATTR_PSK of
             None \<Rightarrow> set_fixed_saved E ssid slen w
           | Some apsk \<Rightarrow>
               if uc_paylen m apsk = 32
               then chain (payload_in m apsk 32) (\<lambda>psk. set_fixed_given ssid slen psk w)
               else Go (- EINVAL, w))))"

definition cmd_connect :: "env \<Rightarrow> nat \<Rightarrow> bytes \<Rightarrow> nat \<Rightarrow> (int \<times> wst) act" where
  "cmd_connect E p m msg w =
     (if w_authstate w \<noteq> AS_IDLE then Go (- EBUSY, w)
      else if w_scanstate w \<noteq> SS_IDLE then Go (- EBUSY, w)
      else chain (configure_station E m msg w) (\<lambda>(ret, w).
      if ret < 0 then Go (ret, w)
      else let w = set_rep p 1 (w\<lparr>w_opermode := OP_ONESHOT\<rparr>);
               (ret, w) = reply E p 0 w
           in chain (reassess_wifi_situation E (clr_timer w)) (\<lambda>w. Go (ret, w))))"

definition cmd_forget :: "env \<Rightarrow> nat \<Rightarrow> bytes \<Rightarrow> nat \<Rightarrow> (int \<times> wst) act" where
  "cmd_forget E p m msg w =
     (case uc_get m msg ATTR_SSID of
        None \<Rightarrow> Go (- EINVAL, w)
      | Some at \<Rightarrow>
          (let slen = uc_paylen m at in
           chain (payload_in m at slen) (\<lambda>ssid.
           case drop_psk (en_config E) ssid slen (w_config w) of
             None \<Rightarrow> Wild
           | Some (ret, c) \<Rightarrow>
               (let w = w\<lparr>w_config := c\<rparr> in
                if ret < 0 then Go (ret, w)
                else Go (0, each_scan (\<lambda>sc.
                  if int (unat (sc_slen sc)) \<noteq> slen then sc
                  else if memcmp (take (nat slen) (sc_ssid sc)) (take (nat slen) ssid) \<noteq> 0 then sc
                  else clear_flag SF_PASS sc) w)))))"

text \<open>The table \<open>commands\<close>; None when the code is not in it.\<close>

definition call_cmd :: "env \<Rightarrow> nat \<Rightarrow> bytes \<Rightarrow> nat \<Rightarrow> wst \<Rightarrow> (wst, int \<times> wst) outcome option" where
  "call_cmd E p m msg w =
     (let cmd = msg_cmd m msg in
      if cmd = CMD_WI_STATUS then Some (cmd_status E p w)
      else if cmd = CMD_WI_DEVICE then Some (cmd_device E p w)
      else if cmd = CMD_WI_SCAN then Some (cmd_scan E p w)
      else if cmd = CMD_WI_NEUTRAL then Some (cmd_neutral E p w)
      else if cmd = CMD_WI_CONNECT then Some (cmd_connect E p m msg w)
      else if cmd = CMD_WI_FORGET then Some (cmd_forget E p m msg w)
      else None)"

definition dispatch_cmd :: "env \<Rightarrow> nat \<Rightarrow> bytes \<Rightarrow> nat \<Rightarrow> (int \<times> wst) act" where
  "dispatch_cmd E p m msg w =
     (case call_cmd E p m msg w of
        None \<Rightarrow> Go (reply E p (- ENOSYS) w)
      | Some r \<Rightarrow> chain r (\<lambda>(ret, w). if ret > 0 then Go (ret, w) else Go (reply E p ret w)))"

section \<open>Connections\<close>

definition shutdown_conn :: "nat \<Rightarrow> wst \<Rightarrow> wst" where
  "shutdown_conn p w = emit (Conn_shut (cn_fd (fst (w_conns w) ! p))) w"

text \<open>
  The loop of \<open>handle_conn\<close>: None when it never ends. A call of \<open>uc_recv\<close> that finds nothing to start
  with returns EAGAIN; one that has started on a message waits for the rest of it, until after a
  second the timer interrupts its \<open>recv\<close>.
\<close>

partial_function (option) handle_conn_loop ::
  "env \<Rightarrow> nat \<Rightarrow> urbuf \<Rightarrow> rx_event list \<Rightarrow> wst \<Rightarrow> (wst, int \<times> wst) outcome option" where
  "handle_conn_loop E p ur evs w =
     (case uc_recv ur False evs of
        None \<Rightarrow> Some (Go (- EINTR, w))
      | Some (ret, ur', evs') \<Rightarrow>
          if ret < 0 then Some (Go (ret, w))
          else (case ur_msg ur' of
                  None \<Rightarrow> Some Wild
                | Some msg \<Rightarrow>
                    (case dispatch_cmd E p (ur_buf ur') msg w of
                       Wild \<Rightarrow> Some Wild
                     | Quit s \<Rightarrow> Some (Quit s)
                     | Go rw \<Rightarrow>
                         if fst rw < 0 then Some (Go rw) else handle_conn_loop E p ur' evs' (snd rw))))"

definition handle_conn :: "env \<Rightarrow> nat \<Rightarrow> rx_event list \<Rightarrow> wst \<Rightarrow> (wst, wst) outcome option" where
  "handle_conn E p evs w =
     (let ur = \<lparr>ur_buf = replicate 100 (en_stack E), ur_mptr = 0, ur_rptr = 0, ur_msg = None\<rparr> in
      map_option (\<lambda>r. chain r (\<lambda>(ret, w).
        if ret < 0 \<and> ret \<noteq> - EBADF \<and> ret \<noteq> - EAGAIN then Go (shutdown_conn p w) else Go w))
        (handle_conn_loop E p ur evs w))"

text \<open>\<open>accept\<close> yields these descriptors, then fails.\<close>

fun handle_control :: "u32 list \<Rightarrow> wst \<Rightarrow> wst" where
  "handle_control [] w = w"
| "handle_control (cfd # cfds) w =
     (if sint cfd \<le> 0 then w
      else case grab_conn_slot (w_conns w) of
             (Some p, t) \<Rightarrow>
               handle_control cfds (w\<lparr>w_conns := ((fst t)[p := (fst t ! p)\<lparr>cn_fd := cfd\<rparr>], snd t)\<rparr>)
           | (None, t) \<Rightarrow> handle_control cfds (emit (Conn_closed cfd) (w\<lparr>w_conns := t\<rparr>)))"

end
