(* ===== verification/Daemon.thy ===== *)
theory Daemon imports Control begin

text \<open>
  The rest of the daemon: radio kill switch events (wsupp_rfkill.c), timers, shutdown and the poll
  loop of \<open>main\<close> (wsupp.c). One iteration of the loop is a function of the state, of what the system
  answers and of what \<open>ppoll\<close> reports; it may end the process, go wrong, or not return.
\<close>

section \<open>The kill switch\<close>

text \<open>struct rfkill_event: index, type, operation, soft and hard block.\<close>

record rfkill_event =
  re_idx :: u32
  re_type :: byte
  re_op :: byte
  re_soft :: byte
  re_hard :: byte

definition rfkill_event_of :: "bytes \<Rightarrow> rfkill_event" where
  "rfkill_event_of buf =
     \<lparr>re_idx = of_le32 buf, re_type = buf ! 4, re_op = buf ! 5, re_soft = buf ! 6, re_hard = buf ! 7\<rparr>"

definition bring_iface_up :: "env \<Rightarrow> wst act" where
  "bring_iface_up E w =
     (if length (w_ifname w) > 16 then quit E w
      else case en_ifflags E of
             None \<Rightarrow> quit E w
           | Some up \<Rightarrow>
               if up then Go w
               else if \<not> en_ifup_ok E then quit E w
               else Go (emit Iface_up w))"

definition match_rfkill :: "env \<Rightarrow> int \<Rightarrow> bool" where
  "match_rfkill E idx = en_phy E idx"

definition set_rfkilled :: "env \<Rightarrow> rfkill_event \<Rightarrow> wst act" where
  "set_rfkilled E re w =
     (if re_soft re \<noteq> 0 \<or> re_hard re \<noteq> 0 then Go (clr_timer (w\<lparr>w_rfkilled := True\<rparr>))
      else chain (bring_iface_up E (w\<lparr>w_rfkilled := False\<rparr>)) (handle_rfrestored E))"

definition handle_event :: "env \<Rightarrow> rfkill_event \<Rightarrow> wst act" where
  "handle_event E re w =
     (if w_rfkidx w < 0 then
        (if match_rfkill E (sint (re_idx re)) then set_rfkilled E re (w\<lparr>w_rfkidx := sint (re_idx re)\<rparr>) else Go w)
      else if sint (re_idx re) \<noteq> w_rfkidx w then Go w
      else set_rfkilled E re w)"

definition retry_rfkill :: "env \<Rightarrow> wst \<Rightarrow> wst" where
  "retry_rfkill E w =
     (if w_rfkill w > 0 then w
      else w\<lparr>w_rfkill := en_rfkill E, w_rfkidx := - 1, w_pollset := False\<rparr>)"

text \<open>One event for each \<open>read\<close>; RFKILL_TYPE_WLAN is 1.\<close>

fun handle_rfkill :: "env \<Rightarrow> bytes list \<Rightarrow> wst act" where
  "handle_rfkill E [] w = Go w"
| "handle_rfkill E (d # ds) w =
     (let buf = take 128 d; rd = length buf in
      if rd = 0 then Go w
      else if rd < 8 then handle_rfkill E ds w
      else let re = rfkill_event_of buf in
           if re_type re \<noteq> 1 then handle_rfkill E ds w
           else chain (handle_event E re w) (handle_rfkill E ds))"

section \<open>Timer and shutdown\<close>

definition timer_expired :: "env \<Rightarrow> wst act" where
  "timer_expired E w =
     (let w = clr_timer w in
      if w_authstate w = AS_NETDOWN then
        (if \<not> w_rfkilled w then Go (w\<lparr>w_opermode := OP_EXIT\<rparr>) else Go (w\<lparr>w_authstate := AS_IDLE\<rparr>))
      else if w_authstate w = AS_CONNECTED then Go (routine_bg_scan E w)
      else if w_authstate w \<noteq> AS_IDLE then abort_connection E w
      else Go (routine_fg_scan E w))"

definition xshutdown :: "env \<Rightarrow> wst act" where
  "xshutdown E w =
     (let w = w\<lparr>w_sigterm := False\<rparr> in
      if w_opermode w = OP_EXIT \<or> w_opermode w = OP_EXITREQ then quit E w
      else if w_authstate w = AS_IDLE \<or> w_authstate w = AS_NETDOWN then Go (w\<lparr>w_opermode := OP_EXIT\<rparr>)
      else chain (start_disconnect E w) (\<lambda>(ret, w).
           if ret < 0 then Go (w\<lparr>w_opermode := OP_EXIT\<rparr>) else Go (w\<lparr>w_opermode := OP_EXITREQ\<rparr>)))"

section \<open>Descriptors\<close>

abbreviation (input) NPFDS :: nat where "NPFDS \<equiv> 3 + NCONNS"

definition set_pollfd :: "int \<Rightarrow> int" where
  "set_pollfd fd = (if fd > 0 then fd else - 1)"

text \<open>Four sockets and every connection slot in use, in an array of \<open>NPFDS\<close> entries.\<close>

definition update_pollfds :: "wst act" where
  "update_pollfds w =
     (let (conns, nconns) = w_conns w; n = 4;
          fds = map set_pollfd ([w_netlink w, w_rawsock w, w_ctrlfd w, w_rfkill w]
                  @ map (\<lambda>cn. sint (cn_fd cn)) (take nconns conns)) in
      if n + nconns > NPFDS then Wild
      else Go (w\<lparr>w_pfds := memcpy_at (w_pfds w) 0 fds, w_npfds := n + nconns, w_pollset := True\<rparr>))"

text \<open>
  What \<open>ppoll\<close> reports for a descriptor (readable; any other condition) and what is there to read.
\<close>

record 'a ready =
  rd_in :: bool
  rd_other :: bool
  rd_what :: 'a

record polled =
  po_conn :: "nat \<Rightarrow> rx_event list ready"
  po_netlink :: "rx_event ready"
  po_rawsock :: "(bytes \<times> bytes) option ready"
  po_control :: "u32 list ready"
  po_rfkill :: "bytes list ready"

text \<open>Nothing is reported for an entry that holds no descriptor.\<close>

definition pf_in :: "wst \<Rightarrow> nat \<Rightarrow> 'a ready \<Rightarrow> bool" where
  "pf_in w i r \<longleftrightarrow> w_pfds w ! i \<ge> 0 \<and> rd_in r"

definition pf_other :: "wst \<Rightarrow> nat \<Rightarrow> 'a ready \<Rightarrow> bool" where
  "pf_other w i r \<longleftrightarrow> w_pfds w ! i \<ge> 0 \<and> rd_other r"

definition close_conn :: "nat \<Rightarrow> wst \<Rightarrow> wst" where
  "close_conn p w =
     (emit (Conn_closed (cn_fd (fst (w_conns w) ! p))) w)\<lparr>
        w_conns := ((fst (w_conns w))[p := zero_conn], snd (w_conns w)), w_pollset := False\<rparr>"

definition check_conn :: "env \<Rightarrow> rx_event list ready \<Rightarrow> nat \<Rightarrow> wst \<Rightarrow> (wst, wst) outcome option" where
  "check_conn E r p w =
     (let i = 4 + p; rin = pf_in w i r; other = pf_other w i r in
      map_option (\<lambda>o1. chain o1 (\<lambda>w. if other then Go (close_conn p w) else Go w))
        (if rin then handle_conn E p (rd_what r) w else Some (Go w)))"

definition check_netlink :: "env \<Rightarrow> rx_event ready \<Rightarrow> wst act" where
  "check_netlink E r w =
     (let rin = pf_in w 0 r; other = pf_other w 0 r in
      chain (if rin then handle_netlink E (rd_what r) w else Go w) (\<lambda>w.
      if other then quit E w else Go w))"

definition check_rawsock :: "env \<Rightarrow> (bytes \<times> bytes) option ready \<Rightarrow> wst act" where
  "check_rawsock E r w =
     (let rin = pf_in w 1 r; other = pf_other w 1 r in
      chain (if rin then handle_rawsock E (rd_what r) w else Go w) (\<lambda>w.
      if \<not> other then Go w else Go (w\<lparr>w_rawsock := - 1, w_pfds := (w_pfds w)[1 := - 1]\<rparr>)))"

definition check_control :: "env \<Rightarrow> u32 list ready \<Rightarrow> wst act" where
  "check_control E r w =
     (let w' = (if pf_in w 2 r then handle_control (rd_what r) w else w) in
      if pf_other w 2 r then quit E w' else Go (w'\<lparr>w_pollset := False\<rparr>))"

definition check_rfkill :: "env \<Rightarrow> bytes list ready \<Rightarrow> wst act" where
  "check_rfkill E r w =
     (let rin = pf_in w 3 r; other = pf_other w 3 r in
      chain (if rin then handle_rfkill E (rd_what r) w else Go w) (\<lambda>w.
      if \<not> other then Go w else Go (w\<lparr>w_rfkill := - 1, w_pfds := (w_pfds w)[3 := - 1]\<rparr>)))"

text \<open>The loop over the connections, from \<open>p\<close> on, \<open>k\<close> of them.\<close>

fun check_conns :: "env \<Rightarrow> polled \<Rightarrow> nat \<Rightarrow> nat \<Rightarrow> wst \<Rightarrow> (wst, wst) outcome option" where
  "check_conns E po p 0 w = Some (Go w)"
| "check_conns E po p (Suc k) w =
     (case check_conn E (po_conn po p) p w of
        None \<Rightarrow> None
      | Some Wild \<Rightarrow> Some Wild
      | Some (Quit s) \<Rightarrow> Some (Quit s)
      | Some (Go w') \<Rightarrow> check_conns E po (p + 1) k w')"

definition check_polled_fds :: "env \<Rightarrow> polled \<Rightarrow> wst \<Rightarrow> (wst, wst) outcome option" where
  "check_polled_fds E po w =
     map_option (\<lambda>r. chain r (\<lambda>w.
       chain (check_netlink E (po_netlink po) w) (\<lambda>w.
       chain (check_rawsock E (po_rawsock po) w) (\<lambda>w.
       chain (check_control E (po_control po) w) (\<lambda>w.
       check_rfkill E (po_rfkill po) w)))))
       (check_conns E po 0 (snd (w_conns w)) w)"

section \<open>The main loop\<close>

datatype wakeup = Ready polled | Timeout | Interrupted | Failed

text \<open>
  The signals handled while waiting: a request to end, children reaped. A signal that comes at another
  time is not part of the model.
\<close>

record signals =
  sg_term :: bool
  sg_reaped :: "int list"

definition sighandler :: "signals \<Rightarrow> wst \<Rightarrow> wst" where
  "sighandler sg w =
     (let w = fold reap_dhcp (sg_reaped sg) w in if sg_term sg then w\<lparr>w_sigterm := True\<rparr> else w)"

text \<open>Without a timer set, \<open>ppoll\<close> does not time out.\<close>

definition wake :: "env \<Rightarrow> wakeup \<Rightarrow> wst \<Rightarrow> (wst, wst) outcome option" where
  "wake E ev w =
     (case ev of
        Ready po \<Rightarrow> check_polled_fds E po w
      | Timeout \<Rightarrow> Some (if w_timer w = None then Go w else timer_expired E w)
      | Interrupted \<Rightarrow> Some (Go w)
      | Failed \<Rightarrow> Some (quit E w))"

definition save_config_w :: "env \<Rightarrow> wst \<Rightarrow> wst" where
  "save_config_w E w =
     (let (f, c) = save_config (en_config E) (w_config w); w = w\<lparr>w_config := c\<rparr>
      in case f of None \<Rightarrow> w | Some bs \<Rightarrow> emit (Config_written bs) w)"

definition main_iter :: "env \<Rightarrow> signals \<Rightarrow> wakeup \<Rightarrow> wst \<Rightarrow> (wst, wst) outcome option" where
  "main_iter E sg ev w =
     (case (if w_pollset w then Go w else update_pollfds w) of
        Wild \<Rightarrow> Some Wild
      | Quit s \<Rightarrow> Some (Quit s)
      | Go w \<Rightarrow>
          map_option (\<lambda>r. chain r (\<lambda>w.
            chain (if w_sigterm w then xshutdown E w else Go w) (\<lambda>w. Go (save_config_w E w))))
            (wake E ev (sighandler sg w)))"

text \<open>Before the loop, on the state the set-up functions leave.\<close>

definition main_start :: "env \<Rightarrow> wst act" where
  "main_start E w =
     (let w = (retry_rfkill E w)\<lparr>w_opermode := OP_NEUTRAL\<rparr>
      in chain (load_state E w) (\<lambda>w. Go (routine_fg_scan E w)))"

text \<open>The loop over a sequence of wake-ups; \<open>save_state\<close> and the end of the program when it is left.\<close>

fun main_loop :: "(env \<times> signals \<times> wakeup) list \<Rightarrow> wst \<Rightarrow> (wst, wst) outcome option" where
  "main_loop [] w = Some (Go w)"
| "main_loop ((E, sg, ev) # evs) w =
     (if w_opermode w = OP_EXIT then Some (Quit (save_state E w))
      else case main_iter E sg ev w of
             None \<Rightarrow> None
           | Some Wild \<Rightarrow> Some Wild
           | Some (Quit s) \<Rightarrow> Some (Quit s)
           | Some (Go w') \<Rightarrow> main_loop evs w')"

end
