(* ===== verification/Startup.thy ===== *)
theory Startup imports Daemon begin

text \<open>
  From the start of the process to the main loop: the blocking half of the netlink library
  (netlink/ctx.c, ctx_cmd.c, ctx_gen.c), the lookup of the nl80211 family and its multicast groups
  (netlink/genl_grp.c), the set-up functions of wsupp_netlink.c, wsupp_eapol.c and wsupp_cntrl.c, and
  the program as a whole: \<open>main\<close> of wsupp.c.
\<close>

section \<open>Blocking receive\<close>

definition nl_no_rx_space :: "netlink \<Rightarrow> bool \<times> netlink" where
  "nl_no_rx_space nl =
     (if nl_rxend nl + 16 < length (nl_rxbuf nl) then (False, nl) else (True, nl\<lparr>nl_err := - ENOMEM\<rparr>))"

definition got_msg :: "nat \<Rightarrow> netlink \<Rightarrow> netlink" where
  "got_msg len nl = nl\<lparr>nl_msgptr := nl_msgend nl, nl_msgend := nl_msgend nl + len\<rparr>"

text \<open>\<open>None\<close> when the socket has nothing more to give: the call waits.\<close>

fun nl_recv_loop :: "rx_event list \<Rightarrow> netlink \<Rightarrow> (bool \<times> rx_event list \<times> netlink) option" where
  "nl_recv_loop [] nl = None"
| "nl_recv_loop (ev # evs) nl =
     (let (rd, nl) = nl_recv_chunk ev nl in
      if rd > 0 then
        let len = nl_got_message nl in
        if len > 0 then Some (True, evs, got_msg len nl)
        else let (full, nl) = nl_no_rx_space nl in
             if full then Some (False, evs, nl) else nl_recv_loop evs nl
      else Some (False, evs, nl))"

text \<open>The message is at \<open>nl_msgptr\<close>; the flag is whether there is one.\<close>

definition nl_recv :: "rx_event list \<Rightarrow> netlink \<Rightarrow> (bool \<times> rx_event list \<times> netlink) option" where
  "nl_recv evs nl =
     (let len = nl_got_message nl in
      if len > 0 then Some (True, evs, got_msg len nl)
      else let nl = (if nl_msgend nl > 0 then nl_shift_rxbuf nl else nl);
               (full, nl) = nl_no_rx_space nl in
           if full then Some (False, evs, nl) else nl_recv_loop evs nl)"

text \<open>What is still to be read: the data to come and the rest of the buffer.\<close>

definition unread :: "rx_event list \<Rightarrow> netlink \<Rightarrow> nat" where
  "unread evs nl = (\<Sum>ev \<leftarrow> evs. case ev of Rx_data d \<Rightarrow> length d | Rx_error _ \<Rightarrow> 0) + (nl_rxend nl - nl_msgend nl)"

lemma got_msg_unread:
  "nl_got_message nl > 0 \<Longrightarrow> unread evs (got_msg (nl_got_message nl) nl) < unread evs nl"
  by (auto simp: unread_def got_msg_def nl_got_message_def Let_def split: if_splits)

lemma chunk_unread: "unread evs (snd (nl_recv_chunk ev nl)) \<le> unread (ev # evs) nl"
  by (auto simp: unread_def nl_recv_chunk_def Let_def split: rx_event.splits)

lemma nl_no_rx_space_unread [simp]: "unread evs (snd (nl_no_rx_space nl)) = unread evs nl"
  by (simp add: nl_no_rx_space_def unread_def)

lemma nl_recv_loop_unread: "nl_recv_loop evs nl = Some (True, evs', nl') \<Longrightarrow> unread evs' nl' < unread evs nl"
proof (induction evs nl rule: nl_recv_loop.induct)
  case (2 ev evs nl)
  obtain rd nl1 where 1: "nl_recv_chunk ev nl = (rd, nl1)" by (metis surj_pair)
  obtain full nl2 where 2: "nl_no_rx_space nl1 = (full, nl2)" by (metis surj_pair)
  have le: "unread evs nl1 \<le> unread (ev # evs) nl" "unread evs nl2 = unread evs nl1"
    using chunk_unread [of evs ev nl] nl_no_rx_space_unread [of evs nl1] 1 2 by simp_all
  have ih: "nl_recv_loop evs nl2 = Some (True, evs', nl') \<Longrightarrow> unread evs' nl' < unread evs nl2"
    if "rd > 0" "\<not> nl_got_message nl1 > 0" "\<not> full"
    using "2.IH" [OF 1 [symmetric] refl that(1) refl that(2) 2 [symmetric] refl that(3)] .
  show ?case
    using "2.prems" ih 1 2 le got_msg_unread [of nl1 evs]
    by (auto simp: Let_def split: if_splits)
qed simp

lemma nl_shift_rxbuf_unread [simp]: "unread evs (nl_shift_rxbuf nl) = unread evs nl"
  by (simp add: nl_shift_rxbuf_def unread_def Let_def)

lemma nl_recv_unread: "nl_recv evs nl = Some (True, evs', nl') \<Longrightarrow> unread evs' nl' < unread evs nl"
  using got_msg_unread [of nl evs] nl_recv_loop_unread [of evs "nl_shift_rxbuf nl" evs' nl'] nl_recv_loop_unread [of evs nl evs' nl']
  by (auto simp: nl_recv_def nl_no_rx_space_def Let_def split: if_splits)

text \<open>Notifications, with sequence number zero, are skipped; so is a pending message of another request an error.\<close>

function nl_recv_seq :: "rx_event list \<Rightarrow> netlink \<Rightarrow> (bool \<times> rx_event list \<times> netlink) option" where
  "nl_recv_seq evs nl =
     (case nl_recv evs nl of
        None \<Rightarrow> None
      | Some (False, evs, nl) \<Rightarrow> Some (False, evs, nl)
      | Some (True, evs, nl) \<Rightarrow>
          if nlm_seq (nl_rxbuf nl) (nl_msgptr nl) = 0 then nl_recv_seq evs nl
          else if nlm_seq (nl_rxbuf nl) (nl_msgptr nl) \<noteq> nl_seq nl then Some (False, evs, nl\<lparr>nl_err := - EBADMSG\<rparr>)
          else Some (True, evs, nl))"
  by pat_completeness auto
termination
  by (relation "measure (\<lambda>(evs, nl). unread evs nl)") (auto dest: nl_recv_unread)

declare nl_recv_seq.simps [simp del]

definition nl_send_recv_genl :: "bool \<Rightarrow> rx_event list \<Rightarrow> netlink \<Rightarrow>
    (bytes option \<times> nat option \<times> rx_event list \<times> netlink) option" where
  "nl_send_recv_genl ok evs nl =
     (let (ret, m, nl) = nl_send ok nl in
      if ret \<noteq> 0 then Some (m, None, evs, nl)
      else case nl_recv_seq evs nl of
             None \<Rightarrow> None
           | Some (False, evs, nl) \<Rightarrow> Some (m, None, evs, nl)
           | Some (True, evs, nl) \<Rightarrow>
               if nlm_len (nl_rxbuf nl) (nl_msgptr nl) < 20 then Some (m, None, evs, nl)
               else case nl_gen (nl_rxbuf nl) (nl_msgptr nl) of
                      None \<Rightarrow> Some (m, None, evs, nl\<lparr>nl_err := - EBADMSG\<rparr>)
                    | Some gen \<Rightarrow> Some (m, Some gen, evs, nl))"

section \<open>The family and its groups (netlink/genl_grp.c)\<close>

type_synonym nlpair = "int \<times> bytes"

text \<open>
  \<open>nl_str\<close> of a missing attribute reads through a null pointer; of one with a length below four it
  looks for a zero byte without bounds.
\<close>

definition nl_str_at :: "bytes \<Rightarrow> nat option \<Rightarrow> (unit, nat option) outcome" where
  "nl_str_at m at =
     (case at of
        None \<Rightarrow> Wild
      | Some at \<Rightarrow>
          if at_len m at < 4 then (if 0 \<in> set (drop (at + 4) m) then Go None else Wild)
          else Go (if nl_check_zstr m (at + 4) (at_len m at - 4) then Some (at + 4) else None))"

definition nl_sub_str :: "bytes \<Rightarrow> nat \<Rightarrow> u16 \<Rightarrow> (unit, nat option) outcome" where
  "nl_sub_str m at type = nl_str_at m (nl_sub m at type)"

text \<open>One group: every entry of \<open>grps\<close> with its name gets its number.\<close>

definition mcast_group :: "bytes \<Rightarrow> nat \<Rightarrow> nlpair list \<Rightarrow> (unit, nlpair list) outcome" where
  "mcast_group m at grps =
     (if \<not> nl_attr_is_nest m (Some at) then Go grps
      else case nl_sub_str m at 1 of
             Wild \<Rightarrow> Wild
           | Quit s \<Rightarrow> Quit s
           | Go name \<Rightarrow>
               (case (name, nl_sub_of_len m at 2 4) of
                  (Some nm, Some gid) \<Rightarrow>
                    Go (map (\<lambda>(i, s). if takeWhile (\<lambda>b. b \<noteq> 0) (drop nm m) = s
                                       then (sint (of_le32 (drop gid m)), s) else (i, s)) grps)
                | _ \<Rightarrow> Go grps))"

function mcast_groups :: "bytes \<Rightarrow> nat \<Rightarrow> nat \<Rightarrow> nlpair list \<Rightarrow> (unit, nlpair list) outcome" where
  "mcast_groups m groups at grps =
     (case mcast_group m at grps of
        Wild \<Rightarrow> Wild
      | Quit s \<Rightarrow> Quit s
      | Go grps \<Rightarrow>
          (case nl_sub_n m groups at of
             None \<Rightarrow> Go grps
           | Some at' \<Rightarrow> mcast_groups m groups at' grps))"
  by pat_completeness auto
termination
proof (relation "measure (\<lambda>(m, groups, at, grps). nat (int (groups + at_len m groups) - int at))", goal_cases)
  case (2 m groups at grps x1 at')
  then show ?case using nl_attr_n_in_step [of m "groups + 4" "int (at_len m groups) - 4" at at']
    by (simp add: nl_sub_n_def)
qed simp

declare mcast_groups.simps [simp del]

abbreviation (input) GENL_ID_CTRL :: u16 where "GENL_ID_CTRL \<equiv> 0x10"
abbreviation (input) CTRL_CMD_GETFAMILY :: byte where "CTRL_CMD_GETFAMILY \<equiv> 3"
abbreviation (input) CTRL_ATTR_FAMILY_ID :: u16 where "CTRL_ATTR_FAMILY_ID \<equiv> 1"
abbreviation (input) CTRL_ATTR_FAMILY_NAME :: u16 where "CTRL_ATTR_FAMILY_NAME \<equiv> 2"
abbreviation (input) CTRL_ATTR_MCAST_GROUPS :: u16 where "CTRL_ATTR_MCAST_GROUPS \<equiv> 7"

text \<open>The family and groups in a reply.\<close>

definition family_of_reply :: "bytes \<Rightarrow> nat \<Rightarrow> nlpair list \<Rightarrow> (unit, int \<times> nlpair list) outcome" where
  "family_of_reply m gen grps =
     (case nl_get_of_len m gen CTRL_ATTR_FAMILY_ID 2 of
        None \<Rightarrow> Go (- EBADMSG, grps)
      | Some grpid \<Rightarrow>
          let fid = uint (of_le16 (drop grpid m)) in
          (case nl_get_nest m gen CTRL_ATTR_MCAST_GROUPS of
             None \<Rightarrow> Go (fid, grps)
           | Some groups \<Rightarrow>
               (case nl_sub_0 m groups of
                  None \<Rightarrow> Go (fid, grps)
                | Some at \<Rightarrow>
                    (case mcast_groups m groups at grps of
                       Wild \<Rightarrow> Wild
                     | Quit s \<Rightarrow> Quit s
                     | Go grps \<Rightarrow> Go (fid, grps)))))"

definition query_family_grps :: "(u32 \<Rightarrow> bool) \<Rightarrow> rx_event list \<Rightarrow> bytes \<Rightarrow> nlpair list \<Rightarrow> netlink \<Rightarrow>
    (unit, bytes option \<times> int \<times> nlpair list \<times> netlink) outcome option" where
  "query_family_grps ok evs name grps nl =
     (let nl = nl_new_cmd nl GENL_ID_CTRL CTRL_CMD_GETFAMILY 1;
          nl = nl_put_str nl CTRL_ATTR_FAMILY_NAME name in
      case nl_send_recv_genl (ok (nl_seq nl)) evs nl of
        None \<Rightarrow> None
      | Some (m, None, evs, nl) \<Rightarrow> Some (Go (m, - ENOENT, grps, nl))
      | Some (m, Some gen, evs, nl) \<Rightarrow>
          Some (case family_of_reply (nl_rxbuf nl) gen grps of
                  Wild \<Rightarrow> Wild
                | Quit s \<Rightarrow> Quit s
                | Go (fid, grps) \<Rightarrow> Go (m, fid, grps, nl)))"

section \<open>Set-up\<close>

text \<open>
  What the system answers during the set-up: signals, the netlink socket and what it receives,
  subscriptions, the interface (its index; whether its address is an Ethernet one, and the address),
  the control socket.
\<close>

datatype disposition = By_handler | Ignored

record answers =
  su_sigaction :: "int \<Rightarrow> disposition \<Rightarrow> bool"
  su_socket :: int
  su_bind_ok :: bool
  su_nl :: "rx_event list"
  su_subscribe_ok :: "int \<Rightarrow> bool"
  su_ifindex :: "u32 option"
  su_hwaddr :: "(bool \<times> bytes) option"
  su_ctl_socket :: int
  su_ctl_bind_ok :: bool
  su_ctl_listen_ok :: bool

text \<open>Static storage when the process starts: zero.\<close>

definition zero_ap :: ap where
  "zero_ap = \<lparr>ap_bssid = replicate 6 0, ap_freq = 0, ap_signal = 0, ap_slen = 0, ap_type = 0,
     ap_ssid = replicate 32 0, ap_ies = [], ap_iesize = 0, ap_fixed = False, ap_unsaved = False,
     ap_tkipgroup = False, ap_success = False, ap_rescans = 0\<rparr>"

definition static_state :: wst where
  "static_state = \<lparr>w_nl = nl_init, w_nl80211 = 0, w_scanreq = 0, w_scanseq = 0,
     w_authstate = AS_IDLE, w_scanstate = SS_IDLE, w_opermode = OP_EXIT,
     w_ap = zero_ap, w_scans = (replicate NSCANS zero_scan, 0), w_conns = (replicate NCONNS zero_conn, 0),
     w_ifname = [], w_ifindex = 0, w_rawsock = 0, w_eapolstate = ES_IDLE, w_eapolsends = False, w_version = 0,
     w_amac = replicate 6 0, w_smac = replicate 6 0, w_anonce = replicate 32 0, w_snonce = replicate 32 0,
     w_replay = replicate 8 0, w_PSK = replicate 32 0, w_KCK = replicate 16 0, w_KEK = replicate 16 0,
     w_PTK = replicate 16 0, w_GTK = replicate 32 0, w_RSC = replicate 6 0, w_gtkindex = 0,
     w_packet = replicate 1024 0,
     w_config = \<lparr>cf_map = None, cf_blocklen = 0, cf_datalen = 0, cf_modified = False\<rparr>,
     w_rfkill = 0, w_rfkilled = False, w_rfkidx = 0, w_dhcpid = 0, w_timer = None, w_pollset = False,
     w_netlink = 0, w_ctrlfd = 0, w_pfds = replicate NPFDS 0, w_npfds = 0, w_sigterm = False,
     w_uc = \<lparr>uc_buf = [], uc_ptr = 0, uc_over = False\<rparr>, w_out = []\<rparr>"

definition family_name :: bytes where
  "family_name = map (word_of_nat \<circ> of_char) ''nl80211''"

definition group_names :: "nlpair list" where
  "group_names = [(- 1, map (word_of_nat \<circ> of_char) ''mlme''), (- 1, map (word_of_nat \<circ> of_char) ''scan'')]"

text \<open>\<open>fail\<close> ends the process as it is.\<close>

definition subscribe_groups :: "answers \<Rightarrow> nlpair list \<Rightarrow> wst act" where
  "subscribe_groups su grps w =
     (if fst (grps ! 0) < 0 then Quit w
      else if fst (grps ! 1) < 0 then Quit w
      else if \<not> su_subscribe_ok su (fst (grps ! 0)) then Quit w
      else if \<not> su_subscribe_ok su (fst (grps ! 1)) then Quit w
      else Go (w\<lparr>w_netlink := su_socket su\<rparr>))"

text \<open>The signals, in the order of the code: INT, TERM, HUP, ALRM, CHLD; PIPE is ignored.\<close>

definition xsigaction :: "answers \<Rightarrow> int \<Rightarrow> disposition \<Rightarrow> wst act" where
  "xsigaction su sig d w = (if su_sigaction su sig d then Go w else Quit w)"

definition setup_signals :: "answers \<Rightarrow> wst act" where
  "setup_signals su w =
     chain (xsigaction su 2 By_handler w) (\<lambda>w. chain (xsigaction su 15 By_handler w) (\<lambda>w.
     chain (xsigaction su 1 By_handler w) (\<lambda>w. chain (xsigaction su 14 By_handler w) (\<lambda>w.
     chain (xsigaction su 17 By_handler w) (\<lambda>w. xsigaction su 13 Ignored w)))))"

lemma setup_signals_cases: "setup_signals su w = Go w \<or> setup_signals su w = Quit w"
  by (simp add: setup_signals_def xsigaction_def)

definition setup_netlink :: "env \<Rightarrow> answers \<Rightarrow> wst \<Rightarrow> (wst, wst) outcome option" where
  "setup_netlink E su w =
     (let nl = nl_init;
          nl = nl_set_txbuf nl (replicate 512 0);
          nl = nl_set_rxbuf nl (replicate 8192 0);
          w = w\<lparr>w_nl := nl\<rparr> in
      if su_socket su < 0 \<or> \<not> su_bind_ok su then Some (Quit w)
      else map_option (\<lambda>r.
        case r of
          Wild \<Rightarrow> Wild
        | Quit _ \<Rightarrow> Wild
        | Go (m, fid, grps, nl) \<Rightarrow>
            let w = emit_nl m (w\<lparr>w_nl := nl\<rparr>) in
            if fid < 0 then Quit w else subscribe_groups su grps (w\<lparr>w_nl80211 := word_of_int fid\<rparr>))
        (query_family_grps (en_nl_ok E) (su_nl su) family_name group_names nl))"

definition setup_iface :: "env \<Rightarrow> answers \<Rightarrow> bytes \<Rightarrow> wst act" where
  "setup_iface E su name w =
     (if length name > 16 then Quit w
      else case su_ifindex su of
             None \<Rightarrow> Quit w
           | Some idx \<Rightarrow>
               let w = w\<lparr>w_ifname := name, w_ifindex := idx\<rparr> in
               (case su_hwaddr su of
                  None \<Rightarrow> Quit w
                | Some (ether, addr) \<Rightarrow>
                    if \<not> ether then Quit w
                    else open_rawsock E (w\<lparr>w_smac := memcpy_at (w_smac w) 0 (take 6 addr)\<rparr>)))"

definition setup_control :: "env \<Rightarrow> answers \<Rightarrow> wst act" where
  "setup_control E su w =
     (if su_ctl_socket su < 0 then Quit w
      else if \<not> su_ctl_bind_ok su then Quit w
      else if \<not> su_ctl_listen_ok su then quit E w
      else Go (w\<lparr>w_ctrlfd := su_ctl_socket su\<rparr>))"

section \<open>The program\<close>

definition start_up :: "env \<Rightarrow> answers \<Rightarrow> bytes \<Rightarrow> (wst, wst) outcome option" where
  "start_up E su name =
     (case setup_signals su static_state of
        Wild \<Rightarrow> Some Wild
      | Quit s \<Rightarrow> Some (Quit s)
      | Go w \<Rightarrow>
          map_option (\<lambda>r.
            chain r (\<lambda>w. chain (setup_iface E su name w) (\<lambda>w. chain (setup_control E su w) (main_start E))))
            (setup_netlink E su w))"

definition wsupp :: "env \<Rightarrow> answers \<Rightarrow> bytes \<Rightarrow> (env \<times> signals \<times> wakeup) list \<Rightarrow> (wst, wst) outcome option" where
  "wsupp E su name evs =
     (case start_up E su name of
        None \<Rightarrow> None
      | Some Wild \<Rightarrow> Some Wild
      | Some (Quit s) \<Rightarrow> Some (Quit s)
      | Some (Go w) \<Rightarrow> main_loop evs w)"

end
