(* ===== verification/Netlink_Sync.thy ===== *)
theory Netlink_Sync imports Startup begin

text \<open>
  The rest of the netlink library: a 64-bit attribute (netlink/pack.c), the attribute calls the
  programs do not use (attr_gen.c, attr_str.c), the socket calls (ctx.c, ctx_grp.c), a request that
  waits for its acknowledgement, the replies to a request (ctx_cmd.c, ctx_gen.c) and the lookup of a
  family without its groups (genl_fam.c). \<open>nl_send_recv_ack\<close> is called by \<open>quit\<close>, whose model ends
  with the request sent; the others are the library's own. The lemmas show what waiting for an
  acknowledgement gives: notifications of the kernel are skipped, and the error code of the
  acknowledgement is the result.
\<close>

section \<open>Requests and attributes\<close>

definition nl_put_u64 :: "netlink \<Rightarrow> u16 \<Rightarrow> 64 word \<Rightarrow> netlink" where
  "nl_put_u64 nl type v = nl_put nl type (le32 (ucast v) @ le32 (ucast (drop_bit 32 v)))"

definition nl_get_0 :: "bytes \<Rightarrow> nat \<Rightarrow> nat option" where
  "nl_get_0 m msg = nl_attr_0_in m (msg + 20) (int (nlm_len m msg) - 20)"

definition nl_get_n :: "bytes \<Rightarrow> nat \<Rightarrow> nat \<Rightarrow> nat option" where
  "nl_get_n m msg cur = nl_attr_n_in m (msg + 20) (int (nlm_len m msg) - 20) cur"

definition nl_get_str :: "bytes \<Rightarrow> nat \<Rightarrow> u16 \<Rightarrow> (unit, nat option) outcome" where
  "nl_get_str m msg type = nl_str_at m (nl_get m msg type)"

definition nl_attr_is_zstr :: "bytes \<Rightarrow> nat \<Rightarrow> (unit, bool) outcome" where
  "nl_attr_is_zstr m at =
     (if at_len m at < 4 then (if 0 \<in> set (drop (at + 4) m) then Go False else Wild)
      else Go (nl_check_zstr m (at + 4) (at_len m at - 4)))"

section \<open>The socket\<close>

text \<open>
  \<open>sock\<close> and \<open>bind\<close> are what the system calls return, the latter given the address; the results are
  the descriptor stored, if any, and the returned number.
\<close>

abbreviation (input) AF_NETLINK :: u16 where "AF_NETLINK \<equiv> 16"

definition nl_connect :: "int \<Rightarrow> (bytes \<Rightarrow> int) \<Rightarrow> u32 \<Rightarrow> u32 \<Rightarrow> int option \<times> int" where
  "nl_connect sock bind pid groups =
     (if sock < 0 then (None, sock)
      else let ret = bind (le16 AF_NETLINK @ [0, 0] @ le32 pid @ le32 groups) in
           if ret < 0 then (Some sock, ret) else (Some sock, 0))"

abbreviation (input) SOL_NETLINK :: int where "SOL_NETLINK \<equiv> 270"
abbreviation (input) NETLINK_ADD_MEMBERSHIP :: int where "NETLINK_ADD_MEMBERSHIP \<equiv> 1"

definition nl_subscribe :: "(int \<Rightarrow> int \<Rightarrow> bytes \<Rightarrow> int) \<Rightarrow> int \<Rightarrow> int" where
  "nl_subscribe setsockopt grp = setsockopt SOL_NETLINK NETLINK_ADD_MEMBERSHIP (le32 (word_of_int grp))"

section \<open>Replies\<close>

definition nl_set_err :: "int \<Rightarrow> netlink \<Rightarrow> netlink" where
  "nl_set_err err nl = nl\<lparr>nl_err := - err\<rparr>"

text \<open>The message is the one at \<open>nl_msgptr\<close>.\<close>

definition nl_msg_err :: "netlink \<Rightarrow> netlink" where
  "nl_msg_err nl =
     (if nlm_len (nl_rxbuf nl) (nl_msgptr nl) < 36 then nl\<lparr>nl_err := - EBADMSG\<rparr>
      else nl\<lparr>nl_err := nle_err (nl_rxbuf nl) (nl_msgptr nl)\<rparr>)"

definition nl_recv_expect :: "nat \<Rightarrow> bool \<Rightarrow> rx_event list \<Rightarrow> netlink \<Rightarrow> (bool \<times> rx_event list \<times> netlink) option" where
  "nl_recv_expect hdrsize one evs nl =
     (case nl_recv_seq evs nl of
        None \<Rightarrow> None
      | Some (False, evs, nl) \<Rightarrow> Some (False, evs, nl)
      | Some (True, evs, nl) \<Rightarrow>
          let type = nlm_type (nl_rxbuf nl) (nl_msgptr nl) in
          if type = NLMSG_DONE then Some (False, evs, nl_set_err (if one then EBADMSG else 0) nl)
          else if type = NLMSG_ERROR then Some (False, evs, nl_msg_err nl)
          else if nlm_len (nl_rxbuf nl) (nl_msgptr nl) < hdrsize then Some (False, evs, nl_set_err EBADMSG nl)
          else Some (True, evs, nl))"

definition nl_recv_reply :: "nat \<Rightarrow> rx_event list \<Rightarrow> netlink \<Rightarrow> (bool \<times> rx_event list \<times> netlink) option" where
  "nl_recv_reply hdrsize = nl_recv_expect hdrsize True"

definition nl_recv_multi :: "nat \<Rightarrow> rx_event list \<Rightarrow> netlink \<Rightarrow> (bool \<times> rx_event list \<times> netlink) option" where
  "nl_recv_multi hdrsize = nl_recv_expect hdrsize False"

text \<open>A message that is not there is read all the same.\<close>

definition nl_recv_genl :: "rx_event list \<Rightarrow> netlink \<Rightarrow> (unit, nat option \<times> rx_event list \<times> netlink) outcome option" where
  "nl_recv_genl evs nl =
     (case nl_recv evs nl of
        None \<Rightarrow> None
      | Some (False, evs, nl) \<Rightarrow> Some Wild
      | Some (True, evs, nl) \<Rightarrow>
          if nlm_seq (nl_rxbuf nl) (nl_msgptr nl) \<noteq> 0 then Some (Go (None, evs, nl_set_err EBADMSG nl))
          else case nl_gen (nl_rxbuf nl) (nl_msgptr nl) of
                 None \<Rightarrow> Some (Go (None, evs, nl_set_err EBADMSG nl))
               | Some gen \<Rightarrow> Some (Go (Some gen, evs, nl)))"

text \<open>The result of \<open>nl_gen\<close> is not looked at, so a reply it refuses ends the sequence without an error.\<close>

definition nl_recv_genl_multi :: "rx_event list \<Rightarrow> netlink \<Rightarrow> (nat option \<times> rx_event list \<times> netlink) option" where
  "nl_recv_genl_multi evs nl =
     (case nl_recv_multi 20 evs nl of
        None \<Rightarrow> None
      | Some (False, evs, nl) \<Rightarrow> Some (None, evs, nl)
      | Some (True, evs, nl) \<Rightarrow> Some (nl_gen (nl_rxbuf nl) (nl_msgptr nl), evs, nl))"

section \<open>A request with an acknowledgement\<close>

text \<open>What is sent, the result and the state; a reply that does not come is read through a null pointer.\<close>

definition nl_send_recv_ack :: "bool \<Rightarrow> rx_event list \<Rightarrow> netlink \<Rightarrow>
    (unit, bytes option \<times> int \<times> rx_event list \<times> netlink) outcome option" where
  "nl_send_recv_ack ok evs nl =
     (case nl_tx_msg nl of
        None \<Rightarrow> Some (Go (None, - EINVAL, evs, nl))
      | Some _ \<Rightarrow>
          (let (ret, m, nl) = nl_send ok (nl_or_flags NLM_F_ACK nl) in
           if ret \<noteq> 0 then Some (Go (m, nl_err nl, evs, nl))
           else case nl_recv_seq evs nl of
                  None \<Rightarrow> None
                | Some (False, evs, nl) \<Rightarrow> Some Wild
                | Some (True, evs, nl) \<Rightarrow>
                    let err = (case nl_err_msg (nl_rxbuf nl) (nl_msgptr nl) of
                                 None \<Rightarrow> - EBADMSG
                               | Some nle \<Rightarrow> nle_err (nl_rxbuf nl) nle) in
                    Some (Go (m, err, evs, nl\<lparr>nl_err := err\<rparr>))))"

section \<open>A family without its groups (netlink/genl_fam.c)\<close>

text \<open>When there is no reply to read the result is \<open>nl_err\<close>, which can be zero.\<close>

definition query_family :: "bool \<Rightarrow> rx_event list \<Rightarrow> bytes \<Rightarrow> netlink \<Rightarrow> (bytes option \<times> int \<times> netlink) option" where
  "query_family ok evs name nl =
     (let nl = nl_new_cmd nl GENL_ID_CTRL CTRL_CMD_GETFAMILY 1;
          nl = nl_put_str nl CTRL_ATTR_FAMILY_NAME name in
      case nl_send_recv_genl ok evs nl of
        None \<Rightarrow> None
      | Some (m, None, evs, nl) \<Rightarrow> Some (m, nl_err nl, nl)
      | Some (m, Some gen, evs, nl) \<Rightarrow>
          Some (m, case nl_get_of_len (nl_rxbuf nl) gen CTRL_ATTR_FAMILY_ID 2 of
                     None \<Rightarrow> - EBADMSG
                   | Some u \<Rightarrow> uint (of_le16 (drop u (nl_rxbuf nl))), nl))"

section \<open>What an acknowledgement gives\<close>

text \<open>A datagram holding one message that fits the buffer; nothing of an earlier one left to be read.\<close>

definition one_message :: "nat \<Rightarrow> bytes \<Rightarrow> bool" where
  "one_message cap d \<longleftrightarrow> nlm_len d 0 = length d \<and> 16 \<le> length d \<and> length d \<le> cap"

definition drained :: "netlink \<Rightarrow> bool" where
  "drained nl \<longleftrightarrow> nl_msgend nl = nl_rxend nl \<and> nl_rxend nl \<le> length (nl_rxbuf nl) \<and> 16 < length (nl_rxbuf nl)"

definition holding :: "bytes \<Rightarrow> netlink \<Rightarrow> netlink \<Rightarrow> bool" where
  "holding d nl nl' \<longleftrightarrow> (\<exists>r. length (d @ r) = length (nl_rxbuf nl) \<and>
     nl' = nl\<lparr>nl_rxbuf := d @ r, nl_rxend := length d, nl_err := 0, nl_msgptr := 0, nl_msgend := length d\<rparr>)"

lemma holding_drained: "drained nl \<Longrightarrow> holding d nl nl' \<Longrightarrow> drained nl' \<and> nl_seq nl' = nl_seq nl"
  by (auto simp: holding_def drained_def)

lemma holding_trans: "holding d nl nl1 \<Longrightarrow> holding e nl1 nl2 \<Longrightarrow> holding e nl nl2"
  by (auto simp: holding_def)

lemma of_le32_append: "4 \<le> length d \<Longrightarrow> of_le32 (d @ r) = of_le32 d"
  by (cases d rule: of_le32.cases) auto

lemma of_le16_append: "2 \<le> length d \<Longrightarrow> of_le16 (d @ r) = of_le16 d"
  by (cases d rule: of_le16.cases) auto

lemma header_append:
  assumes "16 \<le> length d"
  shows "nlm_len (d @ r) 0 = nlm_len d 0" "nlm_seq (d @ r) 0 = nlm_seq d 0" "nlm_type (d @ r) 0 = nlm_type d 0"
  using assms of_le32_append [of d r] of_le32_append [of "drop 8 d" r] of_le16_append [of "drop 4 d" r]
  by (simp_all add: nlm_len_def nlm_seq_def nlm_type_def)

lemma nl_recv_one:
  assumes "drained nl" and "one_message (length (nl_rxbuf nl)) d"
  shows "\<exists>nl'. nl_recv (Rx_data d # evs) nl = Some (True, evs, nl') \<and> holding d nl nl'"
proof -
  define nl0 where "nl0 = (if nl_msgend nl > 0 then nl_shift_rxbuf nl else nl)"
  have nl0: "nl_rxend nl0 = 0" "nl_msgend nl0 = 0" "length (nl_rxbuf nl0) = length (nl_rxbuf nl)"
    "\<And>b e. nl0\<lparr>nl_rxbuf := b, nl_rxend := e, nl_err := 0, nl_msgptr := 0, nl_msgend := e\<rparr>
        = nl\<lparr>nl_rxbuf := b, nl_rxend := e, nl_err := 0, nl_msgptr := 0, nl_msgend := e\<rparr>"
    using assms(1) by (auto simp: nl0_def drained_def nl_shift_rxbuf_def Let_def bufs)
  have d: "nlm_len d 0 = length d" "16 \<le> length d" "length d \<le> length (nl_rxbuf nl)"
    using assms(2) by (simp_all add: one_message_def)
  let ?r = "drop (length d) (nl_rxbuf nl0)"
  let ?nl1 = "nl0\<lparr>nl_rxbuf := d @ ?r, nl_rxend := length d, nl_err := 0\<rparr>"
  have 1: "nl_recv_chunk (Rx_data d) nl0 = (int (length d), ?nl1)"
    using d nl0(1,3) by (auto simp: nl_recv_chunk_def memcpy_at_def Let_def)
  have 2: "nl_got_message ?nl1 = length d"
    using d nl0(2) by (simp add: nl_got_message_def Let_def header_append)
  have 3: "nl_got_message nl = 0" using assms(1) by (simp add: nl_got_message_def drained_def Let_def)
  have 4: "nl_no_rx_space nl0 = (False, nl0)"
    using assms(1) nl0(1,3) by (simp add: nl_no_rx_space_def drained_def)
  have "nl_recv (Rx_data d # evs) nl = nl_recv_loop (Rx_data d # evs) nl0"
    unfolding nl_recv_def by (simp add: 3 4 Let_def flip: nl0_def)
  also have "\<dots> = Some (True, evs, got_msg (length d) ?nl1)"
    using d(2) by (auto simp: 1 2 Let_def)
  finally show ?thesis
    using d(3) nl0 by (intro exI [of _ "got_msg (length d) ?nl1"])
      (auto simp: holding_def got_msg_def intro!: exI [of _ ?r])
qed

text \<open>Notifications are skipped, the first message of the request's own number is the result.\<close>

lemma nl_recv_seq_skips:
  assumes "drained nl" and "\<forall>d\<in>set ns. one_message (length (nl_rxbuf nl)) d \<and> nlm_seq d 0 = 0"
    and "one_message (length (nl_rxbuf nl)) d" and "nlm_seq d 0 = nl_seq nl" and "nl_seq nl \<noteq> 0"
  shows "\<exists>nl'. nl_recv_seq (map Rx_data ns @ Rx_data d # evs) nl = Some (True, evs, nl') \<and> holding d nl nl'"
  using assms
proof (induction ns arbitrary: nl)
  case Nil
  obtain nl' where r: "nl_recv (Rx_data d # evs) nl = Some (True, evs, nl')" and h: "holding d nl nl'"
    using nl_recv_one [OF Nil(1,3)] by blast
  have "nlm_seq (nl_rxbuf nl') (nl_msgptr nl') = nl_seq nl" "nl_seq nl' = nl_seq nl"
    using h Nil(3,4) by (auto simp: holding_def one_message_def header_append)
  then show ?case using r h Nil(5) by (subst nl_recv_seq.simps) simp
next
  case (Cons n ns)
  obtain nl1 where r: "nl_recv (Rx_data n # map Rx_data ns @ Rx_data d # evs) nl
      = Some (True, map Rx_data ns @ Rx_data d # evs, nl1)" and h: "holding n nl nl1"
    using nl_recv_one [OF Cons.prems(1), of n] Cons.prems(2) by auto
  have "nlm_seq (nl_rxbuf nl1) (nl_msgptr nl1) = 0" "length (nl_rxbuf nl1) = length (nl_rxbuf nl)"
    using h Cons.prems(2) by (auto simp: holding_def one_message_def header_append)
  moreover obtain nl' where "nl_recv_seq (map Rx_data ns @ Rx_data d # evs) nl1 = Some (True, evs, nl')" "holding d nl1 nl'"
    using Cons.IH [of nl1] holding_drained [OF Cons.prems(1) h] Cons.prems calculation(2) by auto
  ultimately show ?case
    using r holding_trans [OF h] by (subst list.map(2), subst append_Cons, subst nl_recv_seq.simps) auto
qed

text \<open>
  The result of a request that waits for its acknowledgement is the kernel's code, whatever
  notifications come first; the bytes sent are those assembled, with the flag that asks for it.
\<close>

lemma nl_send_recv_ack_result:
  assumes "drained nl" and "16 \<le> nl_txend nl" and "\<not> nl_txover nl" and "nl_seq nl \<noteq> 0"
    and "\<forall>d\<in>set ns. one_message (length (nl_rxbuf nl)) d \<and> nlm_seq d 0 = 0"
    and "one_message (length (nl_rxbuf nl)) d" and "nlm_seq d 0 = nl_seq nl"
    and "nlm_type d 0 = NLMSG_ERROR" and "36 \<le> length d"
  shows "\<exists>nl'. nl_send_recv_ack True (map Rx_data ns @ Rx_data d # evs) nl =
      Some (Go (fst (snd (nl_send_ack True nl)), nle_err d 0, evs, nl')) \<and> nl_err nl' = nle_err d 0"
proof -
  let ?nl = "(nl_or_flags NLM_F_ACK nl)\<lparr>nl_err := 0\<rparr>"
  have tx: "nl_tx_msg nl = Some 0" using assms(2) by (simp add: nl_tx_msg_def)
  have snd: "nl_send True (nl_or_flags NLM_F_ACK nl) = (0, fst (snd (nl_send_ack True nl)), ?nl)"
    using assms(2,3) by (simp add: nl_send_ack_def tx nl_send_eq nl_or_flags_def nl_poke_def Let_def)
  have same: "drained ?nl" "nl_rxbuf ?nl = nl_rxbuf nl" "nl_seq ?nl = nl_seq nl"
    using assms(1) by (simp_all add: drained_def nl_or_flags_def nl_poke_def)
  obtain nl' where r: "nl_recv_seq (map Rx_data ns @ Rx_data d # evs) ?nl = Some (True, evs, nl')" and h: "holding d ?nl nl'"
    using nl_recv_seq_skips [of ?nl ns d evs] assms same by auto
  obtain b where b: "nl_rxbuf nl' = d @ b" "nl_msgptr nl' = 0" using h by (auto simp: holding_def)
  have "nl_err_msg (d @ b) 0 = Some 0" "nle_err (d @ b) 0 = nle_err d 0"
    using assms(6,8,9) of_le32_append [of "drop 16 d" b]
    by (simp_all add: nl_err_msg_def one_message_def header_append nle_err_def)
  then show ?thesis by (simp add: nl_send_recv_ack_def tx snd r b Let_def)
qed

text \<open>A peer that answers with an error of its own, a socket that fails: the call reads through a null pointer.\<close>

lemma nl_send_recv_ack_lost:
  assumes "drained nl" and "16 \<le> nl_txend nl" and "\<not> nl_txover nl"
  shows "nl_send_recv_ack True (Rx_error e # evs) nl = Some Wild"
proof -
  let ?nl = "(nl_or_flags NLM_F_ACK nl)\<lparr>nl_err := 0\<rparr>"
  have tx: "nl_tx_msg nl = Some 0" using assms(2) by (simp add: nl_tx_msg_def)
  have snd: "\<exists>m. nl_send True (nl_or_flags NLM_F_ACK nl) = (0, m, ?nl)"
    using assms(2,3) by (simp add: nl_send_eq nl_or_flags_def nl_poke_def Let_def)
  have "nl_got_message ?nl = 0" "length (nl_rxbuf ?nl) > 16" "nl_rxend ?nl = nl_msgend ?nl"
    "nl_msgend ?nl \<le> length (nl_rxbuf ?nl)"
    using assms(1) by (simp_all add: nl_got_message_def drained_def Let_def nl_or_flags_def nl_poke_def)
  then have "\<exists>nl'. nl_recv (Rx_error e # evs) ?nl = Some (False, evs, nl')"
    by (auto simp: nl_recv_def nl_no_rx_space_def nl_recv_chunk_def nl_shift_rxbuf_def Let_def bufs)
  then have "\<exists>nl'. nl_recv_seq (Rx_error e # evs) ?nl = Some (False, evs, nl')"
    by (subst nl_recv_seq.simps) auto
  then show ?thesis using snd by (auto simp: nl_send_recv_ack_def tx)
qed

end
