(* ===== verification/Protocol.thy ===== *)
theory Protocol imports Commands begin

text \<open>
  The protocol of a connection, as an abstract machine: the state of the connection together with the
  requests sent to the kernel so far, and the steps the handlers of wsupp_netlink.c, wsupp_apsel.c
  and wsupp_eapol.c can make between two such states. The comment at the head of wsupp_netlink.c draws
  part of this machine. A step is marked by what it needs: most can happen at any time (a client, a timer,
  a signal), some only because of a message of the kernel or of an EAPOL packet. What holds of
  every run of the machine is proved here, that the daemon runs it in Protocol_Steps.
\<close>

section \<open>The machine\<close>

datatype cause = Kernel | Packet

type_synonym view = "authstate \<times> byte list"

text \<open>A request reaches the kernel, or is lost; the latter only where the machine is \<open>lossy\<close>.\<close>

inductive asks :: "bool \<Rightarrow> byte \<Rightarrow> byte list \<Rightarrow> byte list \<Rightarrow> bool" for lossy where
  taken: "asks lossy c cs (cs @ [c])"
| lost: "lossy \<Longrightarrow> asks lossy c cs cs"

inductive cstep :: "bool \<Rightarrow> cause set \<Rightarrow> view \<Rightarrow> view \<Rightarrow> bool" for lossy causes where
  scan: "c = NL80211_CMD_TRIGGER_SCAN \<or> c = NL80211_CMD_GET_SCAN \<Longrightarrow> asks lossy c cs cs' \<Longrightarrow>
    cstep lossy causes (s, cs) (s, cs')"
| authenticate: "asks lossy NL80211_CMD_AUTHENTICATE cs cs' \<Longrightarrow>
    cstep lossy causes (AS_IDLE, cs) (AS_AUTHENTICATING, cs')"
| associate: "Kernel \<in> causes \<Longrightarrow> asks lossy NL80211_CMD_ASSOCIATE cs cs' \<Longrightarrow>
    cstep lossy causes (AS_AUTHENTICATING, cs) (AS_ASSOCIATING, cs')"
| associated: "Kernel \<in> causes \<Longrightarrow> cstep lossy causes (AS_ASSOCIATING, cs) (AS_CONNECTING, cs)"
| overruled: "Kernel \<in> causes \<Longrightarrow> asks lossy NL80211_CMD_DISCONNECT cs cs' \<Longrightarrow>
    cstep lossy causes (AS_ASSOCIATING, cs) (AS_CONNECTING, cs')"
| connected: "Kernel \<in> causes \<Longrightarrow> s \<noteq> AS_EXTERNAL \<Longrightarrow> cstep lossy causes (s, cs) (AS_CONNECTED, cs)"
| external: "Kernel \<in> causes \<Longrightarrow> s \<noteq> AS_EXTERNAL \<Longrightarrow> cstep lossy causes (s, cs) (AS_EXTERNAL, cs)"
| disconnect: "s \<notin> {AS_IDLE, AS_NETDOWN, AS_DISCONNECTING} \<Longrightarrow> asks lossy NL80211_CMD_DISCONNECT cs cs' \<Longrightarrow>
    cstep lossy causes (s, cs) (AS_DISCONNECTING, cs')"
| ended: "Kernel \<in> causes \<Longrightarrow> cstep lossy causes (s, cs) (AS_IDLE, cs)"
| down: "Kernel \<in> causes \<Longrightarrow> cstep lossy causes (s, cs) (AS_NETDOWN, cs)"
| restored: "cstep lossy causes (AS_NETDOWN, cs) (AS_IDLE, cs)"
| key: "Packet \<in> causes \<Longrightarrow> asks lossy NL80211_CMD_NEW_KEY cs cs' \<Longrightarrow> cstep lossy causes (s, cs) (s, cs')"

inductive_cases asksE: "asks lossy c cs cs'"

abbreviation (input) csteps :: "bool \<Rightarrow> cause set \<Rightarrow> view \<Rightarrow> view \<Rightarrow> bool" where
  "csteps lossy causes \<equiv> (cstep lossy causes)\<^sup>*\<^sup>*"

lemma cstep_mono: "cstep lossy causes x y \<Longrightarrow> causes \<subseteq> causes' \<Longrightarrow> cstep lossy causes' x y"
  by (erule cstep.cases) (auto intro: cstep.intros)

lemma csteps_mono: "csteps lossy causes x y \<Longrightarrow> causes \<subseteq> causes' \<Longrightarrow> csteps lossy causes' x y"
  by (induction rule: rtranclp_induct) (auto intro: rtranclp.rtrancl_into_rtrancl cstep_mono)

section \<open>Invariants of a machine\<close>

text \<open>What every step keeps, every run keeps.\<close>

locale kept =
  fixes step :: "'s \<Rightarrow> 's \<Rightarrow> bool" and inv :: "'s \<Rightarrow> bool"
  assumes step_inv: "step x y \<Longrightarrow> inv x \<Longrightarrow> inv y"
begin

lemma run_inv: "step\<^sup>*\<^sup>* x y \<Longrightarrow> inv x \<Longrightarrow> inv y"
  by (induction rule: rtranclp_induct) (auto intro: step_inv)

end

text \<open>The last request that concerns the connection itself.\<close>

definition about_connection :: "byte \<Rightarrow> bool" where
  "about_connection c \<longleftrightarrow> c \<in> {NL80211_CMD_AUTHENTICATE, NL80211_CMD_ASSOCIATE, NL80211_CMD_DISCONNECT}"

fun last_asked :: "byte list \<Rightarrow> byte option" where
  "last_asked [] = None"
| "last_asked (c # cs) =
     (case last_asked cs of Some d \<Rightarrow> Some d | None \<Rightarrow> if about_connection c then Some c else None)"

lemma last_asked_snoc: "last_asked (cs @ [c]) = (if about_connection c then Some c else last_asked cs)"
  by (induction cs) (auto split: option.splits)

text \<open>
  The phases of a connection say what was last asked of the kernel. (In \<open>AS_CONNECTING\<close> it can be
  the disconnection that \<open>cmd_associate\<close> overlooks; the remaining states are left open.)
\<close>

fun mirrors :: "view \<Rightarrow> bool" where
  "mirrors (s, cs) \<longleftrightarrow>
     (case s of
        AS_AUTHENTICATING \<Rightarrow> last_asked cs = Some NL80211_CMD_AUTHENTICATE
      | AS_ASSOCIATING \<Rightarrow> last_asked cs = Some NL80211_CMD_ASSOCIATE
      | AS_CONNECTING \<Rightarrow> last_asked cs \<in> {Some NL80211_CMD_ASSOCIATE, Some NL80211_CMD_DISCONNECT}
      | AS_DISCONNECTING \<Rightarrow> last_asked cs = Some NL80211_CMD_DISCONNECT
      | _ \<Rightarrow> True)"

interpretation requests: kept "cstep False causes" mirrors for causes
proof
  fix x y assume "cstep False causes x y" "mirrors x"
  then show "mirrors y"
    by (cases rule: cstep.cases) (auto simp: last_asked_snoc about_connection_def elim!: asksE split: authstate.splits)
qed

text \<open>Without an EAPOL packet no key is uploaded.\<close>

fun keys_asked :: "view \<Rightarrow> nat" where
  "keys_asked (s, cs) = count_list cs NL80211_CMD_NEW_KEY"

interpretation keys: kept "cstep lossy (causes - {Packet})" "\<lambda>x. keys_asked x = n" for lossy causes n
proof
  fix x y assume "cstep lossy (causes - {Packet}) x y" "keys_asked x = n"
  then show "keys_asked y = n" by (cases rule: cstep.cases) (auto elim!: asksE)
qed

text \<open>
  Without a message of the kernel a connection makes no progress: it is where it was, or it is being
  started, given up, or over.
\<close>

fun at_rest :: "authstate \<Rightarrow> view \<Rightarrow> bool" where
  "at_rest s0 (s, cs) \<longleftrightarrow> s \<in> {s0, AS_IDLE, AS_AUTHENTICATING, AS_DISCONNECTING}"

interpretation progress: kept "cstep lossy (causes - {Kernel})" "at_rest s0" for lossy causes s0
proof
  fix x y assume "cstep lossy (causes - {Kernel}) x y" "at_rest s0 x"
  then show "at_rest s0 y" by (cases rule: cstep.cases) auto
qed

text \<open>
  What can happen to a connection in state \<open>s0\<close> while the kernel says nothing: \<open>rs\<close> is what is asked of the
  kernel about the connection, \<open>s\<close> the state after that.
\<close>

definition unprompted :: "authstate \<Rightarrow> byte list \<Rightarrow> authstate \<Rightarrow> bool" where
  "unprompted s0 rs s \<longleftrightarrow>
     (if s0 = AS_IDLE \<or> s0 = AS_NETDOWN then
        rs = [] \<and> (s = s0 \<or> s = AS_IDLE)
        \<or> rs = [NL80211_CMD_AUTHENTICATE] \<and> s = AS_AUTHENTICATING
        \<or> rs = [NL80211_CMD_AUTHENTICATE, NL80211_CMD_DISCONNECT] \<and> s = AS_DISCONNECTING
      else if s0 = AS_DISCONNECTING then rs = [] \<and> s = s0
      else rs = [] \<and> s = s0 \<or> rs = [NL80211_CMD_DISCONNECT] \<and> s = AS_DISCONNECTING)"

fun since :: "authstate \<Rightarrow> byte list \<Rightarrow> view \<Rightarrow> bool" where
  "since s0 cs0 (s, cs) \<longleftrightarrow> (\<exists>new. cs = cs0 @ new \<and> unprompted s0 (filter about_connection new) s)"

lemma since_append: "since s0 cs0 (s, cs0 @ new) = unprompted s0 (filter about_connection new) s"
  by simp

lemma asks_taken: "asks False c cs cs' \<longleftrightarrow> cs' = cs @ [c]"
  by (auto intro: asks.intros elim!: asksE)

interpretation alone: kept "cstep False (causes - {Kernel})" "since s0 cs0" for causes s0 cs0
proof
  fix x y assume step: "cstep False (causes - {Kernel}) x y" and "since s0 cs0 x"
  then obtain s new where x: "x = (s, cs0 @ new)" "unprompted s0 (filter about_connection new) s"
    by (cases x) auto
  from step x(1) show "since s0 cs0 y"
    by (cases rule: cstep.cases)
       (use x(2) in \<open>auto simp: asks_taken since_append about_connection_def unprompted_def simp del: since.simps split: if_splits\<close>)
qed

end
