(* ===== verification/Invariant.thy ===== *)
theory Invariant imports Startup begin

text \<open>
  The invariant of the daemon's state: every buffer keeps the size its C type gives it, lengths stay
  in their bounds, the slot tables are well-formed and the scan state machine is consistent. Every
  operation keeps it, so every iteration of the main loop does.
\<close>

named_theorems wf_rules \<open>operations that keep the invariant\<close>

section \<open>The invariant\<close>

text \<open>\<open>txbuf[512]\<close> and \<open>rxbuf[8*1024]\<close> of wsupp_netlink.c; requests are padded to four bytes.\<close>

definition link_ok :: "netlink \<Rightarrow> bool" where
  "link_ok nl \<longleftrightarrow> length (nl_txbuf nl) = 512 \<and> nl_txend nl \<le> 512 \<and> nl_txend nl mod 4 = 0 \<and>
     length (nl_rxbuf nl) = 8192 \<and> nl_rxend nl \<le> 8192 \<and> nl_msgend nl \<le> nl_rxend nl"

definition ap_ok :: "ap \<Rightarrow> bool" where
  "ap_ok a \<longleftrightarrow> length (ap_bssid a) = MACLEN \<and> length (ap_ssid a) = SSIDLEN \<and> unat (ap_slen a) \<le> SSIDLEN \<and>
     ap_iesize a = length (ap_ies a) \<and> length (ap_ies a) \<le> 22 \<and> 0 \<le> ap_rescans a \<and> ap_rescans a < 30"

definition short_ssid :: "scan \<Rightarrow> bool" where
  "short_ssid sc \<longleftrightarrow> unat (sc_slen sc) \<le> SSIDLEN"

definition table_ok :: "scan slots \<Rightarrow> bool" where
  "table_ok t \<longleftrightarrow> scans_ok t \<and> (\<forall>sc \<in> set (fst t). short_ssid sc)"

definition keys_ok :: "wst \<Rightarrow> bool" where
  "keys_ok w \<longleftrightarrow> length (w_PSK w) = 32 \<and> length (w_KCK w) = 16 \<and> length (w_KEK w) = 16 \<and>
     length (w_PTK w) = 16 \<and> length (w_GTK w) = 32 \<and> length (w_RSC w) = 6 \<and> length (w_amac w) = 6 \<and>
     length (w_smac w) = 6 \<and> length (w_anonce w) = 32 \<and> length (w_snonce w) = 32 \<and>
     length (w_replay w) = 8 \<and> length (w_packet w) = 1024"

text \<open>No scan is recorded while there is none.\<close>

definition scan_state_ok :: "wst \<Rightarrow> bool" where
  "scan_state_ok w \<longleftrightarrow> (w_scanstate w = SS_IDLE \<longrightarrow> w_scanreq w = 0 \<and> w_scanseq w = 0)"

definition wst_ok :: "wst \<Rightarrow> bool" where
  "wst_ok w \<longleftrightarrow> link_ok (w_nl w) \<and> ap_ok (w_ap w) \<and> table_ok (w_scans w) \<and>
     slots_ok conn_bytes NCONNS (w_conns w) \<and> keys_ok w \<and> scan_state_ok w \<and>
     length (w_ifname w) \<le> 16 \<and> length (w_pfds w) = NPFDS"

text \<open>Parts of the state the invariant says nothing of.\<close>

lemma wf_other [simp]:
  "wst_ok (w\<lparr>w_authstate := a1\<rparr>) = wst_ok w" "wst_ok (w\<lparr>w_opermode := a2\<rparr>) = wst_ok w" "wst_ok (w\<lparr>w_rawsock := a3\<rparr>) = wst_ok w"
  "wst_ok (w\<lparr>w_eapolstate := a4\<rparr>) = wst_ok w" "wst_ok (w\<lparr>w_eapolsends := a5\<rparr>) = wst_ok w" "wst_ok (w\<lparr>w_version := a6\<rparr>) = wst_ok w"
  "wst_ok (w\<lparr>w_gtkindex := a7\<rparr>) = wst_ok w" "wst_ok (w\<lparr>w_config := a8\<rparr>) = wst_ok w" "wst_ok (w\<lparr>w_rfkill := a9\<rparr>) = wst_ok w"
  "wst_ok (w\<lparr>w_rfkilled := b1\<rparr>) = wst_ok w" "wst_ok (w\<lparr>w_rfkidx := b2\<rparr>) = wst_ok w" "wst_ok (w\<lparr>w_dhcpid := b3\<rparr>) = wst_ok w"
  "wst_ok (w\<lparr>w_timer := b4\<rparr>) = wst_ok w" "wst_ok (w\<lparr>w_pollset := b5\<rparr>) = wst_ok w" "wst_ok (w\<lparr>w_npfds := b6\<rparr>) = wst_ok w"
  "wst_ok (w\<lparr>w_sigterm := b7\<rparr>) = wst_ok w" "wst_ok (w\<lparr>w_uc := b8\<rparr>) = wst_ok w" "wst_ok (w\<lparr>w_out := b9\<rparr>) = wst_ok w"
  "wst_ok (emit x w) = wst_ok w" "wst_ok (emit_nl m w) = wst_ok w" "wst_ok (clr_timer w) = wst_ok w" "wst_ok (set_timer n w) = wst_ok w"
  by (simp_all add: wst_ok_def keys_ok_def scan_state_ok_def emit_def emit_nl_def clr_timer_def set_timer_def
      split: option.splits)

text \<open>Changes of one part.\<close>

lemma wf_nl: "wst_ok w \<Longrightarrow> link_ok nl \<Longrightarrow> wst_ok (w\<lparr>w_nl := nl\<rparr>)"
  by (simp add: wst_ok_def keys_ok_def scan_state_ok_def)

lemma wf_ap: "wst_ok w \<Longrightarrow> ap_ok a \<Longrightarrow> wst_ok (w\<lparr>w_ap := a\<rparr>)"
  by (simp add: wst_ok_def keys_ok_def scan_state_ok_def)

lemma wf_scans: "wst_ok w \<Longrightarrow> table_ok t \<Longrightarrow> wst_ok (w\<lparr>w_scans := t\<rparr>)"
  by (simp add: wst_ok_def keys_ok_def scan_state_ok_def)

lemma wf_conns: "wst_ok w \<Longrightarrow> slots_ok conn_bytes NCONNS t \<Longrightarrow> wst_ok (w\<lparr>w_conns := t\<rparr>)"
  by (simp add: wst_ok_def keys_ok_def scan_state_ok_def)

lemma wf_parts: "wst_ok w \<Longrightarrow> link_ok (w_nl w) \<and> ap_ok (w_ap w) \<and> table_ok (w_scans w) \<and>
    slots_ok conn_bytes NCONNS (w_conns w) \<and> keys_ok w \<and> scan_state_ok w"
  by (simp add: wst_ok_def)

lemma wf_reset_scan_state [wf_rules]: "wst_ok w \<Longrightarrow> wst_ok (reset_scan_state w)"
  by (simp add: wst_ok_def keys_ok_def scan_state_ok_def reset_scan_state_def)

lemma wf_scanning: "wst_ok w \<Longrightarrow> st \<noteq> SS_IDLE \<Longrightarrow> wst_ok (w\<lparr>w_scanstate := st, w_scanseq := sq\<rparr>)"
  by (simp add: wst_ok_def keys_ok_def scan_state_ok_def)

lemma wf_send_to_conns [simp]: "wst_ok (send_to_conns E buf cns w) = wst_ok w"
  by (induction E buf cns w rule: send_to_conns.induct) auto

lemma wf_reports [simp]:
  "wst_ok (report_simple E c w) = wst_ok w" "wst_ok (report_station E c w) = wst_ok w" "wst_ok (kill_dhcp w) = wst_ok w"
  by (simp_all add: report_simple_def report_station_def send_report_def kill_dhcp_def Let_def)

lemmas report_defs = report_net_down_def report_scanning_def report_scan_done_def report_scan_fail_def
  report_no_connect_def report_disconnect_def report_connected_def

section \<open>Requests\<close>

lemma link_ok_poke: "link_ok nl \<Longrightarrow> off + length bs \<le> 512 \<Longrightarrow> link_ok (nl_poke off bs nl)"
  by (simp add: link_ok_def nl_poke_def length_memcpy_at)

lemma mod4_pad: "n mod 4 = 0 \<Longrightarrow> (n + (k + (4 - k mod 4) mod 4)) mod 4 = (0 :: nat)"
  using align4_mod [of k] by (simp add: align4_def mod_add_eq [symmetric, of n])

lemma nl_alloc_link:
  assumes "link_ok nl" "nl_alloc nl n = (r, nl')"
  shows "link_ok nl' \<and> (\<forall>at. r = Some at \<longrightarrow> at = nl_txend nl \<and> at + n \<le> 512 \<and> nl_txend nl' = at + align4 n)"
proof (cases r)
  case None
  then show ?thesis using assms by (auto simp: nl_alloc_def Let_def split: if_splits)
next
  case (Some at)
  have r: "at = nl_txend nl" "at + n \<le> 512"
    "nl' = nl\<lparr>nl_txend := at + (n + (4 - n mod 4) mod 4), nl_txbuf := memcpy_at (nl_txbuf nl) at (replicate n 0)\<rparr>"
    using assms Some by (auto simp: nl_alloc_def Let_def link_ok_def split: if_splits)
  have "at mod 4 = 0" using assms(1) r(1) by (simp add: link_ok_def)
  then have "at + align4 n \<le> 512"
    using align4_le_iff [of 512 "at + n"] align4_add [of at n] r(2) by simp
  then have "at + (n + (4 - n mod 4) mod 4) \<le> 512" by (simp add: align4_def)
  with \<open>at mod 4 = 0\<close> assms(1) r Some mod4_pad [of at n] show ?thesis
    by (simp add: link_ok_def length_memcpy_at align4_def)
qed

lemma link_ok_seq: "link_ok nl \<Longrightarrow> link_ok (nl\<lparr>nl_txend := 0, nl_txover := b, nl_seq := s\<rparr>)"
  by (simp add: link_ok_def)

lemma link_ok_err [simp]: "link_ok (nl\<lparr>nl_err := e\<rparr>) = link_ok nl" "link_ok (nl\<lparr>nl_txover := b\<rparr>) = link_ok nl"
  by (simp_all add: link_ok_def)

lemma link_ok_new_cmd: "link_ok nl \<Longrightarrow> link_ok (nl_new_cmd nl fam cmd ver)"
  using nl_alloc_link [OF link_ok_seq [of nl "nl_seq nl + 1" False], of 20]
  by (auto simp: nl_new_cmd_def nl_start_packet_def split: option.splits prod.splits intro!: link_ok_poke)

lemma link_ok_put: "link_ok nl \<Longrightarrow> link_ok (nl_put nl k bs)"
  using nl_alloc_link [of nl "4 + length bs"]
  by (auto simp: nl_put_def nl_tx_msg_def Let_def split: option.splits prod.splits intro!: link_ok_poke)

lemma link_ok_puts [wf_rules]:
  "link_ok nl \<Longrightarrow> link_ok (nl_put nl k bs)" "link_ok nl \<Longrightarrow> link_ok (nl_put_u8 nl k b)"
  "link_ok nl \<Longrightarrow> link_ok (nl_put_u32 nl k v)" "link_ok nl \<Longrightarrow> link_ok (nl_put_empty nl k)"
  by (simp_all add: nl_put_u8_def nl_put_u32_def nl_put_empty_def link_ok_put)

text \<open>A nest that is put, filled by one attribute and ended.\<close>

lemma nl_txend_put: "nl_txend nl \<le> nl_txend (nl_put nl k bs)"
  by (auto simp: nl_put_def nl_alloc_def nl_poke_def Let_def split: option.splits prod.splits if_splits)

lemma link_ok_nest:
  assumes "link_ok nl" "nl_put_nest nl k = (at, nl')"
  shows "link_ok nl' \<and> (\<forall>p. at = Some p \<longrightarrow> p + 4 \<le> 512)"
  using assms nl_alloc_link [of nl 4]
  by (auto simp: nl_put_nest_def split: option.splits prod.splits intro!: link_ok_poke)

lemma link_ok_end_nest:
  assumes "link_ok nl" "\<forall>p. at = Some p \<longrightarrow> p + 4 \<le> 512"
  shows "link_ok (nl_end_nest nl at)"
  using assms by (auto simp: nl_end_nest_def split: option.splits intro!: link_ok_poke)

lemma link_ok_put_key_types [wf_rules]: "link_ok nl \<Longrightarrow> link_ok (put_key_types k nl)"
  using link_ok_nest [of nl NL80211_ATTR_KEY_DEFAULT_TYPES]
  by (auto simp: put_key_types_def split: prod.splits intro!: link_ok_end_nest wf_rules)

lemma link_ok_command [wf_rules]: "wst_ok w \<Longrightarrow> link_ok (new_cmd c w)" "link_ok nl \<Longrightarrow> link_ok (put_ap w nl)"
  by (auto simp: new_cmd_def put_ap_def Let_def dest: wf_parts intro!: wf_rules link_ok_new_cmd)

lemma link_ok_or_flags: "link_ok nl \<Longrightarrow> link_ok (nl_or_flags f nl)"
  by (simp add: nl_or_flags_def link_ok_poke)

lemma link_ok_send: "link_ok nl \<Longrightarrow> link_ok (snd (snd (nl_send ok nl)))"
  by (auto simp: nl_send_eq Let_def)

lemma wf_send_nl [wf_rules]: "wst_ok w \<Longrightarrow> wst_ok (snd (send_nl E w))"
  using wf_parts [of w] by (simp add: send_nl_def case_prod_beta wf_nl link_ok_send)

lemma wf_quit [wf_rules]: "wst_ok w \<Longrightarrow> ends d P wst_ok (quit E w)"
  by (auto simp: quit_def Let_def case_prod_beta nl_send_ack_def
      intro!: wf_nl wf_rules link_ok_send link_ok_or_flags split: option.splits)

lemma wf_send_check [wf_rules]: "wst_ok w \<Longrightarrow> ends d wst_ok wst_ok (send_check E w)"
  by (auto simp: send_check_def case_prod_beta intro: wf_rules)

lemma wf_send_set_authstate [wf_rules]: "wst_ok w \<Longrightarrow> ends d wst_ok wst_ok (send_set_authstate E as w)"
  by (auto simp: send_set_authstate_def intro!: ends_chain wf_rules)

lemma wf_send_scan:
  assumes "wst_ok (w\<lparr>w_scanreq := 0\<rparr>)"
  shows "wst_ok (snd (send_scan E freq w))"
proof -
  have any: "wst_ok (v\<lparr>w_scanreq := 0\<rparr>) \<Longrightarrow> wst_ok (v\<lparr>w_scanstate := SS_SCANNING, w_scanseq := sq\<rparr>)" for v sq
    by (simp add: wst_ok_def keys_ok_def scan_state_ok_def)
  have put: "wst_ok (v\<lparr>w_nl := nl, w_scanreq := 0\<rparr>)" if "wst_ok (v\<lparr>w_scanreq := 0\<rparr>)" "link_ok nl" for v nl
    using that by (simp add: wst_ok_def keys_ok_def scan_state_ok_def)
  have new: "link_ok (new_cmd c w)" for c
    using assms wf_parts [OF assms] by (simp add: new_cmd_def link_ok_new_cmd link_ok_puts)
  have nest: "link_ok (nl_end_nest (nl_put_u32 (snd (nl_put_nest nl k)) 0 v) (fst (nl_put_nest nl k)))"
    if "link_ok nl" for nl k v
    using link_ok_nest [OF that, of k] by (auto intro!: link_ok_end_nest link_ok_puts simp: prod_eq_iff)
  have sent: "wst_ok (v\<lparr>w_scanreq := 0\<rparr>) \<Longrightarrow> wst_ok ((snd (send_nl E v))\<lparr>w_scanreq := 0\<rparr>)" for v
    using put [of v] wf_parts [of "v\<lparr>w_scanreq := 0\<rparr>"]
    by (auto simp: send_nl_def case_prod_beta emit_nl_def emit_def link_ok_send split: option.splits)
       (simp_all add: wst_ok_def keys_ok_def scan_state_ok_def link_ok_send)
  show ?thesis
    using assms new nest by (auto simp: send_scan_def Let_def case_prod_beta intro!: any sent put)
qed

lemma wf_start_scan [wf_rules]: "wst_ok w \<Longrightarrow> wst_ok (snd (start_scan E freq w))"
proof -
  assume "wst_ok w"
  then have "wst_ok (w\<lparr>w_scanreq := 0\<rparr>)" "w_scanstate w \<noteq> SS_IDLE \<Longrightarrow> wst_ok (w\<lparr>w_scanreq := r\<rparr>)" for r
    by (simp_all add: wst_ok_def keys_ok_def scan_state_ok_def)
  with \<open>wst_ok w\<close> show ?thesis by (simp add: start_scan_def wf_send_scan)
qed

lemma wf_trigger_scan_dump [wf_rules]: "wst_ok w \<Longrightarrow> wst_ok (trigger_scan_dump E w)"
  by (auto simp: trigger_scan_dump_def Let_def case_prod_beta nl_send_dump_def
      intro!: wf_nl wf_rules link_ok_send link_ok_or_flags wf_scanning split: option.splits)

lemma wf_start_connection [wf_rules]: "wst_ok w \<Longrightarrow> ends d (\<lambda>x. wst_ok (snd x)) wst_ok (start_connection E w)"
  by (auto simp: start_connection_def reopen_rawsock_def open_rawsock_def trigger_authentication_def Let_def
      intro!: ends_chain [where P' = wst_ok] wf_rules wf_nl)

lemma wf_start_disconnect [wf_rules]: "wst_ok w \<Longrightarrow> ends d (\<lambda>x. wst_ok (snd x)) wst_ok (start_disconnect E w)"
  by (auto simp: start_disconnect_def trigger_disconnect_def
      intro!: ends_chain [where P' = wst_ok] wf_rules wf_nl split: authstate.splits)

lemma wf_commands [wf_rules]:
  "wst_ok w \<Longrightarrow> ends d wst_ok wst_ok (trigger_association E w)" "wst_ok w \<Longrightarrow> ends d wst_ok wst_ok (upload_ptk E w)"
  "wst_ok w \<Longrightarrow> ends d wst_ok wst_ok (upload_gtk E w)"
  by (auto simp: trigger_association_def upload_ptk_def upload_gtk_def Let_def intro!: wf_rules wf_nl)

section \<open>Selection\<close>

lemma table_okD:
  assumes "table_ok t"
  shows "scans_ok t" "length (fst t) = NSCANS" "snd t \<le> NSCANS"
    "sc \<in> set (fst t) \<Longrightarrow> wf_scan sc" "sc \<in> set (fst t) \<Longrightarrow> short_ssid sc"
  using assms scans_okD [of t] by (auto simp: table_ok_def in_set_conv_nth)

text \<open>An update that keeps what identifies the station.\<close>

definition same_station :: "scan \<Rightarrow> scan \<Rightarrow> bool" where
  "same_station sc sc' \<longleftrightarrow> sc_bssid sc' = sc_bssid sc \<and> sc_freq sc' = sc_freq sc \<and>
     (wf_scan sc \<longrightarrow> wf_scan sc') \<and> (short_ssid sc \<longrightarrow> short_ssid sc')"

lemma same_station_flags [simp]:
  "same_station sc sc" "same_station sc (set_flag f sc)" "same_station sc (clear_flag f sc)"
  by (simp_all add: same_station_def set_flag_def clear_flag_def wf_scan_def short_ssid_def)

lemma table_ok_touch:
  assumes "table_ok t" "p < snd t" "same_station (fst t ! p) sc"
  shows "table_ok ((fst t)[p := sc], snd t)"
proof -
  note D = table_okD [OF assms(1)]
  have p: "p < length (fst t)" using assms(2) D(2,3) by simp
  then have "wf_scan sc" "short_ssid sc" using D(4,5) assms(3) nth_mem by (auto simp: same_station_def)
  moreover have "scans_ok ((fst t)[p := sc], snd t)"
    using assms(3) \<open>wf_scan sc\<close> by (intro scans_ok_touch [OF D(1) assms(2)]) (simp_all add: same_station_def)
  ultimately show ?thesis
    using D(5) set_update_subset_insert [of "fst t" p sc] by (auto simp: table_ok_def)
qed

text \<open>A loop over the used part of the table.\<close>

lemma table_ok_map:
  assumes "table_ok t" "length ys = snd t" "\<And>i. i < snd t \<Longrightarrow> same_station (fst t ! i) (ys ! i)"
  shows "table_ok (ys @ drop (snd t) (fst t), snd t)"
proof -
  note D = table_okD [OF assms(1)]
  let ?t = "ys @ drop (snd t) (fst t)"
  have nth: "?t ! i = (if i < snd t then ys ! i else fst t ! i)" if "i < NSCANS" for i
    using that assms(2) D(2,3) by (auto simp: nth_append)
  have same: "same_station (fst t ! i) (?t ! i)" if "i < NSCANS" for i
    using nth [OF that] assms(3) [of i] by simp
  have len: "length ?t = NSCANS" using assms(2) D(2,3) by simp
  have wf: "wf_scan (?t ! i)" "short_ssid (?t ! i)" if "i < NSCANS" for i
    using same [OF that] D(2,4,5) that by (simp_all add: same_station_def)
  have "scans_ok (?t, snd t)"
    using D(1) len wf(1) same nth
    by (auto simp: scans_ok_def slots_ok_def same_station_def live_def)
  moreover have "\<forall>sc \<in> set ?t. short_ssid sc"
    using wf(2) len by (metis in_set_conv_nth)
  ultimately show ?thesis by (simp add: table_ok_def)
qed

lemma wf_upd_scan:
  assumes "wst_ok w" "p < snd (w_scans w)" "same_station (scan_at w p) (f (scan_at w p))"
  shows "wst_ok (upd_scan p f w)"
  using assms wf_parts [OF assms(1)] by (auto simp: upd_scan_def scan_at_def intro!: wf_scans table_ok_touch)

lemma wf_each_scan:
  assumes "wst_ok w" "\<And>sc. same_station sc (f sc)"
  shows "wst_ok (each_scan f w)"
proof -
  have t: "table_ok (w_scans w)" using wf_parts [OF assms(1)] by simp
  then have "table_ok (map f (take (snd (w_scans w)) (fst (w_scans w))) @ drop (snd (w_scans w)) (fst (w_scans w)), snd (w_scans w))"
    using table_okD(2,3) [OF t] assms(2) by (intro table_ok_map) simp_all
  then show ?thesis using assms(1) by (auto simp: each_scan_def case_prod_beta intro: wf_scans)
qed

lemma wf_clear_ap [wf_rules]: "wst_ok w \<Longrightarrow> wst_ok (clear_ap_bssid w)" "wst_ok w \<Longrightarrow> wst_ok (clear_ap_ssid w)"
  by (simp_all add: wst_ok_def ap_ok_def keys_ok_def scan_state_ok_def clear_ap_bssid_def clear_ap_ssid_def)

lemma parse_loop_length: "length (snd (parse_loop p i n dst)) = length dst"
  by (induction p i n dst rule: parse_loop.induct) (auto split: option.splits)

lemma load_psk_length: "load_psk e s n dst c = Some (r, psk, c') \<Longrightarrow> length psk = length dst"
  by (auto simp: load_psk_def parse_bytes_def Let_def case_prod_beta parse_loop_length split: option.splits if_splits)

lemma wf_PSK: "wst_ok w \<Longrightarrow> length k = 32 \<Longrightarrow> wst_ok (w\<lparr>w_PSK := k\<rparr>)"
  by (simp add: wst_ok_def keys_ok_def scan_state_ok_def)

lemma wf_load_psk_w [wf_rules]:
  "wst_ok w \<Longrightarrow> ends False (\<lambda>x. wst_ok (snd x)) wst_ok (load_psk_w E s n w)"
  by (auto simp: load_psk_w_def wst_ok_def keys_ok_def scan_state_ok_def dest: load_psk_length split: option.splits)

lemma ies_length [simp]: "length ies_ccmp_ccmp = 22" "length ies_ccmp_tkip = 22"
  by (simp_all add: ies_ccmp_ccmp_def ies_ccmp_tkip_def)

lemma sc_name_fits: "wf_scan sc \<Longrightarrow> short_ssid sc \<Longrightarrow> length (sc_name sc) \<le> SSIDLEN"
  by (simp add: sc_name_def wf_scan_def short_ssid_def)

lemma wf_set_current_ap [wf_rules]:
  assumes "wst_ok w" "get_best_ap w = Some p"
  shows "ends False (\<lambda>x. wst_ok (snd x)) wst_ok (set_current_ap E p w)"
proof -
  have p: "p < snd (w_scans w)" "p < length (fst (w_scans w))" using get_best_apD [OF assms(2)] by simp_all
  let ?w = "upd_scan p (set_flag SF_TRIED) w"
  have ok: "wst_ok ?w" using assms(1) p(1) by (simp add: wf_upd_scan)
  have "scan_at ?w p \<in> set (fst (w_scans ?w))" using p(2) by (simp add: scan_at_def upd_scan_def set_update_memI)
  then have sc: "wf_scan (scan_at ?w p)" "short_ssid (scan_at ?w p)"
    using wf_parts [OF ok] table_okD(4,5) by blast+
  have a: "ap_ok (w_ap ?w)" using wf_parts [OF ok] by simp
  show ?thesis
    using ok sc a sc_name_fits [OF sc]
    by (auto simp: set_current_ap_def Let_def case_prod_beta ap_ok_def wf_scan_def short_ssid_def length_memcpy_at
        intro!: ends_chain [where P' = "\<lambda>x. wst_ok (snd x)"] wf_rules wf_ap)
qed

lemma wf_clear_good: "wst_ok w \<Longrightarrow> wst_ok (upd_scan p (clear_flag SF_GOOD) w)"
proof (cases "p < snd (w_scans w)")
  case False
  assume "wst_ok w"
  then have t: "table_ok (w_scans w)" by (simp add: wst_ok_def)
  show ?thesis
  proof (cases "p < NSCANS")
    case True
    then have "scan_at w p = zero_scan"
      using scans_okD(5) [OF table_okD(1) [OF t]] \<open>\<not> p < snd (w_scans w)\<close> by (simp add: scan_at_def)
    then have "clear_flag SF_GOOD (scan_at w p) = fst (w_scans w) ! p"
      by (simp add: clear_flag_def zero_scan_def scan_at_def)
    then show ?thesis using \<open>wst_ok w\<close> by (simp add: upd_scan_def)
  next
    case False
    then show ?thesis using \<open>wst_ok w\<close> table_okD(2) [OF t] by (simp add: upd_scan_def list_update_beyond)
  qed
qed (simp add: wf_upd_scan)

lemma wf_connect_to_something [wf_rules]:
  "wst_ok w \<Longrightarrow> ends False (\<lambda>x. wst_ok (snd x)) wst_ok (connect_to_something E w)"
  by (rule connect_to_something_inv) (auto intro: wf_rules wf_clear_good)

lemma wf_reassess [wf_rules]: "wst_ok w \<Longrightarrow> ends False wst_ok wst_ok (reassess_wifi_situation E w)"
  by (auto simp: reassess_wifi_situation_def snap_to_neutral_def idle_then_rescan_def report_defs Let_def
      case_prod_beta intro!: ends_chain [where P' = "\<lambda>x. wst_ok (snd x)"] wf_rules)

lemma wf_ap_flags: "wst_ok w \<Longrightarrow> ap_ok ((w_ap w)\<lparr>ap_success := a, ap_fixed := b\<rparr>)"
  "wst_ok w \<Longrightarrow> ap_ok ((w_ap w)\<lparr>ap_success := a\<rparr>)" "wst_ok w \<Longrightarrow> ap_ok ((w_ap w)\<lparr>ap_unsaved := a\<rparr>)"
  "wst_ok w \<Longrightarrow> ap_ok ((w_ap w)\<lparr>ap_fixed := a\<rparr>)"
  by (simp_all add: wst_ok_def ap_ok_def)

lemma find_current_bound: "find_current_from a scs = Some p \<Longrightarrow> p < length scs"
  by (induction scs arbitrary: p) (auto split: if_splits)

lemma wf_rescan [wf_rules]: "wst_ok w \<Longrightarrow> wst_ok (rescan_current_ap E w)"
  by (auto simp: rescan_current_ap_def Let_def intro!: wf_rules wf_ap wf_ap_flags)

lemma wf_reconnect [wf_rules]: "wst_ok w \<Longrightarrow> ends False wst_ok wst_ok (reconnect_to_current_ap E w)"
  by (auto simp: reconnect_to_current_ap_def Let_def case_prod_beta
      intro!: ends_chain [where P' = "\<lambda>x. wst_ok (snd x)"] wf_rules)

lemma wf_try_other [wf_rules]: "wst_ok w \<Longrightarrow> ends False wst_ok wst_ok (try_some_other_ap E w)"
  by (auto simp: try_some_other_ap_def Let_def intro!: wf_rules)

lemma wf_handle_disconnect [wf_rules]: "wst_ok w \<Longrightarrow> ends False wst_ok wst_ok (handle_disconnect E w)"
  by (auto simp: handle_disconnect_def report_defs Let_def intro!: wf_rules)

lemma wf_handle_rfrestored [wf_rules]: "wst_ok w \<Longrightarrow> ends False wst_ok wst_ok (handle_rfrestored E w)"
  by (auto simp: handle_rfrestored_def Let_def intro!: wf_rules)

lemma wf_abort [wf_rules]: "wst_ok w \<Longrightarrow> ends False wst_ok wst_ok (abort_connection E w)"
  by (auto simp: abort_connection_def case_prod_beta intro!: ends_chain [where P' = "\<lambda>x. wst_ok (snd x)"] wf_rules)

lemma check_scans_same:
  "check_scans e scs c = Some (ys, c') \<Longrightarrow>
   length ys = length scs \<and> (\<forall>i < length scs. same_station (scs ! i) (ys ! i))"
proof (induction scs arbitrary: c ys c')
  case (Cons sc scs)
  have flags: "same_station sc (set_flag f (set_flag g (set_flag h sc)))" for f g h
    by (simp add: same_station_def set_flag_def wf_scan_def short_ssid_def)
  have flags2: "same_station sc (set_flag f (set_flag g sc))" for f g
    by (simp add: same_station_def set_flag_def wf_scan_def short_ssid_def)
  obtain y ys' d where y: "ys = y # ys'" "check_scans e scs d = Some (ys', c')" "same_station sc y"
    using Cons.prems flags flags2 by (auto simp: Let_def split: if_splits option.splits)
  with Cons.IH [OF y(2)] show ?case by (auto simp: nth_Cons split: nat.splits)
qed simp

lemma wf_check_results [wf_rules]: "wst_ok w \<Longrightarrow> ends False wst_ok wst_ok (check_new_scan_results E w)"
proof -
  assume "wst_ok w"
  then have t: "table_ok (w_scans w)" by (simp add: wst_ok_def)
  have "table_ok (ys @ drop (snd (w_scans w)) (fst (w_scans w)), snd (w_scans w))"
    if "check_scans e (take (snd (w_scans w)) (fst (w_scans w))) c = Some (ys, c')" for e c ys c'
    using check_scans_same [OF that] table_okD(2,3) [OF t] by (intro table_ok_map [OF t]) simp_all
  then show ?thesis
    using \<open>wst_ok w\<close> by (auto simp: check_new_scan_results_def case_prod_beta intro!: wf_scans split: option.splits)
qed

lemma wf_handle_connect [wf_rules]: "wst_ok w \<Longrightarrow> ends False wst_ok wst_ok (handle_connect E w)"
proof -
  assume w: "wst_ok w"
  let ?w1 = "set_timer 300 (w\<lparr>w_ap := (w_ap w)\<lparr>ap_success := True, ap_fixed := True\<rparr>\<rparr>)"
  define w2 where "w2 = (if w_opermode ?w1 = OP_RESCAN then ?w1\<lparr>w_opermode := OP_ACTIVE\<rparr> else ?w1)"
  define w3 where "w3 = (if w_opermode w2 = OP_ONESHOT then w2\<lparr>w_opermode := OP_ACTIVE\<rparr> else w2)"
  have w3: "wst_ok w3" using w by (simp add: w3_def w2_def wf_ap wf_ap_flags)
  have bound: "p < snd (w_scans w3)" if "find_current_ap w3 = Some p" for p
    using find_current_bound [of _ _ p] that by (fastforce simp: find_current_ap_def)
  have upd: "wst_ok (upd_scan p (g f) v)" if "wst_ok v" "snd (w_scans v) = snd (w_scans w3)"
    "find_current_ap w3 = Some p" "g = set_flag \<or> g = clear_flag" for v p g f
    using that bound [OF that(3)] by (auto intro!: wf_upd_scan)
  have save: "ends False (\<lambda>v. wst_ok v \<and> snd (w_scans v) = snd (w_scans u)) wst_ok (save_psk_w E u)"
    if "wst_ok u" for u
    using that by (auto simp: save_psk_w_def split: option.splits)
  have dhcp: "ends False wst_ok wst_ok (chain (trigger_dhcp E u) (\<lambda>w. Go (report_connected E w)))"
    if "wst_ok u" for u
    using that by (auto simp: trigger_dhcp_def report_defs Let_def)
  define w4 where "w4 = (case find_current_ap w3 of None \<Rightarrow> w3 | Some p \<Rightarrow> upd_scan p (clear_flag SF_TRIED) w3)"
  have w4: "wst_ok w4" "snd (w_scans w4) = snd (w_scans w3)"
    using w3 upd [OF w3 refl] by (auto simp: w4_def upd_scan_def split: option.splits)
  have eq: "handle_connect E w =
     chain (if ap_unsaved (w_ap w4) then save_psk_w E w4 else Go w4) (\<lambda>w.
       let w = (case find_current_ap w3 of
                 Some p \<Rightarrow> if ap_unsaved (w_ap w) then upd_scan p (set_flag SF_PASS) w else w
               | None \<Rightarrow> w);
           w = w\<lparr>w_ap := (w_ap w)\<lparr>ap_unsaved := False\<rparr>\<rparr> in
       chain (trigger_dhcp E w) (\<lambda>w. Go (report_connected E w)))"
    unfolding handle_connect_def Let_def w4_def w3_def w2_def by (rule refl)
  show ?thesis unfolding eq
  proof (rule ends_chain [where P' = "\<lambda>v. wst_ok v \<and> snd (w_scans v) = snd (w_scans w3)"])
    show "ends False (\<lambda>v. wst_ok v \<and> snd (w_scans v) = snd (w_scans w3)) wst_ok
        (if ap_unsaved (w_ap w4) then save_psk_w E w4 else Go w4)"
      using w4 save [OF w4(1)] by simp
  next
    fix v assume v: "wst_ok v \<and> snd (w_scans v) = snd (w_scans w3)"
    let ?v = "case find_current_ap w3 of
        Some p \<Rightarrow> if ap_unsaved (w_ap v) then upd_scan p (set_flag SF_PASS) v else v | None \<Rightarrow> v"
    have "wst_ok ?v" using v upd [of v] by (auto split: option.splits)
    then show "ends False wst_ok wst_ok (let w = ?v; w = w\<lparr>w_ap := (w_ap w)\<lparr>ap_unsaved := False\<rparr>\<rparr> in
        chain (trigger_dhcp E w) (\<lambda>w. Go (report_connected E w)))"
      using dhcp by (simp add: Let_def wf_ap wf_ap_flags)
  qed
qed

text \<open>Starting a scan does not depend on the station.\<close>

lemma ap_last:
  "v\<lparr>w_ap := a, w_scanreq := r\<rparr> = v\<lparr>w_scanreq := r, w_ap := a\<rparr>"
  "v\<lparr>w_ap := a, w_nl := nl\<rparr> = v\<lparr>w_nl := nl, w_ap := a\<rparr>"
  "v\<lparr>w_ap := a, w_scanstate := st\<rparr> = v\<lparr>w_scanstate := st, w_ap := a\<rparr>"
  "v\<lparr>w_ap := a, w_scanseq := sq\<rparr> = v\<lparr>w_scanseq := sq, w_ap := a\<rparr>"
  "v\<lparr>w_ap := a, w_out := out\<rparr> = v\<lparr>w_out := out, w_ap := a\<rparr>"
  by simp_all

lemma send_nl_ap: "send_nl E (v\<lparr>w_ap := a\<rparr>) = (fst (send_nl E v), (snd (send_nl E v))\<lparr>w_ap := a\<rparr>)"
  by (cases "fst (snd (nl_send (en_nl_ok E (nl_seq (w_nl v))) (w_nl v)))")
    (simp_all add: send_nl_def case_prod_beta emit_nl_def emit_def ap_last)

lemma new_cmd_ap: "new_cmd c (v\<lparr>w_ap := a\<rparr>) = new_cmd c v"
  by (simp add: new_cmd_def)

lemma send_scan_ap: "snd (send_scan E f (v\<lparr>w_ap := a\<rparr>)) = (snd (send_scan E f v))\<lparr>w_ap := a\<rparr>"
proof (cases "f > 0")
  case True
  let ?nl = "new_cmd NL80211_CMD_TRIGGER_SCAN v"
  let ?v = "v\<lparr>w_scanreq := w_scanreq v OR 3,
     w_nl := nl_end_nest (nl_put_u32 (snd (nl_put_nest ?nl NL80211_ATTR_SCAN_FREQUENCIES)) 0 (word_of_int f))
       (fst (nl_put_nest ?nl NL80211_ATTR_SCAN_FREQUENCIES))\<rparr>"
  show ?thesis using send_nl_ap [of E a ?v] True
    by (simp add: send_scan_def Let_def case_prod_beta new_cmd_ap ap_last)
next
  case False
  then show ?thesis using send_nl_ap [of E a "v\<lparr>w_nl := new_cmd NL80211_CMD_TRIGGER_SCAN v\<rparr>"]
    by (simp add: send_scan_def Let_def case_prod_beta new_cmd_ap ap_last)
qed

lemma start_scan_ap: "snd (start_scan E f (v\<lparr>w_ap := a\<rparr>)) = (snd (start_scan E f v))\<lparr>w_ap := a\<rparr>"
  using send_scan_ap [of E f a "v\<lparr>w_scanreq := note_scanreq f (w_scanreq v)\<rparr>"]
  by (simp add: start_scan_def ap_last)

lemma wf_routine_scans [wf_rules]: "wst_ok w \<Longrightarrow> wst_ok (routine_bg_scan E w)" "wst_ok w \<Longrightarrow> wst_ok (routine_fg_scan E w)"
proof -
  assume w: "wst_ok w"
  then show "wst_ok (routine_bg_scan E w)"
    by (auto simp: routine_bg_scan_def start_void_scan_def intro!: wf_rules)
  have [simp]: "w_ap (set_timer n v) = w_ap v" for n v by (simp add: set_timer_def)
  let ?a = "(w_ap w)\<lparr>ap_rescans := ap_rescans (w_ap w) + 1\<rparr>"
  have go: "snd (start_scan E f ((set_timer 10 w)\<lparr>w_ap := ?a\<rparr>)) = (snd (start_scan E f (set_timer 10 w)))\<lparr>w_ap := ?a\<rparr>" for f
    by (rule start_scan_ap)
  have ok: "wst_ok (snd (start_scan E f (set_timer 10 w)))" for f using w by (intro wf_rules) simp
  have "ap_ok (w_ap w)" using w by (simp add: wst_ok_def)
  then have a: "ap_ok (?a\<lparr>ap_freq := 0, ap_rescans := 0\<rparr>)" "ap_rescans (w_ap w) + 1 < 30 \<Longrightarrow> ap_ok ?a"
    by (simp_all add: ap_ok_def)
  show "wst_ok (routine_fg_scan E w)"
    using w wf_ap [OF ok a(1)] wf_ap [OF ok a(2)]
    by (auto simp: routine_fg_scan_def start_void_scan_def start_full_scan_def Let_def go intro!: wf_rules)
qed

section \<open>The first state\<close>

lemma static_state_ok: "link_ok nl \<Longrightarrow> wst_ok (static_state\<lparr>w_nl := nl\<rparr>)"
  by (simp add: static_state_def wst_ok_def keys_ok_def scan_state_ok_def ap_ok_def zero_ap_def table_ok_def
      scans_ok_def slots_ok_def short_ssid_def)
    (simp add: zero_scan_def zero_conn_def live_def nonzero_conn)

definition fresh_nl :: netlink where
  "fresh_nl = nl_set_rxbuf (nl_set_txbuf nl_init (replicate 512 0)) (replicate 8192 0)"

definition ready_state :: wst where
  "ready_state = static_state\<lparr>w_nl := fresh_nl\<rparr>"

lemma ready_state_ok: "wst_ok ready_state"
  unfolding ready_state_def
  by (rule static_state_ok) (simp add: link_ok_def fresh_nl_def nl_init_def nl_set_rxbuf_def nl_set_txbuf_def)

text \<open>A system on which everything asked for works: no saved network, no kill switch.\<close>

definition calm_config :: config_env where
  "calm_config = \<lparr>env_file = None, env_fstat_ok = True, env_mmap_ok = True, env_read = 0,
     env_mremap = Remap_in_place, env_create_ok = True, env_write = 65536\<rparr>"

definition calm_env :: env where
  "calm_env = \<lparr>en_nl_ok = (\<lambda>_. True), en_rawsock = 4, en_raw_send = (\<lambda>m. int (length m)), en_rand = Some (replicate 32 0),
     en_config = calm_config, en_conn_ok = (\<lambda>_. True), en_conn_part = (\<lambda>_. 0), en_malloc_ok = True, en_fork = 100, en_ifflags = Some True, en_ifup_ok = True,
     en_phy = (\<lambda>_. False), en_rfkill = - 1, en_state = None, en_state_ok = True, en_state_wr = 64, en_stack = 0\<rparr>"

end
