(* ===== verification/Loop.thy ===== *)
theory Loop imports Daemon begin

text \<open>
  What the main loop keeps: the contract between the loop of wsupp.c and the handlers it calls. When
  every handler keeps a property of the state, and the commands keep it together with the connection
  they came in on, so do the loop over a client's requests, an iteration and the whole run. The proof
  is made once here; the components interpret it for their own invariants.
\<close>

text \<open>A wake-up that reports only what is allowed on the two sockets of the kernel.\<close>

definition admits :: "(rx_event ready \<Rightarrow> bool) \<Rightarrow> ((bytes \<times> bytes) option ready \<Rightarrow> bool) \<Rightarrow> wakeup \<Rightarrow> bool" where
  "admits netlink_ok rawsock_ok ev \<longleftrightarrow>
     (case ev of Ready po \<Rightarrow> netlink_ok (po_netlink po) \<and> rawsock_ok (po_rawsock po) | _ \<Rightarrow> True)"

text \<open>
  \<open>fits\<close> restricts what the system answers, \<open>netlink_ok\<close> and \<open>rawsock_ok\<close> what is ready to be read;
  \<open>inv\<close> holds between events and \<open>final\<close> of the state the process ends in. \<open>conn q\<close> is \<open>inv\<close> and that
  slot \<open>q\<close> of the connections is in use.
\<close>

locale loop_invariant =
  fixes fits :: "env \<Rightarrow> bool"
    and netlink_ok :: "rx_event ready \<Rightarrow> bool"
    and rawsock_ok :: "(bytes \<times> bytes) option ready \<Rightarrow> bool"
    and inv :: "wst \<Rightarrow> bool"
    and final :: "wst \<Rightarrow> bool"
    and conn :: "nat \<Rightarrow> wst \<Rightarrow> bool"
  assumes conn_used: "inv w \<Longrightarrow> n < snd (w_conns w) \<Longrightarrow> conn n w"
    and conn_inv: "conn q w \<Longrightarrow> inv w"
    and dispatch: "fits E \<Longrightarrow> conn q w \<Longrightarrow> p \<le> q \<Longrightarrow> ends False (\<lambda>x. conn q (snd x)) final (dispatch_cmd E p m msg w)"
    and shut: "conn q w \<Longrightarrow> p \<le> q \<Longrightarrow> conn q (shutdown_conn p w)"
    and close: "conn q w \<Longrightarrow> p \<le> q \<Longrightarrow> conn q (close_conn p w)"
    and pollfds: "inv w \<Longrightarrow> ends False inv final (update_pollfds w)"
    and netlink: "fits E \<Longrightarrow> netlink_ok rn \<Longrightarrow> inv w \<Longrightarrow> ends False inv final (check_netlink E rn w)"
    and rawsock: "fits E \<Longrightarrow> rawsock_ok rr \<Longrightarrow> inv w \<Longrightarrow> ends False inv final (check_rawsock E rr w)"
    and control: "fits E \<Longrightarrow> inv w \<Longrightarrow> ends False inv final (check_control E rc w)"
    and rfkill: "fits E \<Longrightarrow> inv w \<Longrightarrow> ends False inv final (check_rfkill E rk w)"
    and timer: "fits E \<Longrightarrow> inv w \<Longrightarrow> ends False inv final (timer_expired E w)"
    and failing: "inv w \<Longrightarrow> ends False inv final (quit E w)"
    and shutdown: "fits E \<Longrightarrow> inv w \<Longrightarrow> ends False inv final (xshutdown E w)"
    and sig: "inv w \<Longrightarrow> inv (sighandler sg w)"
    and config: "inv w \<Longrightarrow> inv (save_config_w E w)"
    and state: "inv w \<Longrightarrow> final (save_state E w)"
begin

lemma conn_loop:
  assumes "handle_conn_loop E p ur evs w = Some r"
  shows "fits E \<and> conn q w \<and> p \<le> q \<longrightarrow> ends False (\<lambda>x. conn q (snd x)) final r"
proof (rule handle_conn_loop.raw_induct [OF _ assms])
  fix loop E p ur evs w r
  assume IH: "\<And>E p ur evs w r. loop E p ur evs w = Some r \<Longrightarrow>
      fits E \<and> conn q w \<and> p \<le> q \<longrightarrow> ends False (\<lambda>x. conn q (snd x)) final r"
    and body: "(case uc_recv ur False evs of
        None \<Rightarrow> Some (Go (- EINTR, w))
      | Some (ret, ur', evs') \<Rightarrow>
          if ret < 0 then Some (Go (ret, w))
          else (case ur_msg ur' of
                  None \<Rightarrow> Some Wild
                | Some msg \<Rightarrow>
                    (case dispatch_cmd E p (ur_buf ur') msg w of
                       Go rw \<Rightarrow> if fst rw < 0 then Some (Go rw) else loop E p ur' evs' (snd rw)
                     | Quit s \<Rightarrow> Some (Quit s) | Wild \<Rightarrow> Some Wild))) = Some r"
  have "ends False (\<lambda>x. conn q (snd x)) final r" if use: "fits E" "conn q w" "p \<le> q"
  proof (cases "uc_recv ur False evs")
    case (Some x)
    obtain ret ur' evs' where x: "x = (ret, ur', evs')" by (cases x)
    show ?thesis
    proof (cases "ret < 0 \<or> ur_msg ur' = None")
      case False
      then obtain msg where msg: "ur_msg ur' = Some msg" "\<not> ret < 0" by auto
      note d = dispatch [OF use, of "ur_buf ur'" msg]
      show ?thesis
      proof (cases "dispatch_cmd E p (ur_buf ur') msg w")
        case (Go rw)
        then have "conn q (snd rw)" using d by simp
        then show ?thesis using IH body Some x msg Go use by (cases "fst rw < 0") auto
      qed (use body Some x msg d in auto)
    qed (use body use Some x in \<open>auto split: if_splits\<close>)
  qed (use body use in auto)
  then show "fits E \<and> conn q w \<and> p \<le> q \<longrightarrow> ends False (\<lambda>x. conn q (snd x)) final r" by blast
qed

lemma keeps_handle_conn:
  assumes "fits E" "conn q w" "p \<le> q" "handle_conn E p evs w = Some r"
  shows "ends False (conn q) final r"
proof -
  obtain c where c: "handle_conn_loop E p \<lparr>ur_buf = replicate 100 (en_stack E), ur_mptr = 0, ur_rptr = 0, ur_msg = None\<rparr> evs w = Some c"
    "r = chain c (\<lambda>(ret, w). if ret < 0 \<and> ret \<noteq> - EBADF \<and> ret \<noteq> - EAGAIN then Go (shutdown_conn p w) else Go w)"
    using assms(4) by (auto simp: handle_conn_def)
  have "ends False (\<lambda>x. conn q (snd x)) final c" using conn_loop [OF c(1)] assms(1-3) by blast
  then show ?thesis unfolding c(2) case_prod_beta by (rule ends_chain) (simp add: shut assms(3))
qed

lemma keeps_check_conn:
  assumes "fits E" "conn q w" "p \<le> q" "check_conn E r p w = Some out"
  shows "ends False (conn q) final out"
proof -
  obtain c where c: "(if pf_in w (4 + p) r then handle_conn E p (rd_what r) w else Some (Go w)) = Some c"
    "out = chain c (\<lambda>v. if pf_other w (4 + p) r then Go (close_conn p v) else Go v)"
    using assms(4) by (auto simp: check_conn_def Let_def)
  have "ends False (conn q) final c"
    using c(1) assms(2) keeps_handle_conn [OF assms(1-3)] by (auto split: if_splits)
  then show ?thesis unfolding c(2) by (rule ends_chain) (simp add: close assms(3))
qed

lemma keeps_check_conns:
  "check_conns E po p k w = Some r \<Longrightarrow> fits E \<Longrightarrow> conn q w \<Longrightarrow> p + k \<le> Suc q \<Longrightarrow> ends False inv final r"
proof (induction E po p k w rule: check_conns.induct)
  case (2 E po p k w)
  then obtain c where c: "check_conn E (po_conn po p) p w = Some c" by (auto split: option.splits)
  have ok: "ends False (conn q) final c" using 2(5) keeps_check_conn [OF 2(3,4) _ c] by simp
  show ?case
  proof (cases c)
    case (Go v)
    then show ?thesis using 2(1) [OF c Go] 2(2,3,5) c ok by simp
  qed (use 2(2) c ok in auto)
qed (auto intro: conn_inv)

lemma keeps_wake:
  assumes "fits E" "admits netlink_ok rawsock_ok ev" "inv w" "wake E ev w = Some r"
  shows "ends False inv final r"
proof (cases ev)
  case (Ready po)
  then obtain c where c: "check_conns E po 0 (snd (w_conns w)) w = Some c"
    "r = chain c (\<lambda>w. chain (check_netlink E (po_netlink po) w) (\<lambda>w. chain (check_rawsock E (po_rawsock po) w)
       (\<lambda>w. chain (check_control E (po_control po) w) (check_rfkill E (po_rfkill po)))))"
    using assms(4) by (auto simp: wake_def check_polled_fds_def)
  have "ends False inv final c"
  proof (cases "snd (w_conns w)")
    case 0
    then show ?thesis using c(1) assms(3) by auto
  next
    case (Suc n)
    then show ?thesis using keeps_check_conns [OF c(1) assms(1) conn_used [OF assms(3), of n]] by simp
  qed
  moreover have "netlink_ok (po_netlink po)" "rawsock_ok (po_rawsock po)" using assms(2) Ready by (simp_all add: admits_def)
  ultimately show ?thesis
    unfolding c(2) using assms(1) by (intro ends_chain [where P' = inv] netlink rawsock control rfkill)
qed (use assms timer failing in \<open>auto simp: wake_def split: if_splits\<close>)

text \<open>One iteration of the loop.\<close>

lemma keeps_main_iter:
  assumes "fits E" "admits netlink_ok rawsock_ok ev" "inv w" "main_iter E sg ev w = Some r"
  shows "ends False inv final r"
proof -
  have fds: "ends False inv final (if w_pollset w then Go w else update_pollfds w)"
    using assms(3) pollfds [OF assms(3)] by simp
  show ?thesis
  proof (cases "if w_pollset w then Go w else update_pollfds w")
    case (Go v)
    then have v: "inv v" using fds by simp
    obtain c where c: "wake E ev (sighandler sg v) = Some c"
      "r = chain c (\<lambda>w. chain (if w_sigterm w then xshutdown E w else Go w) (\<lambda>w. Go (save_config_w E w)))"
      using assms(4) Go by (auto simp: main_iter_def)
    have "ends False inv final (if w_sigterm u then xshutdown E u else Go u)" if "inv u" for u
      using shutdown [OF assms(1) that] that by simp
    then show ?thesis
      unfolding c(2) using keeps_wake [OF assms(1,2) sig [OF v] c(1)] config
      by (intro ends_chain [where P' = inv]) auto
  next
    case (Quit s)
    then show ?thesis using fds assms(4) unfolding main_iter_def Quit by auto
  next
    case Wild
    then show ?thesis using assms(4) unfolding main_iter_def Wild by auto
  qed
qed

text \<open>The whole loop, for every sequence of wake-ups.\<close>

lemma keeps_main_loop:
  assumes "inv w" and "main_loop evs w = Some r" and "\<forall>(E, sg, ev) \<in> set evs. fits E \<and> admits netlink_ok rawsock_ok ev"
  shows "ends False inv final r"
  using assms
proof (induction evs arbitrary: w)
  case (Cons e evs)
  obtain E sg ev where e: "e = (E, sg, ev)" by (cases e)
  show ?case
  proof (cases "w_opermode w = OP_EXIT")
    case True
    then show ?thesis using Cons.prems by (auto simp: e state)
  next
    case False
    then obtain c where c: "main_iter E sg ev w = Some c"
      using Cons.prems(2) by (auto simp: e split: option.splits)
    have "ends False inv final c" using keeps_main_iter [OF _ _ Cons.prems(1) c] Cons.prems(3) by (simp add: e)
    then show ?thesis using Cons.IH Cons.prems(2,3) False c by (cases c) (auto simp: e)
  qed
qed auto

end

end
