(* ===== verification/Invariant_Steps.thy ===== *)
theory Invariant_Steps imports Invariant Netlink_Proofs Loop begin

text \<open>
  The invariant through the key handshake, the netlink events, the control commands and the main
  loop, up to one iteration and any run of it.
\<close>

section \<open>The handshake\<close>

text \<open>Changes to the keys and the packet buffer that keep the sizes.\<close>

lemma keys_okD: "wst_ok w \<Longrightarrow> keys_ok w"
  by (simp add: wst_ok_def)

lemma wf_keys:
  "wst_ok w \<Longrightarrow> keys_ok v \<Longrightarrow> w_nl v = w_nl w \<Longrightarrow> w_ap v = w_ap w \<Longrightarrow> w_scans v = w_scans w \<Longrightarrow>
   w_conns v = w_conns w \<Longrightarrow> w_scanstate v = w_scanstate w \<Longrightarrow> w_scanreq v = w_scanreq w \<Longrightarrow>
   w_scanseq v = w_scanseq w \<Longrightarrow> w_ifname v = w_ifname w \<Longrightarrow> w_pfds v = w_pfds w \<Longrightarrow> wst_ok v"
  by (simp add: wst_ok_def scan_state_ok_def)

lemma wf_packet: "wst_ok w \<Longrightarrow> length pkt = 1024 \<Longrightarrow> wst_ok (w\<lparr>w_packet := pkt\<rparr>)"
  by (rule wf_keys [of w]) (auto dest: keys_okD simp: keys_ok_def)

lemma packet_length: "wst_ok w \<Longrightarrow> length (w_packet w) = 1024"
  by (simp add: wst_ok_def keys_ok_def)

lemma wf_put_ek: "wst_ok w \<Longrightarrow> off + length bs \<le> 1024 \<Longrightarrow> wst_ok (put_ek off bs w)"
  by (simp add: put_ek_def wf_packet packet_length length_memcpy_at)

lemma length_memzero [simp]: "length (memzero buf off n) = length buf"
  by (induction buf off n rule: memzero.induct) simp_all

lemma wf_zero_ek: "wst_ok w \<Longrightarrow> wst_ok (zero_ek off n w)"
  by (simp add: zero_ek_def wf_packet packet_length)

lemma replay_length: "wst_ok w \<Longrightarrow> length (w_replay w) = 8" "wst_ok w \<Longrightarrow> length (w_snonce w) = 32"
  by (simp_all add: wst_ok_def keys_ok_def)

lemma replay_put [simp]: "w_replay (put_ek off bs w) = w_replay w" "w_version (put_ek off bs w) = w_version w"
  by (simp_all add: put_ek_def)

lemma wf_put_header [wf_rules]: "wst_ok w \<Longrightarrow> length nonce = 32 \<Longrightarrow> wst_ok (put_header ki kl nonce w)"
  by (simp add: put_header_def Let_def wf_put_ek wf_zero_ek replay_length)

lemma hmac_length: "length (hmac_sha1 key n inp) = 20"
  by (simp add: hmac_sha1_def Let_def)

lemma length_make_mic: "mic + 16 \<le> length buf \<Longrightarrow> length (make_mic buf mic kck n) = length buf"
  by (simp add: make_mic_def hmac_length length_memcpy_at Let_def)

lemma wf_sign_packet [wf_rules]: "wst_ok w \<Longrightarrow> wst_ok (sign_packet n w)"
  by (simp add: sign_packet_def wf_packet packet_length length_make_mic)

lemma wf_cleanup [wf_rules]: "wst_ok w \<Longrightarrow> wst_ok (cleanup_keys w)" "wst_ok w \<Longrightarrow> wst_ok (reset_eapol_state w)"
  by (auto intro!: wf_keys [of w] dest: keys_okD simp: keys_ok_def cleanup_keys_def reset_eapol_state_def)

lemma wf_prime [simp]: "wst_ok (prime_eapol_state w) = wst_ok w"
  by (simp add: prime_eapol_state_def)

lemma wf_send_packet [wf_rules]: "wst_ok w \<Longrightarrow> ends False (\<lambda>x. wst_ok (snd x)) wst_ok (send_packet E n w)"
  by (auto simp: send_packet_def Let_def intro!: ends_chain [where P' = wst_ok] wf_rules)

lemma ap_put [simp]: "w_ap (put_ek off bs w) = w_ap w" "w_ap (zero_ek off n w) = w_ap w"
  "w_ap (put_header ki kl nonce w) = w_ap w"
  by (simp_all add: put_ek_def zero_ek_def put_header_def Let_def)

lemma wf_send_packet_2 [wf_rules]: "wst_ok w \<Longrightarrow> ends False wst_ok wst_ok (send_packet_2 E w)"
proof -
  assume w: "wst_ok w"
  then have ies: "length (ap_ies (w_ap w)) \<le> 22" by (simp add: wst_ok_def ap_ok_def)
  show ?thesis using w ies
    by (auto simp: send_packet_2_def Let_def case_prod_beta replay_length
        intro!: ends_chain [where P' = "\<lambda>x. wst_ok (snd x)"] wf_rules wf_put_ek)
qed

lemma wf_allow_sends [wf_rules]: "wst_ok w \<Longrightarrow> ends False wst_ok wst_ok (allow_eapol_sends E w)"
  by (auto simp: allow_eapol_sends_def intro!: wf_rules)

lemma wf_send_packet_4 [wf_rules]: "wst_ok w \<Longrightarrow> ends False wst_ok wst_ok (send_packet_4 E w)"
  by (auto simp: send_packet_4_def Let_def case_prod_beta
      intro!: ends_chain [where P' = "\<lambda>x. wst_ok (snd x)"] ends_chain [where P' = wst_ok] wf_rules wf_put_ek)

lemma wf_send_group_2 [wf_rules]: "wst_ok w \<Longrightarrow> ends False wst_ok wst_ok (send_group_2 E w)"
  by (auto simp: send_group_2_def Let_def case_prod_beta
      intro!: ends_chain [where P' = "\<lambda>x. wst_ok (snd x)"] wf_rules wf_put_ek)

lemma fold_length:
  "(\<And>i b. i \<in> set xs \<Longrightarrow> length b = n \<Longrightarrow> length (f i b) = n) \<Longrightarrow> length b = n \<Longrightarrow> length (fold f xs b) = n"
  by (induction xs arbitrary: b) simp_all

lemma length_unwrap_step:
  "8 * i + 8 \<le> length buf \<Longrightarrow> (\<And>B. length (dec B) = 16) \<Longrightarrow> length (unwrap_step dec n j i buf) = length buf"
  by (simp add: unwrap_step_def Let_def length_memcpy_at xor_R0_def)

lemma length_aes128_unwrap:
  assumes "len \<le> length buf"
  shows "length (aes128_unwrap key buf len) = length buf"
proof -
  have "8 * i + 8 \<le> length buf" if "i \<in> set (rev [1..<len div 8 - 1 + 1])" for i
  proof -
    have "i + 1 \<le> len div 8" using that by auto
    then have "8 * (i + 1) \<le> 8 * (len div 8)" by (rule mult_le_mono2)
    also have "\<dots> \<le> len" by simp
    finally show ?thesis using assms by simp
  qed
  then show ?thesis
    unfolding aes128_unwrap_def unwrap_with_def Let_def
    by (intro fold_length [where n = "length buf"]) (simp_all add: length_unwrap_step)
qed

lemma length_unwrap_key: "len \<le> length buf \<Longrightarrow> length (snd (unwrap_key kek buf len)) = length buf"
  by (simp add: unwrap_key_def Let_def length_aes128_unwrap)

lemma gtk_length: "wst_ok w \<Longrightarrow> length (w_GTK w) = 32"
  by (simp add: wst_ok_def keys_ok_def)

lemma wf_store_gtk:
  assumes "wst_ok w" "buf + len \<le> length pkt"
  shows "wst_ok (snd (store_gtk idx pkt buf len w))"
proof (rule wf_keys [OF assms(1)])
  have "keys_ok w" by (rule keys_okD [OF assms(1)])
  then show "keys_ok (snd (store_gtk idx pkt buf len w))"
    using assms(2) by (auto simp: keys_ok_def store_gtk_def Let_def length_memcpy_at)
qed (simp_all add: store_gtk_def Let_def)

lemma wf_fetch_gtk_loop: "wst_ok w \<Longrightarrow> e \<le> length pkt \<Longrightarrow> wst_ok (snd (fetch_gtk_loop pkt ptr e w))"
proof (induction pkt ptr e w rule: fetch_gtk_loop.induct)
  case (1 pkt ptr e w)
  show ?case
  proof -
    have aux: "nat (int k - 6) = k - 6" for k by simp
    have n: "nat (uint b - 6) = unat b - 6" for b :: byte
      unfolding uint_nat by (rule aux)
    have l: "uint b < 22 \<longleftrightarrow> unat b < 22" for b :: byte
      unfolding uint_nat by (rule of_nat_less_numeral_iff)
    show ?thesis
      using 1(4,5) 1(1-3) [OF _ refl refl refl] wf_store_gtk [of w "ptr + 8" "unat (pkt ! (ptr + 1)) - 6" pkt]
      by (auto simp: fetch_gtk_loop.simps [of pkt ptr e w] Let_def n l)
  qed
qed

text \<open>Packet 3 and the group packet: the key data lies inside the packet buffer.\<close>

definition packet_fits :: "wst \<Rightarrow> bool" where
  "packet_fits w \<longleftrightarrow> EK_SIZE + unat (ek_short EK_PAYLEN (w_packet w)) \<le> 1024"

lemma drop_memzero: "off + n \<le> k \<Longrightarrow> drop k (memzero buf off n) = drop k buf"
  by (induction buf off n rule: memzero.induct) simp_all

lemma wf_mic_fails: "wst_ok w \<Longrightarrow> wst_ok (snd (mic_fails w))"
  by (simp add: mic_fails_def check_mic_def Let_def wf_packet packet_length)

lemma mic_fails_fits: "packet_fits w \<Longrightarrow> packet_fits (snd (mic_fails w))"
  by (simp add: packet_fits_def mic_fails_def check_mic_def Let_def ek_short_def drop_memzero)

lemma wf_take_keys:
  assumes "wst_ok w" "packet_fits w"
  shows "wst_ok (snd (take_keys w))"
proof -
  let ?n = "unat (ek_short EK_PAYLEN (w_packet w))"
  let ?p = "take EK_SIZE (w_packet w) @ snd (unwrap_key (w_KEK w) (drop EK_SIZE (w_packet w)) ?n)"
  let ?w = "w\<lparr>w_packet := ?p\<rparr>"
  have len: "length ?p = 1024"
    using assms packet_length [OF assms(1)] by (simp add: packet_fits_def length_unwrap_key)
  then have w: "wst_ok ?w" using assms(1) by (simp add: wf_packet)
  have f: "wst_ok (snd (fetch_gtk (EK_SIZE + 8) (?n - 8) ?w))"
    using wf_fetch_gtk_loop [OF w, of "EK_SIZE + 8 + (?n - 8)" ?p] assms(2) len
    by (cases "8 \<le> ?n") (simp_all add: fetch_gtk_def packet_fits_def)
  have "wst_ok (v\<lparr>w_RSC := slice EK_RSC 6 (w_packet v), w_replay := slice EK_REPLAY 8 (w_packet v)\<rparr>)" if "wst_ok v" for v
    using that packet_length [OF that] keys_okD [OF that]
    by (simp_all add: keys_ok_def wf_keys [OF that])
  with w f show ?thesis by (simp add: take_keys_def Let_def case_prod_beta)
qed

lemma wf_recv_packets:
  assumes "wst_ok w" "packet_fits w"
  shows "ends False wst_ok wst_ok (recv_packet_3 E w)" "ends False wst_ok wst_ok (recv_group_1 E w)"
proof -
  define m where "m = snd (mic_fails w)"
  define k where "k = snd (take_keys m)"
  have ok: "wst_ok w" "wst_ok m" "wst_ok k"
    using assms by (simp_all add: m_def k_def wf_mic_fails wf_take_keys mic_fails_fits)
  have act: "ends False wst_ok wst_ok (abort_connection E v)" "ends False wst_ok wst_ok (send_packet_4 E v)"
    "ends False wst_ok wst_ok (send_group_2 E v)" if "wst_ok v" for v
    using that by (rule wf_rules)+
  show "ends False wst_ok wst_ok (recv_packet_3 E w)"
    unfolding recv_packet_3_def Let_def case_prod_beta m_def [symmetric] k_def [symmetric]
    using ok act by simp
  show "ends False wst_ok wst_ok (recv_group_1 E w)"
    unfolding recv_group_1_def Let_def case_prod_beta m_def [symmetric] k_def [symmetric]
    using ok act by simp
qed

lemma PRF480_length: "length (PRF480 ibuf key str mac1 mac2 n1 n2) = 60"
  by (simp add: PRF480_def Let_def case_prod_beta hmac_length upt_rec numeral_eq_Suc)

lemma wf_pmk_to_ptk: "wst_ok w \<Longrightarrow> wst_ok (pmk_to_ptk E w)"
proof (rule wf_keys [of w])
  assume w: "wst_ok w"
  then have "length (ap_bssid (w_ap w)) = 6" by (simp add: wst_ok_def ap_ok_def)
  then show "keys_ok (pmk_to_ptk E w)"
    using keys_okD [OF w] by (auto simp: keys_ok_def pmk_to_ptk_def Let_def case_prod_beta PRF480_length)
qed (simp_all add: pmk_to_ptk_def Let_def case_prod_beta)

lemma wf_fill_rand [wf_rules]: "wst_ok w \<Longrightarrow> ends False wst_ok wst_ok (fill_rand E w)"
proof -
  assume w: "wst_ok w"
  have "wst_ok (w\<lparr>w_snonce := take 32 r\<rparr>)" if "\<not> length r < 32" for r
    using keys_okD [OF w] that by (simp add: keys_ok_def wf_keys [OF w])
  with wf_quit [OF w] w show ?thesis by (auto simp: fill_rand_def split: option.splits)
qed

lemma wf_recv_packet_1 [wf_rules]: "wst_ok w \<Longrightarrow> ends False wst_ok wst_ok (recv_packet_1 E w)"
proof -
  assume w: "wst_ok w"
  let ?p = "w_packet w"
  have "wst_ok (w\<lparr>w_anonce := slice EK_NONCE 32 ?p, w_replay := slice EK_REPLAY 8 ?p\<rparr>)"
    using packet_length [OF w] keys_okD [OF w] by (simp add: keys_ok_def wf_keys [OF w])
  then have "wst_ok (w\<lparr>w_version := ek_byte EK_VERSION ?p, w_anonce := slice EK_NONCE 32 ?p, w_replay := slice EK_REPLAY 8 ?p\<rparr>)"
    by (simp add: wst_ok_def keys_ok_def scan_state_ok_def)
  then have rand: "ends False wst_ok wst_ok (fill_rand E (w\<lparr>w_version := ek_byte EK_VERSION ?p,
      w_anonce := slice EK_NONCE 32 ?p, w_replay := slice EK_REPLAY 8 ?p\<rparr>))" by (rule wf_fill_rand)
  have "ends False wst_ok wst_ok (let w = pmk_to_ptk E v in
      if w_eapolsends w then send_packet_2 E w else Go (w\<lparr>w_eapolstate := ES_WAITING_2_4\<rparr>))" if "wst_ok v" for v
    using wf_send_packet_2 [OF wf_pmk_to_ptk [OF that]] wf_pmk_to_ptk [OF that] by (simp add: Let_def)
  with rand wf_abort [OF w] w show ?thesis
    unfolding recv_packet_1_def Let_def by (auto intro: ends_chain)
qed

lemma wf_handle_rawsock [wf_rules]: "wst_ok w \<Longrightarrow> ends False wst_ok wst_ok (handle_rawsock E recv w)"
proof -
  assume w: "wst_ok w"
  show ?thesis
  proof (cases recv)
    case (Some sd)
    define got where "got = take 1024 (snd sd)"
    define v where "v = w\<lparr>w_packet := memcpy_at (w_packet w) 0 got\<rparr>"
    have got: "length got \<le> 1024" by (simp add: got_def)
    have ok: "wst_ok v" using w packet_length [OF w] got by (simp add: v_def wf_packet length_memcpy_at)
    have "ends False wst_ok wst_ok (dispatch_eapol E v)" if "packet_fits v"
      using ok wf_recv_packets [OF ok that] wf_recv_packet_1 [OF ok]
      by (cases "w_eapolstate v") (simp_all add: dispatch_eapol_def)
    moreover have "packet_fits v" if "\<not> EK_SIZE + unat (ek_short EK_PAYLEN (w_packet v)) > length got"
      using that got by (simp add: packet_fits_def)
    ultimately show ?thesis
      unfolding handle_rawsock_def Some case_prod_beta Let_def option.case got_def [symmetric] v_def [symmetric]
      using ok by simp
  qed (simp add: handle_rawsock_def w)
qed

section \<open>Netlink events\<close>

lemma table_ok_grab:
  assumes "table_ok t" "length bssid = MACLEN" "grab_scan_slot t bssid = (r, t')"
  shows "table_ok t'"
proof -
  note g = grab_scan_slot_table [OF table_okD(1) [OF assms(1)] assms(2,3)]
  have "short_ssid zero_scan" by (simp add: short_ssid_def zero_scan_def)
  then show ?thesis using g table_okD(5) [OF assms(1)] by (auto simp: table_ok_def)
qed

lemma table_ok_record:
  assumes "table_ok t" "length bssid = MACLEN" "grab_scan_slot t bssid = (Some p, t')"
    "wf_scan sc" "sc_bssid sc = bssid" "short_ssid sc"
  shows "table_ok ((fst t')[p := sc], snd t')"
proof -
  have "scans_ok ((fst t')[p := sc], snd t')"
    using scans_ok_record [OF table_okD(1) [OF assms(1)] assms(2-5)] .
  moreover have "\<forall>x \<in> set ((fst t')[p := sc]). short_ssid x"
    using table_okD(5) [OF table_ok_grab [OF assms(1-3)]] assms(6) set_update_subset_insert [of "fst t'" p sc] by auto
  ultimately show ?thesis by (simp add: table_ok_def)
qed

lemma ies_same: "same_station sc (parse_station_ies past sc ptr)"
  using ies_frame_elements [of sc past ptr] by (simp add: ies_frame_def same_station_def short_ssid_def)

text \<open>Attributes in a received message that lies in the buffer.\<close>

lemma nl_get_nest_bounds:
  assumes "nl_gen m msg = Some g" "nl_get_nest m msg k = Some at"
  shows "at + at_len m at \<le> msg + nlm_len m msg \<and> nl_check_nest m (at + 4) (int (at_len m at) - 4)"
proof -
  have g: "20 \<le> nlm_len m msg" "nl_check_nest m (msg + 20) (int (nlm_len m msg) - 20)"
    using assms(1) by (auto simp: nl_gen_def split: if_splits)
  have at: "nl_attr_k_in m (msg + 20) (int (nlm_len m msg) - 20) k = Some at"
    "nl_check_nest m (at + 4) (int (at_len m at) - 4)"
    using assms(2) by (auto simp: nl_get_nest_def nl_nest_def nl_get_def split: option.splits if_splits)
  have "nat (int (nlm_len m msg) - 20) = nlm_len m msg - 20" by simp
  with nl_attr_k_in_bounds [OF g(2) at(1)] g(1) at(2) show ?thesis by simp
qed

lemma nl_sub_of_len_bounds:
  assumes "nl_check_nest m (at + 4) (int (at_len m at) - 4)" "nl_sub_of_len m at k n = Some p"
  shows "p + n \<le> at + at_len m at"
proof -
  obtain ak where ak: "nl_attr_k_in m (at + 4) (int (at_len m at) - 4) k = Some ak" "at_len m ak = 4 + n" "p = ak + 4"
    using assms(2) by (auto simp: nl_sub_of_len_def nl_sub_def split: option.splits if_splits)
  have "4 < int (at_len m at) - 4" using assms(1) by (auto simp: nl_check_nest_def split: if_splits)
  moreover have "nat (int (at_len m at) - 4) = at_len m at - 4" by simp
  ultimately show ?thesis using nl_attr_k_in_bounds [OF assms(1) ak(1)] ak(2,3) by simp
qed

lemma wf_parse_scan_result:
  assumes "wst_ok w" "nl_gen m msg = Some g" "msg + nlm_len m msg \<le> length m"
  shows "ends False wst_ok wst_ok (parse_scan_result m msg w)"
proof (cases "nl_get_nest m msg NL80211_ATTR_BSS")
  case (Some bss)
  note bss = nl_get_nest_bounds [OF assms(2) Some]
  show ?thesis
  proof (cases "nl_sub_of_len m bss NL80211_BSS_BSSID 6")
    case bp: (Some bp)
    define bssid where "bssid = slice bp 6 m"
    have "bp + 6 \<le> length m" using nl_sub_of_len_bounds [OF _ bp] bss assms(3) by simp
    then have len: "length bssid = MACLEN" by (simp add: bssid_def)
    have t: "table_ok (w_scans w)" using wf_parts [OF assms(1)] by simp
    obtain r t' where g: "grab_scan_slot (w_scans w) bssid = (r, t')" by (metis surj_pair)
    have t': "table_ok t'" by (rule table_ok_grab [OF t len g])
    show ?thesis
    proof (cases r)
      case None
      then show ?thesis
        using g wf_scans [OF assms(1) t'] unfolding parse_scan_result_def Some bp option.case Let_def bssid_def by simp
    next
      case p: (Some p)
      let ?f = "\<lambda>sc. clear_flag SF_STALE (sc\<lparr>sc_bssid := bssid,
          sc_freq := ucast (get_i32_or_zero m bss NL80211_BSS_FREQUENCY),
          sc_signal := ucast (get_i32_or_zero m bss NL80211_BSS_SIGNAL_MBM), sc_type := 0\<rparr>)"
      let ?w = "w\<lparr>w_scans := t'\<rparr>"
      have lt: "p < snd t'" "p < length (fst t')"
        using grab_scan_slot_table [OF table_okD(1) [OF t] len g] p table_okD(2,3) [OF t'] by auto
      then have sc: "wf_scan (fst t' ! p)" "short_ssid (fst t' ! p)" using table_okD(4,5) [OF t'] nth_mem by blast+
      then have "wf_scan (?f (fst t' ! p))" "short_ssid (?f (fst t' ! p))"
        using len by (simp_all add: wf_scan_def short_ssid_def clear_flag_def)
      then have "table_ok ((fst t')[p := ?f (fst t' ! p)], snd t')"
        using g p by (intro table_ok_record [OF t len]) (simp_all add: clear_flag_def)
      then have v: "wst_ok (upd_scan p ?f ?w)"
        using wf_scans [OF assms(1)] by (simp add: upd_scan_def scan_at_def)
      have "wst_ok (upd_scan p (\<lambda>sc. parse_station_ies past sc ptr) (upd_scan p ?f ?w))" for past ptr
        using lt by (intro wf_upd_scan [OF v]) (simp_all add: ies_same upd_scan_def)
      then show ?thesis
        using g p v unfolding parse_scan_result_def Some bp option.case Let_def bssid_def [symmetric]
        by (simp split: option.splits)
    qed
  qed (simp add: parse_scan_result_def Some assms(1))
qed (simp add: parse_scan_result_def assms(1))

lemma table_ok_drop_stale: "table_ok t \<Longrightarrow> table_ok (drop_stale_from i n t)"
proof (induction n arbitrary: i t)
  case (Suc n)
  have "table_ok (free_scan_slot t i)"
  proof -
    have "fst (free_scan_slot t i) = (fst t)[i := zero_scan]"
      by (simp add: free_scan_slot_def scan_pool.free_entries)
    moreover have "short_ssid zero_scan" by (simp add: short_ssid_def zero_scan_def)
    ultimately show ?thesis
      using scans_ok_free [OF table_okD(1) [OF Suc.prems], of i] table_okD(5) [OF Suc.prems]
        set_update_subset_insert [of "fst t" i zero_scan] by (auto simp: table_ok_def)
  qed
  then show ?case using Suc by simp
qed simp

lemma wf_drop_stale [wf_rules]: "wst_ok w \<Longrightarrow> wst_ok (drop_stale_scan_slots w)"
  using wf_parts [of w] by (auto simp: drop_stale_scan_slots_def intro!: wf_scans table_ok_drop_stale)

lemma wf_mark_stale [wf_rules]: "wst_ok w \<Longrightarrow> wst_ok (mark_stale_scan_slots m msg w)"
  by (auto simp: mark_stale_scan_slots_def intro!: wf_each_scan split: option.splits)

lemma wf_genl_done [wf_rules]: "wst_ok w \<Longrightarrow> ends False wst_ok wst_ok (genl_done E w)"
  by (auto simp: genl_done_def report_defs Let_def intro!: ends_chain [where P' = wst_ok] wf_rules)

lemma wf_snap [wf_rules]: "wst_ok w \<Longrightarrow> ends False wst_ok wst_ok (snap_to_disabled E w)"
  by (auto simp: snap_to_disabled_def Let_def intro!: wf_rules)

lemma wf_genl_error [wf_rules]: "wst_ok w \<Longrightarrow> ends False wst_ok wst_ok (genl_error E m msg w)"
  by (auto simp: genl_error_def snap_to_netdown_def handle_scan_error_def handle_auth_error_def report_defs Let_def
      intro!: wf_rules)

lemma wf_dispatch_genl:
  assumes "wst_ok w" "nl_gen m msg = Some g" "msg + nlm_len m msg \<le> length m"
  shows "ends False wst_ok wst_ok (dispatch_genl E m msg w)"
proof -
  have "ends False wst_ok wst_ok (cmd_trigger_scan E m msg w)" "ends False wst_ok wst_ok (cmd_scan_results E m msg w)"
    "ends False wst_ok wst_ok (cmd_scan_aborted E w)"
    using assms(1) wf_parse_scan_result [OF assms]
    by (auto simp: cmd_trigger_scan_def cmd_scan_results_def cmd_scan_aborted_def report_defs intro!: wf_rules)
  moreover have "ends False wst_ok wst_ok (cmd_authenticate E w)" "ends False wst_ok wst_ok (cmd_associate E w)"
    "ends False wst_ok wst_ok (cmd_connect_event E w)" "ends False wst_ok wst_ok (cmd_disconnect E w)"
    using assms(1) by (auto simp: cmd_authenticate_def cmd_associate_def cmd_connect_event_def cmd_disconnect_def
        intro!: ends_chain [where P' = wst_ok] wf_rules)
  ultimately show ?thesis using assms(1) by (simp add: dispatch_genl_def Let_def)
qed

lemma wf_handle_msg:
  assumes "wst_ok w" "msg + nlm_len (nl_rxbuf (w_nl w)) msg \<le> length (nl_rxbuf (w_nl w))"
  shows "ends False wst_ok wst_ok (handle_msg E msg w)"
proof -
  have "g = msg" if "nl_gen (nl_rxbuf (w_nl w)) msg = Some g" for g
    using that by (auto simp: nl_gen_def split: if_splits)
  then show ?thesis
    using assms wf_dispatch_genl [OF assms(1) _ assms(2)]
    by (auto simp: handle_msg_def Let_def intro!: wf_rules split: option.splits)
qed

lemma wf_handle_msgs: "wst_ok w \<Longrightarrow> ends False wst_ok wst_ok (handle_msgs E w)"
proof (induction E w rule: handle_msgs.induct)
  case (1 E w)
  note step = handle_msgs.simps [of E w]
  have link: "link_ok (w_nl w)" using 1(2) by (simp add: wst_ok_def)
  obtain r nl where get: "nl_get_nowait (w_nl w) = (r, nl)" by (metis surj_pair)
  show ?case
  proof (cases r)
    case None
    then have "nl = w_nl w" using get by (auto simp: nl_get_nowait_def Let_def split: if_splits)
    then show ?thesis using 1(2) get None by (simp add: step)
  next
    case (Some msg)
    have nl: "link_ok nl" "msg + nlm_len (nl_rxbuf nl) msg \<le> length (nl_rxbuf nl)"
      using get Some link by (auto simp: nl_get_nowait_def nl_got_message_def link_ok_def Let_def split: if_splits)
    let ?r = "handle_msg E msg (w\<lparr>w_nl := nl\<rparr>)"
    have "ends False wst_ok wst_ok ?r"
      using nl by (intro wf_handle_msg) (simp_all add: wf_nl [OF 1(2)])
    then show ?thesis
      using 1(1) [OF get [symmetric] Some] by (cases ?r) (simp_all add: step get Some)
  qed
qed

lemma wf_handle_netlink [wf_rules]: "wst_ok w \<Longrightarrow> ends False wst_ok wst_ok (handle_netlink E ev w)"
proof -
  assume w: "wst_ok w"
  then have link: "link_ok (w_nl w)" by (simp add: wst_ok_def)
  have recv: "link_ok (snd (nl_recv_nowait ev nl))" if "link_ok nl" for nl
    using that by (auto simp: nl_recv_nowait_def nl_recv_chunk_def link_ok_def length_memcpy_at Let_def split: rx_event.splits)
  have shift: "link_ok (nl_shift_rxbuf nl)" if "link_ok nl" for nl
    using that by (auto simp: nl_shift_rxbuf_def link_ok_def length_memmove_at Let_def)
  have "ends False wst_ok wst_ok (chain (handle_msgs E v) (\<lambda>w. Go (w\<lparr>w_nl := nl_shift_rxbuf (w_nl w)\<rparr>)))" if "wst_ok v" for v
    using wf_handle_msgs [OF that] by (rule ends_chain) (simp add: wf_nl shift wf_parts)
  with wf_nl [OF w recv [OF link]] show ?thesis
    by (auto simp: handle_netlink_def case_prod_beta Let_def intro!: wf_rules)
qed

section \<open>Control commands\<close>

text \<open>The commands leave the connection table alone but for the report flag of their own slot.\<close>

lemma conns_start_scan [simp]: "w_conns (snd (start_scan E f w)) = w_conns w"
proof -
  have s: "w_conns (snd (send_nl E v)) = w_conns v" for v
    using send_nl_rest(1) [of E v] by (rule rest_eqD(11))
  show ?thesis by (simp add: start_scan_def send_scan_def Let_def case_prod_beta s)
qed

lemma conns_start_disconnect: "w_conns w = c \<Longrightarrow> yields (\<lambda>x. w_conns (snd x) = c) (start_disconnect E w)"
proof (cases "start_disconnect E w")
  case (Go x)
  then have "start_disconnect E w = Go (fst x, snd x)" by simp
  from rest_eqD(11) [OF start_disconnect_rest [OF this]]
  show "w_conns w = c \<Longrightarrow> ?thesis" by (simp add: Go)
qed simp_all

lemma conns_start_connection: "w_conns w = c \<Longrightarrow> yields (\<lambda>x. w_conns (snd x) = c) (start_connection E w)"
proof (cases "start_connection E w")
  case (Go x)
  then have "start_connection E w = Go (fst x, snd x)" by simp
  from rest_eqD(11) [OF start_connection_rest [OF this]]
  show "w_conns w = c \<Longrightarrow> ?thesis" by (simp add: Go)
qed simp_all

lemma conns_load_psk: "w_conns w = c \<Longrightarrow> yields (\<lambda>x. w_conns (snd x) = c) (load_psk_w E s n w)"
  by (auto simp: load_psk_w_def split: option.splits)

lemma conns_reports [simp]: "w_conns (send_to_conns E buf cns w) = w_conns w"
  by (induction E buf cns w rule: send_to_conns.induct) (auto simp: emit_def)

lemma conns_small [simp]:
  "w_conns (emit x w) = w_conns w" "w_conns (clear_ap_bssid w) = w_conns w" "w_conns (clear_ap_ssid w) = w_conns w"
  "w_conns (upd_scan p f w) = w_conns w" "w_conns (each_scan f w) = w_conns w" "w_conns (set_timer k w) = w_conns w"
  "w_conns (clr_timer w) = w_conns w" "w_conns (report_simple E c w) = w_conns w"
  by (simp_all add: emit_def clear_ap_bssid_def clear_ap_ssid_def upd_scan_def each_scan_def set_timer_def
      clr_timer_def report_simple_def send_report_def case_prod_beta Let_def)

lemma conns_reassess: "w_conns w = c \<Longrightarrow> yields (\<lambda>v. w_conns v = c) (reassess_wifi_situation E w)"
proof -
  have set: "w_conns v = k \<Longrightarrow> yields (\<lambda>x. w_conns (snd x) = k) (set_current_ap E p v)" for v p k
    by (auto simp: set_current_ap_def Let_def case_prod_beta
        intro!: ends_chain [where P' = "\<lambda>x. w_conns (snd x) = k"] conns_load_psk)
  have conn: "yields (\<lambda>x. w_conns (snd x) = w_conns v) (connect_to_something E v)" for v
    by (rule connect_to_something_inv [where I = "\<lambda>u. w_conns u = w_conns v"])
      (simp_all add: set conns_start_connection)
  show "w_conns w = c \<Longrightarrow> ?thesis"
    by (auto simp: reassess_wifi_situation_def report_defs snap_to_neutral_def idle_then_rescan_def Let_def case_prod_beta
        intro!: ends_chain [where P' = "\<lambda>x. w_conns (snd x) = c"] conn)
qed

lemma conns_set_fixed: "w_conns w = c \<Longrightarrow> yields (\<lambda>x. w_conns (snd x) = c) (set_fixed s n w)"
  by (auto simp: set_fixed_def reset_scan_counters_def Let_def)

lemma conns_configure: "w_conns w = c \<Longrightarrow> yields (\<lambda>x. w_conns (snd x) = c) (configure_station E m msg w)"
  by (auto simp: configure_station_def set_fixed_saved_def set_fixed_given_def reset_station_def Let_def case_prod_beta
      payload_in_def intro!: ends_chain [where P' = "\<lambda>x. w_conns (snd x) = c"] conns_set_fixed conns_load_psk
      split: option.splits)

definition conn_in_use :: "nat \<Rightarrow> wst \<Rightarrow> bool" where
  "conn_in_use q w \<longleftrightarrow> wst_ok w \<and> q < snd (w_conns w)"

lemma slots_ok_touch: "slots_ok enc n t \<Longrightarrow> p < snd t \<Longrightarrow> slots_ok enc n ((fst t)[p := x], snd t)"
  by (auto simp: slots_ok_def nth_list_update)

lemma conn_set_rep: "conn_in_use q w \<Longrightarrow> p \<le> q \<Longrightarrow> conn_in_use q (set_rep p r w)"
  using wf_parts [of w] by (auto simp: conn_in_use_def set_rep_def intro!: wf_conns slots_ok_touch)

lemma conn_reply: "conn_in_use q w \<Longrightarrow> conn_in_use q (snd (send_reply E p w))"
  "conn_in_use q w \<Longrightarrow> conn_in_use q (snd (reply E p err w))"
  by (simp_all add: conn_in_use_def reply_def send_reply_def start_reply_def Let_def)

text \<open>Both the invariant and the connection survive.\<close>

lemma conn_both:
  "conn_in_use q w \<Longrightarrow> ends False (\<lambda>x. wst_ok (g x)) wst_ok r \<Longrightarrow> yields (\<lambda>x. w_conns (g x) = w_conns w) r \<Longrightarrow>
   ends False (\<lambda>x. conn_in_use q (g x)) wst_ok r"
  by (cases r) (simp_all add: conn_in_use_def)

lemma wf_set_fixed: "wst_ok w \<Longrightarrow> ends False (\<lambda>x. wst_ok (snd x)) wst_ok (set_fixed s n w)"
proof -
  assume w: "wst_ok w"
  have "unat (word_of_int n :: u16) \<le> 32" if "0 \<le> n" "n \<le> 32"
  proof -
    have "word_of_int n = (word_of_nat (nat n) :: u16)" using that by simp
    then show ?thesis using that by (simp only: unsigned_of_nat) (simp add: take_bit_eq_mod)
  qed
  then show ?thesis
    using w wf_parts [OF w]
    by (auto simp: set_fixed_def reset_scan_counters_def Let_def ap_ok_def length_memcpy_at
        intro!: wf_each_scan wf_rules wf_ap)
qed


lemma wf_configure: "wst_ok w \<Longrightarrow> ends False (\<lambda>x. wst_ok (snd x)) wst_ok (configure_station E m msg w)"
proof -
  assume "wst_ok w"
  then have r: "wst_ok (reset_station w)" by (simp add: reset_station_def wf_rules)
  have given: "ends False (\<lambda>x. wst_ok (snd x)) wst_ok (set_fixed_given s n psk v)" if "wst_ok v" "length psk = 32" for s n psk v
  proof -
    have "wst_ok (u\<lparr>w_PSK := psk, w_ap := (w_ap u)\<lparr>ap_unsaved := True\<rparr>\<rparr>)" if "wst_ok u" for u
      using wf_PSK [OF that \<open>length psk = 32\<close>] wf_ap_flags(3) [OF that] by (intro wf_ap) simp_all
    then show ?thesis
      using that unfolding set_fixed_given_def
      by (intro ends_chain [OF wf_set_fixed]) (simp_all add: case_prod_beta)
  qed
  have saved: "ends False (\<lambda>x. wst_ok (snd x)) wst_ok (set_fixed_saved E s n v)" if "wst_ok v" for s n v
    unfolding set_fixed_saved_def case_prod_beta
    by (intro ends_chain [OF wf_load_psk_w [OF that]])
      (auto intro!: ends_chain [OF wf_set_fixed] wf_ap wf_ap_flags)
  have psk: "ends False (\<lambda>k. length k = 32) wst_ok (payload_in m p 32)" for p
    by (auto simp: payload_in_def)
  have pay: "ends False (\<lambda>k. True) wst_ok (payload_in m p n)" for p n
    by (simp add: payload_in_def)
  show ?thesis
    using r given [OF r] saved [OF r]
    by (auto simp: configure_station_def Let_def intro!: ends_chain [OF pay] ends_chain [OF psk] split: option.splits)
qed

lemma conn_start_void_scan: "conn_in_use q w \<Longrightarrow> conn_in_use q (snd (start_void_scan E w))"
  by (simp add: conn_in_use_def start_void_scan_def wf_start_scan)

lemma conn_start_disconnect:
  assumes "conn_in_use q w"
  shows "ends False (\<lambda>x. conn_in_use q (snd x)) wst_ok (start_disconnect E w)"
  using conn_both [OF assms wf_start_disconnect conns_start_disconnect [OF refl]] assms by (simp add: conn_in_use_def)

lemma conn_reassess:
  assumes "conn_in_use q w"
  shows "ends False (conn_in_use q) wst_ok (reassess_wifi_situation E w)"
proof -
  have "wst_ok w" using assms by (simp add: conn_in_use_def)
  from conn_both [where g = "\<lambda>v. v", OF assms wf_reassess [OF this] conns_reassess [OF refl]]
  show ?thesis .
qed

lemma conn_configure:
  assumes "conn_in_use q w"
  shows "ends False (\<lambda>x. conn_in_use q (snd x)) wst_ok (configure_station E m msg w)"
  using conn_both [OF assms wf_configure conns_configure [OF refl]] assms by (simp add: conn_in_use_def)

lemma conn_other [simp]:
  "conn_in_use q (w\<lparr>w_opermode := a\<rparr>) = conn_in_use q w" "conn_in_use q (clr_timer w) = conn_in_use q w"
  "conn_in_use q (w\<lparr>w_uc := u\<rparr>) = conn_in_use q w" "conn_in_use q (w\<lparr>w_config := c\<rparr>) = conn_in_use q w"
  by (simp_all add: conn_in_use_def)

lemma conn_each_scan: "conn_in_use q w \<Longrightarrow> (\<And>sc. same_station sc (f sc)) \<Longrightarrow> conn_in_use q (each_scan f w)"
  by (simp add: conn_in_use_def wf_each_scan)

lemma conn_cmd_connect:
  assumes "conn_in_use q w" "p \<le> q"
  shows "ends False (\<lambda>x. conn_in_use q (snd x)) wst_ok (cmd_connect E p m msg w)"
proof -
  have go: "ends False (\<lambda>x. conn_in_use q (snd x)) wst_ok
     (chain (reassess_wifi_situation E (clr_timer (snd (reply E p 0 (set_rep p 1 (v\<lparr>w_opermode := OP_ONESHOT\<rparr>))))))
       (\<lambda>w. Go (fst (reply E p 0 (set_rep p 1 (v\<lparr>w_opermode := OP_ONESHOT\<rparr>))), w)))" if "conn_in_use q v" for v
    using that assms(2) by (intro ends_chain [OF conn_reassess]) (simp_all add: conn_reply conn_set_rep)
  show ?thesis
    using assms unfolding cmd_connect_def Let_def
    by (auto intro!: ends_chain [OF conn_configure] go simp: case_prod_beta simp del: conn_other)
qed

lemma conn_call_cmd:
  assumes "conn_in_use q w" "p \<le> q" "call_cmd E p m msg w = Some r"
  shows "ends False (\<lambda>x. conn_in_use q (snd x)) wst_ok r"
proof -
  have "ends False (\<lambda>x. conn_in_use q (snd x)) wst_ok (cmd_status E p w)"
    "ends False (\<lambda>x. conn_in_use q (snd x)) wst_ok (cmd_device E p w)"
    using assms(1,2) by (simp_all add: cmd_status_def cmd_device_def Let_def case_prod_beta conn_reply conn_set_rep split: option.split)
  moreover have "ends False (\<lambda>x. conn_in_use q (snd x)) wst_ok (cmd_scan E p w)"
    using conn_start_void_scan [OF assms(1)] assms(2) by (simp add: cmd_scan_def case_prod_beta conn_set_rep)
  moreover have "ends False (\<lambda>x. conn_in_use q (snd x)) wst_ok (cmd_neutral E p w)"
    using assms(1,2) unfolding cmd_neutral_def
    by (intro ends_chain [OF conn_start_disconnect]) (auto simp: case_prod_beta intro: conn_set_rep)
  moreover have "ends False (\<lambda>x. conn_in_use q (snd x)) wst_ok (cmd_forget E p m msg w)"
  proof -
    have pay: "ends False (\<lambda>k. True) wst_ok (payload_in m q n)" for q n by (simp add: payload_in_def)
    show ?thesis
      using assms(1) by (auto simp: cmd_forget_def Let_def intro!: ends_chain [OF pay] conn_each_scan split: option.splits)
  qed
  moreover note conn_cmd_connect [OF assms(1,2), of E m msg]
  ultimately show ?thesis
    using assms(3) by (auto simp: call_cmd_def Let_def split: if_splits)
qed

lemma conn_dispatch_cmd:
  assumes "conn_in_use q w" "p \<le> q"
  shows "ends False (\<lambda>x. conn_in_use q (snd x)) wst_ok (dispatch_cmd E p m msg w)"
proof (cases "call_cmd E p m msg w")
  case (Some r)
  then show ?thesis
    by (auto simp: dispatch_cmd_def case_prod_beta conn_reply intro!: ends_chain [OF conn_call_cmd [OF assms]])
qed (simp add: dispatch_cmd_def conn_reply assms)

section \<open>The main loop\<close>

lemma wf_handle_control: "wst_ok w \<Longrightarrow> wst_ok (handle_control cfds w)"
proof (induction cfds w rule: handle_control.induct)
  case (2 cfd cfds w)
  obtain r t where g: "grab_conn_slot (w_conns w) = (r, t)" by (metis surj_pair)
  have ok: "slots_ok conn_bytes NCONNS (w_conns w)" using 2(3) by (simp add: wst_ok_def)
  have "slots_ok conn_bytes NCONNS ((fst t)[p := x], snd t)" if "r = Some p" for p x
  proof -
    have "grab_slot conn_bytes (w_conns w) NCONNS = (Some p, t)" using g that by (simp add: grab_conn_slot_def)
    from conn_pool.grab_SomeD(2,3) [OF ok this] show ?thesis by (rule slots_ok_touch)
  qed
  moreover have "t = w_conns w" if "r = None"
    using conn_pool.grab_None_same [of "w_conns w" t] g that by (simp add: grab_conn_slot_def)
  ultimately show ?case using 2 g by (cases r; cases t) (auto simp: wf_conns)
qed simp

lemma wf_close_conn: "conn_in_use q w \<Longrightarrow> p \<le> q \<Longrightarrow> conn_in_use q (close_conn p w)"
  using wf_parts [of w] by (auto simp: conn_in_use_def close_conn_def emit_def intro!: wf_conns slots_ok_touch)

lemma wf_load_state [wf_rules]: "wst_ok w \<Longrightarrow> ends False wst_ok wst_ok (load_state E w)"
proof -
  assume w: "wst_ok w"
  have saved: "ends False (\<lambda>x. wst_ok (snd x)) wst_ok (set_fixed_saved E s n w)" for s n
    unfolding set_fixed_saved_def case_prod_beta
    by (intro ends_chain [OF wf_load_psk_w [OF w]])
      (auto intro!: ends_chain [OF wf_set_fixed] wf_ap wf_ap_flags)
  show ?thesis
    using w by (auto simp: load_state_def Let_def intro!: ends_chain [OF saved] wf_ap wf_ap_flags split: option.splits)
qed

lemma wf_bring_iface_up [wf_rules]: "wst_ok w \<Longrightarrow> ends False wst_ok wst_ok (bring_iface_up E w)"
  by (auto simp: bring_iface_up_def intro!: wf_rules split: option.splits)

lemma wf_handle_event [wf_rules]: "wst_ok w \<Longrightarrow> ends False wst_ok wst_ok (handle_event E re w)"
proof -
  have "wst_ok v \<Longrightarrow> ends False wst_ok wst_ok (set_rfkilled E re v)" for v
    by (auto simp: set_rfkilled_def intro!: ends_chain [where P' = wst_ok] wf_rules)
  then show "wst_ok w \<Longrightarrow> ?thesis" by (simp add: handle_event_def)
qed

lemma wf_handle_rfkill [wf_rules]: "wst_ok w \<Longrightarrow> ends False wst_ok wst_ok (handle_rfkill E ds w)"
  by (induction E ds w rule: handle_rfkill.induct) (auto simp: Let_def intro!: ends_chain [OF wf_handle_event])

lemma wf_timer_expired [wf_rules]: "wst_ok w \<Longrightarrow> ends False wst_ok wst_ok (timer_expired E w)"
  by (auto simp: timer_expired_def Let_def intro!: wf_rules)

lemma wf_xshutdown [wf_rules]: "wst_ok w \<Longrightarrow> ends False wst_ok wst_ok (xshutdown E w)"
  by (auto simp: xshutdown_def Let_def case_prod_beta
      intro!: ends_chain [where P' = "\<lambda>x. wst_ok (snd x)"] wf_rules)

lemma wf_pfds: "wst_ok w \<Longrightarrow> length fds = NPFDS \<Longrightarrow> wst_ok (w\<lparr>w_pfds := fds\<rparr>)"
  by (simp add: wst_ok_def keys_ok_def scan_state_ok_def)

lemma pfds_length: "wst_ok w \<Longrightarrow> length (w_pfds w) = NPFDS"
  by (simp add: wst_ok_def)

lemma wf_update_pollfds: "wst_ok w \<Longrightarrow> ends False wst_ok wst_ok (update_pollfds w)"
  using pfds_length [of w]
  by (auto simp: update_pollfds_def Let_def case_prod_beta length_memcpy_at intro!: wf_pfds)

lemma wf_checks [wf_rules]:
  "wst_ok w \<Longrightarrow> ends False wst_ok wst_ok (check_netlink E r1 w)"
  "wst_ok w \<Longrightarrow> ends False wst_ok wst_ok (check_rawsock E r2 w)"
  "wst_ok w \<Longrightarrow> ends False wst_ok wst_ok (check_control E r3 w)"
  "wst_ok w \<Longrightarrow> ends False wst_ok wst_ok (check_rfkill E r4 w)"
  by (auto simp: check_netlink_def check_rawsock_def check_control_def check_rfkill_def Let_def wf_handle_control
      pfds_length intro!: ends_chain [where P' = wst_ok] wf_rules wf_pfds)

lemma wf_sighandler: "wst_ok w \<Longrightarrow> wst_ok (sighandler sg w)"
proof -
  have "wst_ok v \<Longrightarrow> wst_ok (fold reap_dhcp ps v)" for ps v
    by (induction ps arbitrary: v) (auto simp: reap_dhcp_def)
  then show "wst_ok w \<Longrightarrow> ?thesis" by (simp add: sighandler_def Let_def)
qed

lemma wf_save_config_w: "wst_ok (save_config_w E w) = wst_ok w"
  by (simp add: save_config_w_def case_prod_beta Let_def split: option.splits)

text \<open>So the loop keeps the invariant, whatever the system answers and whatever is ready.\<close>

interpretation well_formed: loop_invariant "\<lambda>E. True" "\<lambda>r. True" "\<lambda>r. True" wst_ok wst_ok conn_in_use
proof
  show "conn_in_use q (shutdown_conn p w)" if "conn_in_use q w" for p q w
    using that by (simp add: shutdown_conn_def conn_in_use_def)
  show "conn_in_use n w" if "wst_ok w" "n < snd (w_conns w)" for n w
    using that by (simp add: conn_in_use_def)
  show "wst_ok w" if "conn_in_use q w" for q w
    using that by (simp add: conn_in_use_def)
qed (auto simp: save_state_def wf_save_config_w
    intro: conn_dispatch_cmd wf_close_conn wf_update_pollfds wf_sighandler wf_rules)

lemma wf_main_start [wf_rules]: "wst_ok w \<Longrightarrow> ends False wst_ok wst_ok (main_start E w)"
  by (auto simp: main_start_def Let_def retry_rfkill_def intro!: ends_chain [where P' = wst_ok] wf_rules)

lemma wf_main_loop: "wst_ok w \<Longrightarrow> main_loop evs w = Some r \<Longrightarrow> ends False wst_ok wst_ok r"
  by (rule well_formed.keeps_main_loop) (auto simp: admits_def split: wakeup.splits)

end
