(* ===== verification/Protocol_Steps.thy ===== *)
theory Protocol_Steps imports Protocol Invariant_Steps begin

text \<open>
  The daemon runs the abstract machine of Protocol: the view of its state, and one lemma for every
  operation that what it does to the view is a sequence of steps, with the causes it has.
\<close>

named_theorems follow_rules \<open>operations that follow the protocol\<close>

section \<open>The view of a state\<close>

fun asked :: "out list \<Rightarrow> byte list" where
  "asked [] = []"
| "asked (Nl_sent m # xs) = gen_cmd m 0 # asked xs"
| "asked (_ # xs) = asked xs"

lemma asked_append [simp]: "asked (xs @ ys) = asked xs @ asked ys"
  by (induction xs rule: asked.induct) simp_all

definition view :: "wst \<Rightarrow> view" where
  "view w = (w_authstate w, asked (w_out w))"

definition accepts :: "bool \<Rightarrow> env \<Rightarrow> bool" where
  "accepts lossy E \<longleftrightarrow> lossy \<or> (\<forall>n. en_nl_ok E n)"

definition follows :: "bool \<Rightarrow> cause set \<Rightarrow> wst \<Rightarrow> wst \<Rightarrow> bool" where
  "follows lossy causes w0 w \<longleftrightarrow> wst_ok w \<and> csteps lossy causes (view w0) (view w)"

lemma follows_refl: "wst_ok w \<Longrightarrow> follows lossy causes w w"
  by (simp add: follows_def)

lemma follows_same: "follows lossy causes w0 w \<Longrightarrow> wst_ok v \<Longrightarrow> view v = view w \<Longrightarrow> follows lossy causes w0 v"
  by (simp add: follows_def)

lemma follows_step:
  "follows lossy causes w0 w \<Longrightarrow> wst_ok v \<Longrightarrow> cstep lossy causes (view w) (view v) \<Longrightarrow> follows lossy causes w0 v"
  by (auto simp: follows_def intro: rtranclp.rtrancl_into_rtrancl)

lemma follows_ok: "follows lossy causes w0 w \<Longrightarrow> wst_ok w"
  by (simp add: follows_def)

text \<open>An operation that keeps the invariant and leaves the view alone.\<close>

lemma follows_frame:
  "follows lossy causes w0 w \<Longrightarrow> ends d (\<lambda>x. wst_ok (g x)) wst_ok r \<Longrightarrow> yields (\<lambda>x. view (g x) = view w) r \<Longrightarrow>
   yields (\<lambda>x. follows lossy causes w0 (g x)) r"
  by (cases r) (auto intro: follows_same)

lemma view_updates [simp]:
  "view (w\<lparr>w_nl := a0\<rparr>) = view w" "view (w\<lparr>w_ap := a1\<rparr>) = view w" "view (w\<lparr>w_opermode := a2\<rparr>) = view w"
  "view (w\<lparr>w_rawsock := a3\<rparr>) = view w" "view (w\<lparr>w_eapolstate := a4\<rparr>) = view w" "view (w\<lparr>w_eapolsends := a5\<rparr>) = view w"
  "view (w\<lparr>w_version := a6\<rparr>) = view w" "view (w\<lparr>w_gtkindex := a7\<rparr>) = view w" "view (w\<lparr>w_config := a8\<rparr>) = view w"
  "view (w\<lparr>w_rfkill := a9\<rparr>) = view w" "view (w\<lparr>w_rfkilled := b1\<rparr>) = view w" "view (w\<lparr>w_rfkidx := b2\<rparr>) = view w"
  "view (w\<lparr>w_dhcpid := b3\<rparr>) = view w" "view (w\<lparr>w_timer := b4\<rparr>) = view w" "view (w\<lparr>w_pollset := b5\<rparr>) = view w"
  "view (w\<lparr>w_npfds := b6\<rparr>) = view w" "view (w\<lparr>w_sigterm := b7\<rparr>) = view w" "view (w\<lparr>w_uc := b8\<rparr>) = view w"
  "view (w\<lparr>w_scans := b9\<rparr>) = view w" "view (w\<lparr>w_conns := c1\<rparr>) = view w" "view (w\<lparr>w_PSK := c2\<rparr>) = view w"
  "view (w\<lparr>w_scanstate := c3\<rparr>) = view w" "view (w\<lparr>w_scanreq := c4\<rparr>) = view w" "view (w\<lparr>w_scanseq := c5\<rparr>) = view w"
  "view (w\<lparr>w_pfds := c6\<rparr>) = view w" "view (w\<lparr>w_packet := c7\<rparr>) = view w" "view (w\<lparr>w_amac := c8\<rparr>) = view w"
  "view (w\<lparr>w_KCK := c9\<rparr>) = view w" "view (w\<lparr>w_KEK := d1\<rparr>) = view w" "view (w\<lparr>w_PTK := d2\<rparr>) = view w"
  "view (w\<lparr>w_GTK := d3\<rparr>) = view w" "view (w\<lparr>w_RSC := d4\<rparr>) = view w" "view (w\<lparr>w_anonce := d5\<rparr>) = view w"
  "view (w\<lparr>w_snonce := d6\<rparr>) = view w" "view (w\<lparr>w_replay := d7\<rparr>) = view w" "view (w\<lparr>w_ifname := d8\<rparr>) = view w"
  "view (w\<lparr>w_ifindex := d9\<rparr>) = view w" "view (w\<lparr>w_smac := e1\<rparr>) = view w" "view (w\<lparr>w_netlink := e2\<rparr>) = view w"
  "view (w\<lparr>w_ctrlfd := e3\<rparr>) = view w" "view (w\<lparr>w_nl80211 := e4\<rparr>) = view w"
  by (simp_all add: view_def)

lemma view_auth [simp]: "view (w\<lparr>w_authstate := s\<rparr>) = (s, snd (view w))" "fst (view w) = w_authstate w"
  by (simp_all add: view_def)

lemma view_emit [simp]:
  "view (emit (Nl_sent m) w) = (w_authstate w, snd (view w) @ [gen_cmd m 0])"
  "view (emit (Raw_sent a p) w) = view w" "view (emit (Conn_sent fd b) w) = view w" "view (emit (Conn_shut fd) w) = view w"
  "view (emit (Conn_closed fd) w) = view w" "view (emit Dhcp_started w) = view w" "view (emit Dhcp_killed w) = view w"
  "view (emit Iface_up w) = view w" "view (emit (Config_written b) w) = view w" "view (emit (State_written b) w) = view w"
  "view (emit State_removed w) = view w"
  by (simp_all add: view_def emit_def)

lemma view_conns [simp]: "view (send_to_conns E buf cns w) = view w"
  by (induction E buf cns w rule: send_to_conns.induct) auto

lemma view_small [simp]:
  "view (clr_timer w) = view w" "view (set_timer n w) = view w" "view (upd_scan p f w) = view w"
  "view (each_scan f w) = view w" "view (clear_ap_bssid w) = view w" "view (clear_ap_ssid w) = view w"
  "view (report_simple E c w) = view w" "view (report_station E c w) = view w" "view (kill_dhcp w) = view w"
  "view (reset_scan_state w) = view w" "view (drop_stale_scan_slots w) = view w" "view (mark_stale_scan_slots m msg w) = view w"
  by (simp_all add: clr_timer_def set_timer_def upd_scan_def each_scan_def clear_ap_bssid_def clear_ap_ssid_def
      report_simple_def report_station_def send_report_def kill_dhcp_def reset_scan_state_def drop_stale_scan_slots_def
      mark_stale_scan_slots_def case_prod_beta Let_def split: option.splits)

lemma view_reports [simp]:
  "view (report_net_down E w) = view w" "view (report_scanning E w) = view w" "view (report_scan_done E w) = view w"
  "view (report_scan_fail E w) = view w" "view (report_no_connect E w) = view w" "view (report_disconnect E w) = view w"
  "view (report_connected E w) = view w"
  by (simp_all add: report_defs)

section \<open>Requests\<close>

text \<open>A request with command \<open>c\<close> in the transmit buffer: what is put behind the header leaves it there.\<close>

definition asking :: "byte \<Rightarrow> netlink \<Rightarrow> bool" where
  "asking c nl \<longleftrightarrow> link_ok nl \<and> 20 \<le> nl_txend nl \<and> nl_txbuf nl ! 16 = c"

lemma nth_memcpy_other:
  "i < off \<or> off + length src \<le> i \<Longrightarrow> i < length buf \<Longrightarrow> off + length src \<le> length buf \<Longrightarrow> memcpy_at buf off src ! i = buf ! i"
  by (auto simp: memcpy_at_def nth_append)

lemma asking_poke:
  "asking c nl \<Longrightarrow> off + length bs \<le> 512 \<Longrightarrow> off + length bs \<le> 16 \<or> 16 < off \<Longrightarrow> asking c (nl_poke off bs nl)"
  by (auto simp: asking_def link_ok_poke) (auto simp: nl_poke_def link_ok_def nth_memcpy_other)

lemma asking_alloc:
  assumes "asking c nl" "nl_alloc nl n = (r, nl')"
  shows "asking c nl' \<and> (\<forall>at. r = Some at \<longrightarrow> 20 \<le> at \<and> at + n \<le> 512)"
proof -
  have link: "link_ok nl" "20 \<le> nl_txend nl" "nl_txbuf nl ! 16 = c" using assms(1) by (simp_all add: asking_def)
  note a = nl_alloc_link [OF link(1) assms(2)]
  show ?thesis
  proof (cases r)
    case None
    then show ?thesis using assms by (auto simp: nl_alloc_def Let_def split: if_splits)
  next
    case (Some at)
    then have at: "at = nl_txend nl" "at + n \<le> 512" "nl_txend nl' = at + align4 n" "link_ok nl'" using a by auto
    have "nl_txbuf nl' = memcpy_at (nl_txbuf nl) at (replicate n 0)"
      using assms(2) Some by (auto simp: nl_alloc_def Let_def split: if_splits)
    moreover have "length (nl_txbuf nl) = 512" using link(1) by (simp add: link_ok_def)
    ultimately have "nl_txbuf nl' ! 16 = c" using at(1,2) link(2,3) by (simp add: nth_memcpy_other)
    then show ?thesis using at link(2) Some by (simp add: asking_def)
  qed
qed

lemma asking_put: "asking c nl \<Longrightarrow> asking c (nl_put nl k bs)"
  using asking_alloc [of c nl "4 + length bs"]
  by (auto simp: nl_put_def nl_tx_msg_def Let_def split: option.splits prod.splits intro!: asking_poke)

lemma asking_puts [follow_rules]:
  "asking c nl \<Longrightarrow> asking c (nl_put nl k bs)" "asking c nl \<Longrightarrow> asking c (nl_put_u8 nl k b)"
  "asking c nl \<Longrightarrow> asking c (nl_put_u32 nl k v)" "asking c nl \<Longrightarrow> asking c (nl_put_empty nl k)" "asking c nl \<Longrightarrow> asking c (put_ap w nl)"
  by (simp_all add: nl_put_u8_def nl_put_u32_def nl_put_empty_def put_ap_def asking_put)

lemma asking_nest:
  "asking c nl \<Longrightarrow> nl_put_nest nl k = (at, nl') \<Longrightarrow> asking c nl' \<and> (\<forall>p. at = Some p \<longrightarrow> 20 \<le> p \<and> p + 4 \<le> 512)"
  using asking_alloc [of c nl 4]
  by (auto simp: nl_put_nest_def split: option.splits prod.splits intro!: asking_poke)

lemma asking_over: "asking c nl \<Longrightarrow> asking c (nl\<lparr>nl_txover := True\<rparr>)"
  by (simp add: asking_def)

lemma asking_end_nest: "asking c nl \<Longrightarrow> \<forall>p. at = Some p \<longrightarrow> 20 \<le> p \<and> p + 4 \<le> 512 \<Longrightarrow> asking c (nl_end_nest nl at)"
  using asking_over [of c nl] by (auto simp: nl_end_nest_def split: option.splits intro!: asking_poke)

lemma asking_put_key_types [follow_rules]: "asking c nl \<Longrightarrow> asking c (put_key_types k nl)"
  using asking_nest [of c nl NL80211_ATTR_KEY_DEFAULT_TYPES]
  by (auto simp: put_key_types_def split: prod.splits intro!: asking_end_nest asking_puts)

lemma asking_new: "link_ok nl \<Longrightarrow> asking c (nl_new_cmd nl fam c v)"
proof -
  assume link: "link_ok nl"
  let ?nl = "nl\<lparr>nl_txend := 0, nl_txover := False, nl_seq := nl_seq nl + 1\<rparr>"
  let ?hdr = "le32 20 @ le16 fam @ le16 (0 OR NLM_F_REQUEST) @ le32 (nl_seq nl + 1) @ le32 0 @ [c, v, 0, 0]"
  have "nl_new_cmd nl fam c v = ?nl\<lparr>nl_txend := 20, nl_txbuf := memcpy_at (memcpy_at (nl_txbuf nl) 0 (replicate 20 0)) 0 ?hdr\<rparr>"
    using link by (simp add: nl_new_cmd_def nl_start_packet_def nl_alloc_def nl_poke_def link_ok_def)
  moreover have "memcpy_at b 0 ?hdr ! 16 = c" for b
    by (simp add: memcpy_at_def nth_append)
  ultimately show ?thesis
    using link_ok_new_cmd [OF link, of fam c v] by (simp add: asking_def)
qed

lemma asking_new_cmd [follow_rules]: "wst_ok w \<Longrightarrow> asking c (new_cmd c w)"
  using asking_new [of "w_nl w"] wf_parts [of w] by (simp add: new_cmd_def asking_puts)

text \<open>Sending it.\<close>

lemma asking_sent:
  assumes "asking c nl" and "nl_send ok nl = (ret, m, nl')"
  shows "(case m of None \<Rightarrow> ret \<noteq> 0 \<and> (ret \<ge> 0 \<longrightarrow> \<not> ok) | Some b \<Rightarrow> gen_cmd b 0 = c) \<and> link_ok nl'"
  using assms link_ok_send [of nl ok]
  by (auto simp: nl_send_eq gen_cmd_def asking_def split: if_splits)

lemma asks_emit:
  assumes "asking c nl" and "accepts lossy E" and "nl_send (en_nl_ok E s) nl = (ret, m, nl')" and "ret \<ge> 0"
  shows "asks lossy c (snd (view w)) (snd (view (emit_nl m (w\<lparr>w_nl := nl'\<rparr>))))"
  using asking_sent [OF assms(1,3)] assms(2,4)
  by (auto simp: emit_nl_def accepts_def intro: asks.intros split: option.splits)

lemma auth_emit_nl [simp]: "w_authstate (emit_nl m w) = w_authstate w"
  by (simp add: emit_nl_def emit_def split: option.splits)

lemma view_pair: "view w = (w_authstate w, snd (view w))"
  by (simp add: view_def)

lemma send_check_asks:
  assumes "wst_ok w" "asking c nl" "accepts lossy E"
  shows "yields (\<lambda>v. wst_ok v \<and> w_authstate v = w_authstate w \<and> asks lossy c (snd (view w)) (snd (view v)))
    (send_check E (w\<lparr>w_nl := nl\<rparr>))"
proof -
  obtain ret m nl' where s: "nl_send (en_nl_ok E (nl_seq nl)) nl = (ret, m, nl')" by (metis surj_pair)
  have "wst_ok (emit_nl m (w\<lparr>w_nl := nl'\<rparr>))"
    using asking_sent [OF assms(2) s] wf_nl [OF assms(1)] by simp
  then show ?thesis
    using asks_emit [OF assms(2,3) s, of w] s by (auto simp: send_check_def send_nl_def quit_def Let_def case_prod_beta)
qed

lemma follow_send_check:
  assumes "follows lossy causes w0 w" "asking c nl" "accepts lossy E"
    and "\<And>cs'. asks lossy c (snd (view w)) cs' \<Longrightarrow> cstep lossy causes (view w) (w_authstate w, cs')"
  shows "yields (follows lossy causes w0) (send_check E (w\<lparr>w_nl := nl\<rparr>))"
  using send_check_asks [OF follows_ok [OF assms(1)] assms(2,3)]
proof (rule ends_mono)
  fix v assume v: "wst_ok v \<and> w_authstate v = w_authstate w \<and> asks lossy c (snd (view w)) (snd (view v))"
  then have "cstep lossy causes (view w) (view v)" using assms(4) [of "snd (view v)"] by (subst (2) view_pair) simp
  with v show "follows lossy causes w0 v" using follows_step [OF assms(1)] by blast
qed simp_all

lemma follow_send_set_authstate:
  assumes "follows lossy causes w0 w" "asking c nl" "accepts lossy E"
    and "\<And>cs'. asks lossy c (snd (view w)) cs' \<Longrightarrow> cstep lossy causes (view w) (as, cs')"
  shows "yields (follows lossy causes w0) (send_set_authstate E as (w\<lparr>w_nl := nl\<rparr>))"
  unfolding send_set_authstate_def
proof (rule ends_chain [OF send_check_asks [OF follows_ok [OF assms(1)] assms(2,3)]])
  fix v assume v: "wst_ok v \<and> w_authstate v = w_authstate w \<and> asks lossy c (snd (view w)) (snd (view v))"
  then have "cstep lossy causes (view w) (view (v\<lparr>w_authstate := as\<rparr>))" using assms(4) by simp
  with v show "yields (follows lossy causes w0) (Go (v\<lparr>w_authstate := as\<rparr>) :: (wst, wst) outcome)"
    using follows_step [OF assms(1), of "v\<lparr>w_authstate := as\<rparr>"] by simp
qed

lemma cstep_from:
  "w_authstate w = s \<Longrightarrow> cstep lossy causes (s, snd (view w)) y \<Longrightarrow> cstep lossy causes (view w) y"
  by (simp add: view_def)

lemma send_nl_asks:
  assumes "asking c (w_nl u)" "accepts lossy E"
  shows "w_authstate (snd (send_nl E u)) = w_authstate u \<and>
    (view (snd (send_nl E u)) = view u \<or> asks lossy c (snd (view u)) (snd (view (snd (send_nl E u)))))"
proof -
  obtain ret m nl' where s: "nl_send (en_nl_ok E (nl_seq (w_nl u))) (w_nl u) = (ret, m, nl')" by (metis surj_pair)
  have "m = None" if "\<not> ret \<ge> 0" using asking_sent [OF assms(1) s] that s by (auto simp: nl_send_eq split: if_splits)
  then show ?thesis
    using asks_emit [OF assms s, of u] s by (cases "ret \<ge> 0"; cases m) (simp_all add: send_nl_def emit_nl_def emit_def)
qed

section \<open>Scans\<close>

lemma follow_start_scan [follow_rules]:
  assumes "follows lossy causes w0 w" "accepts lossy E"
  shows "follows lossy causes w0 (snd (start_scan E freq w))"
proof (cases "w_scanstate w = SS_IDLE")
  case False
  then have "view (snd (start_scan E freq w)) = view w" by (simp add: start_scan_def)
  then show ?thesis using follows_same [OF assms(1)] wf_start_scan [OF follows_ok [OF assms(1)]] by blast
next
  case True
  let ?new = "new_cmd NL80211_CMD_TRIGGER_SCAN w"
  let ?nest = "nl_put_nest ?new NL80211_ATTR_SCAN_FREQUENCIES"
  define nl where "nl = (if freq > 0 then nl_end_nest (nl_put_u32 (snd ?nest) 0 (word_of_int freq)) (fst ?nest) else ?new)"
  have new: "asking NL80211_CMD_TRIGGER_SCAN ?new" using follows_ok [OF assms(1)] by (rule asking_new_cmd)
  then have nl: "asking NL80211_CMD_TRIGGER_SCAN nl"
    using asking_nest [OF new, of NL80211_ATTR_SCAN_FREQUENCIES "fst ?nest" "snd ?nest"]
    by (auto simp: nl_def intro!: asking_end_nest asking_puts)
  have "new_cmd c (w\<lparr>w_scanreq := q\<rparr>) = new_cmd c w" for c q by (simp add: new_cmd_def)
  then obtain q where "view (snd (start_scan E freq w)) = view (snd (send_nl E (w\<lparr>w_scanreq := q, w_nl := nl\<rparr>)))"
    using True that by (cases "freq > 0") (simp_all add: start_scan_def send_scan_def nl_def Let_def case_prod_beta)
  moreover define v where "v = snd (send_nl E (w\<lparr>w_scanreq := q, w_nl := nl\<rparr>))"
  ultimately have v: "view (snd (start_scan E freq w)) = view v" by simp
  have "w_authstate v = w_authstate w \<and> (view v = view w \<or> asks lossy NL80211_CMD_TRIGGER_SCAN (snd (view w)) (snd (view v)))"
    using send_nl_asks [of NL80211_CMD_TRIGGER_SCAN "w\<lparr>w_scanreq := q, w_nl := nl\<rparr>", OF _ assms(2)] nl by (simp add: v_def)
  then have "view v = view w \<or> cstep lossy causes (w_authstate w, snd (view w)) (w_authstate w, snd (view v))"
    by (auto intro!: cstep.scan)
  then have "view (snd (start_scan E freq w)) = view w \<or> cstep lossy causes (view w) (view (snd (start_scan E freq w)))"
    using \<open>w_authstate v = _ \<and> _\<close> by (metis v view_pair)
  then show ?thesis
    using follows_same [OF assms(1)] follows_step [OF assms(1)] wf_start_scan [OF follows_ok [OF assms(1)]] by blast
qed

lemma asking_or_flags: "asking c nl \<Longrightarrow> asking c (nl_or_flags f nl)"
  by (simp add: nl_or_flags_def asking_poke)

lemma follow_trigger_scan_dump [follow_rules]:
  assumes "follows lossy causes w0 w" "accepts lossy E"
  shows "follows lossy causes w0 (trigger_scan_dump E w)"
proof -
  let ?nl = "new_cmd NL80211_CMD_GET_SCAN w" and ?u = "w\<lparr>w_nl := nl_or_flags NLM_F_DUMP (new_cmd NL80211_CMD_GET_SCAN w)\<rparr>"
  have nl: "asking NL80211_CMD_GET_SCAN ?nl" using follows_ok [OF assms(1)] by (rule asking_new_cmd)
  then have tx: "nl_tx_msg ?nl = Some 0" by (simp add: nl_tx_msg_def asking_def)
  have seq: "nl_seq (nl_or_flags f x) = nl_seq x" for f x by (simp add: nl_or_flags_def nl_poke_def)
  have "view (trigger_scan_dump E w) = view (snd (send_nl E ?u))"
    by (simp add: trigger_scan_dump_def nl_send_dump_def send_nl_def tx seq Let_def case_prod_beta)
  moreover have "w_authstate (snd (send_nl E ?u)) = w_authstate w \<and> (view (snd (send_nl E ?u)) = view w \<or>
      asks lossy NL80211_CMD_GET_SCAN (snd (view w)) (snd (view (snd (send_nl E ?u)))))"
    using send_nl_asks [of NL80211_CMD_GET_SCAN ?u, OF _ assms(2)] asking_or_flags [OF nl] by simp
  ultimately have "view (trigger_scan_dump E w) = view w \<or> cstep lossy causes (view w) (view (trigger_scan_dump E w))"
    by (metis cstep.scan view_pair)
  then show ?thesis
    using follows_same [OF assms(1)] follows_step [OF assms(1)] wf_trigger_scan_dump [OF follows_ok [OF assms(1)]] by blast
qed

section \<open>Connections\<close>

lemma follow_quit [simp]: "yields P (quit E w)"
  by (simp add: quit_def Let_def case_prod_beta)

lemma follows_other [simp]:
  "follows lossy causes w0 (w\<lparr>w_rawsock := a1\<rparr>) = follows lossy causes w0 w" "follows lossy causes w0 (w\<lparr>w_opermode := a2\<rparr>) = follows lossy causes w0 w"
  "follows lossy causes w0 (w\<lparr>w_eapolstate := a3\<rparr>) = follows lossy causes w0 w" "follows lossy causes w0 (w\<lparr>w_eapolsends := a4\<rparr>) = follows lossy causes w0 w"
  "follows lossy causes w0 (w\<lparr>w_config := a5\<rparr>) = follows lossy causes w0 w" "follows lossy causes w0 (w\<lparr>w_rfkilled := a6\<rparr>) = follows lossy causes w0 w"
  "follows lossy causes w0 (w\<lparr>w_rfkidx := a7\<rparr>) = follows lossy causes w0 w" "follows lossy causes w0 (w\<lparr>w_sigterm := a8\<rparr>) = follows lossy causes w0 w"
  "follows lossy causes w0 (w\<lparr>w_pollset := a9\<rparr>) = follows lossy causes w0 w" "follows lossy causes w0 (w\<lparr>w_rfkill := b1\<rparr>) = follows lossy causes w0 w"
  "follows lossy causes w0 (clr_timer w) = follows lossy causes w0 w" "follows lossy causes w0 (set_timer n w) = follows lossy causes w0 w"
  "follows lossy causes w0 (kill_dhcp w) = follows lossy causes w0 w" "follows lossy causes w0 (report_simple E c w) = follows lossy causes w0 w"
  "follows lossy causes w0 (report_station E c w) = follows lossy causes w0 w"
  by (simp_all add: follows_def)

lemma follows_reports [simp]:
  "follows lossy causes w0 (report_net_down E w) = follows lossy causes w0 w" "follows lossy causes w0 (report_scanning E w) = follows lossy causes w0 w"
  "follows lossy causes w0 (report_scan_done E w) = follows lossy causes w0 w" "follows lossy causes w0 (report_scan_fail E w) = follows lossy causes w0 w"
  "follows lossy causes w0 (report_no_connect E w) = follows lossy causes w0 w" "follows lossy causes w0 (report_disconnect E w) = follows lossy causes w0 w"
  "follows lossy causes w0 (report_connected E w) = follows lossy causes w0 w"
  by (simp_all add: report_defs)

lemma follows_parts [follow_rules]:
  assumes "follows lossy causes w0 w"
  shows "follows lossy causes w0 (clear_ap_bssid w)" "follows lossy causes w0 (clear_ap_ssid w)"
    "follows lossy causes w0 (upd_scan p (clear_flag SF_GOOD) w)" "follows lossy causes w0 (reset_scan_state w)"
    "follows lossy causes w0 (drop_stale_scan_slots w)" "follows lossy causes w0 (mark_stale_scan_slots m msg w)"
    "ap_ok a \<Longrightarrow> follows lossy causes w0 (w\<lparr>w_ap := a\<rparr>)"
  using assms by (auto simp: follows_def intro: wf_rules wf_clear_good wf_ap)

lemma follow_start_connection [follow_rules]:
  assumes "follows lossy causes w0 w" "accepts lossy E"
  shows "yields (\<lambda>x. follows lossy causes w0 (snd x)) (start_connection E w)"
proof (cases "w_authstate w = AS_IDLE \<and> w_scanstate w = SS_IDLE")
  case True
  have raw: "yields (\<lambda>v. follows lossy causes w0 v \<and> w_authstate v = AS_IDLE) (reopen_rawsock E w)"
    using assms(1) True by (auto simp: reopen_rawsock_def open_rawsock_def)
  have auth: "yields (follows lossy causes w0) (trigger_authentication E v)"
    if v: "follows lossy causes w0 v \<and> w_authstate v = AS_IDLE" for v
  proof -
    have "asking NL80211_CMD_AUTHENTICATE (nl_put_u32 (put_ap v (new_cmd NL80211_CMD_AUTHENTICATE v)) NL80211_ATTR_AUTH_TYPE 0)"
      using v by (intro follow_rules) (auto dest: follows_ok)
    from follow_send_set_authstate [OF conjunct1 [OF v] this assms(2), of AS_AUTHENTICATING] v show ?thesis
      by (auto simp: trigger_authentication_def Let_def intro!: cstep_from [of v AS_IDLE] cstep.authenticate)
  qed
  show ?thesis
    using True by (auto simp: start_connection_def intro!: ends_chain [OF raw] ends_chain [OF auth])
qed (use assms(1) in \<open>auto simp: start_connection_def\<close>)

lemma follow_start_disconnect [follow_rules]:
  assumes "follows lossy causes w0 w" "accepts lossy E"
  shows "yields (\<lambda>x. follows lossy causes w0 (snd x)) (start_disconnect E w)"
proof -
  have "yields (follows lossy causes w0) (trigger_disconnect E w)" if "w_authstate w \<notin> {AS_IDLE, AS_NETDOWN, AS_DISCONNECTING}"
    unfolding trigger_disconnect_def
    using that by (intro follow_send_set_authstate [OF assms(1) asking_new_cmd [OF follows_ok [OF assms(1)]] assms(2)]
        cstep_from [OF refl] cstep.disconnect)
  then show ?thesis
    using assms(1) by (auto simp: start_disconnect_def intro!: ends_chain split: authstate.splits)
qed

text \<open>What a disconnection leaves when there was a connection to end.\<close>

lemma start_disconnect_asks:
  assumes "wst_ok w" "accepts lossy E" "w_authstate w \<notin> {AS_IDLE, AS_NETDOWN, AS_DISCONNECTING}"
  shows "yields (\<lambda>(r, v). r = 0 \<and> w_authstate v = AS_DISCONNECTING \<and> asks lossy NL80211_CMD_DISCONNECT (snd (view w)) (snd (view v)))
    (start_disconnect E w)"
proof -
  have "yields (\<lambda>v. w_authstate v = AS_DISCONNECTING \<and> asks lossy NL80211_CMD_DISCONNECT (snd (view w)) (snd (view v)))
      (trigger_disconnect E w)"
    unfolding trigger_disconnect_def send_set_authstate_def
    by (rule ends_chain [OF send_check_asks [OF assms(1) asking_new_cmd [OF assms(1)] assms(2)]]) simp
  then have "yields (\<lambda>(r, v). r = 0 \<and> w_authstate v = AS_DISCONNECTING \<and>
      asks lossy NL80211_CMD_DISCONNECT (snd (view w)) (snd (view v))) (chain (trigger_disconnect E w) (\<lambda>w. Go (0, w)))"
    by (rule ends_chain) simp
  then show ?thesis using assms(3) by (cases "w_authstate w") (simp_all add: start_disconnect_def)
qed

lemma follow_uploads [follow_rules]:
  assumes "follows lossy causes w0 w" "accepts lossy E" "Packet \<in> causes"
  shows "yields (follows lossy causes w0) (upload_ptk E w)" "yields (follows lossy causes w0) (upload_gtk E w)"
  unfolding upload_ptk_def upload_gtk_def Let_def
  using follows_ok [OF assms(1)] assms(3)
  by (auto intro!: follow_send_check [OF assms(1) _ assms(2), of NL80211_CMD_NEW_KEY] follow_rules cstep_from [OF refl] cstep.key)

lemma follow_association:
  assumes "follows lossy causes w0 w" "accepts lossy E" "Kernel \<in> causes" "w_authstate w = AS_AUTHENTICATING"
  shows "yields (follows lossy causes w0) (trigger_association E w)"
  unfolding trigger_association_def Let_def
  using follows_ok [OF assms(1)] assms(3,4)
  by (auto intro!: follow_send_set_authstate [OF assms(1) _ assms(2), of NL80211_CMD_ASSOCIATE] follow_rules
      cstep_from [of w AS_AUTHENTICATING] cstep.associate)

section \<open>Selection\<close>

lemma view_load_psk: "view w = x \<Longrightarrow> yields (\<lambda>y. view (snd y) = x) (load_psk_w E s n w)"
  by (auto simp: load_psk_w_def split: option.splits)

lemma follow_set_current_ap:
  assumes "follows lossy causes w0 w" "get_best_ap w = Some p"
  shows "yields (\<lambda>x. follows lossy causes w0 (snd x)) (set_current_ap E p w)"
proof (rule follows_frame [OF assms(1) wf_set_current_ap [OF follows_ok [OF assms(1)] assms(2)]])
  show "yields (\<lambda>x. view (snd x) = view w) (set_current_ap E p w)"
    by (auto simp: set_current_ap_def Let_def case_prod_beta
        intro!: ends_chain [where P' = "\<lambda>x. view (snd x) = view w"] view_load_psk)
qed

lemma follow_connect_to_something [follow_rules]:
  "follows lossy causes w0 w \<Longrightarrow> accepts lossy E \<Longrightarrow> yields (\<lambda>x. follows lossy causes w0 (snd x)) (connect_to_something E w)"
  by (rule connect_to_something_inv) (auto intro: follow_rules follow_set_current_ap)

lemma follow_reassess [follow_rules]:
  "follows lossy causes w0 w \<Longrightarrow> accepts lossy E \<Longrightarrow> yields (follows lossy causes w0) (reassess_wifi_situation E w)"
  by (auto simp: reassess_wifi_situation_def snap_to_neutral_def idle_then_rescan_def Let_def
      case_prod_beta intro!: ends_chain [where P' = "\<lambda>x. follows lossy causes w0 (snd x)"] follow_rules)

lemma follow_rescan [follow_rules]:
  "follows lossy causes w0 w \<Longrightarrow> accepts lossy E \<Longrightarrow> follows lossy causes w0 (rescan_current_ap E w)"
  by (auto simp: rescan_current_ap_def Let_def intro!: follow_rules wf_ap_flags dest: follows_ok)

lemma follow_reconnect [follow_rules]:
  "follows lossy causes w0 w \<Longrightarrow> accepts lossy E \<Longrightarrow> yields (follows lossy causes w0) (reconnect_to_current_ap E w)"
  by (auto simp: reconnect_to_current_ap_def Let_def case_prod_beta
      intro!: ends_chain [where P' = "\<lambda>x. follows lossy causes w0 (snd x)"] follow_rules)

lemma follow_try_other [follow_rules]:
  "follows lossy causes w0 w \<Longrightarrow> accepts lossy E \<Longrightarrow> yields (follows lossy causes w0) (try_some_other_ap E w)"
  by (auto simp: try_some_other_ap_def Let_def intro!: follow_rules)

lemma follow_handle_disconnect [follow_rules]:
  "follows lossy causes w0 w \<Longrightarrow> accepts lossy E \<Longrightarrow> yields (follows lossy causes w0) (handle_disconnect E w)"
  by (auto simp: handle_disconnect_def Let_def intro!: follow_rules)

lemma follow_handle_rfrestored [follow_rules]:
  assumes "follows lossy causes w0 w" "accepts lossy E"
  shows "yields (follows lossy causes w0) (handle_rfrestored E w)"
proof -
  have "follows lossy causes w0 (w\<lparr>w_authstate := AS_IDLE\<rparr>)" if "w_authstate w = AS_NETDOWN"
    using that follows_ok [OF assms(1)] by (intro follows_step [OF assms(1)]) (auto intro: cstep_from cstep.restored)
  then show ?thesis using assms by (auto simp: handle_rfrestored_def Let_def intro!: follow_rules)
qed

lemma follow_abort [follow_rules]:
  "follows lossy causes w0 w \<Longrightarrow> accepts lossy E \<Longrightarrow> yields (follows lossy causes w0) (abort_connection E w)"
  by (auto simp: abort_connection_def case_prod_beta
      intro!: ends_chain [where P' = "\<lambda>x. follows lossy causes w0 (snd x)"] follow_rules)

lemma view_save_psk: "view w = x \<Longrightarrow> yields (\<lambda>v. view v = x) (save_psk_w E w)"
  by (auto simp: save_psk_w_def split: option.splits)

lemma view_trigger_dhcp: "view w = x \<Longrightarrow> yields (\<lambda>v. view v = x) (trigger_dhcp E w)"
  by (auto simp: trigger_dhcp_def Let_def)

lemma follow_handle_connect [follow_rules]:
  assumes "follows lossy causes w0 w"
  shows "yields (follows lossy causes w0) (handle_connect E w)"
proof (rule follows_frame [where g = "\<lambda>v. v", OF assms wf_handle_connect [OF follows_ok [OF assms]]])
  show "yields (\<lambda>v. view v = view w) (handle_connect E w)"
    by (auto simp: handle_connect_def Let_def intro!: ends_chain [where P' = "\<lambda>v. view v = view w"] view_save_psk view_trigger_dhcp
        split: option.splits)
qed

lemma follow_check_results [follow_rules]:
  assumes "follows lossy causes w0 w"
  shows "yields (follows lossy causes w0) (check_new_scan_results E w)"
  by (rule follows_frame [where g = "\<lambda>v. v", OF assms wf_check_results [OF follows_ok [OF assms]]])
    (auto simp: check_new_scan_results_def case_prod_beta split: option.splits)

lemma view_start_scan_ap: "view (snd (start_scan E f (v\<lparr>w_ap := a\<rparr>))) = view (snd (start_scan E f v))"
  by (simp add: start_scan_ap)

lemma follow_routine_scans [follow_rules]:
  assumes "follows lossy causes w0 w" "accepts lossy E"
  shows "follows lossy causes w0 (routine_bg_scan E w)" "follows lossy causes w0 (routine_fg_scan E w)"
proof -
  have go: "csteps lossy causes (view w0) (view (snd (start_scan E f (set_timer n w))))" for f n
    using follow_start_scan [of lossy causes w0 "set_timer n w" E f] assms by (simp add: follows_def)
  have bg: "csteps lossy causes (view w0) (view (snd (start_scan E f w)))" for f
    using follow_start_scan [OF assms] by (simp add: follows_def)
  note ok = wf_routine_scans [OF follows_ok [OF assms(1)], of E]
  show "follows lossy causes w0 (routine_bg_scan E w)" "follows lossy causes w0 (routine_fg_scan E w)"
    using ok go bg by (auto simp: follows_def routine_bg_scan_def routine_fg_scan_def start_void_scan_def
        start_full_scan_def Let_def view_start_scan_ap)
qed

section \<open>The handshake\<close>

lemma view_packet [simp]:
  "view (put_ek off bs w) = view w" "view (zero_ek off n w) = view w" "view (put_header ki kl nonce w) = view w"
  "view (sign_packet n w) = view w" "view (cleanup_keys w) = view w" "view (reset_eapol_state w) = view w"
  "view (prime_eapol_state w) = view w" "view (pmk_to_ptk E w) = view w" "view (snd (mic_fails w)) = view w"
  by (simp_all add: put_header_def put_ek_def zero_ek_def sign_packet_def reset_eapol_state_def
      cleanup_keys_def prime_eapol_state_def pmk_to_ptk_def mic_fails_def case_prod_beta Let_def)

lemma view_fetch_gtk: "view (snd (fetch_gtk_loop pkt ptr e w)) = view w"
proof (induction pkt ptr e w rule: fetch_gtk_loop.induct)
  case (1 pkt ptr e w)
  have store: "view (snd (store_gtk i pkt b n w)) = view w" for i b n
    by (simp add: store_gtk_def Let_def)
  show ?case
    using 1 [OF _ refl refl refl] by (auto simp: fetch_gtk_loop.simps [of pkt ptr e w] Let_def store)
qed

lemma view_take_keys [simp]: "view (snd (take_keys w)) = view w"
  by (simp add: take_keys_def fetch_gtk_def view_fetch_gtk case_prod_beta Let_def)

lemma follows_raw [simp]: "follows lossy causes w0 (emit (Raw_sent a p) w) = follows lossy causes w0 w"
  by (simp add: follows_def)

lemma follow_send_packet [follow_rules]:
  "follows lossy causes w0 w \<Longrightarrow> accepts lossy E \<Longrightarrow> yields (\<lambda>x. follows lossy causes w0 (snd x)) (send_packet E n w)"
  by (auto simp: send_packet_def Let_def intro!: ends_chain [where P' = "follows lossy causes w0"] follow_rules)

lemma follow_send_packet_2 [follow_rules]:
  assumes "follows lossy causes w0 w" "accepts lossy E"
  shows "yields (follows lossy causes w0) (send_packet_2 E w)"
proof -
  have w: "wst_ok w" using assms(1) by (rule follows_ok)
  then have ies: "length (ap_ies (w_ap w)) \<le> 22" by (simp add: wst_ok_def ap_ok_def)
  show ?thesis using w ies assms(2)
    by (auto simp: send_packet_2_def Let_def case_prod_beta replay_length
        intro!: ends_chain [where P' = "\<lambda>x. follows lossy causes w0 (snd x)"] follow_send_packet follows_same [OF assms(1)]
          wf_rules wf_put_ek)
qed

lemma follow_send_packet_4 [follow_rules]:
  assumes "follows lossy causes w0 w" "accepts lossy E" "Packet \<in> causes"
  shows "yields (follows lossy causes w0) (send_packet_4 E w)"
proof -
  have w: "wst_ok w" using assms(1) by (rule follows_ok)
  have clean: "follows lossy causes w0 (cleanup_keys v)" if "follows lossy causes w0 v" for v
    using follows_same [OF that] wf_cleanup [OF follows_ok [OF that]] by simp
  have "follows lossy causes w0 (sign_packet n (put_ek EK_PACLEN (be16 a) (put_ek EK_PAYLEN (be16 b) (put_header ki kl (replicate 32 0) w))))"
    for n a b ki kl
    using w by (intro follows_same [OF assms(1)]) (auto intro!: wf_rules wf_put_ek)
  then show ?thesis using assms(2,3)
    by (auto simp: send_packet_4_def Let_def case_prod_beta
        intro!: ends_chain [where P' = "\<lambda>x. follows lossy causes w0 (snd x)"] ends_chain [where P' = "follows lossy causes w0"]
          follow_send_packet follow_uploads follow_handle_connect clean)
qed

lemma follow_send_group_2 [follow_rules]:
  assumes "follows lossy causes w0 w" "accepts lossy E" "Packet \<in> causes"
  shows "yields (follows lossy causes w0) (send_group_2 E w)"
  using follows_ok [OF assms(1)] assms(2,3)
  by (auto simp: send_group_2_def Let_def case_prod_beta
      intro!: ends_chain [where P' = "\<lambda>x. follows lossy causes w0 (snd x)"] follow_send_packet follow_uploads
        follows_same [OF assms(1)] wf_rules wf_put_ek)

lemma follow_recv_packets:
  assumes "follows lossy causes w0 w" "accepts lossy E" "Packet \<in> causes" "packet_fits w"
  shows "yields (follows lossy causes w0) (recv_packet_3 E w)" "yields (follows lossy causes w0) (recv_group_1 E w)"
proof -
  define m where "m = snd (mic_fails w)"
  define k where "k = snd (take_keys m)"
  have w: "wst_ok w" using assms(1) by (rule follows_ok)
  then have "wst_ok m" "wst_ok k" using assms(4) by (simp_all add: m_def k_def wf_mic_fails wf_take_keys mic_fails_fits)
  then have ok: "follows lossy causes w0 w" "follows lossy causes w0 m" "follows lossy causes w0 k"
    using assms(1) by (auto intro!: follows_same [OF assms(1)] simp: m_def k_def)
  have act: "yields (follows lossy causes w0) (abort_connection E v)" "yields (follows lossy causes w0) (send_packet_4 E v)"
    "yields (follows lossy causes w0) (send_group_2 E v)" if "follows lossy causes w0 v" for v
    using that assms(2,3) by (auto intro: follow_rules)
  show "yields (follows lossy causes w0) (recv_packet_3 E w)"
    unfolding recv_packet_3_def Let_def case_prod_beta m_def [symmetric] k_def [symmetric]
    using ok act by simp
  show "yields (follows lossy causes w0) (recv_group_1 E w)"
    unfolding recv_group_1_def Let_def case_prod_beta m_def [symmetric] k_def [symmetric]
    using ok act by simp
qed

lemma follow_recv_packet_1 [follow_rules]:
  assumes "follows lossy causes w0 w" "accepts lossy E"
  shows "yields (follows lossy causes w0) (recv_packet_1 E w)"
proof -
  have w: "wst_ok w" using assms(1) by (rule follows_ok)
  let ?p = "w_packet w"
  let ?w = "w\<lparr>w_version := ek_byte EK_VERSION ?p, w_anonce := slice EK_NONCE 32 ?p, w_replay := slice EK_REPLAY 8 ?p\<rparr>"
  have "wst_ok (w\<lparr>w_anonce := slice EK_NONCE 32 ?p, w_replay := slice EK_REPLAY 8 ?p\<rparr>)"
    using packet_length [OF w] keys_okD [OF w] by (simp add: keys_ok_def wf_keys [OF w])
  then have "wst_ok ?w" by (simp add: wst_ok_def keys_ok_def scan_state_ok_def)
  from wf_fill_rand [OF this, of E] have rand: "yields (follows lossy causes w0) (fill_rand E ?w)"
    using assms(1) by (auto simp: fill_rand_def follows_def split: option.splits)
  have "yields (follows lossy causes w0) (let w = pmk_to_ptk E v in
      if w_eapolsends w then send_packet_2 E w else Go (w\<lparr>w_eapolstate := ES_WAITING_2_4\<rparr>))" if "follows lossy causes w0 v" for v
  proof -
    have "follows lossy causes w0 (pmk_to_ptk E v)"
      using follows_same [OF that] wf_pmk_to_ptk [OF follows_ok [OF that]] by simp
    then show ?thesis using follow_send_packet_2 [OF _ assms(2)] by (simp add: Let_def)
  qed
  with rand follow_abort [OF assms] assms(1) show ?thesis
    unfolding recv_packet_1_def Let_def by (auto intro: ends_chain)
qed

lemma follow_handle_rawsock [follow_rules]:
  assumes "follows lossy causes w0 w" "accepts lossy E" "Packet \<in> causes"
  shows "yields (follows lossy causes w0) (handle_rawsock E recv w)"
proof (cases recv)
  case (Some sd)
  have w: "wst_ok w" using assms(1) by (rule follows_ok)
  define got where "got = take 1024 (snd sd)"
  define v where "v = w\<lparr>w_packet := memcpy_at (w_packet w) 0 got\<rparr>"
  have got: "length got \<le> 1024" by (simp add: got_def)
  have "wst_ok v" using w packet_length [OF w] got by (simp add: v_def wf_packet length_memcpy_at)
  then have ok: "follows lossy causes w0 v" by (intro follows_same [OF assms(1)]) (simp_all add: v_def)
  have "yields (follows lossy causes w0) (dispatch_eapol E v)" if "packet_fits v"
    using ok follow_recv_packets [OF ok assms(2,3) that] follow_recv_packet_1 [OF ok assms(2)]
    by (cases "w_eapolstate v") (simp_all add: dispatch_eapol_def)
  moreover have "packet_fits v" if "\<not> EK_SIZE + unat (ek_short EK_PAYLEN (w_packet v)) > length got"
    using that got by (simp add: packet_fits_def)
  ultimately show ?thesis
    unfolding handle_rawsock_def Some case_prod_beta Let_def option.case got_def [symmetric] v_def [symmetric]
    using ok by simp
qed (simp add: handle_rawsock_def assms(1))

section \<open>Netlink events\<close>

lemma abort_asks:
  assumes "wst_ok w" "accepts lossy E" "w_authstate w \<notin> {AS_IDLE, AS_NETDOWN, AS_DISCONNECTING}"
  shows "yields (\<lambda>v. asks lossy NL80211_CMD_DISCONNECT (snd (view w)) (snd (view v))) (abort_connection E w)"
  unfolding abort_connection_def by (rule ends_chain [OF start_disconnect_asks [OF assms]]) auto

text \<open>While associating, the second packet of the handshake is sent, or the connection is given up.\<close>

lemma allow_sends_asks:
  assumes "wst_ok w" "accepts lossy E" "w_authstate w = AS_ASSOCIATING"
  shows "yields (\<lambda>v. snd (view v) = snd (view w) \<or> asks lossy NL80211_CMD_DISCONNECT (snd (view w)) (snd (view v)))
    (allow_eapol_sends E w)"
proof -
  have send: "yields (\<lambda>x. snd (view (snd x)) = snd (view w) \<or> asks lossy NL80211_CMD_DISCONNECT (snd (view w)) (snd (view (snd x))))
      (send_packet E n v)" if v: "wst_ok v" "view v = view w" for v n
  proof -
    have "w_authstate v = AS_ASSOCIATING" using v(2) assms(3) by (simp add: view_def)
    then have "yields (\<lambda>u. asks lossy NL80211_CMD_DISCONNECT (snd (view w)) (snd (view u))) (abort_connection E u)"
      if "wst_ok u" "view u = view v" for u
      using abort_asks [OF that(1) assms(2)] that(2) v(2) by (simp add: view_def)
    then show ?thesis
      using v by (auto simp: send_packet_def Let_def
          intro!: ends_chain [where P' = "\<lambda>u. asks lossy NL80211_CMD_DISCONNECT (snd (view w)) (snd (view u))"])
  qed
  have ies: "length (ap_ies (w_ap w)) \<le> 22" using assms(1) by (simp add: wst_ok_def ap_ok_def)
  show ?thesis
    using assms(1) ies
    by (auto simp: allow_eapol_sends_def send_packet_2_def Let_def case_prod_beta replay_length
        intro!: ends_chain [OF send] wf_rules wf_put_ek)
qed

lemma opermode_conns: "w_opermode (send_to_conns E buf cns w) = w_opermode w"
  by (induction E buf cns w rule: send_to_conns.induct) (auto simp: emit_def)

lemma opermode_small:
  "w_opermode (kill_dhcp w) = w_opermode w" "w_opermode (clr_timer w) = w_opermode w"
  "w_opermode (report_disconnect E w) = w_opermode w"
  by (simp_all add: kill_dhcp_def emit_def clr_timer_def report_disconnect_def report_station_def send_report_def
      opermode_conns Let_def)

lemma snap_view: "yields (\<lambda>v. view v = (AS_EXTERNAL, snd (view w))) (snap_to_disabled E w)"
proof -
  have "view (reset_eapol_state (w\<lparr>w_opermode := OP_NEUTRAL, w_authstate := AS_EXTERNAL\<rparr>)) = (AS_EXTERNAL, snd (view w))"
    "w_opermode (reset_eapol_state (w\<lparr>w_opermode := OP_NEUTRAL, w_authstate := AS_EXTERNAL\<rparr>)) = OP_NEUTRAL"
    by (simp_all add: reset_eapol_state_def cleanup_keys_def)
  then show ?thesis
    by (simp add: snap_to_disabled_def handle_disconnect_def opermode_small Let_def)
qed

text \<open>A message of the kernel moves the state of the connection.\<close>

lemma follows_told:
  assumes "follows lossy causes w0 w" "wst_ok v" "view v = (s, snd (view w))" "cstep lossy causes (w_authstate w, snd (view w)) (s, snd (view w))"
  shows "follows lossy causes w0 v"
  using follows_step [OF assms(1,2)] assms(3,4) by (simp add: view_pair [of w, symmetric])

lemma follow_snap:
  assumes "follows lossy causes w0 w" "Kernel \<in> causes" "w_authstate w \<noteq> AS_EXTERNAL"
  shows "yields (follows lossy causes w0) (snap_to_disabled E w)"
  using wf_snap [OF follows_ok [OF assms(1)], of E] snap_view [of w E] assms(2,3)
  by (cases "snap_to_disabled E w") (auto intro: follows_told [OF assms(1)] cstep.external)

lemma follow_cmd_authenticate:
  assumes "follows lossy causes w0 w" "accepts lossy E" "Kernel \<in> causes"
  shows "yields (follows lossy causes w0) (cmd_authenticate E w)"
proof -
  have "follows lossy causes w0 (prime_eapol_state w)" using assms(1) by (simp add: follows_def)
  moreover have "w_authstate (prime_eapol_state w) = w_authstate w" by (simp add: prime_eapol_state_def)
  ultimately show ?thesis
    using assms by (auto simp: cmd_authenticate_def intro: follow_snap follow_association)
qed

lemma follow_cmd_associate:
  assumes "follows lossy causes w0 w" "accepts lossy E" "Kernel \<in> causes"
  shows "yields (follows lossy causes w0) (cmd_associate E w)"
proof (cases "w_authstate w = AS_ASSOCIATING")
  case True
  note w = follows_ok [OF assms(1)]
  have "yields (follows lossy causes w0) (chain (allow_eapol_sends E w) (\<lambda>w. Go (w\<lparr>w_authstate := AS_CONNECTING\<rparr>)))"
  proof (cases "allow_eapol_sends E w")
    case (Go v)
    have v: "wst_ok v" "snd (view v) = snd (view w) \<or> asks lossy NL80211_CMD_DISCONNECT (snd (view w)) (snd (view v))"
      using wf_allow_sends [OF w, of E] allow_sends_asks [OF w assms(2) True] Go by simp_all
    have "cstep lossy causes (view w) (view (v\<lparr>w_authstate := AS_CONNECTING\<rparr>))"
      using v(2)
    proof
      assume "snd (view v) = snd (view w)"
      then show ?thesis using assms(3) by (auto intro: cstep_from [OF True] cstep.associated)
    next
      assume "asks lossy NL80211_CMD_DISCONNECT (snd (view w)) (snd (view v))"
      then show ?thesis using assms(3) by (auto intro: cstep_from [OF True] cstep.overruled)
    qed
    with v(1) show ?thesis using follows_step [OF assms(1), of "v\<lparr>w_authstate := AS_CONNECTING\<rparr>"] Go by simp
  qed simp_all
  then show ?thesis using True by (simp add: cmd_associate_def)
qed (use assms in \<open>auto simp: cmd_associate_def intro: follow_snap\<close>)

lemma follow_cmd_connect_event:
  assumes "follows lossy causes w0 w" "Kernel \<in> causes"
  shows "yields (follows lossy causes w0) (cmd_connect_event E w)"
proof (cases "w_authstate w = AS_EXTERNAL")
  case False
  then have step: "cstep lossy causes (w_authstate w, snd (view w)) (AS_CONNECTED, snd (view w))"
    using assms(2) by (intro cstep.connected)
  note w = follows_ok [OF assms(1)]
  have "yields (follows lossy causes w0) (chain (snap_to_disabled E w) (\<lambda>w. Go (w\<lparr>w_authstate := AS_CONNECTED\<rparr>)))"
    using wf_snap [OF w, of E] snap_view [of w E]
    by (cases "snap_to_disabled E w") (auto intro!: follows_told [OF assms(1) _ _ step])
  moreover have "follows lossy causes w0 (w\<lparr>w_authstate := AS_CONNECTED\<rparr>)"
    using w by (intro follows_told [OF assms(1) _ _ step]) simp_all
  ultimately show ?thesis using False by (simp add: cmd_connect_event_def)
qed (use assms in \<open>simp add: cmd_connect_event_def\<close>)

lemma follows_idle:
  assumes "follows lossy causes w0 w" "Kernel \<in> causes"
  shows "follows lossy causes w0 (w\<lparr>w_authstate := AS_IDLE\<rparr>)"
  using follows_ok [OF assms(1)] assms(2) by (intro follows_told [OF assms(1)]) (auto intro: cstep.ended)

lemma follow_cmd_disconnect:
  assumes "follows lossy causes w0 w" "accepts lossy E" "Kernel \<in> causes"
  shows "yields (follows lossy causes w0) (cmd_disconnect E w)"
proof -
  have "follows lossy causes w0 (reset_eapol_state w)"
    using follows_same [OF assms(1)] wf_cleanup [OF follows_ok [OF assms(1)]] by simp
  from follows_idle [OF this assms(3)] show ?thesis
    using assms(1,2) by (auto simp: cmd_disconnect_def intro: follow_rules)
qed

lemma follow_genl_error:
  assumes "follows lossy causes w0 w" "accepts lossy E" "Kernel \<in> causes"
  shows "yields (follows lossy causes w0) (genl_error E m msg w)"
proof -
  have down: "follows lossy causes w0 (v\<lparr>w_authstate := AS_NETDOWN\<rparr>)" if "follows lossy causes w0 v" for v
    using follows_ok [OF that] assms(3) by (intro follows_told [OF that]) (auto intro: cstep.down)
  show ?thesis
    using assms
    by (auto simp: genl_error_def snap_to_netdown_def handle_scan_error_def handle_auth_error_def Let_def
        intro!: follow_rules down follows_idle)
qed

lemma follow_genl_done:
  assumes "follows lossy causes w0 w" "accepts lossy E"
  shows "yields (follows lossy causes w0) (genl_done E w)"
  using assms by (auto simp: genl_done_def Let_def intro!: ends_chain [where P' = "follows lossy causes w0"] follow_rules)

lemma view_parse_scan: "yields (\<lambda>v. view v = view w) (parse_scan_result m msg w)"
  by (auto simp: parse_scan_result_def Let_def split: option.splits prod.splits)

lemma follow_dispatch_genl:
  assumes "follows lossy causes w0 w" "accepts lossy E" "Kernel \<in> causes" "nl_gen m msg = Some g" "msg + nlm_len m msg \<le> length m"
  shows "yields (follows lossy causes w0) (dispatch_genl E m msg w)"
proof -
  note w = follows_ok [OF assms(1)]
  have "yields (follows lossy causes w0) (parse_scan_result m msg w)"
    by (rule follows_frame [where g = "\<lambda>v. v", OF assms(1) wf_parse_scan_result [OF w assms(4,5)] view_parse_scan])
  then have "yields (follows lossy causes w0) (cmd_trigger_scan E m msg w)" "yields (follows lossy causes w0) (cmd_scan_results E m msg w)"
    "yields (follows lossy causes w0) (cmd_scan_aborted E w)"
    using assms(1,2) by (auto simp: cmd_trigger_scan_def cmd_scan_results_def cmd_scan_aborted_def intro!: follow_rules)
  then show ?thesis
    using follow_cmd_authenticate [OF assms(1-3)] follow_cmd_associate [OF assms(1-3)] follow_cmd_connect_event [OF assms(1,3)]
      follow_cmd_disconnect [OF assms(1-3)] assms(1)
    by (simp add: dispatch_genl_def Let_def)
qed

lemma follow_handle_msg:
  assumes "follows lossy causes w0 w" "accepts lossy E" "Kernel \<in> causes" "msg + nlm_len (nl_rxbuf (w_nl w)) msg \<le> length (nl_rxbuf (w_nl w))"
  shows "yields (follows lossy causes w0) (handle_msg E msg w)"
proof -
  have "g = msg" if "nl_gen (nl_rxbuf (w_nl w)) msg = Some g" for g
    using that by (auto simp: nl_gen_def split: if_splits)
  then show ?thesis
    using assms(1) follow_dispatch_genl [OF assms(1-3) _ assms(4)] follow_genl_error [OF assms(1-3)] follow_genl_done [OF assms(1,2)]
    by (auto simp: handle_msg_def Let_def split: option.splits)
qed

lemma follow_handle_msgs:
  "follows lossy causes w0 w \<Longrightarrow> accepts lossy E \<Longrightarrow> Kernel \<in> causes \<Longrightarrow> yields (follows lossy causes w0) (handle_msgs E w)"
proof (induction E w rule: handle_msgs.induct)
  case (1 E w)
  note step = handle_msgs.simps [of E w]
  note w = follows_ok [OF 1(2)]
  then have link: "link_ok (w_nl w)" by (simp add: wst_ok_def)
  obtain r nl where get: "nl_get_nowait (w_nl w) = (r, nl)" by (metis surj_pair)
  show ?case
  proof (cases r)
    case None
    then have "nl = w_nl w" using get by (auto simp: nl_get_nowait_def Let_def split: if_splits)
    then show ?thesis using 1(2) get None by (simp add: step)
  next
    case (Some msg)
    have nl: "link_ok nl" "msg + nlm_len (nl_rxbuf nl) msg \<le> length (nl_rxbuf nl)"
      using get Some link by (auto simp: nl_get_nowait_def nl_got_message_def link_ok_def Let_def split: if_splits)
    let ?r = "handle_msg E msg (w\<lparr>w_nl := nl\<rparr>)"
    have "follows lossy causes w0 (w\<lparr>w_nl := nl\<rparr>)" using nl(1) by (intro follows_same [OF 1(2)] wf_nl [OF w]) simp_all
    then have "yields (follows lossy causes w0) ?r" using nl 1(3,4) by (intro follow_handle_msg) simp_all
    then show ?thesis
      using 1(1) [OF get [symmetric] Some _ _ 1(3,4)] by (cases ?r) (simp_all add: step get Some)
  qed
qed

lemma link_ok_recv_nowait: "link_ok nl \<Longrightarrow> link_ok (snd (nl_recv_nowait ev nl))"
  by (auto simp: nl_recv_nowait_def nl_recv_chunk_def link_ok_def length_memcpy_at Let_def split: rx_event.splits)

lemma follow_handle_netlink [follow_rules]:
  assumes "follows lossy causes w0 w" "accepts lossy E" "Kernel \<in> causes"
  shows "yields (follows lossy causes w0) (handle_netlink E ev w)"
proof -
  note w = follows_ok [OF assms(1)]
  have "link_ok (w_nl w)" using w by (simp add: wst_ok_def)
  then have recv: "follows lossy causes w0 (w\<lparr>w_nl := snd (nl_recv_nowait ev (w_nl w))\<rparr>)"
    by (intro follows_same [OF assms(1)] wf_nl [OF w] link_ok_recv_nowait) simp_all
  have shift: "link_ok (nl_shift_rxbuf nl)" if "link_ok nl" for nl
    using that by (auto simp: nl_shift_rxbuf_def link_ok_def length_memmove_at Let_def)
  have "yields (follows lossy causes w0) (chain (handle_msgs E v) (\<lambda>w. Go (w\<lparr>w_nl := nl_shift_rxbuf (w_nl w)\<rparr>)))"
    if "follows lossy causes w0 v" for v
    using follow_handle_msgs [OF that assms(2,3)]
  proof (rule ends_chain)
    fix x assume x: "follows lossy causes w0 x"
    then have "wst_ok (x\<lparr>w_nl := nl_shift_rxbuf (w_nl x)\<rparr>)"
      using follows_ok [OF x] by (intro wf_nl shift) (simp_all add: wf_parts)
    then show "yields (follows lossy causes w0) (Go (x\<lparr>w_nl := nl_shift_rxbuf (w_nl x)\<rparr>) :: (wst, wst) outcome)"
      using follows_same [OF x] by simp
  qed
  with recv show ?thesis by (auto simp: handle_netlink_def case_prod_beta Let_def)
qed

end
