(* ===== verification/Program.thy ===== *)
theory Program imports Startup Invariant_Steps begin

text \<open>
  The program as a whole: the set-up functions establish the invariant of the state, and the main loop
  keeps it.
\<close>

section \<open>Blocking receive\<close>

lemma link_ok_recv_chunk: "link_ok nl \<Longrightarrow> link_ok (snd (nl_recv_chunk ev nl))"
  by (auto simp: nl_recv_chunk_def link_ok_def length_memcpy_at Let_def split: rx_event.splits)

lemma link_ok_shift_rxbuf: "link_ok nl \<Longrightarrow> link_ok (nl_shift_rxbuf nl)"
  by (auto simp: nl_shift_rxbuf_def link_ok_def length_memmove_at Let_def)

lemma link_ok_got_msg: "link_ok nl \<Longrightarrow> nl_got_message nl > 0 \<Longrightarrow> link_ok (got_msg (nl_got_message nl) nl)"
  by (auto simp: got_msg_def nl_got_message_def link_ok_def Let_def split: if_splits)

lemma link_ok_no_rx_space [simp]: "link_ok (snd (nl_no_rx_space nl)) = link_ok nl"
  by (simp add: nl_no_rx_space_def)

lemma link_ok_recv_loop: "nl_recv_loop evs nl = Some (b, evs', nl') \<Longrightarrow> link_ok nl \<Longrightarrow> link_ok nl'"
proof (induction evs nl rule: nl_recv_loop.induct)
  case (2 ev evs nl)
  obtain rd nl1 where 1: "nl_recv_chunk ev nl = (rd, nl1)" by (metis surj_pair)
  obtain full nl2 where 2: "nl_no_rx_space nl1 = (full, nl2)" by (metis surj_pair)
  have ok: "link_ok nl1" "link_ok nl2"
    using link_ok_recv_chunk [OF "2.prems"(2), of ev] link_ok_no_rx_space [of nl1] 1 2 by simp_all
  have ih: "nl_recv_loop evs nl2 = Some (b, evs', nl') \<Longrightarrow> link_ok nl'"
    if "rd > 0" "\<not> nl_got_message nl1 > 0" "\<not> full"
    using "2.IH" [OF 1 [symmetric] refl that(1) refl that(2) 2 [symmetric] refl that(3) _ ok(2)] .
  show ?case
    using "2.prems"(1) ih ok 1 2 link_ok_got_msg [of nl1]
    by (auto simp: Let_def split: if_splits)
qed simp

lemma link_ok_recv: "nl_recv evs nl = Some (b, evs', nl') \<Longrightarrow> link_ok nl \<Longrightarrow> link_ok nl'"
  using link_ok_got_msg [of nl] link_ok_recv_loop [of evs "nl_shift_rxbuf nl" b evs' nl']
    link_ok_recv_loop [of evs nl b evs' nl'] link_ok_shift_rxbuf [of nl]
  by (auto simp: nl_recv_def nl_no_rx_space_def Let_def split: if_splits)

lemma link_ok_recv_seq: "nl_recv_seq evs nl = Some (b, evs', nl') \<Longrightarrow> link_ok nl \<Longrightarrow> link_ok nl'"
proof (induction evs nl rule: nl_recv_seq.induct)
  case (1 evs nl)
  show ?case
  proof (cases "nl_recv evs nl")
    case None
    then show ?thesis using 1(2) by (simp add: nl_recv_seq.simps [of evs nl])
  next
    case (Some x)
    obtain c evs1 nl1 where x: "x = (c, evs1, nl1)" by (cases x)
    have ih: "nlm_seq (nl_rxbuf nl1) (nl_msgptr nl1) = 0 \<Longrightarrow> nl_recv_seq evs1 nl1 = Some (b, evs', nl') \<Longrightarrow>
        link_ok nl1 \<Longrightarrow> link_ok nl'" if "nl_recv evs nl = Some (True, evs1, nl1)"
      using 1(1) [OF that refl refl refl] .
    show ?thesis
      using 1(2,3) ih link_ok_recv [OF Some [unfolded x]] Some x
      by (cases c) (auto simp: nl_recv_seq.simps [of evs nl] split: if_splits)
  qed
qed

lemma link_ok_send_recv_genl:
  "nl_send_recv_genl ok evs nl = Some (m, gen, evs', nl') \<Longrightarrow> link_ok nl \<Longrightarrow> link_ok nl'"
  using link_ok_send [of nl ok] link_ok_recv_seq [of evs "snd (snd (nl_send ok nl))"]
  by (auto simp: nl_send_recv_genl_def case_prod_beta split: if_splits option.splits bool.splits)

lemma link_ok_query:
  assumes "query_family_grps ok evs name grps nl = Some (Go (m, fid, grps', nl'))" "link_ok nl"
  shows "link_ok nl'"
proof -
  let ?nl = "nl_put_str (nl_new_cmd nl GENL_ID_CTRL CTRL_CMD_GETFAMILY 1) CTRL_ATTR_FAMILY_NAME name"
  have "link_ok ?nl" using assms(2) by (simp add: nl_put_str_def link_ok_put link_ok_new_cmd)
  then show ?thesis
    using assms(1) link_ok_send_recv_genl [of "ok (nl_seq ?nl)" evs ?nl _ _ _ nl']
    by (auto simp: query_family_grps_def Let_def split: option.splits outcome.splits prod.splits)
qed

section \<open>Set-up\<close>

lemma wf_setup_netlink:
  assumes "setup_netlink E su static_state = Some r"
  shows "yields wst_ok r"
proof -
  let ?nl = "nl_set_rxbuf (nl_set_txbuf nl_init (replicate 512 0)) (replicate 8192 0)"
  have nl: "link_ok ?nl" by (simp add: link_ok_def nl_init_def nl_set_rxbuf_def nl_set_txbuf_def)
  have sub: "yields wst_ok (subscribe_groups su grps w)" if "wst_ok w" for grps w
    using that by (simp add: subscribe_groups_def wst_ok_def keys_ok_def scan_state_ok_def)
  have other: "wst_ok (w\<lparr>w_nl80211 := n\<rparr>) = wst_ok w" for w n
    by (simp add: wst_ok_def keys_ok_def scan_state_ok_def)
  let ?q = "query_family_grps (en_nl_ok E) (su_nl su) family_name group_names ?nl"
  show ?thesis
  proof (cases "?q")
    case (Some x)
    then show ?thesis
      using assms link_ok_query [OF _ nl] static_state_ok
      by (cases x) (auto simp: setup_netlink_def Let_def other intro!: sub split: if_splits)
  qed (use assms in \<open>auto simp: setup_netlink_def Let_def split: if_splits\<close>)
qed

lemma wf_setup_iface: "wst_ok w \<Longrightarrow> yields wst_ok (setup_iface E su name w)"
  by (auto simp: setup_iface_def open_rawsock_def Let_def wst_ok_def keys_ok_def scan_state_ok_def length_memcpy_at
      quit_def case_prod_beta split: option.splits)

lemma wf_setup_control: "wst_ok w \<Longrightarrow> yields wst_ok (setup_control E su w)"
  by (auto simp: setup_control_def wst_ok_def keys_ok_def scan_state_ok_def quit_def case_prod_beta Let_def)

lemma wf_start_up: "start_up E su name = Some r \<Longrightarrow> yields wst_ok r"
  using wf_setup_netlink [of E su] setup_signals_cases [of su static_state]
  by (auto simp: start_up_def
      intro!: ends_chain [where P' = wst_ok] wf_setup_iface wf_setup_control
        ends_mono [OF wf_main_start])

text \<open>
  C1. Whatever the kernel, the access points and the clients send and in whatever order, from the start
  of the process on: every state in which the daemon waits for the next event is well-formed. All
  buffers and keys have their sizes, all lengths are in bounds, the scan table lists no station twice,
  unused slots are zero and the scan request is empty while no scan is on. (A run that would need an
  operation C does not define is not continued.)
\<close>

theorem program_well_formed:
  assumes "wsupp E su name evs = Some r"
  shows "yields wst_ok r"
proof (cases "start_up E su name")
  case (Some q)
  then show ?thesis
    using assms wf_start_up [OF Some] wf_main_loop [of _ evs r]
    by (cases q) (auto simp: wsupp_def intro: ends_mono)
qed (use assms in \<open>simp add: wsupp_def\<close>)

text \<open>A run: the kernel names family 28 with the groups mlme (5) and scan (6), and the daemon starts.\<close>

definition family_reply :: bytes where
  "family_reply =
     le32 80 @ le16 0x10 @ le16 0 @ le32 1 @ le32 0 @ [1, 2, 0, 0]
     @ le16 6 @ le16 1 @ [28, 0, 0, 0]
     @ le16 52 @ le16 7
     @ le16 24 @ le16 1 @ le16 9 @ le16 1 @ [0x6D, 0x6C, 0x6D, 0x65, 0, 0, 0, 0] @ le16 8 @ le16 2 @ le32 5
     @ le16 24 @ le16 2 @ le16 9 @ le16 1 @ [0x73, 0x63, 0x61, 0x6E, 0, 0, 0, 0] @ le16 8 @ le16 2 @ le32 6"

lemma family_reply_bytes:
  "family_reply =
     [80, 0, 0, 0, 0x10, 0, 0, 0, 1, 0, 0, 0, 0, 0, 0, 0, 1, 2, 0, 0, 6, 0, 1, 0, 28, 0, 0, 0, 52, 0, 7, 0,
      24, 0, 1, 0, 9, 0, 1, 0, 0x6D, 0x6C, 0x6D, 0x65, 0, 0, 0, 0, 8, 0, 2, 0, 5, 0, 0, 0,
      24, 0, 2, 0, 9, 0, 1, 0, 0x73, 0x63, 0x61, 0x6E, 0, 0, 0, 0, 8, 0, 2, 0, 6, 0, 0, 0]"
  by code_simp

lemma group_names_bytes: "group_names = [(- 1, [0x6D, 0x6C, 0x6D, 0x65]), (- 1, [0x73, 0x63, 0x61, 0x6E])]"
  by code_simp

lemma family_reply_fields:
  assumes "m = family_reply @ zs"
  shows "nlm_len m 0 = 80" "nlm_seq m 0 = 1"
    "at_len m 20 = 6" "at_len m 28 = 52" "at_len m 32 = 24" "at_len m 36 = 9" "at_len m 48 = 8" "at_len m 56 = 24" "at_len m 60 = 9" "at_len m 72 = 8"
    "at_key m 20 = 1" "at_key m 28 = 7" "at_key m 36 = 1" "at_key m 48 = 2" "at_key m 60 = 1" "at_key m 72 = 2"
    "zero_index m 40 (Suc (Suc (Suc (Suc (Suc 0))))) = 44" "zero_index m 64 (Suc (Suc (Suc (Suc (Suc 0))))) = 68" "of_le16 (drop 24 m) = 28" "of_le32 (drop 52 m) = 5" "of_le32 (drop 76 m) = 6"
    "takeWhile (\<lambda>b. b \<noteq> 0) (drop 40 m) = [0x6D, 0x6C, 0x6D, 0x65]" "takeWhile (\<lambda>b. b \<noteq> 0) (drop 64 m) = [0x73, 0x63, 0x61, 0x6E]"
  unfolding assms family_reply_bytes append.simps
  by (simp_all add: nlm_len_def nlm_seq_def at_len_def at_key_def)

lemma five: "(5 :: nat) = Suc (Suc (Suc (Suc (Suc 0))))"
  by simp

lemma family_reply_nests:
  assumes "m = family_reply @ zs"
  shows "nl_gen m 0 = Some 0" "nl_check_nest m 32 48" "nl_check_nest m 36 20" "nl_check_nest m 60 20"
  using family_reply_fields [OF assms]
  by (simp_all add: nl_gen_def nl_check_nest_def nl_skip_nest.simps extend_to_4bytes_def)

lemma family_reply_strings:
  assumes "m = family_reply @ zs"
  shows "nl_check_zstr m 40 5" "nl_check_zstr m 64 5"
  using family_reply_fields(17,18) [OF assms] by (simp_all add: nl_check_zstr_def five Let_def)

lemma family_reply_groups:
  assumes "m = family_reply @ zs"
  shows "family_of_reply m 0 group_names = Go (28, [(5, [0x6D, 0x6C, 0x6D, 0x65]), (6, [0x73, 0x63, 0x61, 0x6E])])"
proof -
  note fields = family_reply_fields [OF assms] family_reply_nests [OF assms] family_reply_strings [OF assms]
  have find: "nl_get m 0 1 = Some 20" "nl_get m 0 7 = Some 28" "nl_sub m 32 1 = Some 36" "nl_sub m 32 2 = Some 48"
    "nl_sub m 56 1 = Some 60" "nl_sub m 56 2 = Some 72" "nl_sub_0 m 28 = Some 32" "nl_sub_n m 28 32 = Some 56" "nl_sub_n m 28 56 = None"
    using fields by (simp_all add: nl_get_def nl_sub_def nl_sub_0_def nl_sub_n_def nl_attr_k_in_def nl_attr_0_in_def
        nl_attr_find.simps nl_attr_n_in_def ptr_in_buf_def extend_to_4bytes_def Let_def)
  show ?thesis
    unfolding group_names_bytes
    using fields find by (simp add: family_of_reply_def nl_get_of_len_def nl_get_nest_def nl_nest_def
        mcast_groups.simps mcast_group_def nl_sub_str_def nl_str_at_def nl_sub_of_len_def nl_attr_is_nest_def Let_def)
qed

lemma fresh_request:
  "\<exists>m nl. nl_send True (nl_put_str (nl_new_cmd fresh_nl GENL_ID_CTRL CTRL_CMD_GETFAMILY 1) CTRL_ATTR_FAMILY_NAME family_name) = (0, Some m, nl) \<and>
     nl_seq nl = 1 \<and> nl_rxbuf nl = replicate 8192 0 \<and> nl_rxend nl = 0 \<and> nl_msgend nl = 0 \<and> nl_txend nl \<le> 512"
proof -
  let ?new = "nl_new_cmd fresh_nl GENL_ID_CTRL CTRL_CMD_GETFAMILY 1"
  have new: "nl_seq ?new = 1" "nl_txend ?new = 20" "\<not> nl_txover ?new" "length (nl_txbuf ?new) = 512"
    "nl_rxbuf ?new = replicate 8192 0" "nl_rxend ?new = 0" "nl_msgend ?new = 0"
    by (simp_all add: nl_new_cmd_def nl_start_packet_def nl_alloc_def nl_poke_def
        fresh_nl_def nl_init_def nl_set_rxbuf_def nl_set_txbuf_def length_memcpy_at Let_def)
  have "length family_name = 7" by (simp add: family_name_def)
  with new show ?thesis
    by (simp add: nl_send_eq nl_put_str_def nl_put_def nl_alloc_def nl_poke_def nl_tx_msg_def Let_def)
qed

lemma fresh_reply:
  assumes "nl_seq nl = 1" "nl_rxbuf nl = replicate 8192 0" "nl_rxend nl = 0" "nl_msgend nl = 0"
  shows "\<exists>nl' zs. nl_recv_seq [Rx_data family_reply] nl = Some (True, [], nl') \<and> nl_msgptr nl' = 0 \<and> nl_rxbuf nl' = family_reply @ zs"
proof -
  have len: "length family_reply = 80" "family_reply \<noteq> []" unfolding family_reply_bytes by simp_all
  note fields = family_reply_fields(1,2) [OF refl]
  have "nl_recv_seq [Rx_data family_reply] nl =
      Some (True, [], nl\<lparr>nl_rxbuf := family_reply @ replicate 8112 0, nl_rxend := 80, nl_err := 0, nl_msgptr := 0, nl_msgend := 80\<rparr>)"
    using assms len fields
    by (simp add: nl_recv_seq.simps [of "[Rx_data family_reply]" nl] nl_recv_def nl_no_rx_space_def nl_got_message_def nl_recv_chunk_def memcpy_at_def
        got_msg_def Let_def)
  then show ?thesis by simp
qed

definition calm_answers :: answers where
  "calm_answers = \<lparr>su_sigaction = (\<lambda>_ _. True), su_socket = 3, su_bind_ok = True, su_nl = [Rx_data family_reply],
     su_subscribe_ok = (\<lambda>_. True), su_ifindex = Some 2, su_hwaddr = Some (True, replicate 14 1),
     su_ctl_socket = 5, su_ctl_bind_ok = True, su_ctl_listen_ok = True\<rparr>"

lemma calm_query:
  "\<exists>m nl. query_family_grps (\<lambda>_. True) [Rx_data family_reply] family_name group_names fresh_nl =
     Some (Go (Some m, 28, [(5, [0x6D, 0x6C, 0x6D, 0x65]), (6, [0x73, 0x63, 0x61, 0x6E])], nl))"
proof -
  let ?nl = "nl_put_str (nl_new_cmd fresh_nl GENL_ID_CTRL CTRL_CMD_GETFAMILY 1) CTRL_ATTR_FAMILY_NAME family_name"
  obtain m nl where 1: "nl_send True ?nl = (0, Some m, nl)" "nl_seq nl = 1" "nl_rxbuf nl = replicate 8192 0"
    "nl_rxend nl = 0" "nl_msgend nl = 0" using fresh_request by blast
  obtain nl' zs where 2: "nl_recv_seq [Rx_data family_reply] nl = Some (True, [], nl')" "nl_msgptr nl' = 0"
    "nl_rxbuf nl' = family_reply @ zs" using fresh_reply [OF 1(2-5)] by blast
  have "nl_send_recv_genl True [Rx_data family_reply] ?nl = Some (Some m, Some 0, [], nl')"
    using 1(1) 2 family_reply_fields(1) [OF 2(3)] family_reply_nests(1) [OF 2(3)]
    by (simp add: nl_send_recv_genl_def)
  then show ?thesis
    using family_reply_groups [OF 2(3)] by (simp add: query_family_grps_def Let_def)
qed

lemma calm_start: "\<exists>w. start_up calm_env calm_answers [0x77] = Some (Go w)"
proof -
  obtain m nl where q: "query_family_grps (\<lambda>_. True) [Rx_data family_reply] family_name group_names fresh_nl =
     Some (Go (Some m, 28, [(5, [0x6D, 0x6C, 0x6D, 0x65]), (6, [0x73, 0x63, 0x61, 0x6E])], nl))"
    using calm_query by blast
  then obtain w where "setup_netlink calm_env calm_answers static_state = Some (Go w)"
    by (simp add: setup_netlink_def subscribe_groups_def calm_answers_def calm_env_def fresh_nl_def Let_def)
  then show ?thesis
    by (simp add: start_up_def setup_signals_def xsigaction_def setup_iface_def setup_control_def open_rawsock_def main_start_def load_state_def
        calm_answers_def calm_env_def Let_def)
qed

theorem program_well_formed_witness:
  "\<exists>w. wsupp calm_env calm_answers [0x77] [] = Some (Go w) \<and> wst_ok w"
proof -
  obtain w where "start_up calm_env calm_answers [0x77] = Some (Go w)" using calm_start by blast
  then have "wsupp calm_env calm_answers [0x77] [] = Some (Go w)" by (simp add: wsupp_def)
  with program_well_formed [of calm_env calm_answers "[0x77]" "[]"] show ?thesis by simp
qed

end
