(* ===== verification/Requests.thy ===== *)
theory Requests imports Invariant Netlink_Proofs begin

text \<open>
  The requests the daemon sends: each is one complete generic netlink message with exactly the
  attributes it should carry, and the transmit buffer of 512 bytes is always large enough.
\<close>

section \<open>Assembly\<close>

text \<open>A request under construction in the daemon's transmit buffer, with its sequence number.\<close>

definition req :: "u16 \<Rightarrow> byte \<Rightarrow> u32 \<Rightarrow> (u16 \<times> bytes) list \<Rightarrow> netlink \<Rightarrow> bool" where
  "req fam cmd seq its nl \<longleftrightarrow> nl_built nl fam cmd its \<and> length (nl_txbuf nl) = 512 \<and> nl_seq nl = seq"

lemma req_put:
  "req fam cmd seq its nl \<Longrightarrow> 24 + attrs_len its + align4 (length pl) \<le> 512 \<Longrightarrow>
   req fam cmd seq (its @ [(k, pl)]) (nl_put nl k pl)"
  using nl_put_built [of nl fam cmd its pl k] by (simp add: req_def)

lemma req_new_cmd:
  assumes "wst_ok w"
  shows "req (w_nl80211 w) cmd (nl_seq (w_nl w) + 1) [(NL80211_ATTR_IFINDEX, le32 (w_ifindex w))] (new_cmd cmd w)"
proof -
  have "length (nl_txbuf (w_nl w)) = 512" using assms by (simp add: wst_ok_def link_ok_def)
  then have "req (w_nl80211 w) cmd (nl_seq (w_nl w) + 1) [] (nl_new_cmd (w_nl w) (w_nl80211 w) cmd 0)"
    using nl_new_cmd_built [of "w_nl w" "w_nl80211 w" cmd] by (simp add: req_def)
  from req_put [OF this, of "le32 (w_ifindex w)" NL80211_ATTR_IFINDEX] show ?thesis
    by (simp add: new_cmd_def nl_put_u32_def align4_small align4_def)
qed

lemma req_nest:
  assumes "req fam cmd seq its nl" "28 + attrs_len its + length pl \<le> 512" "length pl mod 4 = 0"
  shows "req fam cmd seq (its @ [(k, le16 (word_of_nat (4 + length pl)) @ le16 k' @ pl)])
    (nl_end_nest (nl_put (snd (nl_put_nest nl k)) k' pl) (fst (nl_put_nest nl k)))"
  using nl_nest_built [of nl fam cmd its pl k "fst (nl_put_nest nl k)" "snd (nl_put_nest nl k)" _ k'] assms
  by (simp add: req_def)

text \<open>Sending it: the message is handed over when the kernel takes it, nothing when it does not.\<close>

lemma send_req:
  assumes "req fam cmd seq its (w_nl w)"
  obtains m where "genl_msg fam NLM_F_REQUEST seq cmd its m"
    "send_nl E w = (if en_nl_ok E seq then (0, emit (Nl_sent m) (w\<lparr>w_nl := (w_nl w)\<lparr>nl_err := 0\<rparr>\<rparr>))
                    else (1, w\<lparr>w_nl := (w_nl w)\<lparr>nl_err := - 1\<rparr>\<rparr>))"
proof -
  from assms have b: "nl_built (w_nl w) fam cmd its" "nl_seq (w_nl w) = seq" by (simp_all add: req_def)
  from nl_send_built [OF b(1), of "en_nl_ok E seq"] b(2) obtain m where
    "genl_msg fam NLM_F_REQUEST seq cmd its m"
    "nl_send (en_nl_ok E seq) (w_nl w) = (if en_nl_ok E seq then (0, Some m, (w_nl w)\<lparr>nl_err := 0\<rparr>)
       else (1, None, (w_nl w)\<lparr>nl_err := - 1\<rparr>))" by auto
  with b(2) that show thesis by (auto simp: send_nl_def emit_nl_def)
qed

text \<open>What a request does to the state: the last thing sent is \<open>m\<close>.\<close>

definition sends :: "wst \<Rightarrow> bytes \<Rightarrow> (wst, wst) outcome \<Rightarrow> bool" where
  "sends w m r \<longleftrightarrow> (\<exists>v. r = Go v \<and> w_out v = w_out w @ [Nl_sent m])"

lemma send_check_req:
  assumes "req fam cmd seq its nl" "en_nl_ok E seq"
  shows "\<exists>m. genl_msg fam NLM_F_REQUEST seq cmd its m \<and> sends w m (send_check E (w\<lparr>w_nl := nl\<rparr>)) \<and>
    sends w m (send_set_authstate E as (w\<lparr>w_nl := nl\<rparr>))"
proof -
  have "req fam cmd seq its (w_nl (w\<lparr>w_nl := nl\<rparr>))" using assms(1) by simp
  from send_req [OF this, of E] obtain m where m: "genl_msg fam NLM_F_REQUEST seq cmd its m"
    "send_nl E (w\<lparr>w_nl := nl\<rparr>) = (0, emit (Nl_sent m) (w\<lparr>w_nl := nl\<lparr>nl_err := 0\<rparr>\<rparr>))"
    using assms(2) by auto
  then show ?thesis
    by (auto simp: sends_def send_check_def send_set_authstate_def emit_def)
qed

section \<open>Connection\<close>

text \<open>The attributes that name the access point.\<close>

definition ap_attrs :: "wst \<Rightarrow> (u16 \<times> bytes) list" where
  "ap_attrs w =
     [(NL80211_ATTR_IFINDEX, le32 (w_ifindex w)), (NL80211_ATTR_MAC, ap_bssid (w_ap w)),
      (NL80211_ATTR_WIPHY_FREQ, le32 (int_of_short (ap_freq (w_ap w)))), (NL80211_ATTR_SSID, ap_name (w_ap w))]"

lemma align4_bound: "n \<le> 4 * k \<Longrightarrow> align4 n \<le> 4 * k"
  using align4_le_iff [of "4 * k" n] by simp

lemma req_put_ap:
  assumes "wst_ok w"
  shows "req (w_nl80211 w) cmd (nl_seq (w_nl w) + 1) (ap_attrs w) (put_ap w (new_cmd cmd w)) \<and> attrs_len (ap_attrs w) \<le> 64"
proof -
  have len: "length (ap_bssid (w_ap w)) = 6" "length (ap_name (w_ap w)) \<le> 32"
    using assms by (simp_all add: wst_ok_def ap_ok_def ap_name_def)
  have a: "align4 (length (ap_name (w_ap w))) \<le> 32" using align4_bound [of _ 8] len(2) by simp
  have n: "align4 4 = 4" "align4 6 = 8" by (simp_all add: align4_def)
  note 1 = req_new_cmd [OF assms, of cmd]
  note 2 = req_put [OF 1, of "ap_bssid (w_ap w)" NL80211_ATTR_MAC]
  note 3 = req_put [OF 2, of "le32 (int_of_short (ap_freq (w_ap w)))" NL80211_ATTR_WIPHY_FREQ]
  note 4 = req_put [OF 3, of "ap_name (w_ap w)" NL80211_ATTR_SSID]
  show ?thesis using 4 len a n
    by (simp add: put_ap_def Let_def nl_put_u32_def ap_attrs_def)
qed

text \<open>
  C21. AUTHENTICATE and ASSOCIATE are complete requests: they name the interface, the BSSID, frequency
  and SSID of the current station, then the open-system authentication type or the information
  elements chosen for it. The 512-byte buffer holds them for every SSID.
\<close>

theorem connection_requests:
  assumes "wst_ok w" and "en_nl_ok E (nl_seq (w_nl w) + 1)"
  shows "(\<exists>m. genl_msg (w_nl80211 w) NLM_F_REQUEST (nl_seq (w_nl w) + 1) NL80211_CMD_AUTHENTICATE
            (ap_attrs w @ [(NL80211_ATTR_AUTH_TYPE, le32 0)]) m \<and>
          sends w m (trigger_authentication E w)) \<and>
    (\<exists>m. genl_msg (w_nl80211 w) NLM_F_REQUEST (nl_seq (w_nl w) + 1) NL80211_CMD_ASSOCIATE
            (ap_attrs w @ [(NL80211_ATTR_IE, ap_ies (w_ap w))]) m \<and>
          sends w m (trigger_association E w))"
proof -
  have ies: "length (ap_ies (w_ap w)) \<le> 22" "take (ap_iesize (w_ap w)) (ap_ies (w_ap w)) = ap_ies (w_ap w)"
    using assms(1) by (simp_all add: wst_ok_def ap_ok_def)
  have a: "align4 (length (ap_ies (w_ap w))) \<le> 24" using align4_bound [of _ 6] ies(1) by simp
  note auth = req_put_ap [OF assms(1), of NL80211_CMD_AUTHENTICATE]
  note assoc = req_put_ap [OF assms(1), of NL80211_CMD_ASSOCIATE]
  show ?thesis
    using send_check_req [OF req_put [OF conjunct1 [OF auth], of "le32 0" NL80211_ATTR_AUTH_TYPE] assms(2), of w AS_AUTHENTICATING]
      send_check_req [OF req_put [OF conjunct1 [OF assoc], of "ap_ies (w_ap w)" NL80211_ATTR_IE] assms(2), of w AS_ASSOCIATING]
      conjunct2 [OF auth] a
    by (auto simp: trigger_authentication_def trigger_association_def Let_def nl_put_u32_def ies(2) align4_def)
qed

theorem connection_requests_witness:
  "\<exists>m. genl_msg 0 NLM_F_REQUEST 1 NL80211_CMD_AUTHENTICATE (ap_attrs ready_state @ [(NL80211_ATTR_AUTH_TYPE, le32 0)]) m \<and>
     sends ready_state m (trigger_authentication calm_env ready_state)"
  using conjunct1 [OF connection_requests [OF ready_state_ok, of calm_env]]
  by (simp add: calm_env_def ready_state_def static_state_def fresh_nl_def nl_init_def nl_set_rxbuf_def nl_set_txbuf_def)

text \<open>Whether the kernel takes a request or not, sending it has a defined outcome.\<close>

lemma send_goes:
  assumes "req fam cmd seq its nl"
  shows "\<exists>v. send_set_authstate E as (w\<lparr>w_nl := nl\<rparr>) = Go v"
proof -
  have "req fam cmd seq its (w_nl (w\<lparr>w_nl := nl\<rparr>))" using assms by simp
  then show ?thesis
    by (rule send_req [where E = E]) (cases "en_nl_ok E seq"; simp add: send_set_authstate_def send_check_def)
qed

lemma authentication_goes:
  assumes "wst_ok w"
  shows "\<exists>v. trigger_authentication E w = Go v"
proof -
  note auth = req_put_ap [OF assms, of NL80211_CMD_AUTHENTICATE]
  show ?thesis
    using send_goes [OF req_put [OF conjunct1 [OF auth], of "le32 0" NL80211_ATTR_AUTH_TYPE], of E AS_AUTHENTICATING w] conjunct2 [OF auth]
    by (simp add: trigger_authentication_def Let_def nl_put_u32_def align4_def)
qed

section \<open>Keys\<close>

definition default_types :: "u16 \<Rightarrow> u16 \<times> bytes" where
  "default_types type = (NL80211_ATTR_KEY_DEFAULT_TYPES, le16 4 @ le16 type)"

lemma req_put_key_types:
  assumes "req fam cmd seq its nl" "28 + attrs_len its \<le> 512"
  shows "req fam cmd seq (its @ [default_types type]) (put_key_types type nl)"
  using req_nest [OF assms(1), of "[]" NL80211_ATTR_KEY_DEFAULT_TYPES type] assms(2)
  by (simp add: put_key_types_def case_prod_beta nl_put_empty_def default_types_def)

definition ptk_attrs :: "wst \<Rightarrow> (u16 \<times> bytes) list" where
  "ptk_attrs w =
     [(NL80211_ATTR_IFINDEX, le32 (w_ifindex w)), (NL80211_ATTR_MAC, ap_bssid (w_ap w)),
      (NL80211_ATTR_KEY_IDX, [0]), (NL80211_ATTR_KEY_CIPHER, le32 CIPHER_CCMP), (NL80211_ATTR_KEY_DATA, w_PTK w),
      (NL80211_ATTR_KEY_SEQ, replicate 6 0), default_types NL80211_KEY_DEFAULT_TYPE_UNICAST]"

definition gtk_attrs :: "wst \<Rightarrow> (u16 \<times> bytes) list" where
  "gtk_attrs w =
     [(NL80211_ATTR_IFINDEX, le32 (w_ifindex w)), (NL80211_ATTR_KEY_IDX, [w_gtkindex w]),
      (NL80211_ATTR_KEY_SEQ, w_RSC w),
      (NL80211_ATTR_KEY_CIPHER, le32 (if ap_tkipgroup (w_ap w) then CIPHER_TKIP else CIPHER_CCMP)),
      (NL80211_ATTR_KEY_DATA, take (if ap_tkipgroup (w_ap w) then 32 else 16) (w_GTK w)),
      default_types NL80211_KEY_DEFAULT_TYPE_MULTICAST]"

lemma align4_values: "align4 4 = 4" "align4 6 = 8" "align4 16 = 16" "align4 32 = 32"
  by (simp_all add: align4_def)

lemma req_upload_ptk:
  assumes "wst_ok w"
  shows "\<exists>nl. upload_ptk E w = send_check E (w\<lparr>w_nl := nl\<rparr>) \<and>
    req (w_nl80211 w) NL80211_CMD_NEW_KEY (nl_seq (w_nl w) + 1) (ptk_attrs w) nl"
proof -
  have len: "length (ap_bssid (w_ap w)) = 6" "length (w_PTK w) = 16"
    using assms by (simp_all add: wst_ok_def ap_ok_def keys_ok_def)
  note r = req_new_cmd [OF assms, of NL80211_CMD_NEW_KEY]
  note r = req_put [OF r, of "ap_bssid (w_ap w)" NL80211_ATTR_MAC]
  note r = req_put [OF r, of "[0]" NL80211_ATTR_KEY_IDX]
  note r = req_put [OF r, of "le32 CIPHER_CCMP" NL80211_ATTR_KEY_CIPHER]
  note r = req_put [OF r, of "w_PTK w" NL80211_ATTR_KEY_DATA]
  note r = req_put [OF r, of "replicate 6 0" NL80211_ATTR_KEY_SEQ]
  note r = req_put_key_types [OF r, of NL80211_KEY_DEFAULT_TYPE_UNICAST]
  show ?thesis
    using r len by (simp add: upload_ptk_def Let_def nl_put_u32_def nl_put_u8_def ptk_attrs_def align4_values align4_small)
      blast
qed

lemma req_upload_gtk:
  assumes "wst_ok w"
  shows "\<exists>nl. upload_gtk E w = send_check E (w\<lparr>w_nl := nl\<rparr>) \<and>
    req (w_nl80211 w) NL80211_CMD_NEW_KEY (nl_seq (w_nl w) + 1) (gtk_attrs w) nl"
proof -
  have len: "length (w_GTK w) = 32" "length (w_RSC w) = 6" using assms by (simp_all add: wst_ok_def keys_ok_def)
  define n where "n = (if ap_tkipgroup (w_ap w) then 32 else 16 :: nat)"
  have n: "align4 n = n" "n \<le> 32" by (simp_all add: n_def align4_values)
  note r = req_new_cmd [OF assms, of NL80211_CMD_NEW_KEY]
  note r = req_put [OF r, of "[w_gtkindex w]" NL80211_ATTR_KEY_IDX]
  note r = req_put [OF r, of "w_RSC w" NL80211_ATTR_KEY_SEQ]
  note r = req_put [OF r, of "le32 (if ap_tkipgroup (w_ap w) then CIPHER_TKIP else CIPHER_CCMP)" NL80211_ATTR_KEY_CIPHER]
  note r = req_put [OF r, of "take n (w_GTK w)" NL80211_ATTR_KEY_DATA]
  note r = req_put_key_types [OF r, of NL80211_KEY_DEFAULT_TYPE_MULTICAST]
  show ?thesis
    using r len n
    by (simp add: upload_gtk_def Let_def nl_put_u32_def nl_put_u8_def gtk_attrs_def align4_values align4_small n_def)
      (cases "ap_tkipgroup (w_ap w)"; auto)
qed

text \<open>
  The key uploads are complete NEW_KEY requests: the pairwise key for the BSSID with index zero,
  CCMP and a zero sequence number; the group key with the index, receive counter, cipher and length
  that belong to the group cipher of the access point.
\<close>

lemma key_requests:
  assumes "wst_ok w" and "en_nl_ok E (nl_seq (w_nl w) + 1)"
  shows "(\<exists>m. genl_msg (w_nl80211 w) NLM_F_REQUEST (nl_seq (w_nl w) + 1) NL80211_CMD_NEW_KEY (ptk_attrs w) m \<and>
          sends w m (upload_ptk E w)) \<and>
    (\<exists>m. genl_msg (w_nl80211 w) NLM_F_REQUEST (nl_seq (w_nl w) + 1) NL80211_CMD_NEW_KEY (gtk_attrs w) m \<and>
          sends w m (upload_gtk E w))"
  using req_upload_ptk [OF assms(1), of E] req_upload_gtk [OF assms(1), of E] send_check_req [OF _ assms(2), of _ _ _ _ w]
  by metis

section \<open>Scans\<close>

definition scan_attrs :: "int \<Rightarrow> wst \<Rightarrow> (u16 \<times> bytes) list" where
  "scan_attrs freq w =
     (NL80211_ATTR_IFINDEX, le32 (w_ifindex w)) #
     (if freq > 0 then [(NL80211_ATTR_SCAN_FREQUENCIES, le16 8 @ le16 0 @ le32 (word_of_int freq))] else [])"

text \<open>
  C22. \<open>start_scan\<close> sends a TRIGGER_SCAN request, for the one frequency asked for or for all, exactly
  when no scan is on, and remembers its sequence number; during a scan it sends nothing, and refuses
  only when the scan running covers a single frequency.
\<close>

theorem start_scan_discipline:
  assumes "wst_ok w" and "en_nl_ok E (nl_seq (w_nl w) + 1)" and "start_scan E freq w = (ret, v)"
  shows "if w_scanstate w = SS_IDLE
    then \<exists>m. genl_msg (w_nl80211 w) NLM_F_REQUEST (nl_seq (w_nl w) + 1) NL80211_CMD_TRIGGER_SCAN (scan_attrs freq w) m \<and>
      ret = 0 \<and> w_out v = w_out w @ [Nl_sent m] \<and> w_scanstate v = SS_SCANNING \<and> w_scanseq v = nl_seq (w_nl w) + 1
    else w_out v = w_out w \<and> w_nl v = w_nl w \<and> w_scanstate v = w_scanstate w \<and>
      (ret = - EBUSY \<longleftrightarrow> w_scanreq w AND SR_SCANNING_ONE_FREQ \<noteq> 0) \<and> (ret \<noteq> - EBUSY \<longrightarrow> ret = 0)"
proof (cases "w_scanstate w = SS_IDLE")
  case False
  then show ?thesis using assms(3) by (auto simp: start_scan_def split: if_splits)
next
  case True
  let ?w = "w\<lparr>w_scanreq := note_scanreq freq (w_scanreq w)\<rparr>"
  let ?nl = "new_cmd NL80211_CMD_TRIGGER_SCAN w"
  note r = req_new_cmd [OF assms(1), of NL80211_CMD_TRIGGER_SCAN]
  have new: "new_cmd c ?w = new_cmd c w" for c by (simp add: new_cmd_def)
  have "\<exists>nl q. req (w_nl80211 w) NL80211_CMD_TRIGGER_SCAN (nl_seq (w_nl w) + 1) (scan_attrs freq w) nl \<and>
      send_scan E freq ?w = (let (ret, w) = send_nl E (w\<lparr>w_scanreq := q, w_nl := nl\<rparr>) in
         if ret < 0 then (ret, w\<lparr>w_scanreq := 0\<rparr>)
         else (0, w\<lparr>w_scanstate := SS_SCANNING, w_scanseq := nl_seq (w_nl w)\<rparr>))"
  proof (cases "freq > 0")
    case True
    with req_nest [OF r, of "le32 (word_of_int freq)" NL80211_ATTR_SCAN_FREQUENCIES 0]
    have "req (w_nl80211 w) NL80211_CMD_TRIGGER_SCAN (nl_seq (w_nl w) + 1) (scan_attrs freq w)
      (nl_end_nest (nl_put (snd (nl_put_nest ?nl NL80211_ATTR_SCAN_FREQUENCIES)) 0 (le32 (word_of_int freq)))
        (fst (nl_put_nest ?nl NL80211_ATTR_SCAN_FREQUENCIES)))"
      by (simp add: scan_attrs_def attrs_len_def align4_values)
    moreover have "send_scan E freq ?w = (let (ret, w) = send_nl E (w\<lparr>w_scanreq := note_scanreq freq (w_scanreq w) OR (SR_SCANNING_ONE_FREQ OR SR_RECONNECT_CURRENT),
        w_nl := nl_end_nest (nl_put (snd (nl_put_nest ?nl NL80211_ATTR_SCAN_FREQUENCIES)) 0 (le32 (word_of_int freq)))
          (fst (nl_put_nest ?nl NL80211_ATTR_SCAN_FREQUENCIES))\<rparr>) in
         if ret < 0 then (ret, w\<lparr>w_scanreq := 0\<rparr>)
         else (0, w\<lparr>w_scanstate := SS_SCANNING, w_scanseq := nl_seq (w_nl w)\<rparr>))"
      using True by (simp add: send_scan_def new Let_def case_prod_beta nl_put_u32_def)
    ultimately show ?thesis by blast
  next
    case False
    then have "send_scan E freq ?w = (let (ret, w) = send_nl E (w\<lparr>w_scanreq := note_scanreq freq (w_scanreq w), w_nl := ?nl\<rparr>) in
         if ret < 0 then (ret, w\<lparr>w_scanreq := 0\<rparr>)
         else (0, w\<lparr>w_scanstate := SS_SCANNING, w_scanseq := nl_seq (w_nl w)\<rparr>))"
      by (simp add: send_scan_def new Let_def case_prod_beta)
    with False r show ?thesis by (simp add: scan_attrs_def) blast
  qed
  then obtain nl q where nl: "req (w_nl80211 w) NL80211_CMD_TRIGGER_SCAN (nl_seq (w_nl w) + 1) (scan_attrs freq w) nl"
    "send_scan E freq ?w = (let (ret, w) = send_nl E (w\<lparr>w_scanreq := q, w_nl := nl\<rparr>) in
         if ret < 0 then (ret, w\<lparr>w_scanreq := 0\<rparr>)
         else (0, w\<lparr>w_scanstate := SS_SCANNING, w_scanseq := nl_seq (w_nl w)\<rparr>))" by blast
  let ?v = "w\<lparr>w_scanreq := q, w_nl := nl\<rparr>"
  have "req (w_nl80211 w) NL80211_CMD_TRIGGER_SCAN (nl_seq (w_nl w) + 1) (scan_attrs freq w) (w_nl ?v)" using nl(1) by simp
  from send_req [OF this, of E] obtain m where m:
    "genl_msg (w_nl80211 w) NLM_F_REQUEST (nl_seq (w_nl w) + 1) NL80211_CMD_TRIGGER_SCAN (scan_attrs freq w) m"
    "send_nl E ?v = (0, emit (Nl_sent m) (?v\<lparr>w_nl := (w_nl ?v)\<lparr>nl_err := 0\<rparr>\<rparr>))" using assms(2) by auto
  have "start_scan E freq w = send_scan E freq ?w" using True by (simp add: start_scan_def)
  with assms(3) nl(2) m(2) have "ret = 0"
    "v = (emit (Nl_sent m) (?v\<lparr>w_nl := (w_nl ?v)\<lparr>nl_err := 0\<rparr>\<rparr>))\<lparr>w_scanstate := SS_SCANNING, w_scanseq := nl_seq nl\<rparr>"
    by (auto simp: emit_def)
  with m(1) True nl(1) show ?thesis by (auto simp: emit_def req_def)
qed

theorem start_scan_discipline_witness:
  "\<exists>m. genl_msg 0 NLM_F_REQUEST 1 NL80211_CMD_TRIGGER_SCAN (scan_attrs 2412 ready_state) m \<and>
     fst (start_scan calm_env 2412 ready_state) = 0 \<and>
     w_scanstate (snd (start_scan calm_env 2412 ready_state)) = SS_SCANNING"
proof -
  obtain ret v where r: "start_scan calm_env 2412 ready_state = (ret, v)" by (metis surj_pair)
  have s: "w_scanstate ready_state = SS_IDLE" "w_nl80211 ready_state = 0" "nl_seq (w_nl ready_state) = 0"
    "en_nl_ok calm_env = (\<lambda>_. True)"
    by (simp_all add: calm_env_def ready_state_def static_state_def fresh_nl_def nl_init_def nl_set_rxbuf_def nl_set_txbuf_def)
  show ?thesis using start_scan_discipline [OF ready_state_ok _ r] r s by auto
qed

end
