(* ===== verification/Protocol_Run.thy ===== *)
theory Protocol_Run imports Protocol_Steps Program Requests begin

text \<open>
  The control commands, the kill switch, the timer and the main loop run the abstract machine of
  Protocol as well, hence so does the program: what holds of every run of the machine holds of
  every state the daemon is in.
\<close>

section \<open>Control commands\<close>

definition follow_conn :: "bool \<Rightarrow> cause set \<Rightarrow> wst \<Rightarrow> nat \<Rightarrow> wst \<Rightarrow> bool" where
  "follow_conn lossy causes w0 q w \<longleftrightarrow> conn_in_use q w \<and> csteps lossy causes (view w0) (view w)"

lemma follow_connD: "follow_conn lossy causes w0 q w \<Longrightarrow> follows lossy causes w0 w \<and> conn_in_use q w"
  by (simp add: follow_conn_def follows_def conn_in_use_def)

lemma follow_conn_same: "follow_conn lossy causes w0 q w \<Longrightarrow> conn_in_use q v \<Longrightarrow> view v = view w \<Longrightarrow> follow_conn lossy causes w0 q v"
  by (simp add: follow_conn_def)

lemma follow_both:
  "ends d (\<lambda>x. conn_in_use q (g x)) Q r \<Longrightarrow> yields (\<lambda>x. csteps lossy causes (view w0) (view (g x))) r \<Longrightarrow>
   yields (\<lambda>x. follow_conn lossy causes w0 q (g x)) r"
  by (cases r) (simp_all add: follow_conn_def)

lemma view_replies [simp]:
  "view (set_rep p r w) = view w" "view (snd (send_reply E p w)) = view w" "view (snd (reply E p err w)) = view w"
  by (simp_all add: set_rep_def reply_def send_reply_def start_reply_def Let_def)

lemma view_set_fixed: "view w = x \<Longrightarrow> yields (\<lambda>y. view (snd y) = x) (set_fixed s n w)"
  by (auto simp: set_fixed_def reset_scan_counters_def Let_def)

lemma view_fixed:
  "view w = x \<Longrightarrow> yields (\<lambda>y. view (snd y) = x) (set_fixed_saved E s n w)"
  "view w = x \<Longrightarrow> yields (\<lambda>y. view (snd y) = x) (set_fixed_given s n k w)"
  by (auto simp: set_fixed_saved_def set_fixed_given_def Let_def case_prod_beta
      intro!: ends_chain [where P' = "\<lambda>y. view (snd y) = x"] view_set_fixed view_load_psk)

lemma view_configure: "view w = x \<Longrightarrow> yields (\<lambda>y. view (snd y) = x) (configure_station E m msg w)"
  by (auto simp: configure_station_def reset_station_def Let_def payload_in_def intro!: view_fixed split: option.splits)

lemma follow_start_void_scan:
  assumes "follows lossy causes w0 w" "accepts lossy E"
  shows "follows lossy causes w0 (snd (start_void_scan E w))"
  using follow_start_scan [OF assms] by (simp add: start_void_scan_def)

lemma follow_cmd_connect:
  assumes "follow_conn lossy causes w0 q w" "accepts lossy E" "p \<le> q"
  shows "yields (\<lambda>x. csteps lossy causes (view w0) (view (snd x))) (cmd_connect E p m msg w)"
proof -
  have use: "conn_in_use q w" "csteps lossy causes (view w0) (view w)" using assms(1) by (simp_all add: follow_conn_def)
  have go: "yields (\<lambda>x. csteps lossy causes (view w0) (view (snd x)))
     (chain (reassess_wifi_situation E (clr_timer (snd (reply E p 0 (set_rep p 1 (v\<lparr>w_opermode := OP_ONESHOT\<rparr>))))))
       (\<lambda>w. Go (fst (reply E p 0 (set_rep p 1 (v\<lparr>w_opermode := OP_ONESHOT\<rparr>))), w)))"
    if v: "conn_in_use q v" "view v = view w" for v
  proof -
    have "wst_ok (clr_timer (snd (reply E p 0 (set_rep p 1 (v\<lparr>w_opermode := OP_ONESHOT\<rparr>)))))"
      using conn_reply(2) [OF conn_set_rep [of q "v\<lparr>w_opermode := OP_ONESHOT\<rparr>" p], where p = p] v(1) assms(3)
      by (simp add: conn_in_use_def)
    then have "follows lossy causes w0 (clr_timer (snd (reply E p 0 (set_rep p 1 (v\<lparr>w_opermode := OP_ONESHOT\<rparr>)))))"
      using use(2) v(2) by (simp add: follows_def)
    from follow_reassess [OF this assms(2)] show ?thesis
      by (rule ends_chain) (simp add: follows_def)
  qed
  have conf: "yields (\<lambda>x. conn_in_use q (snd x) \<and> view (snd x) = view w) (configure_station E m msg w)"
    using conn_configure [OF use(1), of E m msg] view_configure [of w "view w" E m msg]
    by (cases "configure_station E m msg w") simp_all
  show ?thesis
    using use(2) unfolding cmd_connect_def Let_def case_prod_beta
    by (auto intro!: ends_chain [OF conf] go)
qed

lemma follow_call_cmd:
  assumes "follow_conn lossy causes w0 q w" "accepts lossy E" "p \<le> q" "call_cmd E p m msg w = Some r"
  shows "yields (\<lambda>x. csteps lossy causes (view w0) (view (snd x))) r"
proof -
  have use: "csteps lossy causes (view w0) (view w)" and f: "follows lossy causes w0 w"
    using assms(1) follow_connD by (auto simp: follow_conn_def)
  have "yields (\<lambda>x. csteps lossy causes (view w0) (view (snd x))) (cmd_status E p w)"
    "yields (\<lambda>x. csteps lossy causes (view w0) (view (snd x))) (cmd_device E p w)"
    using use by (simp_all add: cmd_status_def cmd_device_def Let_def case_prod_beta split: option.split)
  moreover have "yields (\<lambda>x. csteps lossy causes (view w0) (view (snd x))) (cmd_scan E p w)"
    using follow_start_void_scan [OF f assms(2)] by (simp add: cmd_scan_def case_prod_beta follows_def)
  moreover have "yields (\<lambda>x. csteps lossy causes (view w0) (view (snd x))) (cmd_neutral E p w)"
  proof -
    have "follows lossy causes w0 (w\<lparr>w_opermode := OP_NEUTRAL\<rparr>)" using f by simp
    from follow_start_disconnect [OF this assms(2)] show ?thesis
      unfolding cmd_neutral_def by (rule ends_chain) (auto simp: follows_def)
  qed
  moreover have "yields (\<lambda>x. csteps lossy causes (view w0) (view (snd x))) (cmd_forget E p m msg w)"
  proof -
    have pay: "yields (\<lambda>k. True) (payload_in m q n)" for q n by (simp add: payload_in_def)
    show ?thesis
      using use by (auto simp: cmd_forget_def Let_def intro!: ends_chain [OF pay] split: option.splits)
  qed
  moreover note follow_cmd_connect [OF assms(1-3), of m msg]
  ultimately show ?thesis
    using assms(4) by (auto simp: call_cmd_def Let_def split: if_splits)
qed

lemma follow_dispatch_cmd:
  assumes "follow_conn lossy causes w0 q w" "accepts lossy E" "p \<le> q"
  shows "yields (\<lambda>x. follow_conn lossy causes w0 q (snd x)) (dispatch_cmd E p m msg w)"
proof (rule follow_both [OF conn_dispatch_cmd])
  show "conn_in_use q w" "p \<le> q" using assms by (simp_all add: follow_conn_def)
  show "yields (\<lambda>x. csteps lossy causes (view w0) (view (snd x))) (dispatch_cmd E p m msg w)"
  proof (cases "call_cmd E p m msg w")
    case (Some r)
    show ?thesis
      unfolding dispatch_cmd_def Some option.case
      by (rule ends_chain [OF follow_call_cmd [OF assms Some]]) (simp add: case_prod_beta)
  qed (use assms(1) in \<open>simp add: dispatch_cmd_def follow_conn_def\<close>)
qed

section \<open>Sockets, timer and shutdown\<close>

lemma view_handle_control [simp]: "view (handle_control cfds w) = view w"
  by (induction cfds w rule: handle_control.induct) (auto split: option.splits prod.splits)

lemma view_sighandler [simp]: "view (sighandler sg w) = view w"
proof -
  have "view (fold reap_dhcp ps v) = view v" for ps v
    by (induction ps arbitrary: v) (auto simp: reap_dhcp_def)
  then show ?thesis by (simp add: sighandler_def Let_def)
qed

lemma view_save_config [simp]: "view (save_config_w E w) = view w"
  by (simp add: save_config_w_def case_prod_beta Let_def split: option.splits)

lemma follow_bring_iface_up [follow_rules]: "follows lossy causes w0 w \<Longrightarrow> yields (follows lossy causes w0) (bring_iface_up E w)"
  by (auto simp: bring_iface_up_def follows_def split: option.splits)

lemma follow_handle_event:
  assumes "follows lossy causes w0 w" "accepts lossy E"
  shows "yields (follows lossy causes w0) (handle_event E re w)"
proof -
  have "yields (follows lossy causes w0) (set_rfkilled E re v)" if "follows lossy causes w0 v" for v
    using that assms(2)
    by (auto simp: set_rfkilled_def intro!: ends_chain [where P' = "follows lossy causes w0"] follow_rules)
  then show ?thesis using assms(1) by (simp add: handle_event_def)
qed

lemma follow_handle_rfkill [follow_rules]:
  "follows lossy causes w0 w \<Longrightarrow> accepts lossy E \<Longrightarrow> yields (follows lossy causes w0) (handle_rfkill E ds w)"
  by (induction E ds w rule: handle_rfkill.induct) (auto simp: Let_def intro!: ends_chain [OF follow_handle_event])

lemma follow_timer_expired [follow_rules]:
  assumes "follows lossy causes w0 w" "accepts lossy E"
  shows "yields (follows lossy causes w0) (timer_expired E w)"
proof -
  have "follows lossy causes w0 ((clr_timer w)\<lparr>w_authstate := AS_IDLE\<rparr>)" if "w_authstate w = AS_NETDOWN"
    using that follows_ok [OF assms(1)] by (intro follows_step [OF assms(1)]) (auto intro: cstep_from cstep.restored)
  moreover have "w_authstate (clr_timer w) = w_authstate w" by (simp add: clr_timer_def)
  ultimately show ?thesis using assms by (auto simp: timer_expired_def Let_def intro!: follow_rules)
qed

lemma follow_xshutdown [follow_rules]:
  "follows lossy causes w0 w \<Longrightarrow> accepts lossy E \<Longrightarrow> yields (follows lossy causes w0) (xshutdown E w)"
  by (auto simp: xshutdown_def Let_def case_prod_beta
      intro!: ends_chain [where P' = "\<lambda>x. follows lossy causes w0 (snd x)"] follow_rules)

lemma follows_pfds: "follows lossy causes w0 w \<Longrightarrow> length fds = NPFDS \<Longrightarrow> follows lossy causes w0 (w\<lparr>w_pfds := fds\<rparr>)"
  by (simp add: follows_def wf_pfds)

lemma follow_update_pollfds: "follows lossy causes w0 w \<Longrightarrow> yields (follows lossy causes w0) (update_pollfds w)"
  by (rule follows_frame [where g = "\<lambda>v. v", OF _ wf_update_pollfds])
    (auto simp: update_pollfds_def Let_def case_prod_beta dest: follows_ok)

lemma follow_check_netlink:
  assumes "follows lossy causes w0 w" "accepts lossy E" "Kernel \<in> causes \<or> \<not> rd_in r"
  shows "yields (follows lossy causes w0) (check_netlink E r w)"
  using assms by (auto simp: check_netlink_def pf_in_def Let_def intro!: ends_chain [where P' = "follows lossy causes w0"] follow_rules)

lemma follow_check_rawsock:
  assumes "follows lossy causes w0 w" "accepts lossy E" "Packet \<in> causes \<or> \<not> rd_in r"
  shows "yields (follows lossy causes w0) (check_rawsock E r w)"
  using assms by (auto simp: check_rawsock_def pf_in_def Let_def pfds_length follows_ok
      intro!: ends_chain [where P' = "follows lossy causes w0"] follows_pfds follow_rules)

lemma follow_check_others:
  assumes "follows lossy causes w0 w" "accepts lossy E"
  shows "yields (follows lossy causes w0) (check_control E rc w)" "yields (follows lossy causes w0) (check_rfkill E rk w)"
proof -
  have "follows lossy causes w0 (handle_control fds w)" for fds
    using assms(1) wf_handle_control by (simp add: follows_def)
  then show "yields (follows lossy causes w0) (check_control E rc w)"
    using assms(1) by (simp add: check_control_def Let_def)
  show "yields (follows lossy causes w0) (check_rfkill E rk w)"
    using assms by (auto simp: check_rfkill_def Let_def pfds_length follows_ok
        intro!: ends_chain [where P' = "follows lossy causes w0"] follows_pfds follow_rules)
qed

section \<open>The loop\<close>

text \<open>The causes an event can have: what is ready on the two sockets.\<close>

interpretation protocol: loop_invariant "accepts lossy" "\<lambda>r. Kernel \<in> causes \<or> \<not> rd_in r" "\<lambda>r. Packet \<in> causes \<or> \<not> rd_in r"
  "follows lossy causes w0" "\<lambda>w. True" "follow_conn lossy causes w0" for lossy causes w0
proof
  show "follow_conn lossy causes w0 n w" if "follows lossy causes w0 w" "n < snd (w_conns w)" for n w
    using that by (simp add: follow_conn_def follows_def conn_in_use_def)
  show "follows lossy causes w0 w" if "follow_conn lossy causes w0 q w" for q w
    using that follow_connD by blast
  show "follow_conn lossy causes w0 q (shutdown_conn p w)" if "follow_conn lossy causes w0 q w" "p \<le> q" for q p w
    using that by (simp add: follow_conn_def shutdown_conn_def conn_in_use_def)
  show "follow_conn lossy causes w0 q (close_conn p w)" if "follow_conn lossy causes w0 q w" "p \<le> q" for q p w
    using that wf_close_conn by (intro follow_conn_same [OF that(1)]) (auto simp: follow_conn_def close_conn_def)
  show "follows lossy causes w0 (sighandler sg w)" if "follows lossy causes w0 w" for sg w
    using that wf_sighandler by (simp add: follows_def)
  show "follows lossy causes w0 (save_config_w E w)" if "follows lossy causes w0 w" for E w
    using that by (simp add: follows_def wf_save_config_w)
qed (auto intro: follow_dispatch_cmd follow_update_pollfds follow_check_netlink follow_check_rawsock follow_check_others
    follow_timer_expired follow_xshutdown)

section \<open>Start\<close>

text \<open>The only request before the first scan is the one for the nl80211 family.\<close>

definition initial_view :: view where
  "initial_view = (AS_IDLE, [CTRL_CMD_GETFAMILY])"

lemma asked_family:
  assumes "nl_send_recv_genl ok evs nl = Some (m, Some gen, evs', nl')" "asking c nl"
  shows "\<exists>b. m = Some b \<and> gen_cmd b 0 = c"
proof -
  obtain ret b nl1 where s: "nl_send ok nl = (ret, b, nl1)" by (metis surj_pair)
  then have "ret = 0" "m = b" using assms(1) by (auto simp: nl_send_recv_genl_def split: if_splits option.splits bool.splits)
  with asking_sent [OF assms(2) s] show ?thesis by (cases b) auto
qed

lemma view_setup_netlink:
  assumes "setup_netlink E su static_state = Some r"
  shows "yields (\<lambda>w. view w = initial_view) r"
proof -
  let ?nl = "nl_set_rxbuf (nl_set_txbuf nl_init (replicate 512 0)) (replicate 8192 0)"
  let ?req = "nl_put_str (nl_new_cmd ?nl GENL_ID_CTRL CTRL_CMD_GETFAMILY 1) CTRL_ATTR_FAMILY_NAME family_name"
  let ?q = "query_family_grps (en_nl_ok E) (su_nl su) family_name group_names ?nl"
  have req: "asking CTRL_CMD_GETFAMILY ?req"
    unfolding nl_put_str_def by (intro asking_put asking_new) (simp add: link_ok_def nl_init_def nl_set_rxbuf_def nl_set_txbuf_def)
  have sub: "yields (\<lambda>w. view w = x) (subscribe_groups su grps w)" if "view w = x" for grps w x
    using that by (simp add: subscribe_groups_def)
  have sent: "view (emit_nl m (static_state\<lparr>w_nl := nl\<rparr>)) = initial_view"
    if q: "?q = Some (Go (m, fid, grps, nl))" "\<not> fid < 0" for m fid grps nl
  proof -
    obtain gen evs' where "nl_send_recv_genl (en_nl_ok E (nl_seq ?req)) (su_nl su) ?req = Some (m, Some gen, evs', nl)"
      using q by (auto simp: query_family_grps_def Let_def split: option.splits outcome.splits prod.splits)
    from asked_family [OF this req] obtain b where "m = Some b" "gen_cmd b 0 = CTRL_CMD_GETFAMILY" by blast
    moreover have "view static_state = (AS_IDLE, [])" by (simp add: view_def static_state_def)
    ultimately show ?thesis by (simp add: emit_nl_def initial_view_def view_def emit_def)
  qed
  show ?thesis
  proof (cases "?q")
    case (Some x)
    then show ?thesis
      using assms sent by (cases x) (auto simp: setup_netlink_def Let_def intro!: sub split: if_splits)
  qed (use assms in \<open>auto simp: setup_netlink_def Let_def split: if_splits\<close>)
qed

lemma follow_main_start:
  assumes "follows lossy causes w0 w" "accepts lossy E"
  shows "yields (follows lossy causes w0) (main_start E w)"
proof -
  let ?w = "(retry_rfkill E w)\<lparr>w_opermode := OP_NEUTRAL\<rparr>"
  have w: "follows lossy causes w0 ?w" using assms(1) by (simp add: retry_rfkill_def)
  have "yields (\<lambda>v. view v = view ?w) (load_state E ?w)"
    by (auto simp: load_state_def Let_def case_prod_beta intro!: ends_chain [OF view_fixed(1)] split: option.splits)
  then have "yields (follows lossy causes w0) (load_state E ?w)"
    using follows_frame [where g = "\<lambda>v. v", OF w wf_load_state [OF follows_ok [OF w]]] by blast
  then show ?thesis
    unfolding main_start_def Let_def
    by (rule ends_chain) (use assms(2) in \<open>auto intro: follow_rules\<close>)
qed

lemma follow_start_up:
  assumes "start_up E su name = Some r" "accepts lossy E"
  shows "yields (\<lambda>w. wst_ok w \<and> csteps lossy causes initial_view (view w)) r"
proof -
  have iface: "yields (\<lambda>w. wst_ok w \<and> view w = x) (setup_iface E su name w)" if "wst_ok w" "view w = x" for w x
  proof -
    have "yields (\<lambda>w. view w = x) (setup_iface E su name w)"
      using that(2) by (auto simp: setup_iface_def open_rawsock_def Let_def split: option.splits)
    with wf_setup_iface [OF that(1), of E su name] show ?thesis by (cases "setup_iface E su name w") (simp_all add: Let_def)
  qed
  have ctl: "yields (\<lambda>w. wst_ok w \<and> view w = x) (setup_control E su w)" if "wst_ok w" "view w = x" for w x
    using wf_setup_control [OF that(1), of E su] that(2) by (auto simp: setup_control_def split: if_splits)
  have main: "yields (\<lambda>w. wst_ok w \<and> csteps lossy causes initial_view (view w)) (main_start E w)" if "wst_ok w" "view w = initial_view" for w
    by (rule ends_mono [OF follow_main_start [OF follows_refl [OF that(1)] assms(2), of causes]])
      (simp_all add: follows_def that(2))
  consider (failed) "r = Quit static_state" | (set_up) q where "setup_netlink E su static_state = Some q"
    "r = chain q (\<lambda>w. chain (setup_iface E su name w) (\<lambda>w. chain (setup_control E su w) (main_start E)))"
    using assms(1) setup_signals_cases [of su static_state] by (auto simp: start_up_def)
  then show ?thesis
  proof cases
    case set_up
    have "yields (\<lambda>w. wst_ok w \<and> view w = initial_view) q"
      using wf_setup_netlink [OF set_up(1)] view_setup_netlink [OF set_up(1)] by (cases q) simp_all
    then show ?thesis
      unfolding set_up(2) using iface ctl main by (intro ends_chain [where P' = "\<lambda>w. wst_ok w \<and> view w = initial_view"]) auto
  qed simp
qed

section \<open>What holds of every run\<close>

lemma admits_all: "(\<And>r. netlink_ok r) \<Longrightarrow> (\<And>r. rawsock_ok r) \<Longrightarrow> admits netlink_ok rawsock_ok ev"
  by (simp add: admits_def split: wakeup.splits)

lemma run_steps:
  assumes "wsupp E su name evs = Some r" "accepts lossy E" "\<forall>(E', sg, ev) \<in> set evs. accepts lossy E'"
  shows "yields (\<lambda>w. csteps lossy UNIV initial_view (view w)) r"
proof (cases "start_up E su name")
  case (Some q)
  have start: "yields (\<lambda>w. wst_ok w \<and> csteps lossy UNIV initial_view (view w)) q"
    by (rule follow_start_up [OF Some assms(2)])
  have run: "yields (\<lambda>v. csteps lossy UNIV initial_view (view v)) r"
    if "wst_ok w" "csteps lossy UNIV initial_view (view w)" "main_loop evs w = Some r" for w
  proof -
    have "\<forall>(E', sg, ev) \<in> set evs. accepts lossy E' \<and> admits (\<lambda>r. Kernel \<in> UNIV \<or> \<not> rd_in r) (\<lambda>r. Packet \<in> UNIV \<or> \<not> rd_in r) ev"
      using assms(3) by (auto simp: admits_all)
    from protocol.keeps_main_loop [OF follows_refl [OF that(1)] that(3) this] show ?thesis
      using that(2) by (cases r) (auto simp: follows_def)
  qed
  show ?thesis using assms(1) start run by (cases q) (auto simp: wsupp_def Some)
qed (use assms in \<open>simp add: wsupp_def\<close>)

text \<open>
  C2. The program runs the abstract machine: from the start on, whatever the kernel, the access points
  and the clients send and in whatever order, the state of the connection and the sequence of requests
  that reached the kernel are those of a run of the machine. When the kernel takes every request (the
  machine is not \<open>lossy\<close>) every transition comes with the request the machine has it with: a connection
  that goes on to the next phase has asked for it.
\<close>

theorem program_follows_protocol:
  assumes "wsupp E su name evs = Some r" and "accepts lossy E" and "\<forall>(E', sg, ev) \<in> set evs. accepts lossy E'"
  shows "yields (\<lambda>w. csteps lossy UNIV initial_view (view w)) r"
  by (rule run_steps [OF assms])

text \<open>A run with one event: the timer goes off.\<close>

definition quiet :: signals where
  "quiet = \<lparr>sg_term = False, sg_reaped = []\<rparr>"

lemma timed_loop: "\<exists>r. main_loop [(E, sg, Timeout)] w = Some r"
proof -
  have "\<exists>r. main_iter E sg Timeout w = Some r"
    by (cases "if w_pollset w then Go w else update_pollfds w") (simp_all add: main_iter_def wake_def)
  then obtain r where "main_iter E sg Timeout w = Some r" by blast
  then show ?thesis by (cases r) simp_all
qed

lemma timed_run: "\<exists>r. wsupp calm_env calm_answers [0x77] [(calm_env, quiet, Timeout)] = Some r"
proof -
  obtain w where "start_up calm_env calm_answers [0x77] = Some (Go w)" using calm_start by blast
  moreover obtain r where "main_loop [(calm_env, quiet, Timeout)] w = Some r" using timed_loop by blast
  ultimately show ?thesis by (simp add: wsupp_def)
qed

lemma calm_accepts: "accepts lossy calm_env"
  by (simp add: accepts_def calm_env_def)

theorem program_follows_protocol_witness:
  "\<exists>r. wsupp calm_env calm_answers [0x77] [(calm_env, quiet, Timeout)] = Some r \<and>
     yields (\<lambda>w. csteps False UNIV initial_view (view w)) r"
proof -
  obtain r where r: "wsupp calm_env calm_answers [0x77] [(calm_env, quiet, Timeout)] = Some r" using timed_run by blast
  from program_follows_protocol [OF this calm_accepts] r show ?thesis by (auto simp: calm_accepts)
qed

text \<open>
  In a run in which the kernel takes every request, the state after it says what was asked last, as far
  as \<open>mirrors\<close> goes.
\<close>

lemma run_mirrors:
  assumes "wsupp E su name evs = Some r" and "\<And>n. en_nl_ok E n" and "\<forall>(E', sg, ev) \<in> set evs. \<forall>n. en_nl_ok E' n"
  shows "yields (\<lambda>w. mirrors (view w)) r"
proof -
  have "yields (\<lambda>w. csteps False UNIV initial_view (view w)) r"
    by (rule run_steps [OF assms(1)]) (use assms(2,3) in \<open>auto simp: accepts_def\<close>)
  then show ?thesis by (rule ends_mono) (auto intro: requests.run_inv simp: initial_view_def)
qed

section \<open>What an event cannot do\<close>

text \<open>
  C4. Keys come from EAPOL packets only: over any stretch of the main loop in which the packet socket
  has nothing to read, whatever else the kernel, the clients, the timer and the kill switch do, no key
  is uploaded.
\<close>

theorem keys_need_packets:
  assumes "wst_ok w" and "main_loop evs w = Some r" and "\<forall>(E, sg, ev) \<in> set evs. admits (\<lambda>rd. True) (\<lambda>rd. \<not> rd_in rd) ev"
  shows "yields (\<lambda>v. count_list (asked (w_out v)) NL80211_CMD_NEW_KEY = count_list (asked (w_out w)) NL80211_CMD_NEW_KEY) r"
proof -
  have "\<forall>(E, sg, ev) \<in> set evs. accepts True E \<and>
      admits (\<lambda>rd. Kernel \<in> UNIV - {Packet} \<or> \<not> rd_in rd) (\<lambda>rd. Packet \<in> UNIV - {Packet} \<or> \<not> rd_in rd) ev"
    using assms(3) by (simp add: accepts_def)
  from protocol.keeps_main_loop [OF follows_refl [OF assms(1)] assms(2) this] show ?thesis
    by (rule ends_mono) (auto simp: follows_def view_def dest!: keys.run_inv)
qed

text \<open>
  C5. Only the kernel makes a connection progress: over any stretch of the main loop in which the netlink
  socket has nothing to read, the daemon stays in the state it was in, starts to authenticate, gives
  the connection up or is idle. Whatever clients and access points send, it neither associates nor
  comes to believe it is connected, disconnected by others or without its device.
\<close>

theorem progress_needs_kernel:
  assumes "wst_ok w" and "main_loop evs w = Some r" and "\<forall>(E, sg, ev) \<in> set evs. admits (\<lambda>rd. \<not> rd_in rd) (\<lambda>rd. True) ev"
  shows "yields (\<lambda>v. w_authstate v \<in> {w_authstate w, AS_IDLE, AS_AUTHENTICATING, AS_DISCONNECTING}) r"
proof -
  have "\<forall>(E, sg, ev) \<in> set evs. accepts True E \<and>
      admits (\<lambda>rd. Kernel \<in> UNIV - {Kernel} \<or> \<not> rd_in rd) (\<lambda>rd. Packet \<in> UNIV - {Kernel} \<or> \<not> rd_in rd) ev"
    using assms(3) by (simp add: accepts_def)
  from protocol.keeps_main_loop [OF follows_refl [OF assms(1)] assms(2) this] show ?thesis
    by (rule ends_mono) (auto simp: follows_def view_def dest!: progress.run_inv [where ?s0.0 = "w_authstate w"])
qed

text \<open>An idle daemon whose timer is on.\<close>

definition waiting_state :: wst where
  "waiting_state = ready_state\<lparr>w_opermode := OP_NEUTRAL, w_pollset := True, w_timer := Some 60\<rparr>"

lemma waiting: "wst_ok waiting_state" "w_authstate waiting_state = AS_IDLE" "asked (w_out waiting_state) = []"
  by (simp_all add: waiting_state_def ready_state_ok) (simp_all add: ready_state_def static_state_def)

lemma sigterm_start_scan [simp]: "w_sigterm (snd (start_scan E f w)) = w_sigterm w"
proof -
  have "w_sigterm (snd (send_nl E v)) = w_sigterm v" for v
    using arg_cong [OF send_nl_rest(1) [of E v], of w_sigterm] by (simp add: rest_def)
  then show ?thesis by (simp add: start_scan_def send_scan_def Let_def case_prod_beta)
qed

lemma waiting_loop: "\<exists>v. main_loop [(calm_env, quiet, Timeout)] waiting_state = Some (Go v)"
proof -
  have wake: "wake calm_env Timeout waiting_state = Some (Go (routine_fg_scan calm_env (clr_timer waiting_state)))"
    using waiting(2) by (simp add: wake_def waiting_state_def timer_expired_def clr_timer_def Let_def)
  have w: "w_opermode waiting_state = OP_NEUTRAL" "w_pollset waiting_state" "sighandler quiet waiting_state = waiting_state"
    "\<not> w_sigterm waiting_state"
    by (simp_all add: waiting_state_def ready_state_def static_state_def sighandler_def quiet_def)
  then have "\<not> w_sigterm (routine_fg_scan calm_env (clr_timer waiting_state))"
    by (simp add: routine_fg_scan_def start_void_scan_def start_full_scan_def set_timer_def clr_timer_def Let_def)
  then show ?thesis using wake w by (simp add: main_iter_def)
qed

text \<open>
  C3. Between two messages of the kernel the state of the connection and the requests sent about it
  determine each other, as long as the kernel takes every request. Over any stretch of the main loop in
  which the netlink socket has nothing to read, from a state that is neither idle nor without its
  device the daemon asks for nothing about the connection and stays in that state, or (unless it is
  disconnecting already) asks once to disconnect and is disconnecting; from the other two it asks
  for nothing and is where it was, or idle; or it asks once to authenticate, perhaps to disconnect
  after that, and is authenticating or disconnecting.
\<close>

theorem state_mirrors_requests:
  assumes "wst_ok w" and "main_loop evs w = Some r"
    and "\<forall>(E, sg, ev) \<in> set evs. (\<forall>n. en_nl_ok E n) \<and> admits (\<lambda>rd. \<not> rd_in rd) (\<lambda>rd. True) ev"
  shows "yields (\<lambda>v. \<exists>new. asked (w_out v) = asked (w_out w) @ new \<and>
      unprompted (w_authstate w) (filter about_connection new) (w_authstate v)) r"
proof -
  have "\<forall>(E, sg, ev) \<in> set evs. accepts False E \<and>
      admits (\<lambda>rd. Kernel \<in> UNIV - {Kernel} \<or> \<not> rd_in rd) (\<lambda>rd. Packet \<in> UNIV - {Kernel} \<or> \<not> rd_in rd) ev"
    using assms(3) by (auto simp: accepts_def)
  from protocol.keeps_main_loop [OF follows_refl [OF assms(1)] assms(2) this] show ?thesis
  proof (rule ends_mono)
    fix v assume "follows False (UNIV - {Kernel}) w v"
    then have "csteps False (UNIV - {Kernel}) (view w) (view v)" by (simp add: follows_def)
    moreover have "since (w_authstate w) (asked (w_out w)) (view w)" by (simp add: view_def unprompted_def)
    ultimately have "since (w_authstate w) (asked (w_out w)) (view v)" by (rule alone.run_inv)
    then show "\<exists>new. asked (w_out v) = asked (w_out w) @ new \<and>
        unprompted (w_authstate w) (filter about_connection new) (w_authstate v)"
      by (simp add: view_def)
  qed simp_all
qed

text \<open>A daemon that waits for the keys when the timer goes off.\<close>

definition keyless_state :: wst where
  "keyless_state = ready_state\<lparr>w_opermode := OP_ACTIVE, w_pollset := True, w_timer := Some 1, w_authstate := AS_CONNECTING\<rparr>"

lemma keyless: "wst_ok keyless_state" "w_authstate keyless_state = AS_CONNECTING" "asked (w_out keyless_state) = []"
  by (simp_all add: keyless_state_def ready_state_ok) (simp_all add: ready_state_def static_state_def)

lemma keyless_loop:
  "\<exists>v. main_loop [(calm_env, quiet, Timeout)] keyless_state = Some (Go v) \<and> w_authstate v = AS_DISCONNECTING"
proof -
  let ?w = "clr_timer keyless_state"
  have ok: "wst_ok ?w" using keyless(1) by (simp add: clr_timer_def)
  have "en_nl_ok calm_env (nl_seq (w_nl ?w) + 1)" by (simp add: calm_env_def)
  then obtain x m where "sends ?w m (trigger_disconnect calm_env ?w)"
    using send_check_req [OF req_new_cmd [OF ok, of NL80211_CMD_DISCONNECT], of calm_env ?w AS_DISCONNECTING]
    by (auto simp: trigger_disconnect_def)
  then obtain x where x: "trigger_disconnect calm_env ?w = Go x" by (auto simp: sends_def)
  have auth: "w_authstate x = AS_DISCONNECTING" and same: "rest x = rest ?w" using trigger_disconnect_rest [OF x] by simp_all
  have "w_sigterm (rest x) = w_sigterm (rest ?w)" by (simp only: same)
  then have sig: "w_sigterm x = w_sigterm ?w" by (simp add: rest_def)
  have "start_disconnect calm_env ?w = Go (0, x)"
    using keyless(2) x by (simp add: start_disconnect_def clr_timer_def)
  then have wake: "wake calm_env Timeout keyless_state = Some (Go x)"
    using keyless(2) by (simp add: wake_def keyless_state_def timer_expired_def abort_connection_def clr_timer_def Let_def)
  have w: "w_opermode keyless_state = OP_ACTIVE" "w_pollset keyless_state" "sighandler quiet keyless_state = keyless_state"
    "\<not> w_sigterm x"
    by (simp_all add: sig keyless_state_def clr_timer_def ready_state_def static_state_def sighandler_def quiet_def)
  have "w_authstate (save_config_w calm_env x) = w_authstate x"
    by (simp add: save_config_w_def case_prod_beta Let_def emit_def split: option.split)
  then show ?thesis using wake w auth by (simp add: main_iter_def)
qed

theorem state_mirrors_requests_witness:
  "\<exists>v. main_loop [(calm_env, quiet, Timeout)] keyless_state = Some (Go v) \<and> w_authstate v = AS_DISCONNECTING \<and>
     filter about_connection (asked (w_out v)) = [NL80211_CMD_DISCONNECT]"
proof -
  obtain v where v: "main_loop [(calm_env, quiet, Timeout)] keyless_state = Some (Go v)" "w_authstate v = AS_DISCONNECTING"
    using keyless_loop by blast
  have "\<forall>(E, sg, ev) \<in> set [(calm_env, quiet, Timeout)]. (\<forall>n. en_nl_ok E n) \<and> admits (\<lambda>rd. \<not> rd_in rd) (\<lambda>rd. True) ev"
    by (simp add: admits_def calm_env_def)
  from state_mirrors_requests [OF keyless(1) v(1) this] v show ?thesis by (auto simp: keyless(2,3) unprompted_def)
qed

theorem keys_need_packets_witness:
  "\<exists>v. main_loop [(calm_env, quiet, Timeout)] waiting_state = Some (Go v) \<and> count_list (asked (w_out v)) NL80211_CMD_NEW_KEY = 0"
proof -
  obtain v where v: "main_loop [(calm_env, quiet, Timeout)] waiting_state = Some (Go v)" using waiting_loop by blast
  have "\<forall>(E, sg, ev) \<in> set [(calm_env, quiet, Timeout)]. admits (\<lambda>rd. True) (\<lambda>rd. \<not> rd_in rd) ev" by (simp add: admits_def)
  from keys_need_packets [OF waiting(1) v this] v show ?thesis by (simp add: waiting(3))
qed

theorem progress_needs_kernel_witness:
  "\<exists>v. main_loop [(calm_env, quiet, Timeout)] waiting_state = Some (Go v) \<and>
     w_authstate v \<in> {AS_IDLE, AS_AUTHENTICATING, AS_DISCONNECTING}"
proof -
  obtain v where v: "main_loop [(calm_env, quiet, Timeout)] waiting_state = Some (Go v)" using waiting_loop by blast
  have "\<forall>(E, sg, ev) \<in> set [(calm_env, quiet, Timeout)]. admits (\<lambda>rd. \<not> rd_in rd) (\<lambda>rd. True) ev" by (simp add: admits_def)
  from progress_needs_kernel [OF waiting(1) v this] v show ?thesis by (simp add: waiting(2))
qed

end
