(* ===== verification/Handshake.thy ===== *)
theory Handshake imports Requests Invariant_Steps "HOL-Library.List_Lexorder" begin

text \<open>
  The key handshake against the standard: the packets of IEEE 802.11 11.6 as byte strings, the keys
  both sides compute from the shared secret, and what the supplicant does with the packets of an
  authenticator and with every other packet.
\<close>

section \<open>Byte strings in order\<close>

lemma memcmp_less: "length as = length bs \<Longrightarrow> memcmp as bs < 0 \<longleftrightarrow> as < bs"
  by (induction as bs rule: list_induct2) auto

lemma memcmp_ge: "length as = length bs \<Longrightarrow> memcmp as bs \<ge> 0 \<longleftrightarrow> \<not> as < bs"
  using memcmp_less [of as bs] by linarith

section \<open>Packets\<close>

text \<open>An EAPOL-Key packet, field by field; the length field is right.\<close>

definition key_packet :: "byte \<Rightarrow> u16 \<Rightarrow> u16 \<Rightarrow> bytes \<Rightarrow> bytes \<Rightarrow> bytes \<Rightarrow> bytes \<Rightarrow> bytes \<Rightarrow> bytes \<Rightarrow> bytes" where
  "key_packet ver info keylen replay nonce iv rsc mic payload =
     [ver] @ [EAPOL_KEY] @ be16 (word_of_nat (95 + length payload)) @ [EAPOL_KEY_RSN] @ be16 info @ be16 keylen
     @ replay @ nonce @ iv @ rsc @ replicate 8 0 @ mic @ be16 (word_of_nat (length payload)) @ payload"

text \<open>The same with the integrity code over it: the HMAC of the packet with the field zeroed.\<close>

definition signed_packet :: "bytes \<Rightarrow> byte \<Rightarrow> u16 \<Rightarrow> u16 \<Rightarrow> bytes \<Rightarrow> bytes \<Rightarrow> bytes \<Rightarrow> bytes \<Rightarrow> bytes \<Rightarrow> bytes" where
  "signed_packet kck ver info keylen replay nonce iv rsc payload =
     key_packet ver info keylen replay nonce iv rsc
       (take 16 (hmac_spec kck (key_packet ver info keylen replay nonce iv rsc (replicate 16 0) payload))) payload"

text \<open>The fields have their sizes.\<close>

definition sized :: "bytes \<Rightarrow> bytes \<Rightarrow> bytes \<Rightarrow> bytes \<Rightarrow> bytes \<Rightarrow> bytes \<Rightarrow> bool" where
  "sized replay nonce iv rsc mic payload \<longleftrightarrow> length replay = 8 \<and> length nonce = 32 \<and> length iv = 16 \<and>
     length rsc = 8 \<and> length mic = 16 \<and> length payload \<le> 925"

lemma length_key_packet:
  "sized replay nonce iv rsc mic payload \<Longrightarrow>
   length (key_packet ver info keylen replay nonce iv rsc mic payload) = 99 + length payload"
  by (simp add: key_packet_def sized_def)

text \<open>Its fields where the code reads them, whatever follows in the buffer.\<close>

lemma key_packet_fields:
  assumes "sized replay nonce iv rsc mic payload"
    and "p = key_packet ver info keylen replay nonce iv rsc mic payload @ zs"
  shows "ek_byte EK_VERSION p = ver" "ek_byte EK_PACTYPE p = EAPOL_KEY" "ek_byte EK_TYPE p = EAPOL_KEY_RSN"
    "unat (ek_short EK_PACLEN p) = 95 + length payload" "ek_short EK_KEYINFO p = info"
    "slice EK_REPLAY 8 p = replay" "slice EK_NONCE 32 p = nonce" "slice EK_RSC 6 p = take 6 rsc"
    "slice EK_MIC 16 p = mic" "unat (ek_short EK_PAYLEN p) = length payload" "drop EK_SIZE p = payload @ zs"
    "length mic' = 16 \<Longrightarrow> memcpy_at p EK_MIC mic' = key_packet ver info keylen replay nonce iv rsc mic' payload @ zs"
proof -
  have "unat (word_of_nat n :: u16) = n" if "n \<le> 1024" for n
    using that by (simp add: unsigned_of_nat take_bit_nat_eq_self)
  from this [of "95 + length payload"] this [of "length payload"]
  have n: "unat (95 + word_of_nat (length payload) :: u16) = 95 + length payload"
    "unat (word_of_nat (length payload) :: u16) = length payload"
    using assms(1) by (simp_all add: sized_def)
  show "ek_byte EK_VERSION p = ver" "ek_byte EK_PACTYPE p = EAPOL_KEY" "ek_byte EK_TYPE p = EAPOL_KEY_RSN"
    "unat (ek_short EK_PACLEN p) = 95 + length payload" "ek_short EK_KEYINFO p = info"
    "slice EK_REPLAY 8 p = replay" "slice EK_NONCE 32 p = nonce" "slice EK_RSC 6 p = take 6 rsc"
    "slice EK_MIC 16 p = mic" "unat (ek_short EK_PAYLEN p) = length payload" "drop EK_SIZE p = payload @ zs"
    "length mic' = 16 \<Longrightarrow> memcpy_at p EK_MIC mic' = key_packet ver info keylen replay nonce iv rsc mic' payload @ zs"
    using assms(1) n
    by (simp_all add: assms(2) key_packet_def sized_def ek_byte_def ek_short_def slice_def memcpy_at_def nth_append)
qed

text \<open>Assembled in the packet buffer, the rest of it untouched.\<close>

lemma slice_join: "slice a k p @ drop (a + k) p = drop a p"
  by (metis append_take_drop_id drop_drop add.commute slice_def)

lemma packet_split:
  assumes "length p = 1024" "n \<le> 925"
  obtains f0 f1 f2 f3 f4 f5 f6 f7 f8 f9 f10 f11 f12 f13 where
    "p = concat [f0, f1, f2, f3, f4, f5, f6, f7, f8, f9, f10, f11, f12, f13, drop (99 + n) p]"
    "map length [f0, f1, f2, f3, f4, f5, f6, f7, f8, f9, f10, f11, f12, f13] = [1, 1, 2, 1, 2, 2, 8, 32, 16, 8, 8, 16, 2, n]"
proof
  have j: "slice a k p @ drop b p = drop a p" if "b = a + k" for a k b
    using slice_join [of a k p] that by simp
  have "p = drop 0 p" by simp
  also have "\<dots> = concat [slice 0 1 p, slice 1 1 p, slice 2 2 p, slice 4 1 p, slice 5 2 p, slice 7 2 p, slice 9 8 p,
      slice 17 32 p, slice 49 16 p, slice 65 8 p, slice 73 8 p, slice 81 16 p, slice 97 2 p, slice 99 n p, drop (99 + n) p]"
    by (simp add: j del: drop_0)
  finally show "p = concat [slice 0 1 p, slice 1 1 p, slice 2 2 p, slice 4 1 p, slice 5 2 p, slice 7 2 p, slice 9 8 p,
      slice 17 32 p, slice 49 16 p, slice 65 8 p, slice 73 8 p, slice 81 16 p, slice 97 2 p, slice 99 n p, drop (99 + n) p]" .
  show "map length [slice 0 1 p, slice 1 1 p, slice 2 2 p, slice 4 1 p, slice 5 2 p, slice 7 2 p, slice 9 8 p,
      slice 17 32 p, slice 49 16 p, slice 65 8 p, slice 73 8 p, slice 81 16 p, slice 97 2 p, slice 99 n p] =
    [1, 1, 2, 1, 2, 2, 8, 32, 16, 8, 8, 16, 2, n]"
    using assms by simp
qed

lemma memcpy_concat:
  assumes "i < length fs" "length b = length (fs ! i)" "off = length (concat (take i fs))"
  shows "memcpy_at (concat fs) off b = concat (fs[i := b])"
proof -
  have "concat fs = concat (take i fs) @ fs ! i @ concat (drop (Suc i) fs)"
    using assms(1) by (metis concat.simps(2) concat_append id_take_nth_drop)
  then show ?thesis
    using assms by (simp add: memcpy_at_def upd_conv_take_nth_drop)
qed

lemma put_ek_concat:
  assumes "w_packet w = concat fs" "i < length fs" "length b = length (fs ! i)" "off = length (concat (take i fs))"
  shows "put_ek off b w = w\<lparr>w_packet := concat (fs[i := b])\<rparr>"
    "length b = n \<Longrightarrow> zero_ek off n w = w\<lparr>w_packet := concat (fs[i := replicate n 0])\<rparr>"
proof -
  show "put_ek off b w = w\<lparr>w_packet := concat (fs[i := b])\<rparr>"
    using memcpy_concat [OF assms(2-4)] assms(1) by (simp add: put_ek_def)
  assume n: "length b = n"
  have "concat fs = concat (take i fs) @ fs ! i @ concat (drop (Suc i) fs)"
    using assms(2) by (metis concat.simps(2) concat_append id_take_nth_drop)
  then have "off + n \<le> length (concat fs)" using assms(3,4) n by (metis length_append add.assoc le_add1)
  then show "zero_ek off n w = w\<lparr>w_packet := concat (fs[i := replicate n 0])\<rparr>"
    using memcpy_concat [OF assms(2) _ assms(4), of "replicate n 0"] assms(1,3) n by (simp add: zero_ek_def memzero_replicate)
qed

lemma packet_built:
  assumes "length (w_packet w) = 1024" "length (w_replay w) = 8" "length nonce = 32" "length payload \<le> 925"
  shows "put_ek EK_SIZE payload (put_ek EK_PACLEN (be16 (word_of_nat (95 + length payload)))
      (put_ek EK_PAYLEN (be16 (word_of_nat (length payload))) (put_header info keylen nonce w))) =
    w\<lparr>w_packet := key_packet (w_version w) info keylen (w_replay w) nonce (replicate 16 0) (replicate 8 0) (replicate 16 0) payload
        @ drop (99 + length payload) (w_packet w)\<rparr>"
proof -
  define r where "r = drop (99 + length payload) (w_packet w)"
  obtain f0 f1 f2 f3 f4 f5 f6 f7 f8 f9 f10 f11 f12 f13 where
    p: "w_packet w = concat [f0, f1, f2, f3, f4, f5, f6, f7, f8, f9, f10, f11, f12, f13, r]"
    and len: "map length [f0, f1, f2, f3, f4, f5, f6, f7, f8, f9, f10, f11, f12, f13] = [1, 1, 2, 1, 2, 2, 8, 32, 16, 8, 8, 16, 2, length payload]"
    using packet_split [OF assms(1,4)] unfolding r_def .
  have put: "put_ek off b (w\<lparr>w_packet := concat fs\<rparr>) = w\<lparr>w_packet := concat (fs[i := b])\<rparr>"
    if "i < length fs" "length b = length (fs ! i)" "off = length (concat (take i fs))" for off b fs i
    using put_ek_concat(1) [of "w\<lparr>w_packet := concat fs\<rparr>" fs i b off] that by simp
  have zero: "zero_ek off n (w\<lparr>w_packet := concat fs\<rparr>) = w\<lparr>w_packet := concat (fs[i := replicate n 0])\<rparr>"
    if "i < length fs" "length (fs ! i) = n" "off = length (concat (take i fs))" for off n fs i
    using put_ek_concat(2) [of "w\<lparr>w_packet := concat fs\<rparr>" fs i "replicate n 0" off n] that by simp
  note steps = put [of 0 _ _ 0] put [of "Suc 0" _ _ "Suc 0"] put [of 3 _ _ 4] put [of 4 _ _ 5] put [of 5 _ _ 7] put [of 6 _ _ 9]
    put [of 7 _ _ 17] put [of 12 _ _ 97] put [of 2 _ _ 2] put [of 13 _ _ 99]
    zero [of 8 _ 16 49] zero [of 9 _ 8 65] zero [of 11 _ 16 81] zero [of 10 _ 8 73]
  have w: "w = w\<lparr>w_packet := concat [f0, f1, f2, f3, f4, f5, f6, f7, f8, f9, f10, f11, f12, f13, r]\<rparr>"
    using p by simp
  have "put_header info keylen nonce w =
     w\<lparr>w_packet := concat [[w_version w], [EAPOL_KEY], f2, [EAPOL_KEY_RSN], be16 info, be16 keylen, w_replay w, nonce,
       replicate 16 0, replicate 8 0, replicate 8 0, replicate 16 0, f12, f13, r]\<rparr>"
    by (subst w) (use assms len in \<open>simp add: put_header_def Let_def steps length_concat del: concat.simps\<close>)
  then show ?thesis
    using assms len by (simp add: r_def [symmetric] steps length_concat del: concat.simps) (simp add: key_packet_def)
qed

lemma sign_built:
  assumes "sized replay nonce iv rsc (replicate 16 0) payload" "length (w_KCK w) = 16"
  shows "sign_packet (99 + length payload)
      (w\<lparr>w_packet := key_packet ver info keylen replay nonce iv rsc (replicate 16 0) payload @ zs\<rparr>) =
    w\<lparr>w_packet := signed_packet (w_KCK w) ver info keylen replay nonce iv rsc payload @ zs\<rparr>"
  using key_packet_fields(12) [OF assms(1) refl] length_key_packet [OF assms(1)] assms(2) hmac_meets_spec [of "w_KCK w"]
  by (simp add: sign_packet_def make_mic_def signed_packet_def Let_def)

lemma length_signed_packet:
  "sized replay nonce iv rsc (replicate 16 0) payload \<Longrightarrow>
   length (signed_packet kck ver info keylen replay nonce iv rsc payload) = 99 + length payload"
  using length_key_packet [of replay nonce iv rsc _ payload] by (simp add: signed_packet_def sized_def)

lemma send_packet_sent:
  "w_packet w = p @ zs \<Longrightarrow> en_raw_send E p = int (length p) \<Longrightarrow> send_packet E (length p) w = Go (0, emit (Raw_sent (w_amac w) p) w)"
  by (simp add: send_packet_def Let_def)

text \<open>The packet the supplicant makes of a payload, and how it is sent.\<close>

definition our_packet :: "wst \<Rightarrow> u16 \<Rightarrow> u16 \<Rightarrow> bytes \<Rightarrow> bytes \<Rightarrow> bytes" where
  "our_packet w info keylen nonce payload =
     signed_packet (w_KCK w) (w_version w) info keylen (w_replay w) nonce (replicate 16 0) (replicate 8 0) payload"

lemma our_packet_built:
  assumes "wst_ok w" "length nonce = 32" "length payload \<le> 925" "n = length payload"
  shows "sign_packet (99 + n) (put_ek EK_SIZE payload (put_ek EK_PACLEN (be16 (word_of_nat (95 + n)))
      (put_ek EK_PAYLEN (be16 (word_of_nat n)) (put_header info keylen nonce w)))) =
    w\<lparr>w_packet := our_packet w info keylen nonce payload @ drop (99 + n) (w_packet w)\<rparr>"
    and "length (our_packet w info keylen nonce payload) = 99 + n"
proof -
  have k: "length (w_packet w) = 1024" "length (w_replay w) = 8" "length (w_KCK w) = 16"
    using assms(1) by (simp_all add: wst_ok_def keys_ok_def)
  have z: "sized (w_replay w) nonce (replicate 16 0) (replicate 8 0) (replicate 16 0) payload"
    using k assms(2,3) by (simp add: sized_def)
  show "sign_packet (99 + n) (put_ek EK_SIZE payload (put_ek EK_PACLEN (be16 (word_of_nat (95 + n)))
      (put_ek EK_PAYLEN (be16 (word_of_nat n)) (put_header info keylen nonce w)))) =
    w\<lparr>w_packet := our_packet w info keylen nonce payload @ drop (99 + n) (w_packet w)\<rparr>"
    unfolding assms(4) packet_built [OF k(1,2) assms(2,3)] our_packet_def
    by (rule sign_built [OF z k(3)])
  show "length (our_packet w info keylen nonce payload) = 99 + n"
    using length_signed_packet [OF z] assms(4) by (simp add: our_packet_def)
qed

abbreviation (input) sent_2 :: "wst \<Rightarrow> bytes" where
  "sent_2 w \<equiv> our_packet w (KI_SHA OR KI_PAIRWISE OR KI_MIC) 16 (w_snonce w) (ap_ies (w_ap w))"

abbreviation (input) sent_4 :: "wst \<Rightarrow> bytes" where
  "sent_4 w \<equiv> our_packet w (KI_SHA OR KI_PAIRWISE OR KI_MIC OR KI_SECURE) 0 (replicate 32 0) []"

lemma send_packet_2_sent:
  assumes "wst_ok w" "en_raw_send E (sent_2 w) = int (length (sent_2 w))"
  shows "send_packet_2 E w = Go (emit (Raw_sent (w_amac w) (sent_2 w))
    (w\<lparr>w_packet := sent_2 w @ drop (99 + length (ap_ies (w_ap w))) (w_packet w), w_eapolstate := ES_WAITING_3_4\<rparr>))"
proof -
  have k: "length (w_snonce w) = 32" "length (ap_ies (w_ap w)) \<le> 925" "ap_iesize (w_ap w) = length (ap_ies (w_ap w))"
    using assms(1) by (simp_all add: wst_ok_def keys_ok_def ap_ok_def)
  note b = our_packet_built [OF assms(1) k(1,2) refl, of "KI_SHA OR KI_PAIRWISE OR KI_MIC" 16]
  have "99 + length (ap_ies (w_ap w)) - 4 = 95 + length (ap_ies (w_ap w))" by simp
  then show ?thesis
    using b send_packet_sent [of "w\<lparr>w_packet := sent_2 w @ drop (99 + length (ap_ies (w_ap w))) (w_packet w)\<rparr>" "sent_2 w"] assms(2)
    by (simp add: send_packet_2_def k(3) Let_def emit_def)
qed

section \<open>The pairwise keys\<close>

text \<open>IEEE 802.11 11.6.1.3: the addresses and the nonces enter in ascending order.\<close>

definition pairwise_keys :: "bytes \<Rightarrow> bytes \<Rightarrow> bytes \<Rightarrow> bytes \<Rightarrow> bytes \<Rightarrow> bytes" where
  "pairwise_keys pmk aa spa anonce snonce =
     PRF_spec pmk astr (min aa spa @ max aa spa @ min anonce snonce @ max anonce snonce)"

lemma pmk_to_ptk_keys:
  assumes "wst_ok w" and "keys = pairwise_keys (w_PSK w) (ap_bssid (w_ap w)) (w_smac w) (w_anonce w) (w_snonce w)"
  shows "pmk_to_ptk E w = w\<lparr>w_amac := ap_bssid (w_ap w), w_KCK := slice 0 16 keys, w_KEK := slice 16 16 keys, w_PTK := slice 32 16 keys\<rparr>"
proof -
  have len: "length (w_PSK w) = 32" "length (ap_bssid (w_ap w)) = 6" "length (w_smac w) = 6" "length (w_anonce w) = 32" "length (w_snonce w) = 32"
    using assms(1) by (simp_all add: wst_ok_def keys_ok_def ap_ok_def)
  have lt: "memcmp (w_smac w) (ap_bssid (w_ap w)) < 0 \<longleftrightarrow> w_smac w < ap_bssid (w_ap w)"
    "memcmp (w_snonce w) (w_anonce w) < 0 \<longleftrightarrow> w_snonce w < w_anonce w"
    using len by (simp_all add: memcmp_less)
  have astr: "length astr = 22" by (simp add: astr_def)
  have expand: "PRF480 (replicate 110 (en_stack E)) (w_PSK w) astr m1 m2 n1 n2 = PRF_spec (w_PSK w) astr (m1 @ m2 @ n1 @ n2)"
    if "length m1 = 6" "length m2 = 6" "length n1 = 32" "length n2 = 32" for m1 m2 n1 n2
    using PRF480_is_spec [of "w_PSK w" m1 m2 n1 n2 "replicate 110 (en_stack E)" astr] len(1) that astr by simp
  have mm: "min b a = (if a < b then a else b)" "max b a = (if a < b then b else a)" for a b :: bytes
    by (auto simp: min_def max_def)
  show ?thesis
    using len by (simp add: pmk_to_ptk_def Let_def assms(2) pairwise_keys_def lt expand mm)
qed

section \<open>Packets in\<close>

lemma handle_framed:
  assumes "sized replay nonce iv rsc mic payload" "wst_ok w" "take 6 sender = ap_bssid (w_ap w)"
    "data = key_packet ver info keylen replay nonce iv rsc mic payload"
  shows "handle_rawsock E (Some (sender, data)) w = dispatch_eapol E (w\<lparr>w_packet := data @ drop (99 + length payload) (w_packet w)\<rparr>)"
proof -
  have len: "length data = 99 + length payload" "length payload \<le> 925" "length (w_packet w) = 1024"
    using length_key_packet [OF assms(1)] assms(1,2,4) by (simp_all add: sized_def wst_ok_def keys_ok_def)
  note f = key_packet_fields [OF assms(1), of "data @ drop (99 + length payload) (w_packet w)" ver info keylen "drop (99 + length payload) (w_packet w)"]
  show ?thesis
    using len f(2,4,10) assms(3,4) by (simp add: handle_rawsock_def Let_def memcpy_at_def)
qed

lemma wst_ok_packet: "wst_ok w \<Longrightarrow> length p = 1024 \<Longrightarrow> wst_ok (w\<lparr>w_packet := p\<rparr>)"
  by (simp add: wst_ok_def keys_ok_def scan_state_ok_def)

text \<open>The type and the flags the supplicant looks at.\<close>

definition key_type :: "u16 \<Rightarrow> u16 \<Rightarrow> bool" where
  "key_type info bits \<longleftrightarrow> info AND KI_TYPEMASK = KI_SHA \<and>
     info AND (KI_PAIRWISE OR KI_ACK OR KI_SECURE OR KI_MIC OR KI_ENCRYPTED) = bits"

lemma ptype_key_type: "ptype p bits = key_type (ek_short EK_KEYINFO p) bits"
  by (simp add: ptype_def key_type_def Let_def)

text \<open>The first packet of an authenticator, and what the supplicant makes of it.\<close>

lemma first_packet:
  assumes "wst_ok w" "w_eapolstate w = ES_WAITING_1_4" "w_eapolsends w"
    and "take 6 sender = ap_bssid (w_ap w)" "sized replay anonce iv rsc mic payload" "key_type info (KI_PAIRWISE OR KI_ACK)"
    and "en_rand E = Some rand" "32 \<le> length rand" "\<And>m. en_raw_send E m = int (length m)"
    and "keys = pairwise_keys (w_PSK w) (ap_bssid (w_ap w)) (w_smac w) anonce (take 32 rand)"
  shows "\<exists>v. handle_rawsock E (Some (sender, key_packet ver info keylen replay anonce iv rsc mic payload)) w = Go v \<and>
    wst_ok v \<and> w_eapolstate v = ES_WAITING_3_4 \<and>
    w_KCK v = slice 0 16 keys \<and> w_KEK v = slice 16 16 keys \<and> w_PTK v = slice 32 16 keys \<and>
    w_anonce v = anonce \<and> w_replay v = replay \<and> w_amac v = ap_bssid (w_ap w) \<and> w_version v = ver \<and>
    w_ap v = w_ap w \<and> w_nl v = w_nl w \<and> w_ifindex v = w_ifindex w \<and> w_nl80211 v = w_nl80211 w \<and> w_GTK v = w_GTK w \<and>
    w_authstate v = w_authstate w \<and>
    w_out v = w_out w @ [Raw_sent (ap_bssid (w_ap w)) (signed_packet (slice 0 16 keys) ver (KI_SHA OR KI_PAIRWISE OR KI_MIC) 16
      replay (take 32 rand) (replicate 16 0) (replicate 8 0) (ap_ies (w_ap w)))]"
proof -
  let ?data = "key_packet ver info keylen replay anonce iv rsc mic payload"
  define p where "p = ?data @ drop (99 + length payload) (w_packet w)"
  have p: "length p = 1024" using length_key_packet [OF assms(5)] assms(1,5) by (simp add: p_def sized_def wst_ok_def keys_ok_def)
  note f = key_packet_fields [OF assms(5) p_def]
  define x where "x = w\<lparr>w_packet := p, w_version := ver, w_anonce := anonce, w_replay := replay, w_snonce := take 32 rand\<rparr>"
  have x: "wst_ok x" using assms(1,5,8) p by (simp add: x_def sized_def wst_ok_def keys_ok_def scan_state_ok_def)
  define y where "y = x\<lparr>w_amac := ap_bssid (w_ap w), w_KCK := slice 0 16 keys, w_KEK := slice 16 16 keys, w_PTK := slice 32 16 keys\<rparr>"
  have y: "pmk_to_ptk E x = y" using pmk_to_ptk_keys [OF x, of keys E] assms(10) by (simp add: x_def y_def)
  then have oky: "wst_ok y" using wf_pmk_to_ptk [OF x, of E] by simp
  have "handle_rawsock E (Some (sender, ?data)) w = recv_packet_1 E (w\<lparr>w_packet := p\<rparr>)"
    using handle_framed [OF assms(5,1,4) refl] assms(2) by (simp add: p_def dispatch_eapol_def)
  also have "\<dots> = chain (Go x) (\<lambda>w. let w = pmk_to_ptk E w in
           if w_eapolsends w then send_packet_2 E w else Go (w\<lparr>w_eapolstate := ES_WAITING_2_4\<rparr>))"
    using f assms(6-8) by (simp add: recv_packet_1_def ptype_key_type fill_rand_def x_def)
  also have "\<dots> = send_packet_2 E y" using assms(3) y by (simp add: y_def x_def)
  finally have run: "handle_rawsock E (Some (sender, ?data)) w = send_packet_2 E y" .
  define v where "v = emit (Raw_sent (w_amac y) (sent_2 y))
    (y\<lparr>w_packet := sent_2 y @ drop (99 + length (ap_ies (w_ap y))) (w_packet y), w_eapolstate := ES_WAITING_3_4\<rparr>)"
  have v: "send_packet_2 E y = Go v"
    unfolding v_def by (rule send_packet_2_sent [OF oky]) (simp add: assms(9))
  then have "wst_ok v" using wf_send_packet_2 [OF oky, of E] by simp
  with run v show ?thesis by (simp add: v_def y_def x_def emit_def our_packet_def)
qed

section \<open>Key data\<close>

text \<open>Wrapping works on the front of a longer buffer as on a buffer of its own.\<close>

lemma memcpy_at_append: "off + length x \<le> length b \<Longrightarrow> memcpy_at (b @ zs) off x = memcpy_at b off x @ zs"
  by (simp add: memcpy_at_def)

lemma wrap_step_append:
  assumes "1 \<le> i" "8 * i + 8 \<le> length b"
  shows "wrap_step (aes128_encrypt W) n j i (b @ zs) = wrap_step (aes128_encrypt W) n j i b @ zs \<and>
    length (wrap_step (aes128_encrypt W) n j i b) = length b"
  using assms
  by (simp add: wrap_step_def xor_R0_def Let_def slice_append_left memcpy_at_append length_memcpy_at)

lemma fold_append:
  assumes "\<And>x b. x \<in> set xs \<Longrightarrow> length b = n \<Longrightarrow> f x (b @ zs) = f x b @ zs \<and> length (f x b) = n"
  shows "length b = n \<Longrightarrow> fold f xs (b @ zs) = fold f xs b @ zs \<and> length (fold f xs b) = n"
  using assms by (induction xs arbitrary: b) auto

lemma aes128_wrap_append:
  assumes "length b mod 8 = 0" "8 \<le> length b"
  shows "aes128_wrap key (b @ zs) (length b) = aes128_wrap key b (length b) @ zs"
proof -
  let ?n = "length b div 8 - 1"
  have room: "1 \<le> i \<and> 8 * i + 8 \<le> length b" if "i \<in> set [1..<?n + 1]" for i
    using that assms by auto
  have row: "fold (wrap_step (aes128_encrypt W) ?n j) [1..<?n + 1] (c @ zs) = fold (wrap_step (aes128_encrypt W) ?n j) [1..<?n + 1] c @ zs \<and>
      length (fold (wrap_step (aes128_encrypt W) ?n j) [1..<?n + 1] c) = length b" if "length c = length b" for W j c
    using that room wrap_step_append by (intro fold_append) auto
  show ?thesis
    using fold_append [where xs = "[0..<6]" and n = "length b" and b = b and zs = zs
        and f = "\<lambda>j. fold (wrap_step (aes128_encrypt (aes128_init key)) ?n j) [1..<?n + 1]"] row
    by (simp add: aes128_wrap_def wrap_with_def Let_def)
qed

lemma unwrap_key_front:
  assumes "length kdata mod 8 = 0" "8 \<le> length kdata" "n = 8 + length kdata"
  shows "unwrap_key kek (aes128_wrap kek (wrap_iv @ kdata) n @ zs) n = (0, wrap_iv @ kdata @ zs)"
proof -
  have iv: "length wrap_iv = 8" by (simp add: wrap_iv_def)
  have m: "n mod 8 = 0" using assms(1,3) by simp
  have "aes128_unwrap kek (aes128_wrap kek (wrap_iv @ kdata) n @ zs) n = wrap_iv @ kdata @ zs"
    using aes128_wrap_append [of "wrap_iv @ kdata" kek zs] unwrap_of_wrap [of n "(wrap_iv @ kdata) @ zs" kek] assms(2,3) iv m
    by simp
  then show ?thesis
    using iv m assms(2,3) memxcmp_zero [of wrap_iv wrap_iv] by (simp add: unwrap_key_def Let_def)
qed

text \<open>The key data is a list of elements, each with a type, a length and its contents.\<close>

definition kde_bytes :: "byte \<times> bytes \<Rightarrow> bytes" where
  "kde_bytes k = [fst k, word_of_nat (length (snd k))] @ snd k"

text \<open>The element with a group key: selector, key index, a zero byte, the key.\<close>

definition gtk_kde :: "byte \<Rightarrow> bytes \<Rightarrow> byte \<times> bytes" where
  "gtk_kde idx gtk = (0xDD, kde_type_gtk @ [idx, 0] @ gtk)"

definition other_kde :: "byte \<times> bytes \<Rightarrow> bool" where
  "other_kde k \<longleftrightarrow> length (snd k) \<le> 255 \<and>
     \<not> (fst k = 0xDD \<and> 22 \<le> length (snd k) \<and> take 4 (snd k) = kde_type_gtk)"

lemma fetch_skips:
  assumes "\<forall>k \<in> set ks. other_kde k" "pkt = a @ concat (map kde_bytes ks) @ b" "length a + length (concat (map kde_bytes ks)) + 6 < e"
  shows "fetch_gtk_loop pkt (length a) e w = fetch_gtk_loop pkt (length a + length (concat (map kde_bytes ks))) e w"
  using assms
proof (induction ks arbitrary: a)
  case (Cons k ks)
  obtain t d where k: "k = (t, d)" by (cases k)
  have d: "length d \<le> 255" "t = 0xDD \<Longrightarrow> 22 \<le> length d \<Longrightarrow> take 4 d \<noteq> kde_type_gtk"
    using Cons.prems(1) by (auto simp: k other_kde_def)
  have n: "unat (word_of_nat (length d) :: byte) = length d" "uint (word_of_nat (length d) :: byte) = int (length d)"
    using d(1) by (simp_all add: unsigned_of_nat take_bit_nat_eq_self)
  have kb: "kde_bytes k = t # word_of_nat (length d) # d" by (simp add: k kde_bytes_def)
  have at: "pkt ! length a = t" "pkt ! Suc (length a) = word_of_nat (length d)" "slice (length a + 2) 4 pkt = take 4 (d @ concat (map kde_bytes ks) @ b)"
    using Cons.prems(2) by (simp_all add: kb nth_append slice_def)
  have sel: "memcmp (take 4 (d @ concat (map kde_bytes ks) @ b)) kde_type_gtk \<noteq> 0" if "t = 0xDD" "22 \<le> length d"
  proof -
    have "take 4 (d @ concat (map kde_bytes ks) @ b) = take 4 d" "length (take 4 d) = length kde_type_gtk"
      using that by (simp_all add: kde_type_gtk_def)
    then show ?thesis using d(2) [OF that] memcmp_eq_0 by metis
  qed
  have "fetch_gtk_loop pkt (length a) e w = fetch_gtk_loop pkt (length (a @ kde_bytes k)) e w"
    using Cons.prems(3) d(1) sel n at
    by (subst fetch_gtk_loop.simps) (auto simp: Let_def kb not_le)
  also have "\<dots> = fetch_gtk_loop pkt (length (a @ kde_bytes k) + length (concat (map kde_bytes ks))) e w"
    using Cons.prems by (intro Cons.IH) auto
  finally show ?case by (simp add: add.assoc)
qed simp

text \<open>A temporal key for TKIP has the two integrity keys the other way round.\<close>

definition group_key :: "bool \<Rightarrow> bytes \<Rightarrow> bytes \<Rightarrow> bytes" where
  "group_key tkip gtk old = (if tkip then take 16 gtk @ slice 24 8 gtk @ slice 16 8 gtk else gtk @ drop 16 old)"

lemma store_gtk_key:
  assumes "slice buf (length gtk) pkt = gtk" "length gtk = (if ap_tkipgroup (w_ap w) then 32 else 16)" "length (w_GTK w) = 32"
  shows "store_gtk idx pkt buf (length gtk) w =
    (0, w\<lparr>w_gtkindex := idx, w_GTK := group_key (ap_tkipgroup (w_ap w)) gtk (w_GTK w)\<rparr>)"
proof (cases "ap_tkipgroup (w_ap w)")
  case False
  then show ?thesis using assms by (simp add: store_gtk_def group_key_def memcpy_at_def)
next
  case True
  have 32: "slice buf 32 pkt = gtk" "length gtk = 32" using assms True by simp_all
  have parts: "slice buf 16 pkt = take 16 gtk" "slice (buf + 16) 8 pkt = slice 16 8 gtk" "slice (buf + 24) 8 pkt = slice 24 8 gtk"
    by (simp_all add: 32(1) [symmetric] slice_def take_drop ac_simps)
  show ?thesis using assms True 32(2) by (simp add: store_gtk_def group_key_def parts memcpy_at_def)
qed

lemma fetch_finds:
  assumes "\<forall>k \<in> set ks. other_kde k" "pkt = a @ concat (map kde_bytes ks) @ kde_bytes (gtk_kde idx gtk) @ b"
    and "length a + length (concat (map kde_bytes ks)) + 8 + length gtk \<le> e"
    and "length gtk = (if ap_tkipgroup (w_ap w) then 32 else 16)" "length (w_GTK w) = 32" "idx AND 3 \<noteq> 0"
  shows "fetch_gtk_loop pkt (length a) e w =
    (0, w\<lparr>w_gtkindex := idx AND 3, w_GTK := group_key (ap_tkipgroup (w_ap w)) gtk (w_GTK w)\<rparr>)"
proof -
  let ?p = "length a + length (concat (map kde_bytes ks))"
  have n: "length gtk \<le> 32" "16 \<le> length gtk" using assms(4) by (auto split: if_splits)
  have u: "unat (word_of_nat (6 + length gtk) :: byte) = 6 + length gtk"
    unfolding unsigned_of_nat using n by (simp add: take_bit_nat_eq_self)
  then have u: "unat (6 + word_of_nat (length gtk) :: byte) = 6 + length gtk" by simp
  have kb: "kde_bytes (gtk_kde idx gtk) = [0xDD, 6 + word_of_nat (length gtk)] @ kde_type_gtk @ [idx, 0] @ gtk"
    by (simp add: kde_bytes_def gtk_kde_def kde_type_gtk_def)
  define c where "c = a @ concat (map kde_bytes ks)"
  have p: "pkt = c @ [0xDD, 6 + word_of_nat (length gtk)] @ kde_type_gtk @ [idx, 0] @ gtk @ b" "?p = length c"
    using assms(2) kb by (simp_all add: c_def)
  have at: "pkt ! ?p = 0xDD" "pkt ! Suc ?p = 6 + word_of_nat (length gtk)" "slice (?p + 2) 4 pkt = kde_type_gtk" "pkt ! (?p + 6) = idx"
    "slice (?p + 8) (length gtk) pkt = gtk"
    unfolding p by (simp_all add: nth_append slice_def kde_type_gtk_def)
  have "fetch_gtk_loop pkt (length a) e w = fetch_gtk_loop pkt ?p e w"
    using fetch_skips [OF assms(1,2)] assms(3) n by simp
  also have "\<dots> = store_gtk (idx AND 3) pkt (?p + 8) (length gtk) w"
    using assms(3,6) n at u by (subst fetch_gtk_loop.simps) (simp add: Let_def)
  also have "\<dots> = (0, w\<lparr>w_gtkindex := idx AND 3, w_GTK := group_key (ap_tkipgroup (w_ap w)) gtk (w_GTK w)\<rparr>)"
    by (rule store_gtk_key [OF at(5) assms(4,5)])
  finally show ?thesis .
qed

section \<open>The third packet\<close>

lemma mic_passes:
  assumes "sized replay nonce iv rsc (replicate 16 0) payload" "length (w_KCK w) = 16"
    and "w_packet w = signed_packet (w_KCK w) ver info keylen replay nonce iv rsc payload @ zs"
  shows "mic_fails w = (0, w\<lparr>w_packet := key_packet ver info keylen replay nonce iv rsc (replicate 16 0) payload @ zs\<rparr>)"
proof -
  let ?mic = "take 16 (hmac_spec (w_KCK w) (key_packet ver info keylen replay nonce iv rsc (replicate 16 0) payload))"
  have z: "sized replay nonce iv rsc ?mic payload" using assms(1) by (simp add: sized_def)
  have p: "w_packet w = key_packet ver info keylen replay nonce iv rsc ?mic payload @ zs"
    using assms(3) by (simp add: signed_packet_def)
  note f = key_packet_fields [OF z p]
  have len: "4 + unat (ek_short EK_PACLEN (w_packet w)) = 99 + length payload" "99 + length payload \<le> length (w_packet w)"
    using f(4) length_key_packet [OF z] p by simp_all
  have zero: "memcpy_at (w_packet w) EK_MIC (replicate 16 0) = key_packet ver info keylen replay nonce iv rsc (replicate 16 0) payload @ zs"
    by (rule f(12)) simp
  have "fst (check_mic (w_packet w) EK_MIC (w_KCK w) (99 + length payload)) = 0 \<and>
    snd (check_mic (w_packet w) EK_MIC (w_KCK w) (99 + length payload)) = key_packet ver info keylen replay nonce iv rsc (replicate 16 0) payload @ zs"
    using check_mic_zero_iff [OF _ len(2) assms(2), of EK_MIC] f(9) zero length_key_packet [OF assms(1)] by simp
  then show ?thesis by (simp add: mic_fails_def len(1) case_prod_beta)
qed

text \<open>Key data with a group key among other elements, wrapped under the key encryption key.\<close>

definition key_data :: "(byte \<times> bytes) list \<Rightarrow> byte \<Rightarrow> bytes \<Rightarrow> bytes \<Rightarrow> bytes" where
  "key_data ks idx gtk rst = concat (map kde_bytes ks) @ kde_bytes (gtk_kde idx gtk) @ rst"

definition wrapped :: "bytes \<Rightarrow> bytes \<Rightarrow> bytes" where
  "wrapped kek kdata = aes128_wrap kek (wrap_iv @ kdata) (8 + length kdata)"

lemma length_wrapped: "length (wrapped kek kdata) = 8 + length kdata"
  using length_aes128_wrap [of "8 + length kdata" "wrap_iv @ kdata" kek] by (simp add: wrapped_def wrap_iv_def)

lemma keys_taken:
  assumes "sized replay nonce iv rsc mic (wrapped (w_KEK w) kdata)"
    and "w_packet w = key_packet ver info keylen replay nonce iv rsc mic (wrapped (w_KEK w) kdata) @ zs"
    and "kdata = key_data ks idx gtk rst" "length kdata mod 8 = 0" "\<forall>k \<in> set ks. other_kde k" "idx AND 3 \<noteq> 0"
    and "length gtk = (if ap_tkipgroup (w_ap w) then 32 else 16)" "length (w_GTK w) = 32"
  shows "\<exists>p. length p = length (w_packet w) \<and> take_keys w = (0, w\<lparr>w_packet := p, w_gtkindex := idx AND 3,
    w_GTK := group_key (ap_tkipgroup (w_ap w)) gtk (w_GTK w), w_RSC := take 6 rsc, w_replay := replay\<rparr>)"
proof -
  note f = key_packet_fields [OF assms(1,2)]
  let ?h = "take 99 (w_packet w)"
  let ?p = "?h @ wrap_iv @ kdata @ zs"
  have kd: "length kdata = length (concat (map kde_bytes ks)) + 8 + length gtk + length rst"
    by (simp add: assms(3) key_data_def kde_bytes_def gtk_kde_def kde_type_gtk_def)
  have iv: "length wrap_iv = 8" by (simp add: wrap_iv_def)
  have len: "length (w_packet w) = 99 + (8 + length kdata) + length zs" "length ?h = 99"
    using length_key_packet [OF assms(1)] assms(2) by (simp_all add: length_wrapped)
  have "16 \<le> length kdata" using kd assms(7) by (auto split: if_splits)
  then have un: "unwrap_key (w_KEK w) (wrapped (w_KEK w) kdata @ zs) (8 + length kdata) = (0, wrap_iv @ kdata @ zs)"
    unfolding wrapped_def using assms(4) by (intro unwrap_key_front) simp_all
  have "?p = (?h @ wrap_iv) @ concat (map kde_bytes ks) @ kde_bytes (gtk_kde idx gtk) @ rst @ zs" "length (?h @ wrap_iv) = 107"
    using len iv by (simp_all add: assms(3) key_data_def)
  then have fetch: "fetch_gtk_loop ?p 107 (107 + length kdata) (w\<lparr>w_packet := ?p\<rparr>) =
    (0, w\<lparr>w_packet := ?p, w_gtkindex := idx AND 3, w_GTK := group_key (ap_tkipgroup (w_ap w)) gtk (w_GTK w)\<rparr>)"
    using fetch_finds [OF assms(5), of ?p "?h @ wrap_iv" idx gtk "rst @ zs" "107 + length kdata" "w\<lparr>w_packet := ?p\<rparr>"] assms(6-8) kd by simp
  have hdr: "slice EK_RSC 6 ?p = take 6 rsc" "slice EK_REPLAY 8 ?p = replay"
    using f(6,8) len(2) by (simp_all add: slice_def drop_take)
  show ?thesis
    using un fetch hdr f(10,11) len iv
    by (intro exI [of _ ?p]) (simp add: take_keys_def fetch_gtk_def length_wrapped Let_def)
qed

lemma send_packet_4_sent:
  assumes "wst_ok w" "en_raw_send E (sent_4 w) = int (length (sent_4 w))"
  shows "\<exists>p. length p = 1024 \<and> send_packet_4 E w =
    chain (upload_ptk E ((emit (Raw_sent (w_amac w) (sent_4 w)) (w\<lparr>w_packet := p\<rparr>))\<lparr>w_eapolstate := ES_NEGOTIATED\<rparr>)) (\<lambda>w.
    chain (upload_gtk E w) (\<lambda>w. handle_connect E (cleanup_keys w)))"
proof -
  have p: "length (w_packet w) = 1024" using assms(1) by (simp add: wst_ok_def keys_ok_def)
  have nil: "put_ek EK_SIZE [] v = v" for v by (simp add: put_ek_def memcpy_at_def)
  note b = our_packet_built [OF assms(1), of "replicate 32 0" "[]" 0 "KI_SHA OR KI_PAIRWISE OR KI_MIC OR KI_SECURE" 0, unfolded nil, simplified]
  show ?thesis
    using b send_packet_sent [of "w\<lparr>w_packet := sent_4 w @ drop 99 (w_packet w)\<rparr>" "sent_4 w"] assms(2) p
    by (intro exI [of _ "sent_4 w @ drop 99 (w_packet w)"]) (simp add: send_packet_4_def Let_def emit_def)
qed

text \<open>The flags of packet 3.\<close>

abbreviation (input) FLAGS_3 :: u16 where
  "FLAGS_3 \<equiv> KI_PAIRWISE OR KI_ACK OR KI_MIC OR KI_ENCRYPTED OR KI_SECURE"

lemma signed_keys:
  assumes "wst_ok w" "sized replay nonce iv rsc (replicate 16 0) (wrapped (w_KEK w) kdata)"
    and "kdata = key_data ks idx gtk rst" "length kdata mod 8 = 0" "\<forall>k \<in> set ks. other_kde k" "idx AND 3 \<noteq> 0"
    and "length gtk = (if ap_tkipgroup (w_ap w) then 32 else 16)"
    and "data = signed_packet (w_KCK w) ver info keylen replay nonce iv rsc (wrapped (w_KEK w) kdata)"
    and "zs = drop (99 + length (wrapped (w_KEK w) kdata)) (w_packet w)"
  shows "\<exists>p y. let u = w\<lparr>w_packet := p, w_gtkindex := idx AND 3, w_GTK := group_key (ap_tkipgroup (w_ap w)) gtk (w_GTK w),
      w_RSC := take 6 rsc, w_replay := replay\<rparr> in
    mic_fails (w\<lparr>w_packet := data @ zs\<rparr>) = (0, y) \<and> take_keys y = (0, u) \<and> wst_ok u"
proof -
  let ?pay = "wrapped (w_KEK w) kdata"
  have k: "length (w_KCK w) = 16" "length (w_GTK w) = 32" "length (w_packet w) = 1024"
    using assms(1) by (simp_all add: wst_ok_def keys_ok_def)
  define y where "y = w\<lparr>w_packet := key_packet ver info keylen replay nonce iv rsc (replicate 16 0) ?pay @ zs\<rparr>"
  have mic: "mic_fails (w\<lparr>w_packet := data @ zs\<rparr>) = (0, y)"
    using mic_passes [OF assms(2), of "w\<lparr>w_packet := data @ zs\<rparr>" ver info keylen zs] k(1) assms(8) by (simp add: y_def)
  have py: "length (w_packet y) = 1024"
    using length_key_packet [OF assms(2)] assms(2) k(3) by (simp add: y_def assms(9) sized_def)
  obtain p where p: "length p = 1024" "take_keys y = (0, y\<lparr>w_packet := p, w_gtkindex := idx AND 3,
      w_GTK := group_key (ap_tkipgroup (w_ap w)) gtk (w_GTK w), w_RSC := take 6 rsc, w_replay := replay\<rparr>)"
    using keys_taken [of replay nonce iv rsc "replicate 16 0" y kdata ver info keylen zs ks idx gtk rst] assms(2-7) k(2) py
    by (auto simp: y_def)
  have "length (group_key (ap_tkipgroup (w_ap w)) gtk (w_GTK w)) = 32" using assms(7) k(2) by (simp add: group_key_def)
  then have "wst_ok (w\<lparr>w_packet := p, w_gtkindex := idx AND 3, w_GTK := group_key (ap_tkipgroup (w_ap w)) gtk (w_GTK w),
      w_RSC := take 6 rsc, w_replay := replay\<rparr>)"
    using assms(1,2) p(1) by (simp add: sized_def wst_ok_def keys_ok_def scan_state_ok_def)
  with mic p show ?thesis by (intro exI [of _ p] exI [of _ y]) (simp add: y_def Let_def)
qed

lemma third_packet:
  assumes "wst_ok w" "w_eapolstate w = ES_WAITING_3_4" "take 6 sender = ap_bssid (w_ap w)"
    and "sized replay (w_anonce w) iv rsc (replicate 16 0) (wrapped (w_KEK w) kdata)" "key_type info FLAGS_3" "w_replay w < replay"
    and "kdata = key_data ks idx gtk rst" "length kdata mod 8 = 0" "\<forall>k \<in> set ks. other_kde k" "idx AND 3 \<noteq> 0"
    and "length gtk = (if ap_tkipgroup (w_ap w) then 32 else 16)" "\<And>m. en_raw_send E m = int (length m)"
  shows "\<exists>p. let v = (emit (Raw_sent (w_amac w) (our_packet (w\<lparr>w_replay := replay\<rparr>) (KI_SHA OR KI_PAIRWISE OR KI_MIC OR KI_SECURE) 0 (replicate 32 0) []))
      (w\<lparr>w_gtkindex := idx AND 3, w_GTK := group_key (ap_tkipgroup (w_ap w)) gtk (w_GTK w), w_RSC := take 6 rsc,
         w_replay := replay, w_packet := p\<rparr>))\<lparr>w_eapolstate := ES_NEGOTIATED\<rparr> in
    wst_ok v \<and> handle_rawsock E (Some (sender, signed_packet (w_KCK w) ver info keylen replay (w_anonce w) iv rsc (wrapped (w_KEK w) kdata))) w =
      chain (upload_ptk E v) (\<lambda>w. chain (upload_gtk E w) (\<lambda>w. handle_connect E (cleanup_keys w)))"
proof -
  let ?pay = "wrapped (w_KEK w) kdata"
  let ?mic = "take 16 (hmac_spec (w_KCK w) (key_packet ver info keylen replay (w_anonce w) iv rsc (replicate 16 0) ?pay))"
  have z: "sized replay (w_anonce w) iv rsc ?mic ?pay" using assms(4) by (simp add: sized_def)
  define zs where "zs = drop (99 + length ?pay) (w_packet w)"
  define x where "x = w\<lparr>w_packet := signed_packet (w_KCK w) ver info keylen replay (w_anonce w) iv rsc ?pay @ zs\<rparr>"
  note f = key_packet_fields [OF z refl, where ver = ver and info = info and keylen = keylen and zs = zs]
  have k: "length (w_replay w) = 8"
    using assms(1) by (simp_all add: wst_ok_def keys_ok_def)
  have run: "handle_rawsock E (Some (sender, signed_packet (w_KCK w) ver info keylen replay (w_anonce w) iv rsc ?pay)) w = recv_packet_3 E x"
    using handle_framed [OF z assms(1,3) refl] assms(2) by (simp add: signed_packet_def x_def zs_def dispatch_eapol_def)
  have flags: "\<not> key_type info (KI_PAIRWISE OR KI_ACK)" using assms(5) by (auto simp: key_type_def)
  have pre: "ek_short EK_KEYINFO (w_packet x) = info" "slice EK_NONCE 32 (w_packet x) = w_anonce w" "slice EK_REPLAY 8 (w_packet x) = replay"
    using f(5-7) by (simp_all add: x_def signed_packet_def)
  have newer: "\<not> memcmp (w_replay w) replay \<ge> 0"
    using assms(4,6) k by (simp add: memcmp_ge sized_def)
  obtain p y where s: "let u = w\<lparr>w_packet := p, w_gtkindex := idx AND 3, w_GTK := group_key (ap_tkipgroup (w_ap w)) gtk (w_GTK w),
      w_RSC := take 6 rsc, w_replay := replay\<rparr> in mic_fails x = (0, y) \<and> take_keys y = (0, u) \<and> wst_ok u"
    using signed_keys [OF assms(1,4,7-11) refl zs_def] unfolding x_def by blast
  define u where "u = w\<lparr>w_packet := p, w_gtkindex := idx AND 3,
      w_GTK := group_key (ap_tkipgroup (w_ap w)) gtk (w_GTK w), w_RSC := take 6 rsc, w_replay := replay\<rparr>"
  have u: "wst_ok u" "mic_fails x = (0, y)" "take_keys y = (0, u)" using s by (simp_all add: Let_def u_def)
  have "recv_packet_3 E x = send_packet_4 E u"
    using pre flags newer u(2,3) assms(5) by (simp add: recv_packet_3_def ptype_key_type Let_def x_def)
  moreover obtain q where q: "length q = 1024" "send_packet_4 E u =
    chain (upload_ptk E ((emit (Raw_sent (w_amac u) (sent_4 u)) (u\<lparr>w_packet := q\<rparr>))\<lparr>w_eapolstate := ES_NEGOTIATED\<rparr>)) (\<lambda>w.
    chain (upload_gtk E w) (\<lambda>w. handle_connect E (cleanup_keys w)))"
    using send_packet_4_sent [OF u(1), of E] assms(12) by auto
  moreover have "wst_ok ((emit (Raw_sent (w_amac u) (sent_4 u)) (u\<lparr>w_packet := q\<rparr>))\<lparr>w_eapolstate := ES_NEGOTIATED\<rparr>)"
    using wst_ok_packet [OF u(1) q(1)] by simp
  moreover have "sent_4 u = our_packet (w\<lparr>w_replay := replay\<rparr>) (KI_SHA OR KI_PAIRWISE OR KI_MIC OR KI_SECURE) 0 (replicate 32 0) []"
    by (simp add: our_packet_def u_def)
  ultimately show ?thesis
    using run by (intro exI [of _ q]) (simp add: Let_def u_def)
qed

section \<open>The four-way handshake\<close>

lemma send_check_built:
  assumes "req fam cmd seq its nl" "\<And>n. en_nl_ok E n"
  shows "\<exists>m nl'. genl_msg fam NLM_F_REQUEST seq cmd its m \<and> nl_seq nl' = seq \<and>
    send_check E (w\<lparr>w_nl := nl\<rparr>) = Go (emit (Nl_sent m) (w\<lparr>w_nl := nl'\<rparr>))"
proof -
  have "req fam cmd seq its (w_nl (w\<lparr>w_nl := nl\<rparr>))" using assms(1) by simp
  from send_req [OF this, of E] obtain m where "genl_msg fam NLM_F_REQUEST seq cmd its m"
    "send_nl E (w\<lparr>w_nl := nl\<rparr>) = (0, emit (Nl_sent m) (w\<lparr>w_nl := nl\<lparr>nl_err := 0\<rparr>\<rparr>))"
    using assms(2) by auto
  with assms(1) show ?thesis by (intro exI [of _ m] exI [of _ "nl\<lparr>nl_err := 0\<rparr>"]) (simp add: send_check_def req_def)
qed

lemma upload_built:
  assumes "wst_ok w" "\<And>n. en_nl_ok E n"
  shows "\<exists>m nl. genl_msg (w_nl80211 w) NLM_F_REQUEST (nl_seq (w_nl w) + 1) NL80211_CMD_NEW_KEY (ptk_attrs w) m \<and>
      nl_seq nl = nl_seq (w_nl w) + 1 \<and> upload_ptk E w = Go (emit (Nl_sent m) (w\<lparr>w_nl := nl\<rparr>))"
    and "\<exists>m nl. genl_msg (w_nl80211 w) NLM_F_REQUEST (nl_seq (w_nl w) + 1) NL80211_CMD_NEW_KEY (gtk_attrs w) m \<and>
      nl_seq nl = nl_seq (w_nl w) + 1 \<and> upload_gtk E w = Go (emit (Nl_sent m) (w\<lparr>w_nl := nl\<rparr>))"
  using req_upload_ptk [OF assms(1), of E] req_upload_gtk [OF assms(1), of E] send_check_built [OF _ assms(2)]
  by metis+

lemma uploads_built:
  assumes "wst_ok w" "\<And>n. en_nl_ok E n"
  shows "\<exists>m1 m2 nl. genl_msg (w_nl80211 w) NLM_F_REQUEST (nl_seq (w_nl w) + 1) NL80211_CMD_NEW_KEY (ptk_attrs w) m1 \<and>
      genl_msg (w_nl80211 w) NLM_F_REQUEST (nl_seq (w_nl w) + 2) NL80211_CMD_NEW_KEY (gtk_attrs w) m2 \<and>
      chain (upload_ptk E w) (upload_gtk E) = Go (w\<lparr>w_nl := nl, w_out := w_out w @ [Nl_sent m1, Nl_sent m2]\<rparr>)"
proof -
  obtain m1 nl1 where 1: "genl_msg (w_nl80211 w) NLM_F_REQUEST (nl_seq (w_nl w) + 1) NL80211_CMD_NEW_KEY (ptk_attrs w) m1"
    "nl_seq nl1 = nl_seq (w_nl w) + 1" "upload_ptk E w = Go (emit (Nl_sent m1) (w\<lparr>w_nl := nl1\<rparr>))"
    using upload_built(1) [of w E] assms by blast
  let ?v = "emit (Nl_sent m1) (w\<lparr>w_nl := nl1\<rparr>)"
  have "ends False wst_ok wst_ok (upload_ptk E w)" by (rule wf_commands(2) [OF assms(1)])
  then have v: "wst_ok ?v" by (simp only: 1(3) ends.simps)
  obtain m2 nl2 where 2: "genl_msg (w_nl80211 ?v) NLM_F_REQUEST (nl_seq (w_nl ?v) + 1) NL80211_CMD_NEW_KEY (gtk_attrs ?v) m2"
    "upload_gtk E ?v = Go (emit (Nl_sent m2) (?v\<lparr>w_nl := nl2\<rparr>))"
    using upload_built(2) [OF v, of E] assms(2) by blast
  have "gtk_attrs ?v = gtk_attrs w" "w_nl80211 ?v = w_nl80211 w" "nl_seq (w_nl ?v) + 1 = nl_seq (w_nl w) + 2"
    by (simp_all add: gtk_attrs_def emit_def 1(2))
  then have m2: "genl_msg (w_nl80211 w) NLM_F_REQUEST (nl_seq (w_nl w) + 2) NL80211_CMD_NEW_KEY (gtk_attrs w) m2"
    using 2(1) by (simp only:)
  have "chain (upload_ptk E w) (upload_gtk E) = Go (w\<lparr>w_nl := nl2, w_out := w_out w @ [Nl_sent m1, Nl_sent m2]\<rparr>)"
    unfolding 1(3) chain.simps 2(2) by (simp add: emit_def)
  with 1(1) m2 show ?thesis by blast
qed

text \<open>Waiting for the first packet, on a link over which everything can be sent.\<close>

definition awaiting_first :: "env \<Rightarrow> wst \<Rightarrow> bool" where
  "awaiting_first E w \<longleftrightarrow> wst_ok w \<and> w_eapolstate w = ES_WAITING_1_4 \<and> w_eapolsends w \<and>
     (\<forall>m. en_raw_send E m = int (length m)) \<and> (\<forall>n. en_nl_ok E n)"

text \<open>The packets of an authenticator that knows the shared secret.\<close>

definition group_key_sent :: "bool \<Rightarrow> (byte \<times> bytes) list \<Rightarrow> byte \<Rightarrow> bytes \<Rightarrow> bytes \<Rightarrow> bool" where
  "group_key_sent tkip ks idx gtk kdata \<longleftrightarrow> (\<forall>k \<in> set ks. other_kde k) \<and> idx AND 3 \<noteq> 0 \<and>
     length gtk = (if tkip then 32 else 16) \<and> length kdata mod 8 = 0 \<and> length kdata \<le> 900 \<and>
     (\<exists>rst. kdata = key_data ks idx gtk rst)"

lemma four_way:
  assumes "awaiting_first E w" "take 6 sender = ap_bssid (w_ap w)" "en_rand E = Some rand" "32 \<le> length rand"
    and "keys = pairwise_keys (w_PSK w) (ap_bssid (w_ap w)) (w_smac w) anonce (take 32 rand)"
    and "sized replay1 anonce iv1 rsc1 mic1 payload1" "key_type info1 (KI_PAIRWISE OR KI_ACK)"
    and "group_key_sent (ap_tkipgroup (w_ap w)) ks idx gtk kdata"
    and "sized replay3 anonce iv3 rsc3 (replicate 16 0) []" "key_type info3 FLAGS_3" "replay1 < replay3"
  shows "\<exists>w1 v m1 m2. handle_rawsock E (Some (sender, key_packet ver info1 keylen1 replay1 anonce iv1 rsc1 mic1 payload1)) w = Go w1 \<and>
    handle_rawsock E (Some (sender, signed_packet (slice 0 16 keys) ver3 info3 keylen3 replay3 anonce iv3 rsc3 (wrapped (slice 16 16 keys) kdata))) w1
      = handle_connect E v \<and>
    wst_ok v \<and> w_eapolstate v = ES_NEGOTIATED \<and> w_authstate v = w_authstate w \<and>
    genl_msg (w_nl80211 w) NLM_F_REQUEST (nl_seq (w_nl w) + 1) NL80211_CMD_NEW_KEY (ptk_attrs (w\<lparr>w_PTK := slice 32 16 keys\<rparr>)) m1 \<and>
    genl_msg (w_nl80211 w) NLM_F_REQUEST (nl_seq (w_nl w) + 2) NL80211_CMD_NEW_KEY (gtk_attrs (w\<lparr>w_gtkindex := idx AND 3, w_RSC := take 6 rsc3,
      w_GTK := group_key (ap_tkipgroup (w_ap w)) gtk (w_GTK w)\<rparr>)) m2 \<and>
    w_out v = w_out w @ [Raw_sent (ap_bssid (w_ap w)) (signed_packet (slice 0 16 keys) ver (KI_SHA OR KI_PAIRWISE OR KI_MIC) 16
        replay1 (take 32 rand) (replicate 16 0) (replicate 8 0) (ap_ies (w_ap w))),
      Raw_sent (ap_bssid (w_ap w)) (signed_packet (slice 0 16 keys) ver (KI_SHA OR KI_PAIRWISE OR KI_MIC OR KI_SECURE) 0
        replay3 (replicate 32 0) (replicate 16 0) (replicate 8 0) []), Nl_sent m1, Nl_sent m2]"
proof -
  have E: "\<And>m. en_raw_send E m = int (length m)" "\<And>n. en_nl_ok E n" and w: "wst_ok w" "w_eapolstate w = ES_WAITING_1_4" "w_eapolsends w"
    using assms(1) by (simp_all add: awaiting_first_def)
  have g: "\<forall>k \<in> set ks. other_kde k" "idx AND 3 \<noteq> 0" "length gtk = (if ap_tkipgroup (w_ap w) then 32 else 16)"
    "length kdata mod 8 = 0" "length kdata \<le> 900" and "\<exists>rst. kdata = key_data ks idx gtk rst"
    using assms(8) unfolding group_key_sent_def by simp_all
  then obtain rst where kd: "kdata = key_data ks idx gtk rst" by blast
  obtain w1 where w1: "handle_rawsock E (Some (sender, key_packet ver info1 keylen1 replay1 anonce iv1 rsc1 mic1 payload1)) w = Go w1"
    "wst_ok w1" "w_eapolstate w1 = ES_WAITING_3_4" "w_KCK w1 = slice 0 16 keys" "w_KEK w1 = slice 16 16 keys" "w_PTK w1 = slice 32 16 keys"
    "w_anonce w1 = anonce" "w_replay w1 = replay1" "w_amac w1 = ap_bssid (w_ap w)" "w_version w1 = ver" "w_ap w1 = w_ap w" "w_nl w1 = w_nl w"
    "w_ifindex w1 = w_ifindex w" "w_nl80211 w1 = w_nl80211 w" "w_GTK w1 = w_GTK w" "w_authstate w1 = w_authstate w"
    "w_out w1 = w_out w @ [Raw_sent (ap_bssid (w_ap w)) (signed_packet (slice 0 16 keys) ver (KI_SHA OR KI_PAIRWISE OR KI_MIC) 16
      replay1 (take 32 rand) (replicate 16 0) (replicate 8 0) (ap_ies (w_ap w)))]"
    using first_packet [OF w assms(2,6,7,3,4) E(1) assms(5), of ver keylen1] by metis
  have s3: "sized replay3 (w_anonce w1) iv3 rsc3 (replicate 16 0) (wrapped (w_KEK w1) kdata)"
    using assms(9) g(5) by (simp add: sized_def w1 length_wrapped)
  obtain p where p: "let u = (emit (Raw_sent (w_amac w1) (our_packet (w1\<lparr>w_replay := replay3\<rparr>) (KI_SHA OR KI_PAIRWISE OR KI_MIC OR KI_SECURE) 0 (replicate 32 0) []))
      (w1\<lparr>w_gtkindex := idx AND 3, w_GTK := group_key (ap_tkipgroup (w_ap w1)) gtk (w_GTK w1), w_RSC := take 6 rsc3,
         w_replay := replay3, w_packet := p\<rparr>))\<lparr>w_eapolstate := ES_NEGOTIATED\<rparr> in
    wst_ok u \<and> handle_rawsock E (Some (sender, signed_packet (w_KCK w1) ver3 info3 keylen3 replay3 (w_anonce w1) iv3 rsc3 (wrapped (w_KEK w1) kdata))) w1 =
      chain (upload_ptk E u) (\<lambda>w. chain (upload_gtk E w) (\<lambda>w. handle_connect E (cleanup_keys w)))"
    using third_packet [OF w1(2,3) _ s3 assms(10) _ kd g(4,1,2) _ E(1), of sender ver3 keylen3] assms(2,11) g(3) w1(8,11) by auto
  define u where "u = (emit (Raw_sent (w_amac w1) (our_packet (w1\<lparr>w_replay := replay3\<rparr>) (KI_SHA OR KI_PAIRWISE OR KI_MIC OR KI_SECURE) 0 (replicate 32 0) []))
      (w1\<lparr>w_gtkindex := idx AND 3, w_GTK := group_key (ap_tkipgroup (w_ap w1)) gtk (w_GTK w1), w_RSC := take 6 rsc3,
         w_replay := replay3, w_packet := p\<rparr>))\<lparr>w_eapolstate := ES_NEGOTIATED\<rparr>"
  have u: "wst_ok u" "handle_rawsock E (Some (sender, signed_packet (w_KCK w1) ver3 info3 keylen3 replay3 (w_anonce w1) iv3 rsc3 (wrapped (w_KEK w1) kdata))) w1 =
      chain (upload_ptk E u) (\<lambda>w. chain (upload_gtk E w) (\<lambda>w. handle_connect E (cleanup_keys w)))"
    using p by (simp_all add: Let_def u_def)
  obtain m1 m2 nl where m: "genl_msg (w_nl80211 u) NLM_F_REQUEST (nl_seq (w_nl u) + 1) NL80211_CMD_NEW_KEY (ptk_attrs u) m1"
    "genl_msg (w_nl80211 u) NLM_F_REQUEST (nl_seq (w_nl u) + 2) NL80211_CMD_NEW_KEY (gtk_attrs u) m2"
    "chain (upload_ptk E u) (upload_gtk E) = Go (u\<lparr>w_nl := nl, w_out := w_out u @ [Nl_sent m1, Nl_sent m2]\<rparr>)"
    using uploads_built [OF u(1) E(2)] by blast
  let ?v = "u\<lparr>w_nl := nl, w_out := w_out u @ [Nl_sent m1, Nl_sent m2]\<rparr>"
  have assoc: "chain (upload_ptk E u) (\<lambda>w. chain (upload_gtk E w) f) = chain (chain (upload_ptk E u) (upload_gtk E)) f" for f
    by (cases "upload_ptk E u") auto
  have "ends False wst_ok wst_ok (chain (upload_ptk E u) (upload_gtk E))"
    by (rule ends_chain [OF wf_commands(2) [OF u(1)] wf_commands(3)])
  then have ok: "wst_ok ?v" by (simp only: m(3) ends.simps)
  have run: "handle_rawsock E (Some (sender, signed_packet (slice 0 16 keys) ver3 info3 keylen3 replay3 anonce iv3 rsc3 (wrapped (slice 16 16 keys) kdata))) w1
      = handle_connect E (cleanup_keys ?v)"
    using u(2) assoc m(3) by (simp add: w1)
  have attrs: "ptk_attrs u = ptk_attrs (w\<lparr>w_PTK := slice 32 16 keys\<rparr>)"
    "gtk_attrs u = gtk_attrs (w\<lparr>w_gtkindex := idx AND 3, w_RSC := take 6 rsc3, w_GTK := group_key (ap_tkipgroup (w_ap w)) gtk (w_GTK w)\<rparr>)"
    "w_nl80211 u = w_nl80211 w" "w_nl u = w_nl w"
    by (simp_all add: u_def ptk_attrs_def gtk_attrs_def emit_def w1)
  have out: "w_out u = w_out w1 @ [Raw_sent (ap_bssid (w_ap w)) (signed_packet (slice 0 16 keys) ver (KI_SHA OR KI_PAIRWISE OR KI_MIC OR KI_SECURE) 0
        replay3 (replicate 32 0) (replicate 16 0) (replicate 8 0) [])]"
    by (simp add: u_def emit_def our_packet_def w1)
  have "w_eapolstate (cleanup_keys ?v) = ES_NEGOTIATED" "w_authstate (cleanup_keys ?v) = w_authstate w" "w_out (cleanup_keys ?v) = w_out u @ [Nl_sent m1, Nl_sent m2]" "wst_ok (cleanup_keys ?v)"
    using ok by (simp_all add: cleanup_keys_def u_def emit_def w1(16) wst_ok_def keys_ok_def scan_state_ok_def)
  with w1(1) run m(1,2) attrs out w1(17) show ?thesis
    by (intro exI [of _ w1] exI [of _ "cleanup_keys ?v"] exI [of _ m1] exI [of _ m2]) simp
qed

text \<open>
  C6. The four-way handshake: against an authenticator that has the same shared secret, the supplicant
  answers the first packet with its nonce, its information elements and a valid integrity code under
  the keys both derive from the secret, the addresses and the nonces; it answers the third packet with
  a signed fourth one and gives the kernel the pairwise key both derived and the group key sent to it;
  then the connection is up. This holds for every first packet, for key data with any other elements,
  and for TKIP and CCMP group keys.
\<close>

theorem four_way_handshake:
  assumes "awaiting_first E w" "take 6 sender = ap_bssid (w_ap w)" "en_rand E = Some rand" "32 \<le> length rand"
    and "keys = pairwise_keys (w_PSK w) (ap_bssid (w_ap w)) (w_smac w) anonce (take 32 rand)"
    and "sized replay1 anonce iv1 rsc1 mic1 payload1" "key_type info1 (KI_PAIRWISE OR KI_ACK)"
    and "group_key_sent (ap_tkipgroup (w_ap w)) ks idx gtk kdata"
    and "sized replay3 anonce iv3 rsc3 (replicate 16 0) []" "key_type info3 FLAGS_3" "replay1 < replay3"
  shows "\<exists>w1 v m1 m2. handle_rawsock E (Some (sender, key_packet ver info1 keylen1 replay1 anonce iv1 rsc1 mic1 payload1)) w = Go w1 \<and>
    handle_rawsock E (Some (sender, signed_packet (slice 0 16 keys) ver3 info3 keylen3 replay3 anonce iv3 rsc3 (wrapped (slice 16 16 keys) kdata))) w1
      = handle_connect E v \<and>
    wst_ok v \<and> w_eapolstate v = ES_NEGOTIATED \<and>
    genl_msg (w_nl80211 w) NLM_F_REQUEST (nl_seq (w_nl w) + 1) NL80211_CMD_NEW_KEY (ptk_attrs (w\<lparr>w_PTK := slice 32 16 keys\<rparr>)) m1 \<and>
    genl_msg (w_nl80211 w) NLM_F_REQUEST (nl_seq (w_nl w) + 2) NL80211_CMD_NEW_KEY (gtk_attrs (w\<lparr>w_gtkindex := idx AND 3, w_RSC := take 6 rsc3,
      w_GTK := group_key (ap_tkipgroup (w_ap w)) gtk (w_GTK w)\<rparr>)) m2 \<and>
    w_out v = w_out w @ [Raw_sent (ap_bssid (w_ap w)) (signed_packet (slice 0 16 keys) ver (KI_SHA OR KI_PAIRWISE OR KI_MIC) 16
        replay1 (take 32 rand) (replicate 16 0) (replicate 8 0) (ap_ies (w_ap w))),
      Raw_sent (ap_bssid (w_ap w)) (signed_packet (slice 0 16 keys) ver (KI_SHA OR KI_PAIRWISE OR KI_MIC OR KI_SECURE) 0
        replay3 (replicate 32 0) (replicate 16 0) (replicate 8 0) []), Nl_sent m1, Nl_sent m2]"
  using four_way [OF assms] by blast

text \<open>With an empty state, nonces of zeros and a CCMP group key of sevens.\<close>

theorem four_way_handshake_witness:
  "\<exists>w1 v. let w = ready_state\<lparr>w_eapolstate := ES_WAITING_1_4, w_eapolsends := True\<rparr>;
      keys = pairwise_keys (replicate 32 0) (replicate 6 0) (replicate 6 0) (replicate 32 0) (replicate 32 0) in
    handle_rawsock calm_env (Some (replicate 6 0, key_packet 2 0x8A 16 (replicate 8 0) (replicate 32 0) (replicate 16 0) (replicate 8 0) (replicate 16 0) [])) w = Go w1 \<and>
    handle_rawsock calm_env (Some (replicate 6 0, signed_packet (slice 0 16 keys) 2 0x13CA 16 [0, 0, 0, 0, 0, 0, 0, 1] (replicate 32 0) (replicate 16 0) (replicate 8 0)
      (wrapped (slice 16 16 keys) (key_data [] 1 (replicate 16 7) [])))) w1 = handle_connect calm_env v \<and> w_eapolstate v = ES_NEGOTIATED"
proof -
  let ?w = "ready_state\<lparr>w_eapolstate := ES_WAITING_1_4, w_eapolsends := True\<rparr>"
  let ?kd = "key_data [] 1 (replicate 16 7) []"
  have w: "w_ap ?w = zero_ap" "w_PSK ?w = replicate 32 0" "w_smac ?w = replicate 6 0"
    by (simp_all add: ready_state_def static_state_def)
  have ok: "wst_ok ?w" by (simp add: ready_state_ok)
  have 1: "awaiting_first calm_env ?w" using ok by (simp add: awaiting_first_def calm_env_def)
  have 2: "take 6 (replicate 6 0) = ap_bssid (w_ap ?w)" by (simp add: w zero_ap_def)
  have 3: "en_rand calm_env = Some (replicate 32 0)" by (simp add: calm_env_def)
  have 4: "pairwise_keys (replicate 32 0) (replicate 6 0) (replicate 6 0) (replicate 32 0) (replicate 32 0)
    = pairwise_keys (w_PSK ?w) (ap_bssid (w_ap ?w)) (w_smac ?w) (replicate 32 0) (take 32 (replicate 32 0))" by (simp add: w zero_ap_def)
  have 5: "sized (replicate 8 0) (replicate 32 0) (replicate 16 0) (replicate 8 0) (replicate 16 0) []"
    "sized [0, 0, 0, 0, 0, 0, 0, 1] (replicate 32 0) (replicate 16 0) (replicate 8 0) (replicate 16 0) []" by (simp_all add: sized_def)
  have 6: "key_type 0x8A (KI_PAIRWISE OR KI_ACK)" "key_type 0x13CA FLAGS_3" by (simp_all add: key_type_def)
  have 7: "group_key_sent (ap_tkipgroup (w_ap ?w)) [] 1 (replicate 16 7) ?kd"
    unfolding group_key_sent_def
    by (intro conjI exI [of _ "[]"]) (simp_all add: w zero_ap_def key_data_def kde_bytes_def gtk_kde_def kde_type_gtk_def)
  have 8: "(replicate 8 0 :: bytes) < [0, 0, 0, 0, 0, 0, 0, 1]" by (simp add: numeral_eq_Suc)
  from four_way_handshake [OF 1 2 3 _ 4 5(1) 6(1) 7 5(2) 6(2) 8, of 2 16 2 16] show ?thesis
    by (simp add: Let_def) blast
qed

end
