(* ===== verification/Key_Safety.thy ===== *)
theory Key_Safety imports Handshake begin

text \<open>
  What the key handshake keeps out, and what it does not: a packet that is not authentic changes no key
  and starts no upload; a group key packet under the current keys is obeyed; and since the reset of the
  EAPOL state leaves zero keys in a state that still takes group keys, anyone can make such a packet.
\<close>

section \<open>Forged packets\<close>

text \<open>The integrity code in a packet is the right one.\<close>

definition mic_valid :: "bytes \<Rightarrow> bytes \<Rightarrow> bool" where
  "mic_valid kck data \<longleftrightarrow>
     slice EK_MIC 16 data = take 16 (hmac_spec kck (memcpy_at data EK_MIC (replicate 16 0)))"

text \<open>
  What a packet must be like to be obeyed once the keys are there: from the access point, complete,
  with the flags for the state, newer than the last one, signed under the current key, and in the
  handshake with the nonce of the first packet.
\<close>

definition authentic :: "wst \<Rightarrow> bytes \<Rightarrow> bytes \<Rightarrow> bool" where
  "authentic w sender data \<longleftrightarrow>
     take 6 sender = ap_bssid (w_ap w) \<and> EK_SIZE \<le> length data \<and>
     length data = unat (ek_short EK_PACLEN data) + 4 \<and>
     w_replay w < slice EK_REPLAY 8 data \<and> mic_valid (w_KCK w) data \<and>
     (if w_eapolstate w = ES_WAITING_3_4
      then key_type (ek_short EK_KEYINFO data) FLAGS_3 \<and> slice EK_NONCE 32 data = w_anonce w
      else w_eapolstate w = ES_NEGOTIATED \<and>
        key_type (ek_short EK_KEYINFO data) (KI_SECURE OR KI_ENCRYPTED OR KI_ACK OR KI_MIC))"

lemma of_be16_front: "2 \<le> length xs \<Longrightarrow> of_be16 (xs @ ys) = of_be16 xs"
  by (cases xs; cases "tl xs") auto

lemma front_fields:
  assumes "EK_SIZE \<le> length data" "p = data @ zs"
  shows "ek_short EK_PACLEN p = ek_short EK_PACLEN data" "ek_short EK_KEYINFO p = ek_short EK_KEYINFO data"
    "slice EK_REPLAY 8 p = slice EK_REPLAY 8 data" "slice EK_NONCE 32 p = slice EK_NONCE 32 data"
    "slice EK_MIC 16 p = slice EK_MIC 16 data"
    "take (length data) (memcpy_at p EK_MIC (replicate 16 0)) = memcpy_at data EK_MIC (replicate 16 0)"
  using assms(1) by (simp_all add: assms(2) ek_short_def of_be16_front slice_append_left memcpy_at_def)

lemma mic_fails_invalid:
  assumes "wst_ok w" "EK_SIZE \<le> length data" "w_packet w = data @ zs" "length data = unat (ek_short EK_PACLEN data) + 4"
  shows "fst (mic_fails w) = 0 \<longleftrightarrow> mic_valid (w_KCK w) data"
    and "snd (mic_fails w) = w\<lparr>w_packet := memcpy_at (w_packet w) EK_MIC (replicate 16 0)\<rparr>"
proof -
  have k: "length (w_KCK w) = 16" using assms(1) by (simp add: wst_ok_def keys_ok_def)
  note f = front_fields [OF assms(2,3)]
  have n: "4 + unat (ek_short EK_PACLEN (w_packet w)) = length data" using f(1) assms(4) by simp
  have l: "EK_MIC + 16 \<le> length data" "length data \<le> length (w_packet w)" using assms(2,3) by simp_all
  note c = check_mic_zero_iff [OF l k]
  show "fst (mic_fails w) = 0 \<longleftrightarrow> mic_valid (w_KCK w) data"
    "snd (mic_fails w) = w\<lparr>w_packet := memcpy_at (w_packet w) EK_MIC (replicate 16 0)\<rparr>"
    unfolding mic_fails_def Let_def n using c f(5,6) by (simp_all add: mic_valid_def case_prod_beta)
qed

text \<open>
  C9. Only authentic packets count: once the first packet has been answered, every packet that is not
  from the access point, incomplete, with other flags, replayed, under another integrity key or with
  another nonce ends either in nothing at all or in the connection being given up; apart from the
  packet buffer no part of the state is touched before that, so no key is replaced or installed.
\<close>

theorem forged_packets_rejected:
  assumes "wst_ok w" and "w_eapolstate w \<noteq> ES_WAITING_1_4" and "length data \<le> 1024" and "6 \<le> length sender"
    and "\<not> authentic w sender data"
  shows "\<exists>p. handle_rawsock E (Some (sender, data)) w \<in> {Go (w\<lparr>w_packet := p\<rparr>), abort_connection E (w\<lparr>w_packet := p\<rparr>)}"
proof -
  define zs where "zs = drop (length data) (w_packet w)"
  define x where "x = w\<lparr>w_packet := data @ zs\<rparr>"
  have len: "length (w_packet w) = 1024" "length (w_replay w) = 8" "length (w_anonce w) = 32" "length (ap_bssid (w_ap w)) = 6"
    using assms(1) by (simp_all add: wst_ok_def keys_ok_def ap_ok_def)
  then have x: "wst_ok x" "w_packet x = data @ zs" using assms(1,3) by (simp_all add: x_def zs_def wst_ok_packet)
  have run: "handle_rawsock E (Some (sender, data)) w =
    (if memcmp (ap_bssid (w_ap w)) (take 6 sender) \<noteq> 0 then Go x
     else if length data < EK_SIZE then Go x
     else if unat (ek_short EK_PACLEN (w_packet x)) + 4 \<noteq> length data then Go x
     else if EK_SIZE + unat (ek_short EK_PAYLEN (w_packet x)) > length data then Go x
     else if ek_byte EK_PACTYPE (w_packet x) \<noteq> EAPOL_KEY then Go x
     else dispatch_eapol E x)"
    using assms(3) by (simp add: handle_rawsock_def x_def zs_def memcpy_at_def Let_def)
  let ?G = "\<lambda>r. \<exists>p. r \<in> {Go (w\<lparr>w_packet := p\<rparr>), abort_connection E (w\<lparr>w_packet := p\<rparr>)}"
  have G: "?G (Go (x\<lparr>w_packet := p\<rparr>))" "?G (abort_connection E (x\<lparr>w_packet := p\<rparr>))" for p
    by (auto simp: x_def)
  have G: "?G (Go x)" "?G (abort_connection E x)" "?G (Go (snd (mic_fails x)))" "?G (abort_connection E (snd (mic_fails x)))"
    if "EK_SIZE \<le> length data" "length data = unat (ek_short EK_PACLEN data) + 4"
    using G [of "w_packet x"] G [of "memcpy_at (w_packet x) EK_MIC (replicate 16 0)"] mic_fails_invalid(2) [OF x(1) that(1) x(2) that(2)]
    by simp_all
  have Gx: "?G (Go x)" by (auto simp: x_def)
  have from_ap: "memcmp (ap_bssid (w_ap w)) (take 6 sender) = 0 \<longleftrightarrow> take 6 sender = ap_bssid (w_ap w)"
    using len(4) assms(4) memcmp_eq_0 [of "ap_bssid (w_ap w)" "take 6 sender"] by auto
  show ?thesis
  proof (cases "memcmp (ap_bssid (w_ap w)) (take 6 sender) = 0 \<and> EK_SIZE \<le> length data \<and> unat (ek_short EK_PACLEN (w_packet x)) + 4 = length data")
    case False
    then show ?thesis using Gx run by (auto simp: not_le)
  next
    case True
    then have sz: "EK_SIZE \<le> length data" by simp
    note f = front_fields [OF sz x(2)]
    have n: "length data = unat (ek_short EK_PACLEN data) + 4" using True f(1) by simp
    note G = G [OF sz n]
    have rep: "memcmp (w_replay w) (slice EK_REPLAY 8 data) \<ge> 0 \<longleftrightarrow> \<not> w_replay w < slice EK_REPLAY 8 data"
      using len(2) sz by (intro memcmp_ge) simp
    have non: "memcmp (w_anonce w) (slice EK_NONCE 32 data) = 0 \<longleftrightarrow> slice EK_NONCE 32 data = w_anonce w"
      using len(3) sz by (auto simp: memcmp_eq_0)
    have mic: "fst (mic_fails x) = 0 \<longleftrightarrow> mic_valid (w_KCK w) data"
      using mic_fails_invalid(1) [OF x(1) sz x(2) n] by (simp add: x_def)
    have wx: "w_replay x = w_replay w" "w_anonce x = w_anonce w" "w_eapolstate x = w_eapolstate w" by (simp_all add: x_def)
    have auth: "\<not> (w_replay w < slice EK_REPLAY 8 data \<and> mic_valid (w_KCK w) data \<and>
     (if w_eapolstate w = ES_WAITING_3_4
      then key_type (ek_short EK_KEYINFO data) FLAGS_3 \<and> slice EK_NONCE 32 data = w_anonce w
      else w_eapolstate w = ES_NEGOTIATED \<and>
        key_type (ek_short EK_KEYINFO data) (KI_SECURE OR KI_ENCRYPTED OR KI_ACK OR KI_MIC)))"
      using assms(5) True sz n from_ap unfolding authentic_def by blast
    have "?G (recv_packet_3 E x)" if "w_eapolstate w = ES_WAITING_3_4"
      using auth that G unfolding recv_packet_3_def Let_def ptype_key_type f(2-4) wx rep non case_prod_beta mic
      by (simp split del: if_split) (auto simp: rep non mic)
    moreover have "?G (recv_group_1 E x)" if "w_eapolstate w = ES_NEGOTIATED"
      using auth that G unfolding recv_group_1_def Let_def ptype_key_type f(2-4) wx rep non case_prod_beta mic
      by auto
    ultimately have "?G (dispatch_eapol E x)"
      using assms(2) Gx wx(3) by (cases "w_eapolstate w") (auto simp: dispatch_eapol_def)
    with Gx run show ?thesis by auto
  qed
qed

theorem forged_packets_rejected_witness:
  "\<exists>p. handle_rawsock calm_env (Some (replicate 6 0, key_packet 2 0x1382 16 (replicate 8 0) (replicate 32 0) (replicate 16 0) (replicate 8 0) (replicate 16 0) []))
      (ready_state\<lparr>w_eapolstate := ES_NEGOTIATED\<rparr>)
    \<in> {Go (ready_state\<lparr>w_eapolstate := ES_NEGOTIATED, w_packet := p\<rparr>),
       abort_connection calm_env (ready_state\<lparr>w_eapolstate := ES_NEGOTIATED, w_packet := p\<rparr>)}"
proof -
  let ?w = "ready_state\<lparr>w_eapolstate := ES_NEGOTIATED\<rparr>"
  let ?d = "key_packet 2 0x1382 16 (replicate 8 0) (replicate 32 0) (replicate 16 0) (replicate 8 0) (replicate 16 0) []"
  have z: "sized (replicate 8 0) (replicate 32 0) (replicate 16 0) (replicate 8 0) (replicate 16 0) []" by (simp add: sized_def)
  have "slice EK_REPLAY 8 ?d = replicate 8 0" using key_packet_fields(6) [OF z, where p = ?d and zs = "[]" and ver = 2 and info = "0x1382" and keylen = 16] by simp
  then have "\<not> authentic ?w (replicate 6 0) ?d" by (simp add: authentic_def ready_state_def static_state_def)
  moreover have "wst_ok ?w" "length ?d \<le> 1024" using ready_state_ok length_key_packet [OF z] by simp_all
  ultimately show ?thesis
    using forged_packets_rejected [of ?w ?d "replicate 6 0" calm_env] by simp
qed

section \<open>Group keys\<close>

lemma send_group_2_sent:
  assumes "wst_ok w" "\<And>m. en_raw_send E m = int (length m)"
  shows "\<exists>p r. length p = 1024 \<and> send_group_2 E w = upload_gtk E (emit (Raw_sent (w_amac w) r) (w\<lparr>w_packet := p\<rparr>))"
proof -
  let ?s = "sign_packet EK_SIZE (put_ek EK_PACLEN (be16 (word_of_nat EK_SIZE)) (put_ek EK_PAYLEN (be16 0)
    (put_header (KI_MIC OR KI_SECURE) 0 (replicate 32 0) w)))"
  have s: "?s = w\<lparr>w_packet := w_packet ?s\<rparr>"
    by (simp add: sign_packet_def put_ek_def put_header_def zero_ek_def Let_def)
  have "wst_ok ?s" by (intro wf_sign_packet wf_put_ek wf_put_header assms(1)) simp_all
  then have l: "length (w_packet ?s) = 1024" by (rule packet_length)
  have "send_packet E EK_SIZE ?s = Go (0, emit (Raw_sent (w_amac w) (take EK_SIZE (w_packet ?s))) ?s)"
    using send_packet_sent [of ?s "take EK_SIZE (w_packet ?s)" "drop EK_SIZE (w_packet ?s)" E] assms(2) l arg_cong [OF s, of w_amac] by simp
  then have "send_group_2 E w = upload_gtk E (emit (Raw_sent (w_amac w) (take EK_SIZE (w_packet ?s))) (w\<lparr>w_packet := w_packet ?s\<rparr>))"
    unfolding send_group_2_def Let_def using s by simp
  with l show ?thesis by blast
qed

text \<open>The flags of a group key packet.\<close>

abbreviation (input) FLAGS_GROUP :: u16 where
  "FLAGS_GROUP \<equiv> KI_SECURE OR KI_ENCRYPTED OR KI_ACK OR KI_MIC"

abbreviation (input) FLAGS_GROUP_SHA :: u16 where
  "FLAGS_GROUP_SHA \<equiv> FLAGS_GROUP OR KI_SHA"

lemma group_packet:
  assumes "wst_ok w" "w_eapolstate w = ES_NEGOTIATED" "take 6 sender = ap_bssid (w_ap w)"
    and "sized replay nonce iv rsc (replicate 16 0) (wrapped (w_KEK w) kdata)" "key_type info FLAGS_GROUP" "w_replay w < replay"
    and "kdata = key_data ks idx gtk rst" "length kdata mod 8 = 0" "\<forall>k \<in> set ks. other_kde k" "idx AND 3 \<noteq> 0"
    and "length gtk = (if ap_tkipgroup (w_ap w) then 32 else 16)" "\<And>m. en_raw_send E m = int (length m)"
  shows "\<exists>p r. let v = emit (Raw_sent (w_amac w) r)
      (w\<lparr>w_gtkindex := idx AND 3, w_GTK := group_key (ap_tkipgroup (w_ap w)) gtk (w_GTK w), w_RSC := take 6 rsc,
         w_replay := replay, w_packet := p\<rparr>) in
    wst_ok v \<and> handle_rawsock E (Some (sender, signed_packet (w_KCK w) ver info keylen replay nonce iv rsc (wrapped (w_KEK w) kdata))) w = upload_gtk E v"
proof -
  let ?pay = "wrapped (w_KEK w) kdata"
  let ?mic = "take 16 (hmac_spec (w_KCK w) (key_packet ver info keylen replay nonce iv rsc (replicate 16 0) ?pay))"
  have z: "sized replay nonce iv rsc ?mic ?pay" using assms(4) by (simp add: sized_def)
  define zs where "zs = drop (99 + length ?pay) (w_packet w)"
  define x where "x = w\<lparr>w_packet := signed_packet (w_KCK w) ver info keylen replay nonce iv rsc ?pay @ zs\<rparr>"
  note f = key_packet_fields [OF z refl, where ver = ver and info = info and keylen = keylen and zs = zs]
  have k: "length (w_replay w) = 8"
    using assms(1) by (simp_all add: wst_ok_def keys_ok_def)
  have run: "handle_rawsock E (Some (sender, signed_packet (w_KCK w) ver info keylen replay nonce iv rsc ?pay)) w = recv_group_1 E x"
    using handle_framed [OF z assms(1,3) refl] assms(2) by (simp add: signed_packet_def x_def zs_def dispatch_eapol_def)
  have pre: "ek_byte EK_TYPE (w_packet x) = EAPOL_KEY_RSN" "ek_short EK_KEYINFO (w_packet x) = info" "slice EK_REPLAY 8 (w_packet x) = replay"
    using f(3,5,6) by (simp_all add: x_def signed_packet_def)
  have newer: "\<not> memcmp (w_replay w) replay \<ge> 0"
    using assms(4,6) k by (simp add: memcmp_ge sized_def)
  obtain p y where s: "let u = w\<lparr>w_packet := p, w_gtkindex := idx AND 3, w_GTK := group_key (ap_tkipgroup (w_ap w)) gtk (w_GTK w),
      w_RSC := take 6 rsc, w_replay := replay\<rparr> in mic_fails x = (0, y) \<and> take_keys y = (0, u) \<and> wst_ok u"
    using signed_keys [OF assms(1,4,7-11) refl zs_def] unfolding x_def by blast
  define u where "u = w\<lparr>w_packet := p, w_gtkindex := idx AND 3,
      w_GTK := group_key (ap_tkipgroup (w_ap w)) gtk (w_GTK w), w_RSC := take 6 rsc, w_replay := replay\<rparr>"
  have u: "wst_ok u" "mic_fails x = (0, y)" "take_keys y = (0, u)" using s by (simp_all add: Let_def u_def)
  have "recv_group_1 E x = send_group_2 E u"
    using pre newer u(2,3) assms(5) by (simp add: recv_group_1_def ptype_key_type Let_def x_def)
  moreover obtain q r where q: "length q = 1024" "send_group_2 E u = upload_gtk E (emit (Raw_sent (w_amac u) r) (u\<lparr>w_packet := q\<rparr>))"
    using send_group_2_sent [OF u(1), of E] assms(12) by auto
  moreover have "wst_ok (emit (Raw_sent (w_amac u) r) (u\<lparr>w_packet := q\<rparr>))" using wst_ok_packet [OF u(1) q(1)] by simp
  ultimately show ?thesis
    using run by (intro exI [of _ q] exI [of _ r]) (simp add: Let_def u_def)
qed

text \<open>
  C10. The keys are forgotten but the state is not: \<open>reset_eapol_state\<close> overwrites the key check and
  key encryption keys with zeros and leaves the handshake state where group keys are accepted. From
  then on a packet made from public values alone, signed and wrapped under sixteen zero bytes, gets
  the group key of anybody's choice into the kernel, for every claimed station address that matches
  and every replay counter above the last one seen.
\<close>

theorem reset_keys_forgeable:
  assumes "wst_ok w" and "w_eapolstate w = ES_NEGOTIATED" and "take 6 sender = ap_bssid (w_ap w)"
    and "sized replay nonce iv rsc (replicate 16 0) (wrapped (replicate 16 0) kdata)" and "w_replay w < replay"
    and "group_key_sent (ap_tkipgroup (w_ap w)) ks idx gtk kdata" and "\<And>m. en_raw_send E m = int (length m)" and "\<And>n. en_nl_ok E n"
  shows "\<exists>v m. handle_rawsock E (Some (sender, signed_packet (replicate 16 0) ver FLAGS_GROUP_SHA keylen replay nonce iv rsc (wrapped (replicate 16 0) kdata)))
      (reset_eapol_state w) = Go v \<and>
    genl_msg (w_nl80211 w) NLM_F_REQUEST (nl_seq (w_nl w) + 1) NL80211_CMD_NEW_KEY (gtk_attrs (w\<lparr>w_gtkindex := idx AND 3, w_RSC := take 6 rsc,
      w_GTK := group_key (ap_tkipgroup (w_ap w)) gtk (replicate 32 0)\<rparr>)) m \<and>
    last (w_out v) = Nl_sent m"
proof -
  let ?w = "reset_eapol_state w"
  have w: "wst_ok ?w" using assms(1) by (rule wf_cleanup(2))
  have f: "w_eapolstate ?w = ES_NEGOTIATED" "w_ap ?w = w_ap w" "w_KCK ?w = replicate 16 0" "w_KEK ?w = replicate 16 0" "w_replay ?w = w_replay w"
    "w_GTK ?w = replicate 32 0" "w_nl ?w = w_nl w" "w_nl80211 ?w = w_nl80211 w" "w_ifindex ?w = w_ifindex w"
    using assms(2) by (simp_all add: reset_eapol_state_def cleanup_keys_def)
  have g: "\<forall>k \<in> set ks. other_kde k" "idx AND 3 \<noteq> 0" "length gtk = (if ap_tkipgroup (w_ap w) then 32 else 16)"
    "length kdata mod 8 = 0" and "\<exists>rst. kdata = key_data ks idx gtk rst"
    using assms(6) unfolding group_key_sent_def by simp_all
  then obtain rst where kd: "kdata = key_data ks idx gtk rst" by blast
  have info: "key_type FLAGS_GROUP_SHA FLAGS_GROUP" by (simp add: key_type_def)
  obtain p r where pr: "let v = emit (Raw_sent (w_amac ?w) r) (?w\<lparr>w_gtkindex := idx AND 3,
      w_GTK := group_key (ap_tkipgroup (w_ap w)) gtk (replicate 32 0), w_RSC := take 6 rsc, w_replay := replay, w_packet := p\<rparr>) in
    wst_ok v \<and> handle_rawsock E (Some (sender, signed_packet (replicate 16 0) ver FLAGS_GROUP_SHA keylen replay nonce iv rsc (wrapped (replicate 16 0) kdata))) ?w
      = upload_gtk E v"
    using group_packet [OF w f(1) _ _ info _ kd g(4,1,2) _ assms(7), of sender replay nonce iv rsc ver keylen] assms(3-5) f g(3) by auto
  define v where "v = emit (Raw_sent (w_amac ?w) r) (?w\<lparr>w_gtkindex := idx AND 3,
      w_GTK := group_key (ap_tkipgroup (w_ap w)) gtk (replicate 32 0), w_RSC := take 6 rsc, w_replay := replay, w_packet := p\<rparr>)"
  have v: "wst_ok v" "handle_rawsock E (Some (sender, signed_packet (replicate 16 0) ver FLAGS_GROUP_SHA keylen replay nonce iv rsc
      (wrapped (replicate 16 0) kdata))) ?w = upload_gtk E v"
    using pr by (simp_all add: Let_def v_def)
  have attrs: "gtk_attrs v = gtk_attrs (w\<lparr>w_gtkindex := idx AND 3, w_RSC := take 6 rsc, w_GTK := group_key (ap_tkipgroup (w_ap w)) gtk (replicate 32 0)\<rparr>)"
    "w_nl80211 v = w_nl80211 w" "w_nl v = w_nl w"
    by (simp_all add: v_def gtk_attrs_def emit_def f)
  obtain m nl where "genl_msg (w_nl80211 v) NLM_F_REQUEST (nl_seq (w_nl v) + 1) NL80211_CMD_NEW_KEY (gtk_attrs v) m"
    "upload_gtk E v = Go (emit (Nl_sent m) (v\<lparr>w_nl := nl\<rparr>))"
    using upload_built(2) [OF v(1) assms(8)] by blast
  with v(2) attrs show ?thesis
    by (intro exI [of _ "emit (Nl_sent m) (v\<lparr>w_nl := nl\<rparr>)"] exI [of _ m]) (simp add: emit_def)
qed

theorem reset_keys_forgeable_witness:
  "\<exists>v m. handle_rawsock calm_env (Some (replicate 6 0, signed_packet (replicate 16 0) 2 FLAGS_GROUP_SHA 16 [0, 0, 0, 0, 0, 0, 0, 1] (replicate 32 0)
      (replicate 16 0) (replicate 8 0) (wrapped (replicate 16 0) (key_data [] 1 (replicate 16 7) []))))
      (reset_eapol_state (ready_state\<lparr>w_eapolstate := ES_NEGOTIATED\<rparr>)) = Go v \<and> last (w_out v) = Nl_sent m"
proof -
  let ?w = "ready_state\<lparr>w_eapolstate := ES_NEGOTIATED\<rparr>"
  let ?kd = "key_data [] 1 (replicate 16 7) []"
  have ap: "w_ap ?w = zero_ap" "w_replay ?w = replicate 8 0" by (simp_all add: ready_state_def static_state_def)
  have ok: "wst_ok ?w" by (simp add: ready_state_ok)
  have len: "length ?kd = 24" by (simp add: key_data_def kde_bytes_def gtk_kde_def kde_type_gtk_def)
  have 1: "take 6 (replicate 6 0) = ap_bssid (w_ap ?w)" by (simp add: ap zero_ap_def)
  have 2: "sized [0, 0, 0, 0, 0, 0, 0, 1] (replicate 32 0) (replicate 16 0) (replicate 8 0) (replicate 16 0) (wrapped (replicate 16 0) ?kd)"
    by (simp add: sized_def length_wrapped len)
  have 3: "w_replay ?w < [0, 0, 0, 0, 0, 0, 0, 1]" by (simp add: ap numeral_eq_Suc)
  have 4: "group_key_sent (ap_tkipgroup (w_ap ?w)) [] 1 (replicate 16 7) ?kd"
    unfolding group_key_sent_def len by (intro conjI exI [of _ "[]"]) (simp_all add: ap zero_ap_def)
  have 5: "\<And>m. en_raw_send calm_env m = int (length m)" "\<And>n. en_nl_ok calm_env n" by (simp_all add: calm_env_def)
  from reset_keys_forgeable [OF ok _ 1 2 3 4 5, of 2 16] show ?thesis by auto
qed

end
