(* ===== verification/Joining.thy ===== *)
theory Joining imports Handshake begin

text \<open>
  A connection from the answer of the access point to the uploaded keys, across wsupp_netlink.c and
  wsupp_eapol.c: the netlink events start the handshake, and its first packet may overtake the one
  that says it may be answered.
\<close>

section \<open>The race of the first packet\<close>

text \<open>What the associate event adds to a state: the daemon may answer packets.\<close>

definition answering :: "wst \<Rightarrow> wst" where
  "answering w = w\<lparr>w_authstate := AS_CONNECTING, w_eapolsends := True\<rparr>"

lemma answering_simps [simp]:
  "w_ap (answering w) = w_ap w" "w_packet (answering w) = w_packet w" "w_eapolstate (answering w) = w_eapolstate w"
  "w_eapolsends (answering w)" "w_authstate (answering w) = AS_CONNECTING"
  "wst_ok (answering w) = wst_ok w" "pmk_to_ptk E (answering w) = answering (pmk_to_ptk E w)"
  by (simp_all add: answering_def pmk_to_ptk_def case_prod_beta Let_def)

text \<open>The state after the second packet.\<close>

definition answered :: "wst \<Rightarrow> wst" where
  "answered w = emit (Raw_sent (w_amac w) (sent_2 w))
     (w\<lparr>w_packet := sent_2 w @ drop (99 + length (ap_ies (w_ap w))) (w_packet w), w_eapolstate := ES_WAITING_3_4\<rparr>)"

lemma answered_simps:
  "answered (answering w) = answering (answered w)" "answered (w\<lparr>w_eapolstate := s\<rparr>) = answered w"
  by (simp_all add: answered_def answering_def emit_def our_packet_def)

lemma packet_1_race:
  assumes "wst_ok w" "w_authstate w = AS_ASSOCIATING" "w_eapolstate w = ES_WAITING_1_4"
    and "ek_byte EK_TYPE (w_packet w) = EAPOL_KEY_RSN" "en_rand E = Some rand" "32 \<le> length rand"
    and "\<not> w_eapolsends w" "\<And>m. en_raw_send E m = int (length m)"
  shows "\<exists>v. chain (recv_packet_1 E w) (cmd_associate E) = Go v \<and> recv_packet_1 E (answering w) = Go (v\<lparr>w_eapolsends := True\<rparr>) \<and>
    w_authstate v = AS_CONNECTING"
proof (cases "ptype (w_packet w) (KI_PAIRWISE OR KI_ACK)")
  case True
  define x where "x = w\<lparr>w_version := ek_byte EK_VERSION (w_packet w), w_anonce := slice EK_NONCE 32 (w_packet w),
    w_replay := slice EK_REPLAY 8 (w_packet w), w_snonce := take 32 rand\<rparr>"
  define y where "y = pmk_to_ptk E x"
  have "wst_ok x"
    using assms(1,6) packet_length [OF assms(1)] by (simp add: x_def wst_ok_def keys_ok_def scan_state_ok_def)
  then have y: "wst_ok y" unfolding y_def by (rule wf_pmk_to_ptk)
  have yw: "w_eapolsends y = w_eapolsends w" "w_authstate y = AS_ASSOCIATING"
    using assms(2) by (simp_all add: y_def x_def pmk_to_ptk_def case_prod_beta Let_def)
  have sent: "send_packet_2 E u = Go (answered u)" if "wst_ok u" for u
    using send_packet_2_sent [OF that] assms(8) by (simp add: answered_def)
  have ax: "(answering w)\<lparr>w_version := ek_byte EK_VERSION (w_packet w), w_anonce := slice EK_NONCE 32 (w_packet w),
    w_replay := slice EK_REPLAY 8 (w_packet w), w_snonce := take 32 rand\<rparr> = answering x" by (simp add: x_def answering_def)
  have "recv_packet_1 E (answering w) = Go (answering (answered y))"
    using True assms(4,5,6) sent [of "answering y"] y
    by (simp add: recv_packet_1_def fill_rand_def ax y_def [symmetric] answered_simps Let_def)
  moreover have "recv_packet_1 E w = Go (y\<lparr>w_eapolstate := ES_WAITING_2_4\<rparr>)"
    using True assms(4-7) yw(1) by (simp add: recv_packet_1_def fill_rand_def x_def [symmetric] y_def [symmetric] Let_def)
  moreover have "cmd_associate E (y\<lparr>w_eapolstate := ES_WAITING_2_4\<rparr>) = Go ((answered y)\<lparr>w_authstate := AS_CONNECTING\<rparr>)"
    using sent [of "y\<lparr>w_eapolstate := ES_WAITING_2_4\<rparr>"] y yw by (simp add: cmd_associate_def allow_eapol_sends_def answered_simps)
  ultimately show ?thesis by (simp add: answering_def)
next
  case False
  then show ?thesis
    using assms(2-4) by (simp add: recv_packet_1_def cmd_associate_def allow_eapol_sends_def answering_def)
qed

text \<open>
  C8. The first packet of the handshake and the event that lets the daemon answer come from two sockets
  in either order. The order does not matter: after the answer to AUTHENTICATE, with packets going out
  and random numbers to be had, every RSN key packet before the ASSOCIATE event leads to the same state
  as after it, with the same packet 2 sent, except that the flag that delayed it is set only in one of
  the two (it is not read again before the next connection).
\<close>

theorem packet_1_and_associate_commute:
  assumes "wst_ok w" and "w_authstate w = AS_ASSOCIATING" and "w_eapolstate w = ES_WAITING_1_4" and "\<not> w_eapolsends w"
    and "length data \<le> 1024" and "ek_byte EK_TYPE data = EAPOL_KEY_RSN"
    and "en_rand E = Some rand" and "32 \<le> length rand" and "\<And>m. en_raw_send E m = int (length m)"
  shows "\<exists>v. chain (handle_rawsock E (Some (sender, data)) w) (cmd_associate E) = Go v \<and>
    chain (cmd_associate E w) (handle_rawsock E (Some (sender, data))) = Go (v\<lparr>w_eapolsends := True\<rparr>) \<and>
    w_authstate v = AS_CONNECTING"
proof -
  define x where "x = w\<lparr>w_packet := memcpy_at (w_packet w) 0 data\<rparr>"
  have "length (w_packet w) = 1024" by (rule packet_length [OF assms(1)])
  then have x: "wst_ok x" "w_authstate x = AS_ASSOCIATING" "w_eapolstate x = ES_WAITING_1_4" "\<not> w_eapolsends x"
    using assms(1-5) by (simp_all add: x_def wst_ok_packet length_memcpy_at)
  define bad where "bad \<longleftrightarrow> memcmp (ap_bssid (w_ap w)) (take 6 sender) \<noteq> 0 \<or> length data < EK_SIZE \<or>
    unat (ek_short EK_PACLEN (w_packet x)) + 4 \<noteq> length data \<or> EK_SIZE + unat (ek_short EK_PAYLEN (w_packet x)) > length data \<or>
    ek_byte EK_PACTYPE (w_packet x) \<noteq> EAPOL_KEY"
  have run: "handle_rawsock E (Some (sender, data)) w = (if bad then Go x else recv_packet_1 E x)"
    using assms(3,5) by (simp add: handle_rawsock_def x_def bad_def dispatch_eapol_def Let_def)
  have assoc: "cmd_associate E u = Go (answering u)" if "w_authstate u = AS_ASSOCIATING" "w_eapolstate u = ES_WAITING_1_4" for u
    using that by (simp add: cmd_associate_def allow_eapol_sends_def answering_def)
  have "answering x = (answering w)\<lparr>w_packet := memcpy_at (w_packet w) 0 data\<rparr>" by (simp add: x_def answering_def)
  moreover have "w_packet x = memcpy_at (w_packet w) 0 data" by (simp add: x_def)
  ultimately have "handle_rawsock E (Some (sender, data)) (answering w) = (if bad then Go (answering x) else recv_packet_1 E (answering x))"
    using assms(3,5) by (simp add: handle_rawsock_def bad_def dispatch_eapol_def Let_def)
  with assoc [OF assms(2,3)] have run': "chain (cmd_associate E w) (handle_rawsock E (Some (sender, data)))
      = (if bad then Go (answering x) else recv_packet_1 E (answering x))" by simp
  show ?thesis
  proof (cases bad)
    case True
    then show ?thesis using run run' assoc [OF x(2,3)] by (simp add: answering_def)
  next
    case False
    then have "ek_byte EK_TYPE (w_packet x) = EAPOL_KEY_RSN"
      using assms(6) by (simp add: bad_def x_def ek_byte_def memcpy_at_def nth_append)
    from packet_1_race [OF x(1-3) this assms(7,8) x(4) assms(9)] run run' False show ?thesis by simp
  qed
qed

theorem packet_1_and_associate_commute_witness:
  "\<exists>v. let w = ready_state\<lparr>w_authstate := AS_ASSOCIATING, w_eapolstate := ES_WAITING_1_4\<rparr>;
      d = key_packet 2 0x8A 16 (replicate 8 0) (replicate 32 0) (replicate 16 0) (replicate 8 0) (replicate 16 0) [] in
    chain (handle_rawsock calm_env (Some (replicate 6 0, d)) w) (cmd_associate calm_env) = Go v \<and>
    chain (cmd_associate calm_env w) (handle_rawsock calm_env (Some (replicate 6 0, d))) = Go (v\<lparr>w_eapolsends := True\<rparr>)"
proof -
  let ?w = "ready_state\<lparr>w_authstate := AS_ASSOCIATING, w_eapolstate := ES_WAITING_1_4\<rparr>"
  let ?d = "key_packet 2 0x8A 16 (replicate 8 0) (replicate 32 0) (replicate 16 0) (replicate 8 0) (replicate 16 0) []"
  have z: "sized (replicate 8 0) (replicate 32 0) (replicate 16 0) (replicate 8 0) (replicate 16 0) []" by (simp add: sized_def)
  have "\<not> w_eapolsends ready_state" by (simp add: ready_state_def static_state_def)
  then have w: "wst_ok ?w" "\<not> w_eapolsends ?w" using ready_state_ok by simp_all
  have d: "length ?d \<le> 1024" "ek_byte EK_TYPE ?d = EAPOL_KEY_RSN"
    using length_key_packet [OF z] key_packet_fields(3) [OF z, where p = ?d and zs = "[]" and ver = 2 and info = "0x8A" and keylen = 16] by simp_all
  have E: "en_rand calm_env = Some (replicate 32 0)" "\<And>m. en_raw_send calm_env m = int (length m)" by (simp_all add: calm_env_def)
  from packet_1_and_associate_commute [OF w(1) _ _ w(2) d E(1) _ E(2), of "replicate 6 0"] show ?thesis
    by (simp add: Let_def) blast
qed

section \<open>From authentication to keys\<close>

lemma association_built:
  assumes "wst_ok w" "\<And>n. en_nl_ok E n"
  shows "\<exists>m nl. genl_msg (w_nl80211 w) NLM_F_REQUEST (nl_seq (w_nl w) + 1) NL80211_CMD_ASSOCIATE
      (ap_attrs w @ [(NL80211_ATTR_IE, ap_ies (w_ap w))]) m \<and> nl_seq nl = nl_seq (w_nl w) + 1 \<and>
    trigger_association E w = Go (emit (Nl_sent m) (w\<lparr>w_nl := nl, w_authstate := AS_ASSOCIATING\<rparr>))"
proof -
  have ies: "length (ap_ies (w_ap w)) \<le> 22" "take (ap_iesize (w_ap w)) (ap_ies (w_ap w)) = ap_ies (w_ap w)"
    using assms(1) by (simp_all add: wst_ok_def ap_ok_def)
  have "align4 (length (ap_ies (w_ap w))) \<le> 24" using align4_bound [of _ 6] ies(1) by simp
  note ap = req_put_ap [OF assms(1), of NL80211_CMD_ASSOCIATE]
  then have "req (w_nl80211 w) NL80211_CMD_ASSOCIATE (nl_seq (w_nl w) + 1) (ap_attrs w @ [(NL80211_ATTR_IE, ap_ies (w_ap w))])
      (nl_put (put_ap w (new_cmd NL80211_CMD_ASSOCIATE w)) NL80211_ATTR_IE (ap_ies (w_ap w)))"
    using \<open>align4 _ \<le> 24\<close> by (intro req_put) auto
  from send_check_built [OF this assms(2)] obtain m nl where
    "genl_msg (w_nl80211 w) NLM_F_REQUEST (nl_seq (w_nl w) + 1) NL80211_CMD_ASSOCIATE (ap_attrs w @ [(NL80211_ATTR_IE, ap_ies (w_ap w))]) m"
    "nl_seq nl = nl_seq (w_nl w) + 1"
    "send_check E (w\<lparr>w_nl := nl_put (put_ap w (new_cmd NL80211_CMD_ASSOCIATE w)) NL80211_ATTR_IE (ap_ies (w_ap w))\<rparr>)
       = Go (emit (Nl_sent m) (w\<lparr>w_nl := nl\<rparr>))" by blast
  then show ?thesis
    by (intro exI [of _ m] exI [of _ nl]) (simp add: trigger_association_def send_set_authstate_def ies(2) emit_def Let_def)
qed

text \<open>
  C7. A connection comes about: once the access point has authenticated the station, its answers and
  the kernel's events in the order the code lists them (AUTHENTICATE, ASSOCIATE, CONNECT, then the two
  packets of an authenticator with the same shared secret) lead from \<open>AS_AUTHENTICATING\<close> to
  \<open>AS_CONNECTED\<close> with the keys negotiated, and everything the daemon sends on the way is, in this order:
  the complete request to associate, the signed second packet, the signed fourth packet, the pairwise
  key and the group key.
\<close>

theorem network_joined:
  assumes "wst_ok w" and "w_authstate w = AS_AUTHENTICATING" and "\<And>m. en_raw_send E m = int (length m)" and "\<And>n. en_nl_ok E n"
    and "take 6 sender = ap_bssid (w_ap w)" and "en_rand E = Some rand" and "32 \<le> length rand"
    and "keys = pairwise_keys (w_PSK w) (ap_bssid (w_ap w)) (w_smac w) anonce (take 32 rand)"
    and "sized replay1 anonce iv1 rsc1 mic1 payload1" and "key_type info1 (KI_PAIRWISE OR KI_ACK)"
    and "group_key_sent (ap_tkipgroup (w_ap w)) ks idx gtk kdata"
    and "sized replay3 anonce iv3 rsc3 (replicate 16 0) []" and "key_type info3 FLAGS_3" and "replay1 < replay3"
  shows "\<exists>v m0 m1 m2. chain (cmd_authenticate E w) (\<lambda>w. chain (cmd_associate E w) (\<lambda>w. chain (cmd_connect_event E w) (\<lambda>w.
      chain (handle_rawsock E (Some (sender, key_packet ver info1 keylen1 replay1 anonce iv1 rsc1 mic1 payload1)) w) (\<lambda>w.
      handle_rawsock E (Some (sender, signed_packet (slice 0 16 keys) ver3 info3 keylen3 replay3 anonce iv3 rsc3 (wrapped (slice 16 16 keys) kdata))) w))))
      = handle_connect E v \<and>
    wst_ok v \<and> w_authstate v = AS_CONNECTED \<and> w_eapolstate v = ES_NEGOTIATED \<and>
    genl_msg (w_nl80211 w) NLM_F_REQUEST (nl_seq (w_nl w) + 1) NL80211_CMD_ASSOCIATE (ap_attrs w @ [(NL80211_ATTR_IE, ap_ies (w_ap w))]) m0 \<and>
    genl_msg (w_nl80211 w) NLM_F_REQUEST (nl_seq (w_nl w) + 2) NL80211_CMD_NEW_KEY (ptk_attrs (w\<lparr>w_PTK := slice 32 16 keys\<rparr>)) m1 \<and>
    genl_msg (w_nl80211 w) NLM_F_REQUEST (nl_seq (w_nl w) + 3) NL80211_CMD_NEW_KEY (gtk_attrs (w\<lparr>w_gtkindex := idx AND 3, w_RSC := take 6 rsc3,
      w_GTK := group_key (ap_tkipgroup (w_ap w)) gtk (w_GTK w)\<rparr>)) m2 \<and>
    w_out v = w_out w @ [Nl_sent m0,
      Raw_sent (ap_bssid (w_ap w)) (signed_packet (slice 0 16 keys) ver (KI_SHA OR KI_PAIRWISE OR KI_MIC) 16
        replay1 (take 32 rand) (replicate 16 0) (replicate 8 0) (ap_ies (w_ap w))),
      Raw_sent (ap_bssid (w_ap w)) (signed_packet (slice 0 16 keys) ver (KI_SHA OR KI_PAIRWISE OR KI_MIC OR KI_SECURE) 0
        replay3 (replicate 32 0) (replicate 16 0) (replicate 8 0) []), Nl_sent m1, Nl_sent m2]"
proof -
  let ?p = "prime_eapol_state w"
  have p: "wst_ok ?p" using assms(1) by (simp add: prime_eapol_state_def)
  have pw: "w_ap ?p = w_ap w" "w_nl ?p = w_nl w" "w_nl80211 ?p = w_nl80211 w" "w_out ?p = w_out w" "ap_attrs ?p = ap_attrs w"
    by (simp_all add: prime_eapol_state_def ap_attrs_def)
  obtain m0 nl where m0: "genl_msg (w_nl80211 w) NLM_F_REQUEST (nl_seq (w_nl w) + 1) NL80211_CMD_ASSOCIATE (ap_attrs w @ [(NL80211_ATTR_IE, ap_ies (w_ap w))]) m0"
    "nl_seq nl = nl_seq (w_nl w) + 1"
    "trigger_association E ?p = Go (emit (Nl_sent m0) (?p\<lparr>w_nl := nl, w_authstate := AS_ASSOCIATING\<rparr>))"
    using association_built [OF p assms(4)] unfolding pw by blast
  let ?a = "emit (Nl_sent m0) (?p\<lparr>w_nl := nl, w_authstate := AS_ASSOCIATING\<rparr>)"
  have 1: "cmd_authenticate E w = Go ?a" using assms(2) m0(3) by (simp add: cmd_authenticate_def)
  have "ends False wst_ok wst_ok (trigger_association E ?p)" using p by (rule wf_rules)
  then have a: "wst_ok ?a" by (simp only: m0(3) ends.simps)
  have "w_authstate ?a = AS_ASSOCIATING" "w_eapolstate ?a = ES_WAITING_1_4" by (simp_all add: emit_def prime_eapol_state_def)
  then have 2: "cmd_associate E ?a = Go (answering ?a)" by (simp add: cmd_associate_def allow_eapol_sends_def answering_def)
  define c where "c = (answering ?a)\<lparr>w_authstate := AS_CONNECTED\<rparr>"
  have 3: "cmd_connect_event E (answering ?a) = Go c" by (simp add: cmd_connect_event_def c_def)
  have c: "wst_ok c" using a by (simp add: c_def)
  have cw: "w_ap c = w_ap w" "w_smac c = w_smac w" "w_PSK c = w_PSK w" "w_GTK c = w_GTK w" "w_ifindex c = w_ifindex w" "w_nl80211 c = w_nl80211 w"
    "w_authstate c = AS_CONNECTED" "nl_seq (w_nl c) = nl_seq (w_nl w) + 1" "w_out c = w_out w @ [Nl_sent m0]"
    "w_eapolstate c = ES_WAITING_1_4" "w_eapolsends c"
    by (simp_all add: c_def answering_def emit_def prime_eapol_state_def m0(2))
  have first: "awaiting_first E c" using c cw(10,11) assms(3,4) by (simp add: awaiting_first_def)
  note hs = four_way [OF first assms(5) [folded cw(1)] assms(6,7) assms(8) [folded cw(1-3)] assms(9,10) assms(11) [folded cw(1)] assms(12-14),
      of ver keylen1 ver3 keylen3]
  have attrs: "ptk_attrs (c\<lparr>w_PTK := k\<rparr>) = ptk_attrs (w\<lparr>w_PTK := k\<rparr>)"
    "gtk_attrs (c\<lparr>w_gtkindex := i, w_RSC := r, w_GTK := g\<rparr>) = gtk_attrs (w\<lparr>w_gtkindex := i, w_RSC := r, w_GTK := g\<rparr>)" for k i r g
    by (simp_all add: ptk_attrs_def gtk_attrs_def cw)
  have seq: "nl_seq (w_nl c) + 1 = nl_seq (w_nl w) + 2" "nl_seq (w_nl c) + 2 = nl_seq (w_nl w) + 3" by (simp_all add: cw)
  from hs [unfolded attrs seq cw(1,4,6,7,9)] show ?thesis
    unfolding 1 2 3 chain.simps using m0(1) by auto
qed

text \<open>With an empty state, nonces of zeros and a CCMP group key of sevens.\<close>

theorem network_joined_witness:
  "\<exists>v. let w = ready_state\<lparr>w_authstate := AS_AUTHENTICATING\<rparr>; E = calm_env;
      keys = pairwise_keys (replicate 32 0) (replicate 6 0) (replicate 6 0) (replicate 32 0) (replicate 32 0) in
    chain (cmd_authenticate E w) (\<lambda>w. chain (cmd_associate E w) (\<lambda>w. chain (cmd_connect_event E w) (\<lambda>w.
      chain (handle_rawsock E (Some (replicate 6 0, key_packet 2 0x8A 16 (replicate 8 0) (replicate 32 0) (replicate 16 0) (replicate 8 0) (replicate 16 0) [])) w) (\<lambda>w.
      handle_rawsock E (Some (replicate 6 0, signed_packet (slice 0 16 keys) 2 0x13CA 16 [0, 0, 0, 0, 0, 0, 0, 1] (replicate 32 0) (replicate 16 0) (replicate 8 0)
        (wrapped (slice 16 16 keys) (key_data [] 1 (replicate 16 7) [])))) w))))
      = handle_connect E v \<and> w_authstate v = AS_CONNECTED \<and> w_eapolstate v = ES_NEGOTIATED"
proof -
  let ?w = "ready_state\<lparr>w_authstate := AS_AUTHENTICATING\<rparr>"
  let ?kd = "key_data [] 1 (replicate 16 7) []"
  have w: "w_ap ?w = zero_ap" "w_PSK ?w = replicate 32 0" "w_smac ?w = replicate 6 0"
    by (simp_all add: ready_state_def static_state_def)
  have ok: "wst_ok ?w" by (simp add: ready_state_ok)
  have E: "\<And>m. en_raw_send calm_env m = int (length m)" "\<And>n. en_nl_ok calm_env n" "en_rand calm_env = Some (replicate 32 0)"
    by (simp_all add: calm_env_def)
  have 1: "take 6 (replicate 6 0) = ap_bssid (w_ap ?w)" by (simp add: w zero_ap_def)
  have 2: "pairwise_keys (replicate 32 0) (replicate 6 0) (replicate 6 0) (replicate 32 0) (replicate 32 0)
    = pairwise_keys (w_PSK ?w) (ap_bssid (w_ap ?w)) (w_smac ?w) (replicate 32 0) (take 32 (replicate 32 0))" by (simp add: w zero_ap_def)
  have 3: "sized (replicate 8 0) (replicate 32 0) (replicate 16 0) (replicate 8 0) (replicate 16 0) []"
    "sized [0, 0, 0, 0, 0, 0, 0, 1] (replicate 32 0) (replicate 16 0) (replicate 8 0) (replicate 16 0) []" by (simp_all add: sized_def)
  have 4: "key_type 0x8A (KI_PAIRWISE OR KI_ACK)" "key_type 0x13CA FLAGS_3" by (simp_all add: key_type_def)
  have 5: "group_key_sent (ap_tkipgroup (w_ap ?w)) [] 1 (replicate 16 7) ?kd"
    unfolding group_key_sent_def
    by (intro conjI exI [of _ "[]"]) (simp_all add: w zero_ap_def key_data_def kde_bytes_def gtk_kde_def kde_type_gtk_def)
  have 6: "(replicate 8 0 :: bytes) < [0, 0, 0, 0, 0, 0, 0, 1]" by (simp add: numeral_eq_Suc)
  have "w_authstate ?w = AS_AUTHENTICATING" "32 \<le> length (replicate 32 0 :: bytes)" by simp_all
  from network_joined [OF ok this(1) E(1,2) 1 E(3) this(2) 2 3(1) 4(1) 5 3(2) 4(2) 6, of 2 16 2 16] show ?thesis
    unfolding Let_def by blast
qed

end
