(* ===== verification/Selection.thy ===== *)
theory Selection imports Invariant begin

text \<open>
  The choice of a station (wsupp_apsel.c): the entry taken is the best of those that may be tried, and
  the loop over them ends with a connection under way or with none left.
\<close>

section \<open>The best entry\<close>

text \<open>The order the code compares by, as one number: the band first, then the signal.\<close>

definition rank :: "scan \<Rightarrow> int" where
  "rank sc = 100000 * band_score sc + sint (sc_signal sc)"

lemma compare_rank: "compare sc (Some b) > 0 \<longleftrightarrow> rank b < rank sc" "compare sc None > 0"
proof -
  have s: "- 32768 \<le> sint (sc_signal x)" "sint (sc_signal x) < 32768" for x :: scan
    using sint_ge [of "sc_signal x"] sint_lt [of "sc_signal x"] by simp_all
  have b: "band_score x = 0 \<or> band_score x = 1" for x by (simp add: band_score_def)
  show "compare sc (Some b) > 0 \<longleftrightarrow> rank b < rank sc"
    using s [of sc] s [of b] b [of sc] b [of b] by (auto simp: compare_def cmp_def rank_def Let_def)
qed (simp add: compare_def)

text \<open>An entry that may be tried.\<close>

definition candidate :: "ap \<Rightarrow> scan \<Rightarrow> bool" where
  "candidate a sc \<longleftrightarrow> sc_freq sc \<noteq> 0 \<and> connectable a sc \<and> match_ssid a sc"

lemma best_from_max:
  "case best_from a i scs best of
     None \<Rightarrow> best = None \<and> (\<forall>x \<in> set scs. \<not> candidate a x)
   | Some (p, sc) \<Rightarrow> (\<forall>x \<in> set scs. candidate a x \<longrightarrow> rank x \<le> rank sc) \<and> (\<forall>k b. best = Some (k, b) \<longrightarrow> rank b \<le> rank sc)"
proof (induction scs arbitrary: i best)
  case (Cons x scs)
  define better where "better = (candidate a x \<and> compare x (map_option snd best) > 0)"
  define best' where "best' = (if better then Some (i, x) else best)"
  have "best_from a i (x # scs) best = best_from a (i + 1) scs best'"
    by (auto simp: best'_def better_def candidate_def)
  moreover have "case best_from a (i + 1) scs best' of
     None \<Rightarrow> best' = None \<and> (\<forall>x \<in> set scs. \<not> candidate a x)
   | Some (p, sc) \<Rightarrow> (\<forall>x \<in> set scs. candidate a x \<longrightarrow> rank x \<le> rank sc) \<and> (\<forall>k b. best' = Some (k, b) \<longrightarrow> rank b \<le> rank sc)"
    by (rule Cons.IH)
  moreover have "candidate a x \<longrightarrow> (\<exists>k b. best' = Some (k, b) \<and> rank x \<le> rank b)"
    using compare_rank(1) [of x] compare_rank(2) [of x]
    by (cases best) (auto simp: best'_def better_def not_less)
  moreover have "best = Some (k, b) \<longrightarrow> (\<exists>k' b'. best' = Some (k', b') \<and> rank b \<le> rank b')" for k b
    using compare_rank(1) [of x] by (auto simp: best'_def better_def)
  moreover have "best' = None \<longrightarrow> best = None" by (simp add: best'_def)
  ultimately show ?case
  proof (cases "best_from a (i + 1) scs best'")
    case None
    with \<open>case best_from a (i + 1) scs best' of None \<Rightarrow> _ | Some y \<Rightarrow> _ y\<close> have n: "best' = None" "\<forall>x \<in> set scs. \<not> candidate a x" by simp_all
    with None \<open>best_from a i (x # scs) best = _\<close> \<open>best' = None \<longrightarrow> best = None\<close> \<open>candidate a x \<longrightarrow> _\<close> show ?thesis by simp
  next
    case (Some y)
    obtain p sc where y: "y = (p, sc)" by (cases y)
    with Some \<open>case best_from a (i + 1) scs best' of None \<Rightarrow> _ | Some y \<Rightarrow> _ y\<close>
    have m: "\<forall>x \<in> set scs. candidate a x \<longrightarrow> rank x \<le> rank sc" "\<And>k b. best' = Some (k, b) \<Longrightarrow> rank b \<le> rank sc" by simp_all
    have "candidate a x \<longrightarrow> rank x \<le> rank sc" using \<open>candidate a x \<longrightarrow> _\<close> m(2) by fastforce
    moreover have "rank b \<le> rank sc" if "best = Some (k, b)" for k b
      using \<open>\<And>k b. best = Some (k, b) \<longrightarrow> _\<close> [of k b] that m(2) by fastforce
    ultimately show ?thesis using m(1) Some y \<open>best_from a i (x # scs) best = _\<close> by simp
  qed
qed (auto split: option.splits)

text \<open>The entries \<open>get_best_ap\<close> chooses from.\<close>

definition candidates :: "wst \<Rightarrow> scan list" where
  "candidates w = filter (candidate (w_ap w)) (take (snd (w_scans w)) (fst (w_scans w)))"

lemma get_best_None: "get_best_ap w = None \<longleftrightarrow> candidates w = []"
proof
  show "get_best_ap w = None \<Longrightarrow> candidates w = []"
    using best_from_max [where a = "w_ap w" and i = 0 and scs = "take (snd (w_scans w)) (fst (w_scans w))" and best = None]
    by (auto simp: get_best_ap_def candidates_def filter_empty_conv)
  assume none: "candidates w = []"
  show "get_best_ap w = None"
  proof (rule ccontr)
    assume "get_best_ap w \<noteq> None"
    then obtain p where p: "get_best_ap w = Some p" by auto
    from get_best_apD [OF p] have "scan_at w p \<in> set (candidates w)"
      by (auto simp: candidates_def candidate_def live_def scan_at_def in_set_conv_nth intro!: exI [of _ p])
    with none show False by simp
  qed
qed

text \<open>
  C11. \<open>get_best_ap\<close> finds nothing exactly when no entry may be tried; otherwise the entry it finds may
  be tried and none of the others is better: entries in the 5GHz band with a usable signal come before
  all others, then the stronger signal wins.
\<close>

theorem get_best_ap_maximal:
  "case get_best_ap w of
     None \<Rightarrow> candidates w = []
   | Some p \<Rightarrow> scan_at w p \<in> set (candidates w) \<and> rank (scan_at w p) = Max (rank ` set (candidates w))"
proof (cases "get_best_ap w")
  case (Some p)
  let ?scs = "take (snd (w_scans w)) (fst (w_scans w))"
  obtain sc where sc: "best_from (w_ap w) 0 ?scs None = Some (p, sc)"
    using Some by (auto simp: get_best_ap_def)
  have at: "scan_at w p = sc"
    using best_from_Some [OF sc] by (auto simp: scan_at_def)
  have mem: "scan_at w p \<in> set (candidates w)"
    using get_best_apD [OF Some] by (auto simp: candidates_def candidate_def live_def scan_at_def in_set_conv_nth intro!: exI [of _ p])
  have "\<forall>x \<in> set (candidates w). rank x \<le> rank sc"
    using best_from_max [where a = "w_ap w" and i = 0 and scs = ?scs and best = None] sc by (simp add: candidates_def)
  then have "Max (rank ` set (candidates w)) = rank (scan_at w p)"
    using mem at by (intro Max_eqI) auto
  with mem Some show ?thesis by simp
next
  case None
  then show ?thesis by (simp add: get_best_None [symmetric])
qed

end
