(* ===== verification/Dump.thy ===== *)
theory Dump imports Uctl Wstate "HOL-Library.Signed_Division" begin

text \<open>
  What the front end prints (wifi_dump.c): channel numbers, the state and station of a status reply
  and the sorted list of access points. A print function yields the bytes it writes; \<open>m\<close> is the
  receive buffer, a message or an attribute an offset into it. What lies behind the buffer reads as
  zero or nothing; only a message of less than eight bytes or an attribute of less than four makes
  the code look there.
\<close>

section \<open>Formatted output\<close>

definition ascii :: "string \<Rightarrow> bytes" where
  "ascii s = map (word_of_nat \<circ> of_char) s"

fun dec_nat :: "nat \<Rightarrow> bytes" where
  "dec_nat n = (if n < 10 then [word_of_nat (48 + n)] else dec_nat (n div 10) @ [word_of_nat (48 + n mod 10)])"

declare dec_nat.simps [simp del]

text \<open>\<open>%i\<close>, the padding of \<open>%3i\<close> and \<open>%4i\<close>, and \<open>%02X\<close>.\<close>

definition dec_int :: "int \<Rightarrow> bytes" where
  "dec_int i = (if i < 0 then 0x2D # dec_nat (nat (- i)) else dec_nat (nat i))"

definition padded :: "nat \<Rightarrow> bytes \<Rightarrow> bytes" where
  "padded n bs = replicate (n - length bs) 0x20 @ bs"

definition hex_digit :: "byte \<Rightarrow> byte" where
  "hex_digit d = (if d < 10 then 0x30 + d else 0x37 + d)"

definition hex2 :: "byte \<Rightarrow> bytes" where
  "hex2 b = [hex_digit (drop_bit 4 b), hex_digit (b AND 0x0F)]"

section \<open>Channels\<close>

definition inrange :: "int \<Rightarrow> int \<Rightarrow> int \<Rightarrow> int \<Rightarrow> int \<Rightarrow> int" where
  "inrange freq a b s i =
     (if freq < a then 0
      else if freq > b then 0
      else let d = freq - a in
           if d mod s \<noteq> 0 then 0
           else i + d div s)"

text \<open>The channel and the band: the letter, or zero.\<close>

definition get_channel :: "int \<Rightarrow> int \<times> byte" where
  "get_channel freq =
     (if freq = 2484 then (14, 0x62)
      else let s = inrange freq 2412 2472 5 1 in
           if s \<noteq> 0 then (s, 0x62)
           else let s = inrange freq 5035 5865 5 7 in
                if s \<noteq> 0 then (s, 0x61)
                else let s = inrange freq 4915 4980 5 183 in
                     if s \<noteq> 0 then (s, 0x61)
                     else (0, 0))"

section \<open>Integers in messages\<close>

definition deref :: "bytes \<Rightarrow> nat \<Rightarrow> int" where
  "deref m p = sint (of_le32 (drop p m))"

definition get_int :: "bytes \<Rightarrow> nat \<Rightarrow> u16 \<Rightarrow> int" where
  "get_int m msg attr = (case uc_get_int m msg attr of Some p \<Rightarrow> deref m p | None \<Rightarrow> 0)"

definition sub_int :: "bytes \<Rightarrow> nat \<Rightarrow> u16 \<Rightarrow> int" where
  "sub_int m at attr = (case uc_sub_int m at attr of Some p \<Rightarrow> deref m p | None \<Rightarrow> 0)"

definition cmp_int :: "bytes \<Rightarrow> nat \<Rightarrow> nat \<Rightarrow> u16 \<Rightarrow> int" where
  "cmp_int m at bt key =
     (case (uc_sub_int m at key, uc_sub_int m bt key) of
        (None, Some nb) \<Rightarrow> - 1
      | (Some na, None) \<Rightarrow> 1
      | (None, None) \<Rightarrow> 0
      | (Some na, Some nb) \<Rightarrow>
          if deref m na < deref m nb then - 1
          else if deref m na > deref m nb then 1
          else 0)"

definition scan_ord :: "bytes \<Rightarrow> nat \<Rightarrow> nat \<Rightarrow> int" where
  "scan_ord m at bt =
     (let ret = cmp_int m at bt ATTR_SIGNAL in
      if ret \<noteq> 0 then - ret
      else let ret = cmp_int m at bt ATTR_FREQ in
           if ret \<noteq> 0 then ret
           else 0)"

section \<open>Stations\<close>

definition printable :: "byte \<Rightarrow> bool" where
  "printable c \<longleftrightarrow> c \<ge> 0x20"

text \<open>The loop of \<open>print_ssid\<close> and the format of \<open>print_mac\<close>; the escape is a backslash, an x and two digits.\<close>

definition ssid_text :: "bytes \<Rightarrow> bytes" where
  "ssid_text ssid = concat (map (\<lambda>c. if printable c then [c] else [0x5C, 0x78] @ hex2 c) ssid)"

definition mac_text :: "bytes \<Rightarrow> bytes" where
  "mac_text b =
     hex2 (b ! 0) @ [0x3A] @ hex2 (b ! 1) @ [0x3A] @ hex2 (b ! 2) @ [0x3A] @
     hex2 (b ! 3) @ [0x3A] @ hex2 (b ! 4) @ [0x3A] @ hex2 (b ! 5)"

definition print_ssid :: "bytes \<Rightarrow> nat option \<Rightarrow> bytes" where
  "print_ssid m at =
     (case at of
        None \<Rightarrow> []
      | Some at \<Rightarrow> ssid_text (slice (uc_payload at) (nat (uc_paylen m at)) m))"

definition print_mac :: "bytes \<Rightarrow> nat option \<Rightarrow> bytes" where
  "print_mac m at =
     (case at of
        None \<Rightarrow> []
      | Some at \<Rightarrow> if uc_paylen m at \<noteq> 6 then [] else mac_text (slice (uc_payload at) 6 m))"

text \<open>The end of \<open>print_station\<close>.\<close>

definition freq_text :: "int \<Rightarrow> bytes" where
  "freq_text freq =
     (let (chan, band) = get_channel freq in
      if freq = 0 then []
      else if band \<noteq> 0 then ascii '' ('' @ dec_int chan @ [band] @ ascii ''/'' @ dec_int freq @ ascii ''MHz)''
      else ascii '' ('' @ dec_int freq @ ascii ''MHz)'')"

definition print_station :: "bool \<Rightarrow> bytes \<Rightarrow> nat \<Rightarrow> bytes" where
  "print_station showbss m msg =
     (let ssid = uc_get m msg ATTR_SSID;
          bssid = uc_get m msg ATTR_BSSID;
          freq = get_int m msg ATTR_FREQ
      in print_ssid m ssid @ (if showbss then ascii '' '' @ print_mac m bssid else []) @ freq_text freq)"

definition newline :: bytes where
  "newline = [0x0A]"

definition print_scanline :: "bool \<Rightarrow> bytes \<Rightarrow> nat \<Rightarrow> bytes" where
  "print_scanline showbss m at =
     (let ssid = uc_sub m at ATTR_SSID;
          bssid = uc_sub m at ATTR_BSSID;
          prio = uc_sub m at ATTR_PRIO
      in if bssid = None \<or> ssid = None then []
         else let signal = sub_int m at ATTR_SIGNAL;
                  freq = sub_int m at ATTR_FREQ;
                  (chan, band) = get_channel freq
              in ascii ''AP '' @ dec_int (signal sdiv 100) @ ascii '' '' @
                 (if band \<noteq> 0 then padded 3 (dec_int chan) @ [band] else padded 4 (dec_int freq)) @
                 (if showbss then ascii ''  '' @ print_mac m bssid else []) @
                 ascii ''  '' @ print_ssid m ssid @
                 (if prio \<noteq> None then ascii '' *'' else []) @ newline)"

section \<open>The list of access points\<close>

text \<open>The attributes of a message in order, as the loops of \<open>prep_list\<close> visit them.\<close>

function attrs_from :: "bytes \<Rightarrow> nat \<Rightarrow> int \<Rightarrow> nat \<Rightarrow> nat list" where
  "attrs_from m buf len at =
     at # (case uc_get_n_in m buf len at of None \<Rightarrow> [] | Some at' \<Rightarrow> attrs_from m buf len at')"
  by pat_completeness auto
termination
proof (relation "measure (\<lambda>(m, buf, len, at). nat (int buf + len - int at))", goal_cases)
  case (2 m buf len at at')
  then show ?case using uc_get_n_in_step [of m buf len at at'] by simp
qed simp

declare attrs_from.simps [simp del]

definition attrs :: "bytes \<Rightarrow> nat \<Rightarrow> nat list" where
  "attrs m msg =
     (case uc_get_0 m msg of None \<Rightarrow> [] | Some at \<Rightarrow> attrs_from m (msg + 8) (int (msg_len m msg) - 8) at)"

text \<open>
  \<open>qsort\<close> is the sorting routine of the C library, which may order equal elements as it likes; the
  second loop stops after the \<open>n\<close> elements the first has counted.
\<close>

type_synonym sorter = "(nat \<Rightarrow> nat \<Rightarrow> int) \<Rightarrow> nat list \<Rightarrow> nat list"

definition prep_list :: "sorter \<Rightarrow> bytes \<Rightarrow> nat \<Rightarrow> u16 \<Rightarrow> (nat \<Rightarrow> nat \<Rightarrow> int) \<Rightarrow> nat list" where
  "prep_list qsort m msg key cmp =
     (let n = length (filter (\<lambda>at. at_key m at = key) (attrs m msg));
          refs = take n (filter (\<lambda>at. at_key m at = key) (attrs m msg))
      in qsort cmp refs)"

definition print_scan_results :: "sorter \<Rightarrow> bool \<Rightarrow> bytes \<Rightarrow> nat \<Rightarrow> bool \<Rightarrow> bytes" where
  "print_scan_results qsort showbss m msg nl =
     (let scans = prep_list qsort m msg ATTR_SCAN (scan_ord m) in
      concat (map (print_scanline showbss m) scans) @ (if nl \<and> scans \<noteq> [] then newline else []))"

section \<open>Status\<close>

text \<open>The table \<open>wistates\<close> up to DICTEND.\<close>

definition wistates :: "(int \<times> bytes) list" where
  "wistates =
     [(0, ascii ''Idle''), (1, ascii ''RF-kill''), (2, ascii ''Net down''), (3, ascii ''External''),
      (4, ascii ''Scanning''), (5, ascii ''Connecting''), (6, ascii ''Connected'')]"

definition print_status :: "bool \<Rightarrow> bytes \<Rightarrow> nat \<Rightarrow> bytes" where
  "print_status showbss m msg =
     (let state = get_int m msg ATTR_STATE in
      (case map_of wistates state of None \<Rightarrow> ascii ''??'' | Some name \<Rightarrow> name) @
      ascii '' AP '' @ print_station showbss m msg @ newline)"

definition dump_scanlist :: "sorter \<Rightarrow> bool \<Rightarrow> bytes \<Rightarrow> nat \<Rightarrow> bytes" where
  "dump_scanlist qsort showbss m msg = print_scan_results qsort showbss m msg False"

definition dump_status :: "sorter \<Rightarrow> bool \<Rightarrow> bytes \<Rightarrow> nat \<Rightarrow> bytes" where
  "dump_status qsort showbss m msg = print_scan_results qsort showbss m msg True @ print_status showbss m msg"

definition warn_sta :: "bool \<Rightarrow> bytes \<Rightarrow> bytes \<Rightarrow> nat \<Rightarrow> bytes" where
  "warn_sta showbss what m msg = what @ ascii '' AP '' @ print_station showbss m msg @ newline"

section \<open>Channel numbers\<close>

lemma inrange_at: "0 \<le> k \<Longrightarrow> a + 5 * k \<le> b \<Longrightarrow> inrange (a + 5 * k) a b 5 i = i + k"
  by (simp add: inrange_def Let_def)

lemma inrange_off:
  assumes "inrange freq a b 5 i \<noteq> 0"
  obtains k where "0 \<le> k" "freq = a + 5 * k" "freq \<le> b"
proof -
  have "freq \<ge> a" "freq \<le> b" "(freq - a) mod 5 = 0"
    using assms by (auto simp: inrange_def Let_def split: if_splits)
  moreover have "freq = a + 5 * ((freq - a) div 5)" using calculation(3) by presburger
  ultimately show thesis using that [of "(freq - a) div 5"] by simp
qed

lemma inrange_zero: "0 < i \<Longrightarrow> inrange freq a b 5 i = 0 \<Longrightarrow> 0 \<le> k \<Longrightarrow> a + 5 * k \<le> b \<Longrightarrow> freq \<noteq> a + 5 * k"
  using inrange_at [of k a b i] by auto

text \<open>
  \<open>get_channel\<close> knows exactly the channels of the two bands: 1 to 13 every 5 MHz and 14, then 7 to
  173 above 5 GHz and 183 to 196 above 4 GHz, each with its number; any other frequency has no channel.
\<close>

lemma get_channel_spec:
  "get_channel freq = (c, b) \<longleftrightarrow>
     b = 0x62 \<and> (c \<in> {1..13} \<and> freq = 2407 + 5 * c \<or> c = 14 \<and> freq = 2484) \<or>
     b = 0x61 \<and> (c \<in> {7..173} \<and> freq = 5000 + 5 * c \<or> c \<in> {183..196} \<and> freq = 4000 + 5 * c) \<or>
     b = 0 \<and> c = 0 \<and> freq \<noteq> 2484 \<and> freq \<notin> (\<lambda>k. 2407 + 5 * k) ` {1..13} \<and>
       freq \<notin> (\<lambda>k. 5000 + 5 * k) ` {7..173} \<and> freq \<notin> (\<lambda>k. 4000 + 5 * k) ` {183..196}"
proof -
  consider "freq = 2484" | "freq \<noteq> 2484" "inrange freq 2412 2472 5 1 \<noteq> 0"
    | "freq \<noteq> 2484" "inrange freq 2412 2472 5 1 = 0" "inrange freq 5035 5865 5 7 \<noteq> 0"
    | "freq \<noteq> 2484" "inrange freq 2412 2472 5 1 = 0" "inrange freq 5035 5865 5 7 = 0" "inrange freq 4915 4980 5 183 \<noteq> 0"
    | "freq \<noteq> 2484" "inrange freq 2412 2472 5 1 = 0" "inrange freq 5035 5865 5 7 = 0" "inrange freq 4915 4980 5 183 = 0"
    by metis
  then show ?thesis
  proof cases
    case 1
    then have "get_channel freq = (14, 0x62)" by (simp add: get_channel_def)
    with 1 show ?thesis by auto
  next
    case 2
    then obtain k where k: "0 \<le> k" "freq = 2412 + 5 * k" "freq \<le> 2472" using inrange_off by blast
    then have "get_channel freq = (1 + k, 0x62)"
      using 2 inrange_at [of k 2412 2472 1] by (simp add: get_channel_def)
    moreover have "freq \<in> (\<lambda>k. 2407 + 5 * k) ` {1..13}"
      using k by (intro image_eqI [of _ _ "1 + k"]) auto
    ultimately show ?thesis using k by auto
  next
    case 3
    then obtain k where k: "0 \<le> k" "freq = 5035 + 5 * k" "freq \<le> 5865" using inrange_off by blast
    then have "get_channel freq = (7 + k, 0x61)"
      using 3 inrange_at [of k 5035 5865 7] by (simp add: get_channel_def)
    moreover have "freq \<in> (\<lambda>k. 5000 + 5 * k) ` {7..173}"
      using k by (intro image_eqI [of _ _ "7 + k"]) auto
    ultimately show ?thesis using k by auto
  next
    case 4
    then obtain k where k: "0 \<le> k" "freq = 4915 + 5 * k" "freq \<le> 4980" using inrange_off by blast
    then have "get_channel freq = (183 + k, 0x61)"
      using 4 inrange_at [of k 4915 4980 183] by (simp add: get_channel_def)
    moreover have "freq \<in> (\<lambda>k. 4000 + 5 * k) ` {183..196}"
      using k by (intro image_eqI [of _ _ "183 + k"]) auto
    ultimately show ?thesis using k by auto
  next
    case 5
    then have z: "get_channel freq = (0, 0)" by (simp add: get_channel_def)
    have "freq \<noteq> 2407 + 5 * k" if "k \<in> {1..13}" for k
      using inrange_zero [OF _ 5(2), of "k - 1"] that by simp
    moreover have "freq \<noteq> 5000 + 5 * k" if "k \<in> {7..173}" for k
      using inrange_zero [OF _ 5(3), of "k - 7"] that by simp
    moreover have "freq \<noteq> 4000 + 5 * k" if "k \<in> {183..196}" for k
      using inrange_zero [OF _ 5(4), of "k - 183"] that by simp
    ultimately show ?thesis unfolding z prod.inject using 5(1) by blast
  qed
qed

end
