(* ===== verification/Pbkdf2.thy ===== *)
theory Pbkdf2 imports Sha1 begin

text \<open>
  PBKDF2 with HMAC-SHA-1 (crypto/pbkdf2_sha1.c), which the front end uses to turn a passphrase into
  a pre-shared key. The loops over iterations and output blocks, the last block possibly cut, are
  shown to fill the output with the key of RFC 2898.
\<close>

abbreviation (input) HS :: nat where "HS \<equiv> 20"

section \<open>The code\<close>

definition F1 :: "bytes \<Rightarrow> bytes \<Rightarrow> nat \<Rightarrow> bytes" where
  "F1 P S i = hmac_sha1 P (int (length P)) (S @ be32 (word_of_nat i))"

definition Fc :: "bytes \<Rightarrow> bytes \<Rightarrow> bytes" where
  "Fc P U = hmac_sha1 P (int (length P)) (take HS U)"

definition xorbuf :: "bytes \<Rightarrow> bytes \<Rightarrow> nat \<Rightarrow> bytes" where
  "xorbuf T U n = map (\<lambda>i. T ! i XOR U ! i) [0..<n] @ drop n T"

definition F_step :: "bytes \<Rightarrow> nat \<Rightarrow> bytes \<times> bytes \<Rightarrow> bytes \<times> bytes" where
  "F_step P j TU = (let U = Fc P (snd TU) in (xorbuf (fst TU) U HS, U))"

definition F_block :: "bytes \<Rightarrow> bytes \<Rightarrow> nat \<Rightarrow> nat \<Rightarrow> bytes" where
  "F_block P S c i = (let U = F1 P S i in fst (fold (F_step P) [2..<c + 1] (U, U)))"

text \<open>The loop over whole output blocks; it yields the buffer and the final \<open>i\<close>.\<close>

function pbkdf2_blocks :: "bytes \<Rightarrow> nat \<Rightarrow> bytes \<Rightarrow> bytes \<Rightarrow> nat \<Rightarrow> nat \<Rightarrow> bytes \<times> nat" where
  "pbkdf2_blocks psk len P S c i =
     (if HS * i \<le> len
      then pbkdf2_blocks (memcpy_at psk (HS * (i - 1)) (F_block P S c i)) len P S c (i + 1)
      else (psk, i))"
  by pat_completeness auto
termination
  by (relation "measure (\<lambda>(psk, len, P, S, c, i). len + 1 - i)") auto

declare pbkdf2_blocks.simps [simp del]

definition pbkdf2_sha1 :: "bytes \<Rightarrow> nat \<Rightarrow> bytes \<Rightarrow> bytes \<Rightarrow> nat \<Rightarrow> bytes" where
  "pbkdf2_sha1 psk len P S iters =
     (let (psk, i) = pbkdf2_blocks psk len P S iters 1 in
      if HS * (i - 1) < len
      then memcpy_at psk (HS * (i - 1)) (take (len - HS * (i - 1)) (F_block P S iters i))
      else psk)"

section \<open>The standard's definition\<close>

primrec pb_U :: "bytes \<Rightarrow> bytes \<Rightarrow> nat \<Rightarrow> nat \<Rightarrow> bytes" where
  "pb_U P S i 0 = hmac_spec P (S @ be32 (word_of_nat i))"
| "pb_U P S i (Suc k) = hmac_spec P (pb_U P S i k)"

text \<open>\<open>T_i\<close> is the XOR of the first \<open>c\<close> of them.\<close>

primrec pb_T :: "bytes \<Rightarrow> bytes \<Rightarrow> nat \<Rightarrow> nat \<Rightarrow> bytes" where
  "pb_T P S i 0 = pb_U P S i 0"
| "pb_T P S i (Suc k) = map2 (XOR) (pb_T P S i k) (pb_U P S i (Suc k))"

definition pbkdf2_spec :: "nat \<Rightarrow> bytes \<Rightarrow> bytes \<Rightarrow> nat \<Rightarrow> bytes" where
  "pbkdf2_spec len P S c = take len (concat (map (\<lambda>i. pb_T P S (i + 1) (c - 1)) [0..<len div HS + 1]))"

section \<open>Correctness\<close>

lemma length_pb_U [simp]: "length (pb_U P S i k) = 20"
  by (cases k) simp_all

lemma length_pb_T [simp]: "length (pb_T P S i k) = 20"
  by (induction k) simp_all

lemma xorbuf_map2: "length T = HS \<Longrightarrow> length U = HS \<Longrightarrow> xorbuf T U HS = map2 (XOR) T U"
  by (intro nth_equalityI) (simp_all add: xorbuf_def nth_append)

lemma F_steps:
  assumes "length P \<le> 64"
  shows "fold (F_step P) [2..<k + 2] (F1 P S i, F1 P S i) = (pb_T P S i k, pb_U P S i k)"
proof (induction k)
  case 0
  show ?case using assms by (simp add: F1_def hmac_meets_spec)
next
  case (Suc k)
  have "fold (F_step P) [2..<Suc k + 2] (F1 P S i, F1 P S i) = F_step P (k + 2) (pb_T P S i k, pb_U P S i k)"
    using Suc by simp
  also have "\<dots> = (pb_T P S i (Suc k), pb_U P S i (Suc k))"
    using assms by (simp add: F_step_def Fc_def hmac_meets_spec Let_def xorbuf_map2)
  finally show ?case .
qed

lemma F_block_pb_T: "length P \<le> 64 \<Longrightarrow> 1 \<le> c \<Longrightarrow> F_block P S c i = pb_T P S i (c - 1)"
  using F_steps [of P "c - 1" S i] by (simp add: F_block_def Let_def)

lemma length_F_block: "length P \<le> 64 \<Longrightarrow> 1 \<le> c \<Longrightarrow> length (F_block P S c i) = HS"
  by (simp add: F_block_pb_T)

lemma memcpy_at_end:
  "length xs = off \<Longrightarrow> length src \<le> length ys \<Longrightarrow> memcpy_at (xs @ ys) off src = (xs @ src) @ drop (length src) ys"
  by (simp add: memcpy_at_def)

definition pb_blocks :: "bytes \<Rightarrow> bytes \<Rightarrow> nat \<Rightarrow> nat \<Rightarrow> bytes" where
  "pb_blocks P S c n = concat (map (\<lambda>i. pb_T P S (i + 1) (c - 1)) [0..<n])"

lemma pb_blocks_0 [simp]: "pb_blocks P S c 0 = []"
  by (simp add: pb_blocks_def)

lemma pb_blocks_Suc: "pb_blocks P S c (Suc n) = pb_blocks P S c n @ pb_T P S (Suc n) (c - 1)"
  by (simp add: pb_blocks_def)

lemma length_pb_blocks [simp]: "length (pb_blocks P S c n) = HS * n"
  by (induction n) (simp_all add: pb_blocks_Suc)

text \<open>Loop invariant: the first \<open>i - 1\<close> blocks are written and the rest of the buffer is untouched.\<close>

lemma pbkdf2_blocks_fill:
  assumes "length P \<le> 64" and "1 \<le> c" and "1 \<le> i" and "HS * (i - 1) \<le> len"
    and "psk = pb_blocks P S c (i - 1) @ rest" and "len \<le> length psk"
  shows "pbkdf2_blocks psk len P S c i =
    (pb_blocks P S c (len div HS) @ drop (HS * (len div HS - (i - 1))) rest, len div HS + 1)"
  using assms
proof (induction psk len P S c i arbitrary: rest rule: pbkdf2_blocks.induct)
  case (1 psk len P S c i)
  note pre = "1.prems"
  show ?case
  proof (cases "HS * i \<le> len")
    case True
    let ?psk = "memcpy_at psk (HS * (i - 1)) (F_block P S c i)"
    obtain k where i: "i = Suc k" using pre(3) by (cases i) auto
    have rest: "psk = pb_blocks P S c k @ rest" "HS \<le> length rest" using True pre by (simp_all add: i)
    then have psk': "?psk = pb_blocks P S c i @ drop HS rest"
      using pre(1,2) memcpy_at_end [of "pb_blocks P S c k" "HS * k" "F_block P S c i" rest]
      by (simp add: i pb_blocks_Suc length_F_block F_block_pb_T)
    have "i * HS \<le> len" using True by (simp add: mult.commute)
    then have "i \<le> len div HS" by (simp add: less_eq_div_iff_mult_less_eq)
    then have "HS * (len div HS - i) + HS = HS * (len div HS - k)"
      by (simp add: i algebra_simps) 
    then show ?thesis
      using "1.IH" [OF True pre(1,2), of "drop HS rest"] pre rest True psk'
      by (simp add: pbkdf2_blocks.simps [of "pb_blocks P S c k @ rest" len P S c "Suc k"] i add.commute)
  next
    case False
    then have "len div HS = i - 1"
      using pre(3,4) by (intro div_nat_eqI) (simp_all add: algebra_simps)
    with False pre show ?thesis
      by (subst pbkdf2_blocks.simps) simp
  qed
qed

lemma pbkdf2_is_spec:
  assumes "length P \<le> 64" and "1 \<le> iters" and "len \<le> length psk"
  shows "pbkdf2_sha1 psk len P S iters = pbkdf2_spec len P S iters @ drop len psk"
proof -
  let ?n = "len div HS"
  let ?B = "pb_blocks P S iters ?n" and ?T = "pb_T P S (?n + 1) (iters - 1)"
  have spec: "pbkdf2_spec len P S iters = take len (?B @ ?T)"
    by (simp add: pbkdf2_spec_def pb_blocks_def)
  have le: "HS * ?n \<le> len" by (rule times_div_less_eq_dividend)
  have lt: "len < HS * ?n + HS" using dividend_less_times_div [of HS len] by simp
  have run: "pbkdf2_blocks psk len P S iters 1 = (?B @ drop (HS * ?n) psk, ?n + 1)"
    using pbkdf2_blocks_fill [of P iters 1 len psk S psk] assms by simp
  show ?thesis
  proof (cases "HS * ?n < len")
    case True
    have "memcpy_at (?B @ drop (HS * ?n) psk) (HS * ?n) (take (len - HS * ?n) ?T)
        = (?B @ take (len - HS * ?n) ?T) @ drop (len - HS * ?n) (drop (HS * ?n) psk)"
      using assms(3) lt True memcpy_at_end [of ?B "HS * ?n" "take (len - HS * ?n) ?T" "drop (HS * ?n) psk"]
      by (simp add: min_absorb2)
    also have "\<dots> = take len (?B @ ?T) @ drop len psk"
      using le by simp
    finally show ?thesis
      using True assms by (simp add: pbkdf2_sha1_def run [simplified] spec F_block_pb_T)
  next
    case False
    with le have "HS * ?n = len" by simp
    with False show ?thesis
      by (simp add: pbkdf2_sha1_def run [simplified] spec)
  qed
qed

text \<open>
  C30. \<open>pbkdf2_sha1\<close> fills the first \<open>len\<close> bytes of the output buffer with the key PBKDF2 derives
  (RFC 2898) and leaves the rest of the buffer alone, for every passphrase of at most 64 bytes.
\<close>

theorem pbkdf2_meets_spec:
  assumes "length P \<le> 64" and "1 \<le> iters" and "len \<le> length psk"
  shows "pbkdf2_sha1 psk len P S iters = pbkdf2_spec len P S iters @ drop len psk"
  using assms by (rule pbkdf2_is_spec)

lemma pbkdf2_meets_spec_witness:
  "length (replicate 8 0x61 :: bytes) \<le> 64 \<and> 1 \<le> (4096 :: nat) \<and> 32 \<le> length (replicate 32 0 :: bytes) \<and>
   pbkdf2_sha1 (replicate 32 0) 32 (replicate 8 0x61) [0x62] 4096 = pbkdf2_spec 32 (replicate 8 0x61) [0x62] 4096"
  using pbkdf2_meets_spec [of "replicate 8 0x61" 4096 32 "replicate 32 0" "[0x62]"] by simp

end
