(* ===== verification/Client.thy ===== *)
theory Client imports Dump Pbkdf2 begin

text \<open>
  The front end (wifi.c, wifi_wire.c, wifi_pass.c, common/writeall.c): command line, connection to the
  supplicant's socket, requests, replies, the passphrase. A run takes the argument vector and what
  the system gives it, and ends in success or in a complaint with the state at that moment; None
  when it waits or loops forever. A command \<open>cmd_x\<close> of wifi.c is \<open>wifi_x\<close> here,
  and \<open>send_check\<close> of wifi_wire.c is \<open>wire_check\<close>.
\<close>

section \<open>State\<close>

text \<open>What \<open>fail\<close> was called for; every one ends the process with status 255.\<close>

datatype complaint =
  Too_many_arguments | Bad_options | Not_running | Socket_failed | Connect_failed int
| Not_connected | Write_failed | Connection_lost | Send_failed int | Scan_failed | Net_down
| Network_down | No_more_aps | No_suitable_aps | Need_ssid | Backend_error int | Ssid_required
| Command_failed int | Passphrase_too_long | Empty_passphrase | Unknown_command bytes

text \<open>
  struct top. \<open>tp_argv\<close> are the strings of the argument vector without their zeros; the last four
  fields stand for the outside: what the socket has to give, the results of the coming \<open>write\<close> calls,
  what has been written to the socket and to standard output.
\<close>

record top =
  tp_opts :: int
  tp_argi :: nat
  tp_argv :: "bytes list"
  tp_fd :: int
  tp_uc :: ucbuf
  tp_ur :: urbuf
  tp_connected :: bool
  tp_showbss :: bool
  tp_rx :: "rx_event list"
  tp_writes :: "int list"
  tp_sent :: bytes
  tp_out :: bytes

text \<open>
  What the system does: the descriptor \<open>socket\<close> yields, the error number of \<open>connect\<close> (zero for
  success), what \<open>read\<close> takes from the terminal (None for an error), \<open>qsort\<close>, and the contents of
  memory from \<open>malloc\<close>.
\<close>

record client_env =
  ce_socket :: int
  ce_connect :: int
  ce_stdin :: "bytes option"
  ce_qsort :: sorter
  ce_heap :: byte

type_synonym 'a run = "(complaint \<times> top, 'a) outcome option"

definition fail :: "complaint \<Rightarrow> top \<Rightarrow> 'a run" where
  "fail c t = Some (Quit (c, t))"

definition pass :: "'a run \<Rightarrow> ('a \<Rightarrow> 'b run) \<Rightarrow> 'b run" where
  "pass r f =
     (case r of
        None \<Rightarrow> None
      | Some Wild \<Rightarrow> Some Wild
      | Some (Quit s) \<Rightarrow> Some (Quit s)
      | Some (Go a) \<Rightarrow> f a)"

definition say :: "bytes \<Rightarrow> top \<Rightarrow> top" where
  "say bs t = t\<lparr>tp_out := tp_out t @ bs\<rparr>"

section \<open>The wire (wifi_wire.c, common/writeall.c)\<close>

definition init_heap_bufs :: "client_env \<Rightarrow> top \<Rightarrow> top" where
  "init_heap_bufs E t =
     (let buf = replicate 2048 (ce_heap E) in
      t\<lparr>tp_uc := (tp_uc t)\<lparr>uc_buf := buf, uc_ptr := 0\<rparr>,
        tp_ur := (tp_ur t)\<lparr>ur_buf := buf, ur_mptr := 0, ur_rptr := 0\<rparr>\<rparr>)"

text \<open>
  \<open>writeall\<close>: each \<open>write\<close> takes as many bytes as its result says; no further result is an error. The
  value is the result of the last call when positive, else minus one.
\<close>

fun writeall :: "int list \<Rightarrow> bytes \<Rightarrow> int \<Rightarrow> int \<times> bytes \<times> int list" where
  "writeall ws buf wr =
     (if buf = [] then (if wr > 0 then wr else - 1, [], ws)
      else case ws of
             [] \<Rightarrow> (- 1, [], [])
           | wr # ws \<Rightarrow>
               if wr \<le> 0 then (- 1, [], ws)
               else (case writeall ws (drop (nat wr) buf) wr of
                       (ret, sent, ws) \<Rightarrow> (ret, take (nat wr) buf @ sent, ws)))"

declare writeall.simps [simp del]

text \<open>The errno of a failed \<open>connect\<close> is compared to a negative number, as the code does.\<close>

definition connctl :: "client_env \<Rightarrow> bool \<Rightarrow> top \<Rightarrow> (int \<times> top) run" where
  "connctl E miss t =
     (let fd = ce_socket E in
      if fd < 0 then fail Socket_failed t
      else let t = t\<lparr>tp_fd := fd\<rparr> in
           if ce_connect E \<noteq> 0
           then (if ce_connect E \<noteq> - ENOENT \<or> \<not> miss then fail (Connect_failed (ce_connect E)) t
                 else Some (Go (- 1, t)))
           else Some (Go (0, t\<lparr>tp_connected := True\<rparr>)))"

definition connect_wictl :: "client_env \<Rightarrow> top \<Rightarrow> top run" where
  "connect_wictl E t = pass (connctl E False t) (\<lambda>(ret, t). Some (Go t))"

definition connect_wictl_miss :: "client_env \<Rightarrow> top \<Rightarrow> (int \<times> top) run" where
  "connect_wictl_miss E t = connctl E True t"

definition send_command :: "top \<Rightarrow> top run" where
  "send_command t =
     (let txlen = uc_ptr (tp_uc t) in
      if \<not> tp_connected t then fail Not_connected t
      else case writeall (tp_writes t) (take txlen (uc_buf (tp_uc t))) 0 of
             (ret, sent, ws) \<Rightarrow>
               (let t = t\<lparr>tp_sent := tp_sent t @ sent, tp_writes := ws\<rparr> in
                if ret < 0 then fail Write_failed t else Some (Go t)))"

text \<open>The offset of the message in the receive buffer; None inside when there is no more.\<close>

definition recv_reply :: "top \<Rightarrow> (nat option \<times> top) run" where
  "recv_reply t =
     (case uc_recv (tp_ur t) True (tp_rx t) of
        None \<Rightarrow> None
      | Some (ret, ur, rx) \<Rightarrow>
          (let t = t\<lparr>tp_ur := ur, tp_rx := rx\<rparr> in
           if ret < 0 then Some (Go (None, t)) else Some (Go (ur_msg ur, t))))"

definition reply_cmd :: "nat \<Rightarrow> top \<Rightarrow> int" where
  "reply_cmd msg t = sint (msg_cmd (ur_buf (tp_ur t)) msg)"

text \<open>The loop of \<open>send_recv_msg\<close>.\<close>

partial_function (option) await_reply :: "top \<Rightarrow> (complaint \<times> top, nat \<times> top) outcome option" where
  "await_reply t =
     (case recv_reply t of
        None \<Rightarrow> None
      | Some Wild \<Rightarrow> Some Wild
      | Some (Quit s) \<Rightarrow> Some (Quit s)
      | Some (Go (None, t)) \<Rightarrow> Some (Quit (Connection_lost, t))
      | Some (Go (Some msg, t)) \<Rightarrow>
          if reply_cmd msg t \<le> 0 then Some (Go (msg, t)) else await_reply t)"

definition send_recv_msg :: "top \<Rightarrow> (nat \<times> top) run" where
  "send_recv_msg t = pass (send_command t) await_reply"

definition send_recv_cmd :: "top \<Rightarrow> (int \<times> top) run" where
  "send_recv_cmd t = pass (send_recv_msg t) (\<lambda>(msg, t). Some (Go (reply_cmd msg t, t)))"

definition wire_check :: "top \<Rightarrow> top run" where
  "wire_check t =
     pass (send_recv_cmd t) (\<lambda>(ret, t). if ret < 0 then fail (Send_failed (- ret)) t else Some (Go t))"

section \<open>Passphrases (wifi_pass.c)\<close>

definition in_uc :: "(ucbuf \<Rightarrow> ucbuf) \<Rightarrow> top \<Rightarrow> top" where
  "in_uc f t = t\<lparr>tp_uc := f (tp_uc t)\<rparr>"

definition put_psk :: "bytes \<Rightarrow> bytes \<Rightarrow> top \<Rightarrow> top" where
  "put_psk ssid phrase t =
     (let psk = memzero (replicate 32 0) 0 32;
          psk = pbkdf2_sha1 psk 32 phrase ssid 4096
      in in_uc (\<lambda>uc. uc_put_bin uc ATTR_PSK psk) t)"

text \<open>
  The passphrase typed: what \<open>read\<close> took without a final newline. An error of \<open>read\<close> makes the code
  write before its buffer.
\<close>

definition input_passphrase :: "client_env \<Rightarrow> nat \<Rightarrow> top \<Rightarrow> (bytes \<times> top) run" where
  "input_passphrase E len t =
     (let t = say (ascii ''Passphrase: '') t in
      case map_option (take len) (ce_stdin E) of
        None \<Rightarrow> Some Wild
      | Some buf \<Rightarrow>
          if length buf \<ge> len then fail Passphrase_too_long t
          else let rd = length buf;
                   rd = (if rd > 0 \<and> buf ! (rd - 1) = 0x0A then rd - 1 else rd)
               in if rd = 0 then fail Empty_passphrase t
                  else Some (Go (take rd buf, t)))"

definition put_psk_input :: "client_env \<Rightarrow> bytes \<Rightarrow> top \<Rightarrow> top run" where
  "put_psk_input E ssid t =
     pass (input_passphrase E 256 t) (\<lambda>(phrase, t). Some (Go (put_psk ssid phrase t)))"

section \<open>Arguments (wifi.c)\<close>

definition init_args :: "bytes list \<Rightarrow> top \<Rightarrow> top" where
  "init_args argv t = t\<lparr>tp_argi := 1, tp_argv := argv\<rparr>"

definition no_other_options :: "top \<Rightarrow> top run" where
  "no_other_options t =
     (if tp_argi t < length (tp_argv t) then fail Too_many_arguments t
      else if tp_opts t \<noteq> 0 then fail Bad_options t
      else Some (Go t))"

definition got_any_args :: "top \<Rightarrow> bool" where
  "got_any_args t \<longleftrightarrow> tp_argi t < length (tp_argv t)"

definition shift_arg :: "top \<Rightarrow> bytes option \<times> top" where
  "shift_arg t =
     (if tp_argi t \<ge> length (tp_argv t) then (None, t)
      else (Some (tp_argv t ! tp_argi t), t\<lparr>tp_argi := tp_argi t + 1\<rparr>))"

definition connect_wictl_check :: "client_env \<Rightarrow> top \<Rightarrow> top run" where
  "connect_wictl_check E t =
     pass (connect_wictl_miss E t) (\<lambda>(ret, t). if ret \<ge> 0 then Some (Go t) else fail Not_running t)"

section \<open>Commands\<close>

text \<open>The request without attributes.\<close>

definition put_bare :: "u32 \<Rightarrow> top \<Rightarrow> top" where
  "put_bare cmd t = in_uc (\<lambda>uc. uc_put_end (uc_put_hdr uc cmd)) t"

definition wifi_status :: "client_env \<Rightarrow> top \<Rightarrow> top run" where
  "wifi_status E t =
     pass (no_other_options (put_bare CMD_WI_STATUS t)) (\<lambda>t.
     pass (connect_wictl_check E t) (\<lambda>t.
     pass (send_recv_msg t) (\<lambda>(msg, t).
     Some (Go (say (dump_status (ce_qsort E) (tp_showbss t) (ur_buf (tp_ur t)) msg) t)))))"

definition wifi_bss :: "client_env \<Rightarrow> top \<Rightarrow> top run" where
  "wifi_bss E t = wifi_status E (t\<lparr>tp_showbss := True\<rparr>)"

text \<open>The loops that read reports until the one they wait for; a connection that ends ends them too.\<close>

partial_function (option) await_neutral :: "top \<Rightarrow> (complaint \<times> top, top) outcome option" where
  "await_neutral t =
     (case recv_reply t of
        None \<Rightarrow> None
      | Some Wild \<Rightarrow> Some Wild
      | Some (Quit s) \<Rightarrow> Some (Quit s)
      | Some (Go (None, t)) \<Rightarrow> Some (Go t)
      | Some (Go (Some msg, t)) \<Rightarrow>
          if reply_cmd msg t = sint REP_WI_DISCONNECT then Some (Go t)
          else if reply_cmd msg t = sint REP_WI_NET_DOWN then Some (Go t)
          else await_neutral t)"

definition wifi_neutral :: "client_env \<Rightarrow> top \<Rightarrow> top run" where
  "wifi_neutral E t =
     pass (no_other_options (put_bare CMD_WI_NEUTRAL t)) (\<lambda>t.
     pass (connect_wictl E t) (\<lambda>t.
     pass (send_recv_cmd t) (\<lambda>(ret, t).
     if ret = - EALREADY then Some (Go t)
     else if ret < 0 then fail (Command_failed (- ret)) t
     else await_neutral t)))"

partial_function (option) await_scan :: "top \<Rightarrow> (complaint \<times> top, top) outcome option" where
  "await_scan t =
     (case recv_reply t of
        None \<Rightarrow> None
      | Some Wild \<Rightarrow> Some Wild
      | Some (Quit s) \<Rightarrow> Some (Quit s)
      | Some (Go (None, t)) \<Rightarrow> Some (Go t)
      | Some (Go (Some msg, t)) \<Rightarrow>
          if reply_cmd msg t = sint REP_WI_SCAN_FAIL then Some (Quit (Scan_failed, t))
          else if reply_cmd msg t = sint REP_WI_SCAN_DONE then Some (Go t)
          else if reply_cmd msg t = sint REP_WI_NET_DOWN then Some (Quit (Net_down, t))
          else await_scan t)"

definition wifi_scan :: "client_env \<Rightarrow> top \<Rightarrow> top run" where
  "wifi_scan E t =
     pass (no_other_options (put_bare CMD_WI_SCAN t)) (\<lambda>t.
     pass (connect_wictl E t) (\<lambda>t.
     pass (wire_check t) (\<lambda>t.
     pass (await_scan t) (\<lambda>t.
     pass (send_recv_msg (put_bare CMD_WI_STATUS t)) (\<lambda>(msg, t).
     Some (Go (say (dump_scanlist (ce_qsort E) (tp_showbss t) (ur_buf (tp_ur t)) msg) t)))))))"

definition say_sta :: "string \<Rightarrow> nat \<Rightarrow> top \<Rightarrow> top" where
  "say_sta what msg t = say (warn_sta (tp_showbss t) (ascii what) (ur_buf (tp_ur t)) msg) t"

partial_function (option) wait_for_connect_loop ::
  "int \<Rightarrow> top \<Rightarrow> (complaint \<times> top, top) outcome option" where
  "wait_for_connect_loop failures t =
     (case recv_reply t of
        None \<Rightarrow> None
      | Some Wild \<Rightarrow> Some Wild
      | Some (Quit s) \<Rightarrow> Some (Quit s)
      | Some (Go (None, t)) \<Rightarrow> Some (Go t)
      | Some (Go (Some msg, t)) \<Rightarrow>
          if reply_cmd msg t = sint REP_WI_NET_DOWN then Some (Quit (Network_down, t))
          else if reply_cmd msg t = sint REP_WI_CONNECTED then Some (Go (say_sta ''connected to'' msg t))
          else if reply_cmd msg t = sint REP_WI_DISCONNECT
          then wait_for_connect_loop (failures + 1) (say_sta ''cannot connect to'' msg t)
          else if reply_cmd msg t = sint REP_WI_NO_CONNECT
          then Some (Quit (if failures \<noteq> 0 then No_more_aps else No_suitable_aps, t))
          else wait_for_connect_loop failures t)"

definition wait_for_connect :: "top \<Rightarrow> top run" where
  "wait_for_connect t = wait_for_connect_loop 0 t"

definition put_ssid :: "bytes \<Rightarrow> top \<Rightarrow> top" where
  "put_ssid ssid t = in_uc (\<lambda>uc. uc_put_bin uc ATTR_SSID ssid) t"

definition wifi_fixedap :: "client_env \<Rightarrow> top \<Rightarrow> top run" where
  "wifi_fixedap E t =
     (case shift_arg t of
        (None, t) \<Rightarrow> fail Need_ssid t
      | (Some ssid, t) \<Rightarrow>
          (let t = in_uc (\<lambda>uc. uc_put_hdr uc CMD_WI_CONNECT) t;
               t = put_ssid ssid t;
               t = in_uc uc_put_end t in
           pass (no_other_options t) (\<lambda>t.
           pass (connect_wictl E t) (\<lambda>t.
           pass (send_recv_cmd t) (\<lambda>(ret, t).
           if ret \<ge> 0 then wait_for_connect t
           else if ret \<noteq> - ENOKEY then fail (Backend_error (- ret)) t
           else let t = in_uc (\<lambda>uc. uc_put_hdr uc CMD_WI_CONNECT) t;
                    t = put_ssid ssid t in
                pass (put_psk_input E ssid t) (\<lambda>t.
                pass (wire_check (in_uc uc_put_end t)) wait_for_connect))))))"

definition wifi_connect :: "client_env \<Rightarrow> top \<Rightarrow> top run" where
  "wifi_connect E t =
     (if got_any_args t then wifi_fixedap E t
      else pass (no_other_options (put_bare CMD_WI_CONNECT t)) (\<lambda>t.
           pass (connect_wictl E t) (\<lambda>t.
           pass (wire_check t) wait_for_connect)))"

definition wifi_forget :: "client_env \<Rightarrow> top \<Rightarrow> top run" where
  "wifi_forget E t =
     (case shift_arg t of
        (None, t) \<Rightarrow> fail Ssid_required t
      | (Some ssid, t) \<Rightarrow>
          (let t = in_uc (\<lambda>uc. uc_put_hdr uc CMD_WI_FORGET) t;
               t = put_ssid ssid t;
               t = in_uc uc_put_end t in
           pass (no_other_options t) (\<lambda>t.
           pass (connect_wictl E t) wire_check)))"

section \<open>Dispatch\<close>

definition commands :: "client_env \<Rightarrow> (bytes \<times> (top \<Rightarrow> top run)) list" where
  "commands E =
     [(ascii ''scan'', wifi_scan E), (ascii ''ap'', wifi_fixedap E), (ascii ''connect'', wifi_connect E),
      (ascii ''dc'', wifi_neutral E), (ascii ''break'', wifi_neutral E), (ascii ''disconnect'', wifi_neutral E),
      (ascii ''forget'', wifi_forget E), (ascii ''bss'', wifi_bss E)]"

text \<open>\<open>strncmp\<close> on strings that end in a zero: do the first \<open>n\<close> characters agree?\<close>

definition strncmp_eq :: "nat \<Rightarrow> bytes \<Rightarrow> bytes \<Rightarrow> bool" where
  "strncmp_eq n a b \<longleftrightarrow> take n (a @ [0]) = take n (b @ [0])"

fun dispatch_in :: "(bytes \<times> (top \<Rightarrow> top run)) list \<Rightarrow> bytes \<Rightarrow> top \<Rightarrow> top run" where
  "dispatch_in [] name t = fail (Unknown_command name) t"
| "dispatch_in ((r_name, r_call) # rs) name t =
     (if strncmp_eq 12 r_name name then r_call t else dispatch_in rs name t)"

definition dispatch :: "client_env \<Rightarrow> bytes \<Rightarrow> top \<Rightarrow> top run" where
  "dispatch E name t = dispatch_in (commands E) name t"

text \<open>The context after \<open>memzero\<close>, with what the socket will bring and take.\<close>

definition zero_top :: "rx_event list \<Rightarrow> int list \<Rightarrow> top" where
  "zero_top rx ws =
     \<lparr>tp_opts = 0, tp_argi = 0, tp_argv = [], tp_fd = 0, tp_uc = \<lparr>uc_buf = [], uc_ptr = 0, uc_over = False\<rparr>,
      tp_ur = \<lparr>ur_buf = [], ur_mptr = 0, ur_rptr = 0, ur_msg = None\<rparr>, tp_connected = False,
      tp_showbss = False, tp_rx = rx, tp_writes = ws, tp_sent = [], tp_out = []\<rparr>"

definition wifi :: "client_env \<Rightarrow> bytes list \<Rightarrow> rx_event list \<Rightarrow> int list \<Rightarrow> top run" where
  "wifi E argv rx ws =
     (let t = init_heap_bufs E (init_args argv (zero_top rx ws)) in
      case shift_arg t of
        (Some cmd, t) \<Rightarrow> dispatch E cmd t
      | (None, t) \<Rightarrow> wifi_status E t)"

end
