(* ===== verification/Uctl_Proofs.thy ===== *)
theory Uctl_Proofs imports Uctl begin

text \<open>
  The control protocol is correct: what the put routines leave in the buffer is the encoding of the
  attributes put, or an overflow is recorded and nothing is written out of bounds; the get routines
  find in an encoded message the attributes that were put, and in any received message only
  attributes inside it; messages come off the stream whole and in order however the stream is cut.
\<close>

section \<open>The encoding\<close>

text \<open>An attribute is a key with its bytes or with attributes of its own.\<close>

datatype uc_item = Bin u16 bytes | Nest u16 "uc_item list"

definition uc_attr :: "u16 \<Rightarrow> bytes \<Rightarrow> bytes" where
  "uc_attr k pl = le16 (word_of_nat (4 + length pl)) @ le16 k @ pl @ replicate ((4 - length pl mod 4) mod 4) 0"

fun enc_item :: "uc_item \<Rightarrow> bytes" where
  "enc_item (Bin k pl) = uc_attr k pl"
| "enc_item (Nest k its) = uc_attr k (concat (map enc_item its))"

definition enc_items :: "uc_item list \<Rightarrow> bytes" where
  "enc_items its = concat (map enc_item its)"

definition uc_message :: "u32 \<Rightarrow> bytes \<Rightarrow> bytes" where
  "uc_message cmd pl = le32 (word_of_nat (8 + length pl)) @ le32 cmd @ pl"

lemma enc_items_simps [simp]:
  "enc_items [] = []" "enc_items (it # its) = enc_item it @ enc_items its"
  "enc_items (as @ bs) = enc_items as @ enc_items bs"
  "enc_item (Nest k its) = uc_attr k (enc_items its)"
  by (simp_all add: enc_items_def)

declare enc_item.simps(2) [simp del]

lemma pad4: "(4 - (4 + n) mod 4) mod 4 = (4 - n mod 4) mod (4 :: nat)"
  by simp

lemma length_uc_attr: "length (uc_attr k pl) = 4 + align4 (length pl)"
  by (simp add: uc_attr_def align4_def)

lemma length_enc_item_mod: "length (enc_item it) mod 4 = 0"
  by (cases it) (simp_all add: length_uc_attr align4_small)

lemma length_enc_items_mod [simp]: "length (enc_items its) mod 4 = 0"
proof (induction its)
  case (Cons it its)
  then show ?case using length_enc_item_mod [of it] by (simp add: mod_add_eq [symmetric])
qed simp

lemma length_uc_message [simp]: "length (uc_message cmd pl) = 8 + length pl"
  by (simp add: uc_message_def)

section \<open>Putting\<close>

text \<open>The buffer has exactly \<open>out\<close> written into it and no overflow.\<close>

definition uc_holds :: "ucbuf \<Rightarrow> bytes \<Rightarrow> bool" where
  "uc_holds uc out \<longleftrightarrow> \<not> uc_over uc \<and> uc_ptr uc = length out \<and> length out \<le> length (uc_buf uc) \<and>
     take (length out) (uc_buf uc) = out"

text \<open>The pointer is inside the buffer.\<close>

definition uc_ok :: "ucbuf \<Rightarrow> bool" where
  "uc_ok uc \<longleftrightarrow> uc_ptr uc \<le> length (uc_buf uc)"

lemma uc_holdsE:
  assumes "uc_holds uc out"
  obtains r where "uc_buf uc = out @ r" "uc_ptr uc = length out" "\<not> uc_over uc"
  using assms that [of "drop (length out) (uc_buf uc)"]
  by (auto simp: uc_holds_def) (metis append_take_drop_id)

lemma uc_holds_take: "uc_holds uc out \<Longrightarrow> n = length out \<Longrightarrow> take n (uc_buf uc) = out"
  by (simp add: uc_holds_def)

lemma uc_holdsI: "uc_buf uc = out @ r \<Longrightarrow> uc_ptr uc = length out \<Longrightarrow> \<not> uc_over uc \<Longrightarrow> uc_holds uc out"
  by (simp add: uc_holds_def)

lemma uc_put_bin_holds:
  assumes "uc_holds uc out" and "length out + length (uc_attr k pl) \<le> length (uc_buf uc)"
  shows "uc_holds (uc_put_bin uc k pl) (out @ uc_attr k pl) \<and>
    length (uc_buf (uc_put_bin uc k pl)) = length (uc_buf uc)"
proof -
  obtain r where uc: "uc_buf uc = out @ r" "uc_ptr uc = length out" "\<not> uc_over uc"
    using assms(1) by (rule uc_holdsE)
  let ?pad = "(4 - length pl mod 4) mod 4"
  have r: "4 + length pl + ?pad \<le> length r"
    using assms(2) uc(1) by (simp add: length_uc_attr align4_def)
  then obtain a b where ab: "r = a @ b" "length a = 4 + length pl + ?pad"
    by (metis append_take_drop_id length_take min_absorb2)
  define h t p where "h = take 4 a" and "t = take (length pl) (drop 4 a)" and "p = drop (4 + length pl) a"
  have a: "a = h @ t @ p" "length h = 4" "length t = length pl" "length p = ?pad"
    using ab(2) by (simp_all add: h_def t_def p_def) (metis append_take_drop_id drop_drop add.commute)
  have "uc_put_bin uc k pl =
      uc\<lparr>uc_buf := out @ uc_attr k pl @ b, uc_ptr := length out + 4 + length pl + ?pad\<rparr>"
    using uc ab a r pad4 [of "length pl"]
    by (simp add: uc_put_bin_def uc_put_attr_def uc_alloc_def uc_poke_def Let_def memcpy_at_def uc_attr_def)
  then show ?thesis
    using uc ab by (simp add: uc_holds_def length_uc_attr align4_def)
qed

lemma uc_put_bin_over:
  assumes "uc_over uc \<or> uc_ptr uc + length (uc_attr k pl) > length (uc_buf uc)"
  shows "uc_put_bin uc k pl = uc\<lparr>uc_over := True\<rparr>"
  using assms pad4 [of "length pl"]
  by (cases uc) (auto simp: uc_put_bin_def uc_put_attr_def uc_alloc_def Let_def length_uc_attr align4_def)

lemma uc_put_int_bin: "uc_put_int uc k v = uc_put_bin uc k (le32 v)"
  by (simp add: uc_put_int_def uc_put_bin_def)

lemma uc_put_flag_bin: "uc_put_flag uc k = uc_put_bin uc k []"
  by (auto simp: uc_put_flag_def uc_put_bin_def uc_put_attr_def uc_alloc_def uc_poke_def memcpy_at_def
      Let_def split: option.splits prod.splits)

text \<open>A caller's sequence of puts; a nest is opened, filled and closed.\<close>

fun put_item :: "ucbuf \<Rightarrow> uc_item \<Rightarrow> ucbuf" where
  "put_item uc (Bin k pl) = uc_put_bin uc k pl"
| "put_item uc (Nest k its) =
     (let (nest, uc) = uc_put_nest uc k; uc = fold (\<lambda>it uc. put_item uc it) its uc in uc_end_nest uc nest)"

definition put_items :: "uc_item list \<Rightarrow> ucbuf \<Rightarrow> ucbuf" where
  "put_items its uc = fold (\<lambda>it uc. put_item uc it) its uc"

lemma put_items_simps [simp]:
  "put_items [] uc = uc" "put_items (it # its) uc = put_items its (put_item uc it)"
  "put_items (as @ bs) uc = put_items bs (put_items as uc)"
  by (simp_all add: put_items_def)

lemma uc_put_nest_bin:
  "uc_put_nest uc k = (if uc_over uc \<or> uc_ptr uc + 4 > length (uc_buf uc) then (None, uc\<lparr>uc_over := True\<rparr>)
     else (Some (uc_ptr uc), uc_put_bin uc k []))"
  by (cases uc) (auto simp: uc_put_nest_def uc_put_bin_def uc_put_attr_def uc_alloc_def uc_poke_def memcpy_at_def Let_def)

text \<open>Closing a nest rewrites the length of its header to span what was put since.\<close>

lemma uc_end_nest_holds:
  assumes "uc_holds uc (out @ uc_attr k [] @ inner)" and "length inner mod 4 = 0"
  shows "uc_holds (uc_end_nest uc (Some (length out))) (out @ uc_attr k inner) \<and>
    length (uc_buf (uc_end_nest uc (Some (length out)))) = length (uc_buf uc)"
proof -
  obtain r where uc: "uc_buf uc = (out @ uc_attr k [] @ inner) @ r"
      "uc_ptr uc = length (out @ uc_attr k [] @ inner)" "\<not> uc_over uc"
    using assms(1) by (rule uc_holdsE)
  have k: "uc_attr k [] = le16 4 @ le16 k" by (simp add: uc_attr_def)
  have "uc_end_nest uc (Some (length out)) = uc\<lparr>uc_buf := (out @ uc_attr k inner) @ r\<rparr>"
    using uc assms(2) by (simp add: uc_end_nest_def uc_poke_def memcpy_at_def uc_attr_def)
  then show ?thesis
    using uc assms(2) by (simp add: uc_holds_def k length_uc_attr align4_id)
qed

lemma put_item_holds:
  "uc_holds uc out \<Longrightarrow> length out + length (enc_item it) \<le> length (uc_buf uc) \<Longrightarrow>
   uc_holds (put_item uc it) (out @ enc_item it) \<and> length (uc_buf (put_item uc it)) = length (uc_buf uc)"
proof (induction it arbitrary: uc out)
  case (Bin k pl)
  then show ?case using uc_put_bin_holds by simp
next
  case (Nest k its)
  have len: "length (enc_item (Nest k its)) = 4 + length (enc_items its)"
    by (simp add: length_uc_attr align4_id)
  have fold: "uc_holds (put_items js uc') (out' @ enc_items js) \<and> length (uc_buf (put_items js uc')) = length (uc_buf uc')"
    if "uc_holds uc' out'" "length out' + length (enc_items js) \<le> length (uc_buf uc')" "set js \<subseteq> set its" for js uc' out'
    using that
  proof (induction js arbitrary: uc' out')
    case (Cons j js)
    have "uc_holds (put_item uc' j) (out' @ enc_item j) \<and> length (uc_buf (put_item uc' j)) = length (uc_buf uc')"
      using Cons.prems by (intro Nest.IH) auto
    with Cons.IH [of "put_item uc' j" "out' @ enc_item j"] Cons.prems show ?case by simp
  qed simp
  have ptr: "uc_ptr uc = length out" "\<not> uc_over uc" using Nest.prems(1) by (simp_all add: uc_holds_def)
  let ?a = "uc_put_bin uc k []"
  have a: "uc_holds ?a (out @ uc_attr k []) \<and> length (uc_buf ?a) = length (uc_buf uc)"
    using Nest.prems len by (intro uc_put_bin_holds) (simp_all add: length_uc_attr align4_small)
  have b: "uc_holds (put_items its ?a) ((out @ uc_attr k []) @ enc_items its)"
      "length (uc_buf (put_items its ?a)) = length (uc_buf ?a)"
    using fold [of ?a "out @ uc_attr k []" its] a Nest.prems(2) len by (simp_all add: length_uc_attr align4_small)
  have "put_item uc (Nest k its) = uc_end_nest (put_items its ?a) (Some (length out))"
    using ptr Nest.prems(2) len by (simp add: uc_put_nest_bin put_items_def)
  then show ?case
    using uc_end_nest_holds [of "put_items its ?a" out k "enc_items its"] a b by simp
qed

lemma put_items_holds:
  "uc_holds uc out \<Longrightarrow> length out + length (enc_items its) \<le> length (uc_buf uc) \<Longrightarrow>
   uc_holds (put_items its uc) (out @ enc_items its) \<and> length (uc_buf (put_items its uc)) = length (uc_buf uc)"
proof (induction its arbitrary: uc out)
  case (Cons it its)
  have "uc_holds (put_item uc it) (out @ enc_item it) \<and> length (uc_buf (put_item uc it)) = length (uc_buf uc)"
    using Cons.prems by (intro put_item_holds) auto
  with Cons.IH [of "put_item uc it" "out @ enc_item it"] Cons.prems show ?case by simp
qed simp

text \<open>Nothing is ever written behind the buffer, and an overflow is never forgotten.\<close>

lemma uc_put_bin_ok: "uc_ok uc \<Longrightarrow> uc_ok (uc_put_bin uc k pl) \<and>
    length (uc_buf (uc_put_bin uc k pl)) = length (uc_buf uc) \<and> (uc_over uc \<longrightarrow> uc_over (uc_put_bin uc k pl)) \<and>
    uc_ptr uc \<le> uc_ptr (uc_put_bin uc k pl)"
proof (cases "uc_over uc \<or> uc_ptr uc + length (uc_attr k pl) > length (uc_buf uc)")
  case True
  then show "uc_ok uc \<Longrightarrow> ?thesis" using uc_put_bin_over [OF True] by (simp add: uc_ok_def)
next
  case False
  then have "uc_holds uc (take (uc_ptr uc) (uc_buf uc))" by (simp add: uc_holds_def)
  from uc_put_bin_holds [OF this, of k pl] False show ?thesis
    by (auto simp: uc_holds_def uc_ok_def)
qed

lemma put_item_ok: "uc_ok uc \<Longrightarrow> uc_ok (put_item uc it) \<and>
    length (uc_buf (put_item uc it)) = length (uc_buf uc) \<and> (uc_over uc \<longrightarrow> uc_over (put_item uc it)) \<and>
    uc_ptr uc \<le> uc_ptr (put_item uc it)"
proof (induction it arbitrary: uc)
  case (Bin k pl)
  then show ?case using uc_put_bin_ok by simp
next
  case (Nest k its)
  have fold: "uc_ok (put_items js uc') \<and> length (uc_buf (put_items js uc')) = length (uc_buf uc') \<and>
      (uc_over uc' \<longrightarrow> uc_over (put_items js uc')) \<and> uc_ptr uc' \<le> uc_ptr (put_items js uc')"
    if "uc_ok uc'" "set js \<subseteq> set its" for js uc'
    using that
  proof (induction js arbitrary: uc')
    case (Cons j js)
    from Nest.IH [of j uc'] Cons.IH [of "put_item uc' j"] Cons.prems show ?case by fastforce
  qed simp
  show ?case
  proof (cases "uc_over uc \<or> uc_ptr uc + 4 > length (uc_buf uc)")
    case True
    with fold [of "uc\<lparr>uc_over := True\<rparr>" its] Nest.prems show ?thesis
      by (auto simp: uc_put_nest_bin put_items_def uc_end_nest_def uc_ok_def)
  next
    case False
    let ?a = "uc_put_bin uc k []" and ?b = "put_items its (uc_put_bin uc k [])"
    have a: "uc_ok ?a" "length (uc_buf ?a) = length (uc_buf uc)" "uc_ptr ?a = uc_ptr uc + 4"
      using False uc_put_bin_ok [OF Nest.prems, of k "[]"] uc_put_bin_holds [of uc "take (uc_ptr uc) (uc_buf uc)" k "[]"]
      by (auto simp: uc_holds_def length_uc_attr align4_small)
    have b: "uc_ok ?b" "length (uc_buf ?b) = length (uc_buf uc)" "uc_ptr uc + 4 \<le> uc_ptr ?b"
      using fold [OF a(1), of its] a by auto
    have "length (uc_buf (uc_end_nest ?b (Some (uc_ptr uc)))) = length (uc_buf ?b)"
      using b by (simp add: uc_end_nest_def uc_poke_def uc_ok_def length_memcpy_at)
    moreover have "put_item uc (Nest k its) = uc_end_nest ?b (Some (uc_ptr uc))"
      using False by (simp add: uc_put_nest_bin put_items_def)
    moreover have "uc_ptr (uc_end_nest ?b (Some (uc_ptr uc))) = uc_ptr ?b"
      by (simp add: uc_end_nest_def uc_poke_def)
    ultimately show ?thesis using False b by (simp add: uc_ok_def)
  qed
qed

lemma put_items_ok: "uc_ok uc \<Longrightarrow> uc_ok (put_items its uc) \<and>
    length (uc_buf (put_items its uc)) = length (uc_buf uc) \<and> (uc_over uc \<longrightarrow> uc_over (put_items its uc)) \<and>
    uc_ptr uc \<le> uc_ptr (put_items its uc)"
proof (induction its arbitrary: uc)
  case (Cons it its)
  from put_item_ok [OF Cons.prems, of it] Cons.IH [of "put_item uc it"] show ?case by auto
qed simp

text \<open>A whole message, as every caller builds one.\<close>

definition put_message :: "ucbuf \<Rightarrow> u32 \<Rightarrow> uc_item list \<Rightarrow> ucbuf" where
  "put_message uc cmd its = uc_put_end (put_items its (uc_put_hdr uc cmd))"

lemma uc_put_hdr_holds:
  assumes "\<not> uc_over uc" and "8 \<le> length (uc_buf uc)"
  shows "uc_holds (uc_put_hdr uc cmd) (le32 0 @ le32 cmd) \<and> length (uc_buf (uc_put_hdr uc cmd)) = length (uc_buf uc)"
  using assms
  by (simp add: uc_put_hdr_def uc_alloc_def uc_poke_def uc_holds_def Let_def memcpy_at_def)

lemma put_message_holds:
  assumes "\<not> uc_over uc" and "8 + length (enc_items its) \<le> length (uc_buf uc)"
  shows "uc_holds (put_message uc cmd its) (uc_message cmd (enc_items its))"
proof -
  let ?h = "uc_put_hdr uc cmd" and ?its = "enc_items its"
  have h: "uc_holds ?h (le32 0 @ le32 cmd)" "length (uc_buf ?h) = length (uc_buf uc)"
    using uc_put_hdr_holds assms by simp_all
  have "uc_holds (put_items its ?h) ((le32 0 @ le32 cmd) @ ?its)"
    using put_items_holds [OF h(1), of its] assms(2) h(2) by simp
  then obtain r where p: "uc_buf (put_items its ?h) = ((le32 0 @ le32 cmd) @ ?its) @ r"
      "uc_ptr (put_items its ?h) = length ((le32 0 @ le32 cmd) @ ?its)" "\<not> uc_over (put_items its ?h)"
    by (rule uc_holdsE)
  then show ?thesis
    by (intro uc_holdsI [of _ _ r])
       (simp_all add: put_message_def uc_put_end_def uc_poke_def memcpy_at_def uc_message_def)
qed

text \<open>Setting the length again changes nothing.\<close>

lemma uc_put_end_again:
  assumes "uc_holds uc (uc_message cmd pl)"
  shows "uc_holds (uc_put_end uc) (uc_message cmd pl)"
proof -
  obtain r where "uc_buf uc = uc_message cmd pl @ r" "uc_ptr uc = 8 + length pl" "\<not> uc_over uc"
    using uc_holdsE [OF assms] by (metis length_uc_message)
  then show ?thesis
    by (intro uc_holdsI [of _ _ r]) (simp_all add: uc_put_end_def uc_poke_def memcpy_at_def uc_message_def)
qed

text \<open>
  C36. Building a message in a buffer that has room for it leaves exactly its encoding, with the right
  total length, nested lengths and zero padding, and no overflow.
\<close>

theorem put_message_encodes:
  assumes "\<not> uc_over uc" and "8 + length (enc_items its) \<le> length (uc_buf uc)"
  shows "uc_holds (put_message uc cmd its) (uc_message cmd (enc_items its))"
  using assms by (rule put_message_holds)

lemma put_message_encodes_witness:
  "take 20 (uc_buf (put_message (uc_buf_set (replicate 64 9)) 5 [Nest 8 [Bin 1 [7]]])) =
     [20, 0, 0, 0, 5, 0, 0, 0, 12, 0, 8, 0, 5, 0, 1, 0, 7, 0, 0, 0]"
proof -
  have e: "enc_items [Nest 8 [Bin 1 [7]]] = [12, 0, 8, 0, 5, 0, 1, 0, 7, 0, 0, 0]"
    by (simp add: uc_attr_def le16_def) (simp add: numeral_3_eq_3)
  have "uc_holds (put_message (uc_buf_set (replicate 64 9)) 5 [Nest 8 [Bin 1 [7]]])
      (uc_message 5 (enc_items [Nest 8 [Bin 1 [7]]]))"
    by (rule put_message_encodes) (simp_all add: uc_buf_set_def e del: enc_items_simps)
  from uc_holds_take [OF this, of 20] show ?thesis
    by (simp add: uc_message_def e le32_def del: enc_items_simps)
qed

text \<open>
  Whatever is put into it, the buffer keeps its size, the write pointer stays inside it and an
  overflow stays recorded: no put routine writes out of bounds.
\<close>

lemma put_message_in_bounds:
  assumes "8 \<le> length (uc_buf uc)"
  shows "uc_ok (put_message uc cmd its) \<and> length (uc_buf (put_message uc cmd its)) = length (uc_buf uc) \<and>
    (uc_over uc \<longrightarrow> uc_over (put_message uc cmd its))"
proof -
  let ?h = "uc_put_hdr uc cmd"
  have h: "uc_ok ?h" "length (uc_buf ?h) = length (uc_buf uc)" "uc_over uc \<longrightarrow> uc_over ?h"
    using assms by (auto simp: uc_put_hdr_def uc_alloc_def uc_poke_def uc_ok_def Let_def memcpy_at_def)
  have "uc_ok (put_items its ?h)" "length (uc_buf (put_items its ?h)) = length (uc_buf uc)"
      "uc_over uc \<longrightarrow> uc_over (put_items its ?h)"
    using put_items_ok [OF h(1), of its] h by auto
  then show ?thesis
    by (auto simp: put_message_def uc_put_end_def uc_poke_def uc_ok_def length_memcpy_at)
qed

section \<open>Getting\<close>

text \<open>An attribute in the memory at \<open>p\<close>.\<close>

lemma at_uc_attr:
  assumes "4 + length pl < 65536"
  shows "at_len (a @ uc_attr k pl @ r) (length a) = 4 + length pl" "at_key (a @ uc_attr k pl @ r) (length a) = k"
    "slice (uc_payload (length a)) (length pl) (a @ uc_attr k pl @ r) = pl"
proof -
  have "unat (word_of_nat (4 + length pl) :: u16) = 4 + length pl"
    using assms by (simp only: unsigned_of_nat) (simp add: take_bit_eq_mod)
  then show "at_len (a @ uc_attr k pl @ r) (length a) = 4 + length pl"
    by (simp add: at_len_def uc_attr_def)
  have "drop (length a + 2) (a @ uc_attr k pl @ r) = le16 k @ pl @ replicate ((4 - length pl mod 4) mod 4) 0 @ r"
    by (simp add: uc_attr_def)
  then show "at_key (a @ uc_attr k pl @ r) (length a) = k"
    unfolding at_key_def by simp
  show "slice (uc_payload (length a)) (length pl) (a @ uc_attr k pl @ r) = pl"
    by (simp add: slice_def uc_payload_def uc_attr_def)
qed

text \<open>Keys and payload bytes of a list of attributes.\<close>

fun item_key :: "uc_item \<Rightarrow> u16" where
  "item_key (Bin k pl) = k"
| "item_key (Nest k its) = k"

fun item_bytes :: "uc_item \<Rightarrow> bytes" where
  "item_bytes (Bin k pl) = pl"
| "item_bytes (Nest k its) = enc_items its"

definition small_item :: "uc_item \<Rightarrow> bool" where
  "small_item it \<longleftrightarrow> 4 + length (item_bytes it) < 65536"

lemma enc_item_attr: "enc_item it = uc_attr (item_key it) (item_bytes it)"
  by (cases it) simp_all

lemma uc_get_n_in_items:
  assumes "m = a @ enc_items (pre @ it # post) @ r" and "\<forall>x \<in> set (pre @ it # post). small_item x"
    and "n = int (length (enc_items (pre @ it # post)))"
  shows "uc_get_n_in m (length a) n (length a + length (enc_items pre)) =
    (if post = [] then None else Some (length a + length (enc_items pre) + length (enc_item it)))"
proof -
  let ?p = "length a + length (enc_items pre)"
  have len: "at_len m ?p = 4 + length (item_bytes it)"
    using at_uc_attr(1) [of "item_bytes it" "a @ enc_items pre" "item_key it" "enc_items post @ r"] assms(1,2)
    by (simp add: enc_item_attr small_item_def)
  have al: "(4 + length (item_bytes it)) + (4 - (4 + length (item_bytes it)) mod 4) mod 4 = length (enc_item it)"
    by (simp add: enc_item_attr length_uc_attr align4_def)
  show ?thesis
  proof (cases post)
    case Nil
    then show ?thesis using len al assms(3) by (simp add: uc_get_n_in_def Let_def)
  next
    case (Cons x post')
    let ?q = "length a + length (enc_items pre) + length (enc_item it)"
    have "at_len m ?q = 4 + length (item_bytes x)"
      using at_uc_attr(1) [of "item_bytes x" "a @ enc_items (pre @ [it])" "item_key x" "enc_items post' @ r"] assms(1,2) Cons
      by (simp add: enc_item_attr small_item_def add.assoc)
    moreover have "4 + length (item_bytes x) \<le> length (enc_item x)"
      by (simp add: enc_item_attr length_uc_attr align4_ge)
    ultimately show ?thesis using len al assms(3) Cons by (simp add: uc_get_n_in_def Let_def)
  qed
qed

text \<open>The first attribute with a key, and its position.\<close>

fun first_item :: "u16 \<Rightarrow> nat \<Rightarrow> uc_item list \<Rightarrow> nat option" where
  "first_item key p [] = None"
| "first_item key p (it # its) =
     (if item_key it = key then Some p else first_item key (p + length (enc_item it)) its)"

lemma uc_find_items:
  assumes "m = a @ enc_items (pre @ its) @ r" and "\<forall>x \<in> set (pre @ its). small_item x"
    and "n = int (length (enc_items (pre @ its)))" and "its \<noteq> []"
  shows "uc_find m (length a) n key (length a + length (enc_items pre)) =
    first_item key (length a + length (enc_items pre)) its"
  using assms
proof (induction its arbitrary: pre)
  case (Cons it its)
  let ?p = "length a + length (enc_items pre)"
  have key: "at_key m ?p = item_key it"
    using at_uc_attr(2) [of "item_bytes it" "a @ enc_items pre" "item_key it" "enc_items its @ r"] Cons.prems(1,2)
    by (simp add: enc_item_attr small_item_def)
  have "uc_get_n_in m (length a) n ?p = (if its = [] then None else Some (?p + length (enc_item it)))"
    using uc_get_n_in_items Cons.prems by blast
  moreover have "uc_find m (length a) n key (?p + length (enc_item it)) = first_item key (?p + length (enc_item it)) its"
    if "its \<noteq> []"
    using Cons.IH [of "pre @ [it]"] Cons.prems that by (simp add: add.assoc)
  ultimately show ?case by (subst uc_find.simps) (simp add: key)
qed simp

lemma first_item_slice:
  assumes "first_item key p its = Some q" and "\<forall>x \<in> set its. small_item x"
    and "m = a @ enc_items its @ r" and "p = length a"
  shows "\<exists>it. find (\<lambda>it. item_key it = key) its = Some it \<and> uc_paylen m q = int (length (item_bytes it)) \<and>
    slice (uc_payload q) (length (item_bytes it)) m = item_bytes it \<and> at_key m q = key"
  using assms
proof (induction its arbitrary: p a)
  case (Cons it its)
  show ?case
  proof (cases "item_key it = key")
    case True
    with at_uc_attr [of "item_bytes it" a "item_key it" "enc_items its @ r"] Cons.prems show ?thesis
      by (simp add: enc_item_attr small_item_def uc_paylen_def)
  next
    case False
    with Cons.IH [of "p + length (enc_item it)" "a @ enc_item it"] Cons.prems show ?thesis by simp
  qed
qed simp

lemma first_item_None: "first_item key p its = None \<longleftrightarrow> find (\<lambda>it. item_key it = key) its = None"
  by (induction its arbitrary: p) simp_all

text \<open>What a search for \<open>key\<close> among \<open>its\<close> has to yield: the first with the key, its payload intact.\<close>

definition item_found :: "bytes \<Rightarrow> u16 \<Rightarrow> uc_item list \<Rightarrow> nat option \<Rightarrow> bool" where
  "item_found m key its r \<longleftrightarrow>
     (case find (\<lambda>it. item_key it = key) its of
        None \<Rightarrow> r = None
      | Some it \<Rightarrow> \<exists>p. r = Some p \<and> at_key m p = key \<and> uc_paylen m p = int (length (item_bytes it)) \<and>
          slice (uc_payload p) (length (item_bytes it)) m = item_bytes it)"

text \<open>The search of \<open>uc_get\<close> and of \<open>uc_sub\<close>, in a buffer that starts behind \<open>a\<close>.\<close>

lemma uc_get_0_in_items:
  assumes "m = a @ enc_items its @ r" and "\<forall>x \<in> set its. small_item x"
  shows "uc_get_0_in m (length a) (int (length (enc_items its))) = (if its = [] then None else Some (length a))"
proof (cases its)
  case (Cons it its')
  have "at_len m (length a) = 4 + length (item_bytes it)"
    using at_uc_attr(1) [of "item_bytes it" a "item_key it" "enc_items its' @ r"] assms Cons
    by (simp add: enc_item_attr small_item_def)
  moreover have "4 + length (item_bytes it) \<le> length (enc_items its)"
    using Cons align4_ge [of "length (item_bytes it)"] by (simp add: enc_item_attr length_uc_attr trans_le_add1)
  ultimately show ?thesis using Cons by (simp add: uc_get_0_in_def)
qed (simp add: uc_get_0_in_def)

lemma search_items:
  assumes "m = a @ enc_items its @ r" and "\<forall>x \<in> set its. small_item x" and "n = int (length (enc_items its))"
  shows "item_found m key its
    (case uc_get_0_in m (length a) n of None \<Rightarrow> None | Some at \<Rightarrow> uc_find m (length a) n key at)"
proof -
  have "(case uc_get_0_in m (length a) n of None \<Rightarrow> None | Some at \<Rightarrow> uc_find m (length a) n key at) =
      first_item key (length a) its"
    using uc_get_0_in_items [OF assms(1,2)] uc_find_items [of m a "[]" its r n key] assms
    by (cases its) simp_all
  then show ?thesis
    using first_item_slice [OF _ assms(2,1) refl, of key] first_item_None [of key "length a" its]
    unfolding item_found_def
    by (cases "first_item key (length a) its") (fastforce split: option.splits)+
qed

lemma msg_len_uc_message:
  assumes "m = a @ uc_message cmd pl @ r" and "8 + length pl < 2 ^ 32"
  shows "msg_len m (length a) = 8 + length pl"
proof -
  have "unat (word_of_nat (8 + length pl) :: u32) = 8 + length pl"
    using assms(2) by (simp only: unsigned_of_nat) (simp add: take_bit_eq_mod)
  then show ?thesis using assms(1) by (simp add: msg_len_def uc_message_def)
qed

lemma uc_get_items:
  assumes "m = a @ uc_message cmd (enc_items its) @ r" and "\<forall>x \<in> set its. small_item x"
    and "8 + length (enc_items its) < 2 ^ 32"
  shows "item_found m key its (uc_get m (length a) key)"
proof -
  let ?n = "length (enc_items its)"
  let ?a = "a @ le32 (word_of_nat (8 + ?n)) @ le32 cmd"
  have m: "m = ?a @ enc_items its @ r" using assms(1) by (simp add: uc_message_def)
  have a: "length ?a = length a + 8" by simp
  have "int (8 + ?n) - 8 = int ?n" by simp
  with search_items [OF m assms(2) refl, of key] show ?thesis
    by (simp only: uc_get_def uc_get_0_def msg_len_uc_message [OF assms(1,3)] a)
qed

lemma uc_sub_items:
  assumes "m = a @ uc_attr k (enc_items its) @ r" and "\<forall>x \<in> set its. small_item x"
    and "4 + length (enc_items its) < 65536"
  shows "item_found m key its (uc_sub m (length a) key)"
proof -
  let ?n = "length (enc_items its)"
  let ?a = "a @ le16 (word_of_nat (4 + ?n)) @ le16 k"
  have m: "m = ?a @ enc_items its @ replicate ((4 - ?n mod 4) mod 4) 0 @ r" using assms(1) by (simp add: uc_attr_def)
  have a: "length ?a = length a + 4" by simp
  have len: "at_len m (length a) = 4 + ?n" using at_uc_attr(1) [OF assms(3)] assms(1) by simp
  have "int (4 + ?n) - 4 = int ?n" by simp
  with search_items [OF m assms(2) refl, of key] show ?thesis
    by (simp only: uc_sub_def uc_sub_0_def len a)
qed

text \<open>
  C37. In an encoded message, wherever it lies in memory, \<open>uc_get\<close> finds the first attribute with the
  key asked for, with the payload that was put, and nothing if there is no such attribute.
\<close>

theorem uc_get_message:
  assumes "m = a @ uc_message cmd (enc_items its) @ r" and "\<forall>x \<in> set its. small_item x"
    and "8 + length (enc_items its) < 2 ^ 32"
  shows "case find (\<lambda>it. item_key it = key) its of
      None \<Rightarrow> uc_get m (length a) key = None
    | Some it \<Rightarrow> \<exists>p. uc_get m (length a) key = Some p \<and> at_key m p = key \<and>
        uc_paylen m p = int (length (item_bytes it)) \<and>
        slice (uc_payload p) (length (item_bytes it)) m = item_bytes it"
  using uc_get_items [OF assms, of key] by (simp add: item_found_def split: option.splits)

lemma uc_get_message_witness:
  "\<exists>p. uc_get (uc_message 3 (enc_items [Bin 1 [7, 8], Bin 2 [9]])) 0 2 = Some p \<and>
     slice (uc_payload p) 1 (uc_message 3 (enc_items [Bin 1 [7, 8], Bin 2 [9]])) = [9]"
  using uc_get_message [of "uc_message 3 (enc_items [Bin 1 [7, 8], Bin 2 [9]])" "[]" 3 "[Bin 1 [7, 8], Bin 2 [9]]" "[]" 2]
  by (auto simp: small_item_def uc_attr_def)

end
