(* ===== verification/Uctl_Stream.thy ===== *)
theory Uctl_Stream imports Uctl_Proofs begin

text \<open>
  Received messages: every attribute found lies inside its message whatever the sender wrote, and
  \<open>uc_recv\<close> cuts the byte stream into its messages independently of how the stream arrives.
\<close>

section \<open>Attributes of an untrusted message\<close>

lemma uc_find_bounds:
  "uc_find m buf len key at = Some p \<Longrightarrow> buf \<le> at \<Longrightarrow> int at + 4 \<le> int buf + len \<Longrightarrow>
   int at + int (at_len m at) \<le> int buf + len \<Longrightarrow>
   buf \<le> p \<and> int p + 4 \<le> int buf + len \<and> int p + int (at_len m p) \<le> int buf + len \<and> at_key m p = key"
proof (induction m buf len key at rule: uc_find.induct)
  case (1 m buf len key at)
  show ?case
  proof (cases "at_key m at = key")
    case True
    with 1 show ?thesis by (simp add: uc_find.simps [of m buf len key at])
  next
    case False
    then obtain q where q: "uc_get_n_in m buf len at = Some q" "uc_find m buf len key q = Some p"
      using 1(2) by (auto simp: uc_find.simps [of m buf len key at] split: option.splits)
    then have "buf \<le> q" "int q + 4 \<le> int buf + len" "int q + int (at_len m q) \<le> int buf + len"
      by (auto simp: uc_get_n_in_def Let_def split: if_splits)
    with 1(1) [OF False q(1)] q(2) show ?thesis by blast
  qed
qed

lemma uc_get_inside:
  assumes "8 \<le> msg_len m msg" and "uc_get m msg key = Some p"
  shows "msg + 8 \<le> p \<and> p + 4 \<le> msg + msg_len m msg \<and> p + at_len m p \<le> msg + msg_len m msg \<and> at_key m p = key"
proof -
  let ?len = "int (msg_len m msg) - 8"
  obtain at where at: "uc_get_0 m msg = Some at" "uc_find m (msg + 8) ?len key at = Some p"
    using assms(2) by (auto simp: uc_get_def split: option.splits)
  then have "at = msg + 8" "4 \<le> ?len" "int (at_len m at) \<le> ?len"
    using assms(1) by (auto simp: uc_get_0_def uc_get_0_in_def split: if_splits)
  with uc_find_bounds [OF at(2)] assms(1) show ?thesis by auto
qed

text \<open>
  C38. In a message whose length field is at least eight, the size of its header, and whatever its
  attributes look like, an attribute that \<open>uc_get\<close> returns has the key asked for and lies inside the
  message, header and payload. (\<open>uc_msg\<close> lets smaller length fields through as well, and for those it is
  not so: see \<open>short_length_escapes\<close>.)
\<close>

theorem uc_get_in_bounds:
  assumes "8 \<le> msg_len m msg" and "uc_get m msg key = Some p"
  shows "msg + 8 \<le> p \<and> p + 4 \<le> msg + msg_len m msg \<and> p + at_len m p \<le> msg + msg_len m msg \<and> at_key m p = key"
  by (rule uc_get_inside [OF assms])

lemma uc_get_in_bounds_witness:
  "\<exists>p. uc_get (le32 12 @ le32 3 @ [2, 0, 1, 0]) 0 1 = Some p \<and> p + 4 \<le> 12"
proof -
  let ?m = "le32 12 @ le32 3 @ [2, 0, 1, 0] :: bytes"
  have len: "msg_len ?m 0 = 12" by (simp add: msg_len_def)
  have "uc_get ?m 0 1 = Some 8"
    by (simp add: uc_get_def uc_get_0_def uc_get_0_in_def len uc_find.simps [of ?m 8] at_key_def at_len_def)
  with uc_get_in_bounds [of ?m 0 1 8] len show ?thesis by simp
qed

text \<open>
  With a length field below eight the length of the payload wraps: the four bytes behind the header are
  taken as an attribute, although the message ends before them, in a message that \<open>uc_msg\<close> accepts.
\<close>

lemma short_length_escapes:
  assumes "8 \<le> len" and "msg_len m msg < 8"
  shows "uc_msg m msg len = Some msg \<and> uc_get m msg (at_key m (msg + 8)) = Some (msg + 8) \<and> msg + msg_len m msg < msg + 8"
  using assms
  by (simp add: uc_msg_def uc_get_def uc_get_0_def uc_get_0_in_def uc_find.simps [of m "msg + 8" _ _ "msg + 8"])

section \<open>Framing\<close>

definition ur_ok :: "urbuf \<Rightarrow> bool" where
  "ur_ok ur \<longleftrightarrow> ur_mptr ur \<le> ur_rptr ur \<and> ur_rptr ur \<le> length (ur_buf ur)"

text \<open>What has been received and not yet taken, and what the socket still has.\<close>

definition ur_pending :: "urbuf \<Rightarrow> bytes" where
  "ur_pending ur = slice (ur_mptr ur) (ur_rptr ur - ur_mptr ur) (ur_buf ur)"

fun rx_data :: "rx_event \<Rightarrow> bytes" where
  "rx_data (Rx_data d) = d"
| "rx_data (Rx_error e) = []"

definition rx_stream :: "rx_event list \<Rightarrow> bytes" where
  "rx_stream evs = concat (map rx_data evs)"

definition wf_msg :: "bytes \<Rightarrow> bool" where
  "wf_msg msg \<longleftrightarrow> (\<exists>cmd pl. msg = uc_message cmd pl \<and> 8 + length pl < 2 ^ 32)"

lemma wf_msgD:
  assumes "wf_msg msg"
  shows "8 \<le> length msg" "unat (of_le32 (take 8 msg @ r)) = length msg"
proof -
  obtain cmd pl where m: "msg = uc_message cmd pl" "8 + length pl < 2 ^ 32"
    using assms by (auto simp: wf_msg_def)
  have "unat (word_of_nat (8 + length pl) :: u32) = 8 + length pl"
    using m(2) by (simp only: unsigned_of_nat) (simp add: take_bit_eq_mod)
  then show "8 \<le> length msg" "unat (of_le32 (take 8 msg @ r)) = length msg"
    using m(1) by (simp_all add: uc_message_def)
qed

lemma pending_split:
  "ur_ok ur \<Longrightarrow> \<exists>a r. ur_buf ur = a @ ur_pending ur @ r \<and> length a = ur_mptr ur \<and> length (ur_pending ur) = ur_rptr ur - ur_mptr ur"
proof -
  assume ok: "ur_ok ur"
  let ?b = "ur_buf ur" and ?n = "ur_rptr ur - ur_mptr ur"
  have "?b = take (ur_mptr ur) ?b @ take ?n (drop (ur_mptr ur) ?b) @ drop ?n (drop (ur_mptr ur) ?b)"
    by (simp only: append_take_drop_id)
  moreover have "length (take (ur_mptr ur) ?b) = ur_mptr ur" "length (ur_pending ur) = ?n"
    using ok by (auto simp: ur_ok_def ur_pending_def)
  ultimately show ?thesis unfolding ur_pending_def slice_def by blast
qed

lemma take_complete_frame:
  assumes "ur_ok ur" and "wf_msg msg" and "ur_pending ur @ s = msg @ rest"
  shows "take_complete_msg ur =
    (if length msg \<le> length (ur_pending ur)
     then (int (length msg), ur\<lparr>ur_msg := Some (ur_mptr ur), ur_mptr := ur_mptr ur + length msg\<rparr>)
     else (- EBADMSG, ur))"
proof -
  let ?p = "ur_pending ur"
  obtain a r where b: "ur_buf ur = a @ ?p @ r" "length a = ur_mptr ur" "length ?p = ur_rptr ur - ur_mptr ur"
    using pending_split [OF assms(1)] by blast
  have "msg_len (ur_buf ur) (ur_mptr ur) = length msg" if "8 \<le> length ?p"
  proof -
    have "take 8 ?p = take 8 msg"
      using that wf_msgD(1) [OF assms(2)] assms(3) by (metis append_take_drop_id take_append diff_is_0_eq' take0 append_Nil2)
    then have "?p @ r = take 8 msg @ drop 8 ?p @ r" by (metis append.assoc append_take_drop_id)
    moreover have "drop (ur_mptr ur) (ur_buf ur) = ?p @ r" by (subst b(1)) (simp add: b(2))
    ultimately show ?thesis using wf_msgD(2) [OF assms(2), of "drop 8 ?p @ r"] by (simp only: msg_len_def)
  qed
  then show ?thesis
    using b(3) wf_msgD(1) [OF assms(2)]
    by (auto simp: take_complete_msg_def uc_msg_def Let_def)
qed

lemma pending_advance:
  assumes "ur_ok ur" and "n \<le> length (ur_pending ur)"
  shows "ur_ok (ur\<lparr>ur_msg := x, ur_mptr := ur_mptr ur + n\<rparr>)"
    "ur_pending (ur\<lparr>ur_msg := x, ur_mptr := ur_mptr ur + n\<rparr>) = drop n (ur_pending ur)"
    "slice (ur_mptr ur) n (ur_buf ur) = take n (ur_pending ur)"
proof -
  have n: "n \<le> ur_rptr ur - ur_mptr ur" "ur_mptr ur \<le> ur_rptr ur" "ur_rptr ur \<le> length (ur_buf ur)"
    using assms by (auto simp: ur_ok_def ur_pending_def)
  then show "ur_ok (ur\<lparr>ur_msg := x, ur_mptr := ur_mptr ur + n\<rparr>)"
    "ur_pending (ur\<lparr>ur_msg := x, ur_mptr := ur_mptr ur + n\<rparr>) = drop n (ur_pending ur)"
    "slice (ur_mptr ur) n (ur_buf ur) = take n (ur_pending ur)"
    by (simp_all add: ur_ok_def ur_pending_def slice_def drop_take min_absorb1 add.commute)
qed

lemma pending_shift:
  assumes "ur_ok ur"
  shows "ur_ok (shift_buf ur)" "ur_pending (shift_buf ur) = ur_pending ur" "ur_mptr (shift_buf ur) = 0"
    "length (ur_buf (shift_buf ur)) = length (ur_buf ur)"
  using assms
  by (auto simp: shift_buf_def Let_def ur_ok_def ur_pending_def memmove_at_def memcpy_at_def slice_def)

lemma pending_receive:
  assumes "ur_ok ur" and "length got \<le> length (ur_buf ur) - ur_rptr ur"
  defines "ur' \<equiv> ur\<lparr>ur_buf := memcpy_at (ur_buf ur) (ur_rptr ur) got, ur_rptr := ur_rptr ur + length got\<rparr>"
  shows "ur_ok ur'" "ur_pending ur' = ur_pending ur @ got" "length (ur_buf ur') = length (ur_buf ur)"
proof -
  obtain a r where b: "ur_buf ur = a @ ur_pending ur @ r" "length a = ur_mptr ur"
    "length (ur_pending ur) = ur_rptr ur - ur_mptr ur"
    using pending_split [OF assms(1)] by blast
  have "ur_rptr ur = length a + length (ur_pending ur)" using b assms(1) by (simp add: ur_ok_def)
  moreover have "memcpy_at (a @ P @ r) (length a + length P) got = a @ (P @ got) @ drop (length got) r" for P
    by (simp add: memcpy_at_def)
  ultimately have "ur_buf ur' = a @ (ur_pending ur @ got) @ drop (length got) r"
    using b(1) by (simp add: ur'_def)
  moreover have "ur_mptr ur' = length a" "ur_rptr ur' - ur_mptr ur' = length (ur_pending ur @ got)"
    using b assms(1) by (simp_all add: ur'_def ur_ok_def)
  ultimately show "ur_pending ur' = ur_pending ur @ got"
    unfolding ur_pending_def [of ur'] by (simp add: slice_def)
  show "length (ur_buf ur') = length (ur_buf ur)" "ur_ok ur'"
    using assms by (auto simp: ur'_def ur_ok_def length_memcpy_at)
qed

definition all_data :: "rx_event list \<Rightarrow> bool" where
  "all_data evs \<longleftrightarrow> (\<forall>ev \<in> set evs. \<exists>d. ev = Rx_data d \<and> d \<noteq> [])"

text \<open>The outcome of receiving: the message, and the rest of the stream for the next call.\<close>

definition received :: "urbuf \<Rightarrow> rx_event list \<Rightarrow> nat \<Rightarrow> bytes \<Rightarrow> bytes \<Rightarrow> bool" where
  "received ur evs cap msg rest \<longleftrightarrow>
     ur_ok ur \<and> length (ur_buf ur) = cap \<and> all_data evs \<and> ur_pending ur @ rx_stream evs = rest \<and>
     (\<exists>p. ur_msg ur = Some p \<and> slice p (length msg) (ur_buf ur) = msg)"

lemma received_complete:
  assumes "ur_ok ur" and "wf_msg msg" and "ur_pending ur @ rx_stream evs = msg @ rest" and "all_data evs"
    and "length msg \<le> length (ur_pending ur)"
  shows "received (ur\<lparr>ur_msg := Some (ur_mptr ur), ur_mptr := ur_mptr ur + length msg\<rparr>) evs (length (ur_buf ur)) msg rest"
proof -
  have "take (length msg) (ur_pending ur) = msg" "drop (length msg) (ur_pending ur) @ rx_stream evs = rest"
    using assms(3,5) by (metis append_eq_append_conv_if append_take_drop_id)+
  then show ?thesis
    using pending_advance [OF assms(1,5)] assms(4) by (simp add: received_def)
qed

lemma uc_recv_loop_frame:
  assumes "ur_ok ur" and "wf_msg msg" and "ur_pending ur @ rx_stream evs = msg @ rest" and "all_data evs"
    and "length (ur_pending ur) < length msg" and "length msg \<le> length (ur_buf ur)" and "ur_mptr ur = 0"
    and "0 \<le> tot"
  shows "\<exists>ret ur' evs'. uc_recv_loop ur dw tot evs = Some (ret, ur', evs') \<and> 0 \<le> ret \<and>
    received ur' evs' (length (ur_buf ur)) msg rest"
  using assms
proof (induction ur dw tot evs rule: uc_recv_loop.induct)
  case (1 ur dw tot evs)
  let ?left = "length (ur_buf ur) - ur_rptr ur"
  have "length (ur_pending ur) = ur_rptr ur" using 1(2,8) by (simp add: ur_pending_def ur_ok_def)
  then have left: "0 < ?left" using 1(6,7) by simp
  obtain d evs' where evs: "evs = Rx_data d # evs'" "d \<noteq> []" "all_data evs'"
  proof (cases evs)
    case Nil
    then show ?thesis using 1(4,6) by (auto simp: rx_stream_def dest: arg_cong [of _ _ length])
  next
    case (Cons e es)
    then show ?thesis using 1(5) that by (auto simp: all_data_def)
  qed
  define got where "got = take ?left d"
  define evs'' where "evs'' = (if length d > ?left then Rx_data (drop ?left d) # evs' else evs')"
  define ur' where "ur' = ur\<lparr>ur_buf := memcpy_at (ur_buf ur) (ur_rptr ur) got, ur_rptr := ur_rptr ur + length got\<rparr>"
  have ur': "ur_ok ur'" "ur_pending ur' = ur_pending ur @ got" "length (ur_buf ur') = length (ur_buf ur)" "ur_mptr ur' = 0"
    using pending_receive [OF 1(2), of got] 1(8) by (simp_all add: got_def ur'_def)
  have "got @ rx_stream evs'' = rx_stream evs"
    by (simp add: evs got_def evs''_def rx_stream_def)
  then have st: "ur_pending ur' @ rx_stream evs'' = msg @ rest" using ur'(2) 1(4) by simp
  have data: "all_data evs''" using evs left by (auto simp: evs''_def all_data_def)
  note tc = take_complete_frame [OF ur'(1) 1(3) st]
  show ?case
  proof (cases "length msg \<le> length (ur_pending ur')")
    case True
    then have "uc_recv_loop ur dw tot evs = Some (tot + int (length got),
        ur'\<lparr>ur_msg := Some (ur_mptr ur'), ur_mptr := ur_mptr ur' + length msg\<rparr>, evs'')"
      using left evs tc
      by (subst uc_recv_loop.simps) (simp add: got_def [symmetric] evs''_def [symmetric] ur'_def [symmetric] Let_def del: length_take)
    then show ?thesis
      using received_complete [OF ur'(1) 1(3) st data True] ur'(3) 1(9) by simp
  next
    case False
    then have loop: "uc_recv_loop ur dw tot evs = uc_recv_loop ur' False (tot + int (length got)) evs''"
      using left evs tc
      by (subst uc_recv_loop.simps) (simp add: got_def [symmetric] evs''_def [symmetric] ur'_def [symmetric] Let_def del: length_take)
    have ret: "(- EBADMSG, ur') = take_complete_msg ur'" using tc False by simp
    have "\<exists>ret u e. uc_recv_loop ur' False (tot + int (length got)) evs'' = Some (ret, u, e) \<and> 0 \<le> ret \<and>
        received u e (length (ur_buf ur')) msg rest"
      by (rule 1(1) [OF refl _ evs(1) refl evs(2) got_def evs''_def refl ur'_def refl ret])
         (use left False ur' st data 1(3,6-9) in simp_all)
    with loop ur'(3) show ?thesis by simp
  qed
qed

lemma uc_recv_frame:
  assumes "ur_ok ur" and "wf_msg msg" and "ur_pending ur @ rx_stream evs = msg @ rest" and "all_data evs"
    and "length msg \<le> length (ur_buf ur)"
  shows "\<exists>ret ur' evs'. uc_recv ur blk evs = Some (ret, ur', evs') \<and> 0 \<le> ret \<and>
    received ur' evs' (length (ur_buf ur)) msg rest"
proof -
  let ?u = "ur\<lparr>ur_msg := None\<rparr>"
  have u: "ur_ok ?u" "ur_pending ?u = ur_pending ur" "length (ur_buf ?u) = length (ur_buf ur)"
    using assms(1) by (simp_all add: ur_ok_def ur_pending_def)
  note tc = take_complete_frame [OF u(1) assms(2) assms(3) [folded u(2)]]
  show ?thesis
  proof (cases "length msg \<le> length (ur_pending ur)")
    case True
    then have "uc_recv ur blk evs = Some (0, ?u\<lparr>ur_msg := Some (ur_mptr ?u), ur_mptr := ur_mptr ?u + length msg\<rparr>, evs)"
      using tc u(2) by (simp add: uc_recv_def Let_def)
    with received_complete [OF u(1) assms(2) assms(3) [folded u(2)] assms(4)] True u show ?thesis by simp
  next
    case False
    then have "uc_recv ur blk evs = uc_recv_loop (shift_buf ?u) (\<not> blk) 0 evs"
      using tc u(2) by (simp add: uc_recv_def Let_def)
    moreover have "\<exists>ret ur' evs'. uc_recv_loop (shift_buf ?u) (\<not> blk) 0 evs = Some (ret, ur', evs') \<and> 0 \<le> ret \<and>
        received ur' evs' (length (ur_buf (shift_buf ?u))) msg rest"
      using pending_shift [OF u(1)] u(2,3) False assms
      by (intro uc_recv_loop_frame) simp_all
    ultimately show ?thesis using pending_shift(4) [OF u(1)] u(3) by simp
  qed
qed

text \<open>A message larger than the buffer is never complete.\<close>

lemma take_complete_short:
  assumes "ur_ok ur" and "wf_msg msg" and "ur_pending ur @ s = msg @ rest" and "length (ur_pending ur) < length msg"
  shows "take_complete_msg ur = (- EBADMSG, ur)"
  using take_complete_frame [OF assms(1-3)] assms(4) by simp

lemma uc_recv_loop_overfull:
  assumes "ur_ok ur" and "wf_msg msg" and "ur_pending ur @ rx_stream evs = msg @ rest" and "all_data evs"
    and "length (ur_buf ur) < length msg" and "ur_mptr ur = 0"
  shows "\<exists>ur' evs'. uc_recv_loop ur dw tot evs = Some (- ENOBUFS, ur', evs')"
  using assms
proof (induction ur dw tot evs rule: uc_recv_loop.induct)
  case (1 ur dw tot evs)
  let ?left = "length (ur_buf ur) - ur_rptr ur"
  show ?case
  proof (cases "?left = 0")
    case True
    then show ?thesis by (subst uc_recv_loop.simps) simp
  next
    case False
    have pend: "length (ur_pending ur) = ur_rptr ur" using 1(2,7) by (simp add: ur_pending_def ur_ok_def)
    obtain d evs' where evs: "evs = Rx_data d # evs'" "d \<noteq> []" "all_data evs'"
    proof (cases evs)
      case Nil
      with 1(4) have "length (ur_pending ur) = length msg + length rest"
        by (metis append_Nil2 concat.simps(1) length_append list.map(1) rx_stream_def)
      then show ?thesis using 1(6) pend False by simp
    next
      case (Cons e es)
      then show ?thesis using 1(5) that by (auto simp: all_data_def)
    qed
    define got where "got = take ?left d"
    define evs'' where "evs'' = (if length d > ?left then Rx_data (drop ?left d) # evs' else evs')"
    define ur' where "ur' = ur\<lparr>ur_buf := memcpy_at (ur_buf ur) (ur_rptr ur) got, ur_rptr := ur_rptr ur + length got\<rparr>"
    have ur': "ur_ok ur'" "ur_pending ur' = ur_pending ur @ got" "length (ur_buf ur') = length (ur_buf ur)" "ur_mptr ur' = 0"
      using pending_receive [OF 1(2), of got] 1(7) by (simp_all add: got_def ur'_def)
    have "got @ rx_stream evs'' = rx_stream evs" by (simp add: evs got_def evs''_def rx_stream_def)
    then have st: "ur_pending ur' @ rx_stream evs'' = msg @ rest" using ur'(2) 1(4) by simp
    have data: "all_data evs''" using evs False by (auto simp: evs''_def all_data_def)
    have "length (ur_pending ur') \<le> length (ur_buf ur')" using ur'(1) by (simp add: ur_pending_def ur_ok_def)
    then have tc: "(- EBADMSG, ur') = take_complete_msg ur'"
      using take_complete_short [OF ur'(1) 1(3) st] ur'(3) 1(6) by simp
    then have loop: "uc_recv_loop ur dw tot evs = uc_recv_loop ur' False (tot + int (length got)) evs''"
      using False evs
      by (subst uc_recv_loop.simps) (simp add: got_def [symmetric] evs''_def [symmetric] ur'_def [symmetric] Let_def tc [symmetric] del: length_take)
    show ?thesis unfolding loop
      by (rule 1(1) [OF refl _ evs(1) refl evs(2) got_def evs''_def refl ur'_def refl tc])
         (use False ur' st data 1(3,6) in simp_all)
  qed
qed

lemma uc_recv_overfull:
  assumes "ur_ok ur" and "wf_msg msg" and "ur_pending ur @ rx_stream evs = msg @ rest" and "all_data evs"
    and "length (ur_buf ur) < length msg"
  shows "\<exists>ur' evs'. uc_recv ur blk evs = Some (- ENOBUFS, ur', evs')"
proof -
  let ?u = "ur\<lparr>ur_msg := None\<rparr>"
  have u: "ur_ok ?u" "ur_pending ?u = ur_pending ur" using assms(1) by (simp_all add: ur_ok_def ur_pending_def)
  have "length (ur_pending ur) \<le> length (ur_buf ur)" using assms(1) by (simp add: ur_pending_def ur_ok_def)
  then have "take_complete_msg ?u = (- EBADMSG, ?u)"
    using take_complete_short [OF u(1) assms(2) assms(3) [folded u(2)]] u(2) assms(5) by simp
  then have "uc_recv ur blk evs = uc_recv_loop (shift_buf ?u) (\<not> blk) 0 evs"
    by (simp add: uc_recv_def Let_def)
  moreover have "\<exists>ur' evs'. uc_recv_loop (shift_buf ?u) (\<not> blk) 0 evs = Some (- ENOBUFS, ur', evs')"
    using pending_shift [OF u(1)] u(2) assms by (intro uc_recv_loop_overfull [of _ msg _ rest]) simp_all
  ultimately show ?thesis by simp
qed

text \<open>A caller that receives \<open>n\<close> times, blocking or not, and the messages it sees.\<close>

fun recv_messages :: "bool \<Rightarrow> nat \<Rightarrow> urbuf \<Rightarrow> rx_event list \<Rightarrow> (bytes list \<times> urbuf \<times> rx_event list) option" where
  "recv_messages blk 0 ur evs = Some ([], ur, evs)"
| "recv_messages blk (Suc n) ur evs =
     (case uc_recv ur blk evs of
        None \<Rightarrow> None
      | Some (ret, ur, evs) \<Rightarrow>
          (case ur_msg ur of
             None \<Rightarrow> None
           | Some p \<Rightarrow>
               (let msg = slice p (msg_len (ur_buf ur) p) (ur_buf ur) in
                case recv_messages blk n ur evs of
                  None \<Rightarrow> None
                | Some (msgs, ur, evs) \<Rightarrow> Some (msg # msgs, ur, evs))))"

lemma msg_len_slice:
  assumes "wf_msg msg" and "slice p (length msg) m = msg"
  shows "msg_len m p = length msg"
proof -
  have "take (length msg) (drop p m) = msg" using assms(2) by (simp add: slice_def)
  then have "drop p m = msg @ drop (length msg) (drop p m)" by (metis append_take_drop_id)
  moreover have "msg = take 8 msg @ drop 8 msg" by simp
  ultimately have "drop p m = take 8 msg @ (drop 8 msg @ drop (length msg) (drop p m))" by (metis append.assoc)
  then show ?thesis
    using wf_msgD(2) [OF assms(1), of "drop 8 msg @ drop (length msg) (drop p m)"] by (simp only: msg_len_def)
qed

text \<open>
  C39. However the kernel cuts the stream into pieces, a stream made of messages that fit the receive
  buffer is received as exactly those messages, in order; every call returns, the buffer is never
  overrun and what follows the messages is still there to be received.
\<close>

theorem uc_recv_messages:
  assumes "ur_ok ur" and "ur_pending ur @ rx_stream evs = concat msgs @ rest" and "all_data evs"
    and "\<forall>msg \<in> set msgs. wf_msg msg \<and> length msg \<le> length (ur_buf ur)"
  shows "\<exists>ur' evs'. recv_messages blk (length msgs) ur evs = Some (msgs, ur', evs') \<and> ur_ok ur' \<and>
    length (ur_buf ur') = length (ur_buf ur) \<and> ur_pending ur' @ rx_stream evs' = rest"
  using assms
proof (induction msgs arbitrary: ur evs)
  case (Cons msg msgs)
  have st: "ur_pending ur @ rx_stream evs = msg @ concat msgs @ rest" using Cons.prems(2) by simp
  obtain ret u e where u: "uc_recv ur blk evs = Some (ret, u, e)" "received u e (length (ur_buf ur)) msg (concat msgs @ rest)"
    using uc_recv_frame [where blk = blk, OF Cons.prems(1) _ st Cons.prems(3)] Cons.prems(4) by auto
  then obtain p where p: "ur_msg u = Some p" "slice p (length msg) (ur_buf u) = msg"
    and ur: "ur_ok u" "length (ur_buf u) = length (ur_buf ur)" "ur_pending u @ rx_stream e = concat msgs @ rest" "all_data e"
    by (auto simp: received_def)
  have "msg_len (ur_buf u) p = length msg"
    using msg_len_slice [OF _ p(2)] Cons.prems(4) by simp
  moreover obtain ur' evs' where "recv_messages blk (length msgs) u e = Some (msgs, ur', evs')" "ur_ok ur'"
    "length (ur_buf ur') = length (ur_buf u)" "ur_pending ur' @ rx_stream evs' = rest"
    using Cons.IH [OF ur(1,3,4)] Cons.prems(4) ur(2) by auto
  ultimately show ?case using u(1) p ur(2) by simp
qed simp

lemma uc_recv_messages_witness:
  "\<exists>ur' evs'. recv_messages False 2 \<lparr>ur_buf = replicate 16 0, ur_mptr = 0, ur_rptr = 0, ur_msg = None\<rparr>
      [Rx_data (take 11 (uc_message 1 [] @ uc_message 2 [1, 2, 3, 4])), Rx_data (drop 11 (uc_message 1 [] @ uc_message 2 [1, 2, 3, 4]))]
    = Some ([uc_message 1 [], uc_message 2 [1, 2, 3, 4]], ur', evs')"
proof -
  let ?m = "uc_message 1 [] @ uc_message 2 [1, 2, 3, 4]"
  let ?ur = "\<lparr>ur_buf = replicate 16 0, ur_mptr = 0, ur_rptr = 0, ur_msg = None\<rparr>"
  let ?evs = "[Rx_data (take 11 ?m), Rx_data (drop 11 ?m)]"
  have ok: "ur_ok ?ur" by (simp add: ur_ok_def)
  have st: "ur_pending ?ur @ rx_stream ?evs = concat [uc_message 1 [], uc_message 2 [1, 2, 3, 4]] @ []"
    by (simp add: ur_pending_def rx_stream_def)
  have "take 11 ?m \<noteq> []" by (simp add: uc_message_def le32_def)
  moreover have "length (drop 11 ?m) = 9" by simp
  then have "drop 11 ?m \<noteq> []" by (cases "drop 11 ?m = []") simp_all
  ultimately have d: "all_data ?evs" by (simp add: all_data_def)
  have "wf_msg (uc_message 1 [])" "wf_msg (uc_message 2 [1, 2, 3, 4])"
    unfolding wf_msg_def by fastforce+
  then have "\<forall>msg \<in> set [uc_message 1 [], uc_message 2 [1, 2, 3, 4]]. wf_msg msg \<and> length msg \<le> length (ur_buf ?ur)"
    by simp
  from uc_recv_messages [OF ok st d this, of False] show ?thesis by (auto simp: numeral_2_eq_2)
qed

text \<open>
  A header that announces length zero is taken as a complete message of no bytes: \<open>uc_recv\<close> succeeds
  without taking anything off the buffer, and would do so again.
\<close>

definition zero_length_next :: "urbuf \<Rightarrow> bool" where
  "zero_length_next ur \<longleftrightarrow> ur_ok ur \<and> 8 \<le> length (ur_pending ur) \<and> msg_len (ur_buf ur) (ur_mptr ur) = 0"

lemma zero_length_step:
  "zero_length_next ur \<Longrightarrow> uc_recv ur blk evs = Some (0, ur\<lparr>ur_msg := Some (ur_mptr ur)\<rparr>, evs)"
  by (simp add: zero_length_next_def uc_recv_def take_complete_msg_def uc_msg_def ur_pending_def)

end
