(* ===== verification/Status.thy ===== *)
theory Status imports Invariant Client Uctl_Stream begin

text \<open>
  The status request from both ends: the supplicant's reply carries every access point it knows and
  never overflows its buffer, and the front end prints one line for each, the strongest first.
\<close>

section \<open>The supplicant's reply\<close>

text \<open>The attributes of the reply: what is known of the interface and station, then a nest per access point.\<close>

definition link_items :: "wst \<Rightarrow> uc_item list" where
  "link_items w =
     [Bin ATTR_IFI (le32 (w_ifindex w)), Bin ATTR_NAME (w_ifname w @ [0]), Bin ATTR_STATE (le32 (common_wifi_state w))] @
     (if w_authstate w \<noteq> AS_IDLE \<or> ap_fixed (w_ap w) then [Bin ATTR_SSID (ap_name (w_ap w))] else []) @
     (if w_authstate w \<noteq> AS_IDLE
      then [Bin ATTR_BSSID (ap_bssid (w_ap w)), Bin ATTR_FREQ (le32 (int_of_short (ap_freq (w_ap w))))] else [])"

definition favoured :: "scan \<Rightarrow> bool" where
  "favoured sc \<longleftrightarrow> has (sc_flags sc) SF_PASS \<and> has (sc_flags sc) SF_GOOD"

definition scan_parts :: "scan \<Rightarrow> uc_item list" where
  "scan_parts sc =
     [Bin ATTR_FREQ (le32 (int_of_short (sc_freq sc))), Bin ATTR_TYPE (le32 (int_of_short (sc_type sc))),
      Bin ATTR_SIGNAL (le32 (int_of_short (sc_signal sc))), Bin ATTR_BSSID (sc_bssid sc), Bin ATTR_SSID (sc_name sc)] @
     (if favoured sc then [Bin ATTR_PRIO []] else [])"

definition scan_item :: "scan \<Rightarrow> uc_item" where
  "scan_item sc = Nest ATTR_SCAN (scan_parts sc)"

text \<open>The scan table without its free slots.\<close>

definition known_aps :: "wst \<Rightarrow> scan list" where
  "known_aps w = filter (\<lambda>sc. sc_freq sc \<noteq> 0) (take (snd (w_scans w)) (fst (w_scans w)))"

definition status_items :: "wst \<Rightarrow> uc_item list" where
  "status_items w = link_items w @ map scan_item (known_aps w)"

lemma put_status_wifi_items: "put_status_wifi w uc = put_items (link_items w) uc"
  by (simp add: put_status_wifi_def link_items_def Let_def uc_put_int_bin uc_put_str_def)

lemma put_scan_item: "put_scan sc uc = (if sc_freq sc = 0 then uc else put_item uc (scan_item sc))"
  by (simp add: put_scan_def scan_item_def scan_parts_def favoured_def case_prod_beta Let_def uc_put_int_bin uc_put_flag_bin)

lemma put_status_scans_items: "put_status_scans w uc = put_items (map scan_item (known_aps w)) uc"
proof -
  have "fold put_scan scs uc = put_items (map scan_item (filter (\<lambda>sc. sc_freq sc \<noteq> 0) scs)) uc" for scs
    by (induction scs arbitrary: uc) (simp_all add: put_scan_item)
  then show ?thesis by (simp add: put_status_scans_def known_aps_def)
qed

text \<open>The estimate of the code: 88 bytes for an access point, 128 for the rest.\<close>

lemma known_ap_ok:
  assumes "wst_ok w" "sc \<in> set (known_aps w)"
  shows "length (sc_bssid sc) = 6" "length (sc_name sc) \<le> 32" "sc_freq sc \<noteq> 0"
proof -
  have "sc \<in> set (fst (w_scans w))" using assms(2) by (auto simp: known_aps_def dest: in_set_takeD)
  then have "wf_scan sc" "short_ssid sc"
    using wf_parts [OF assms(1)] table_okD(4,5) by blast+
  then show "length (sc_bssid sc) = 6" "length (sc_name sc) \<le> 32"
    using sc_name_fits by (auto simp: wf_scan_def)
  show "sc_freq sc \<noteq> 0" using assms(2) by (simp add: known_aps_def)
qed

lemma align4_upto: "n \<le> m \<Longrightarrow> m mod 4 = 0 \<Longrightarrow> align4 n \<le> m"
  using align4_le_iff by simp

lemma length_scan_item:
  assumes "wst_ok w" "sc \<in> set (known_aps w)"
  shows "length (enc_item (scan_item sc)) \<le> 80"
proof -
  have "align4 (length (sc_name sc)) \<le> 32" using align4_upto [of _ 32] known_ap_ok [OF assms] by simp
  moreover have "align4 4 = 4" "align4 6 = 8" by (simp_all add: align4_def)
  ultimately have "length (enc_items (scan_parts sc)) \<le> 76"
    using known_ap_ok [OF assms] by (simp add: scan_parts_def length_uc_attr align4_small)
  then show ?thesis by (simp add: scan_item_def length_uc_attr align4_id)
qed

lemma length_concat_le: "(\<And>x. x \<in> set xs \<Longrightarrow> length (f x) \<le> k) \<Longrightarrow> length (concat (map f xs)) \<le> k * length xs"
  by (induction xs) (auto intro: add_mono)

lemma length_known_aps: "length (known_aps w) \<le> snd (w_scans w)"
  using length_filter_le [of _ "take (snd (w_scans w)) (fst (w_scans w))"] by (simp add: known_aps_def)

lemma length_link_items:
  assumes "wst_ok w"
  shows "length (enc_items (link_items w)) \<le> 96"
proof -
  have len: "length (ap_bssid (w_ap w)) = 6" "length (ap_name (w_ap w)) \<le> 32" "length (w_ifname w) \<le> 16"
    using assms by (simp_all add: wst_ok_def ap_ok_def ap_name_def)
  have "align4 (length (ap_name (w_ap w))) \<le> 32" "align4 (Suc (length (w_ifname w))) \<le> 20"
    using len by (auto intro!: align4_upto)
  moreover have "align4 4 = 4" "align4 6 = 8" by (simp_all add: align4_def)
  ultimately show ?thesis using len by (simp add: link_items_def length_uc_attr)
qed

lemma length_status_items:
  assumes "wst_ok w"
  shows "length (enc_items (status_items w)) \<le> 96 + 80 * snd (w_scans w)"
proof -
  have "length (enc_items (map scan_item (known_aps w))) \<le> 80 * length (known_aps w)"
    unfolding enc_items_def map_map using length_scan_item [OF assms] by (intro length_concat_le) simp
  with length_known_aps [of w] length_link_items [OF assms] show ?thesis by (simp add: status_items_def)
qed

definition status_message :: "wst \<Rightarrow> bytes" where
  "status_message w = uc_message 0 (enc_items (status_items w))"

text \<open>What a connection is sent.\<close>

definition sent_on :: "nat \<Rightarrow> bytes \<Rightarrow> wst \<Rightarrow> wst \<Rightarrow> bool" where
  "sent_on p msg w v \<longleftrightarrow> w_out v = w_out w @ [Conn_sent (cn_fd (fst (w_conns w) ! p)) msg]"

text \<open>
  C20. The status reply is complete: it names the interface, the state, the station in use and every
  access point of the scan table, and the buffer the code estimates for it always has the room. (When
  \<open>malloc\<close> has no memory for that buffer the null pointer it returns is written through.)
\<close>

theorem status_reply_complete:
  assumes "wst_ok w" and "en_conn_ok E (cn_fd (fst (w_conns w) ! p))"
  shows "if en_malloc_ok E then \<exists>v. cmd_status E p w = Go (1, v) \<and> sent_on p (status_message w) w v
    else cmd_status E p w = Wild"
proof (cases "en_malloc_ok E")
  case True
  then obtain hp where hp: "prep_heap E (estimate_status w) = Some hp" "estimate_status w \<le> length hp"
    by (simp add: prep_heap_def)
  define uc where "uc = uc_buf_set hp"
  let ?uc = "put_message uc 0 (status_items w)"
  have "estimate_status w \<le> length (uc_buf uc)" "\<not> uc_over uc"
    using hp(2) by (simp_all add: uc_def uc_buf_set_def)
  then have "8 + length (enc_items (status_items w)) \<le> length (uc_buf uc)"
    using length_status_items [OF assms(1)] by (simp add: estimate_status_def)
  then have "uc_holds ?uc (status_message w)"
    using put_message_holds [of uc "status_items w" 0] \<open>\<not> uc_over uc\<close> by (simp add: status_message_def)
  then have holds: "uc_holds (uc_put_end ?uc) (status_message w)"
    unfolding status_message_def by (rule uc_put_end_again)
  have put: "uc_put_end (put_status_scans w (put_status_wifi w (uc_put_hdr uc 0))) = ?uc"
    by (simp add: put_message_def put_status_wifi_items put_status_scans_items status_items_def)
  have "send_reply E p (w\<lparr>w_uc := ?uc\<rparr>) =
      (1, emit (Conn_sent (cn_fd (fst (w_conns w) ! p)) (status_message w)) (w\<lparr>w_uc := uc_put_end ?uc\<rparr>))"
    using assms(2) holds by (simp add: send_reply_def conn_takes_def Let_def uc_holds_def)
  then show ?thesis
    using True by (simp add: cmd_status_def hp(1) uc_def [symmetric] put sent_on_def set_rep_def emit_def)
qed (simp add: cmd_status_def prep_heap_def)

theorem status_reply_complete_witness:
  "\<exists>v. cmd_status calm_env 0 ready_state = Go (1, v) \<and> sent_on 0 (status_message ready_state) ready_state v"
  using status_reply_complete [OF ready_state_ok, of calm_env 0] by (simp add: calm_env_def)

end
