(* ===== verification/Scan_List.thy ===== *)
theory Scan_List imports Status "HOL-Library.Multiset" begin

text \<open>
  The list the front end prints from a status reply: one line for every access point the supplicant
  knows, sorted by signal and then by frequency.
\<close>

section \<open>Sorting\<close>

lemma mset_two:
  assumes "mset xs = mset [a, b]"
  shows "xs = [a, b] \<or> xs = [b, a]"
proof -
  have "length xs = 2" using assms by (metis length_Cons list.size(3) mset_eq_length numeral_2_eq_2)
  then obtain x y where "xs = [x, y]" by (auto simp: numeral_2_eq_2 length_Suc_conv)
  with assms show ?thesis by (auto simp: add_eq_conv_ex)
qed

text \<open>
  The contract of \<open>qsort\<close>: given a comparison that is a total preorder on the elements, it permutes
  them into an order without inversions.
\<close>

definition orders :: "(nat \<Rightarrow> nat \<Rightarrow> int) \<Rightarrow> nat set \<Rightarrow> bool" where
  "orders cf X \<longleftrightarrow> (\<forall>a \<in> X. \<forall>b \<in> X. sgn (cf b a) = - sgn (cf a b)) \<and>
     (\<forall>a \<in> X. \<forall>b \<in> X. \<forall>c \<in> X. cf a b \<le> 0 \<longrightarrow> cf b c \<le> 0 \<longrightarrow> cf a c \<le> 0)"

definition qsort_ok :: "sorter \<Rightarrow> bool" where
  "qsort_ok qsort \<longleftrightarrow> (\<forall>cf xs. orders cf (set xs) \<longrightarrow>
     mset (qsort cf xs) = mset xs \<and> sorted_wrt (\<lambda>a b. cf a b \<le> 0) (qsort cf xs))"

text \<open>Insertion sort keeps it.\<close>

fun insert_by :: "(nat \<Rightarrow> nat \<Rightarrow> int) \<Rightarrow> nat \<Rightarrow> nat list \<Rightarrow> nat list" where
  "insert_by cf x [] = [x]"
| "insert_by cf x (y # ys) = (if cf x y \<le> 0 then x # y # ys else y # insert_by cf x ys)"

definition insertion_sort :: sorter where
  "insertion_sort cf xs = foldr (insert_by cf) xs []"

lemma mset_insert_by [simp]: "mset (insert_by cf x ys) = add_mset x (mset ys)"
  by (induction ys) auto

lemma mset_insertion_sort: "mset (insertion_sort cf xs) = mset xs"
  unfolding insertion_sort_def by (induction xs) auto

lemma sorted_insert_by:
  assumes "orders cf X" and "x \<in> X" and "set ys \<subseteq> X" and "sorted_wrt (\<lambda>a b. cf a b \<le> 0) ys"
  shows "sorted_wrt (\<lambda>a b. cf a b \<le> 0) (insert_by cf x ys)"
  using assms(3,4)
proof (induction ys)
  case (Cons y ys)
  have set: "set (insert_by cf x ys) = insert x (set ys)"
    using mset_insert_by [of cf x ys] by (metis set_mset_add_mset_insert set_mset_mset)
  have y: "y \<in> X" using Cons.prems by simp
  show ?case
  proof (cases "cf x y \<le> 0")
    case True
    have "cf x z \<le> 0" if "z \<in> set ys" for z
    proof -
      have "z \<in> X" "cf y z \<le> 0" using Cons.prems that by auto
      with True assms(1,2) y show ?thesis unfolding orders_def by blast
    qed
    with True Cons.prems show ?thesis by simp
  next
    case False
    moreover have "sgn (cf y x) = - sgn (cf x y)" using assms(1,2) y unfolding orders_def by blast
    ultimately have "cf y x \<le> 0" by (simp add: sgn_if split: if_splits)
    moreover have "sorted_wrt (\<lambda>a b. cf a b \<le> 0) (insert_by cf x ys)" using Cons by simp
    moreover have "\<forall>z \<in> set ys. cf y z \<le> 0" using Cons.prems by simp
    ultimately show ?thesis using False set by simp
  qed
qed simp

lemma insertion_sort_ok: "qsort_ok insertion_sort"
proof -
  have "sorted_wrt (\<lambda>a b. cf a b \<le> 0) (foldr (insert_by cf) ys [])" if "orders cf X" "set ys \<subseteq> X" for cf X ys
    using that(2)
  proof (induction ys)
    case (Cons y ys)
    have "set (foldr (insert_by cf) ys []) = set ys"
      using mset_insertion_sort [of cf ys] unfolding insertion_sort_def by (metis set_mset_mset)
    with Cons sorted_insert_by [OF that(1), of y "foldr (insert_by cf) ys []"] show ?case by simp
  qed simp
  then show ?thesis using mset_insertion_sort by (auto simp: qsort_ok_def insertion_sort_def)
qed

section \<open>The attributes of a message in order\<close>

fun positions :: "nat \<Rightarrow> uc_item list \<Rightarrow> nat list" where
  "positions p [] = []"
| "positions p (it # its) = p # positions (p + length (enc_item it)) its"

lemma attrs_from_items:
  assumes "m = a @ enc_items (pre @ its) @ r" and "\<forall>x \<in> set (pre @ its). small_item x"
    and "n = int (length (enc_items (pre @ its)))" and "its \<noteq> []"
  shows "attrs_from m (length a) n (length a + length (enc_items pre)) =
    positions (length a + length (enc_items pre)) its"
  using assms
proof (induction its arbitrary: pre)
  case (Cons it its)
  note next_at = uc_get_n_in_items [OF Cons.prems(1,2,3)]
  show ?case
  proof (cases its)
    case Nil
    with next_at show ?thesis by (subst attrs_from.simps) simp
  next
    case (Cons it' its')
    have "attrs_from m (length a) n (length a + length (enc_items (pre @ [it]))) =
        positions (length a + length (enc_items (pre @ [it]))) its"
      by (rule Cons.IH) (use Cons.prems Cons in simp_all)
    with next_at Cons show ?thesis by (subst attrs_from.simps) (simp add: add.assoc)
  qed
qed simp

lemma attrs_items:
  assumes "m = a @ uc_message cmd (enc_items its) @ r" and "\<forall>x \<in> set its. small_item x"
    and "8 + length (enc_items its) < 2 ^ 32"
  shows "attrs m (length a) = positions (length a + 8) its"
proof -
  let ?n = "length (enc_items its)"
  let ?a = "a @ le32 (word_of_nat (8 + ?n)) @ le32 cmd"
  have m: "m = ?a @ enc_items its @ r" using assms(1) by (simp add: uc_message_def)
  have a: "length ?a = length a + 8" by simp
  have n: "int (8 + ?n) - 8 = int ?n" by simp
  have "its \<noteq> [] \<Longrightarrow> attrs_from m (length ?a) (int ?n) (length ?a + length (enc_items [])) =
      positions (length ?a + length (enc_items [])) its"
    by (rule attrs_from_items [where r = r]) (use m assms(2) in simp_all)
  with uc_get_0_in_items [OF m assms(2)] show ?thesis
    unfolding attrs_def uc_get_0_def msg_len_uc_message [OF assms(1,3)] n by (simp only: a) (cases its; simp)
qed

text \<open>An item lies in the memory at \<open>p\<close>.\<close>

definition lies_at :: "bytes \<Rightarrow> nat \<Rightarrow> uc_item \<Rightarrow> bool" where
  "lies_at m p it \<longleftrightarrow> (\<exists>a r. m = a @ enc_item it @ r \<and> length a = p)"

lemma positions_lie: "m = a @ enc_items its @ r \<Longrightarrow> list_all2 (lies_at m) (positions (length a) its) its"
proof (induction its arbitrary: a)
  case (Cons it its)
  from Cons.IH [of "a @ enc_item it"] Cons.prems
  have "list_all2 (lies_at m) (positions (length (a @ enc_item it)) its) its" by simp
  moreover have "lies_at m (length a) it"
    unfolding lies_at_def using Cons.prems by (intro exI [of _ a] exI [of _ "enc_items its @ r"]) simp
  ultimately show ?case by simp
qed simp

lemma lies_at_key: "lies_at m p it \<Longrightarrow> small_item it \<Longrightarrow> at_key m p = item_key it"
  using at_uc_attr(2) [of "item_bytes it"] by (auto simp: lies_at_def enc_item_attr small_item_def)

lemma filter_lie:
  "list_all2 (lies_at m) ps its \<Longrightarrow> \<forall>x \<in> set its. small_item x \<Longrightarrow>
   list_all2 (lies_at m) (filter (\<lambda>p. at_key m p = k) ps) (filter (\<lambda>it. item_key it = k) its)"
  by (induction rule: list_all2_induct) (auto simp: lies_at_key)

section \<open>Reading the nest of an access point\<close>

lemma deref_le32:
  assumes "slice p 4 m = le32 v"
  shows "deref m p = sint v"
proof -
  have "drop p m = le32 v @ drop 4 (drop p m)"
    using assms append_take_drop_id [of 4 "drop p m"] by (simp only: slice_def)
  then show ?thesis unfolding deref_def by (metis of_le32_le32)
qed

lemma sint_of_short: "sint (int_of_short s) = sint s"
  unfolding int_of_short_def by (rule sint_up_scast) (simp add: is_up)

text \<open>The nest of \<open>sc\<close> lies at \<open>p\<close>.\<close>

definition nest_at :: "bytes \<Rightarrow> nat \<Rightarrow> scan \<Rightarrow> bool" where
  "nest_at m p sc \<longleftrightarrow> lies_at m p (scan_item sc) \<and> length (sc_bssid sc) = 6 \<and> length (sc_name sc) \<le> 32"

lemma nest_search:
  assumes "nest_at m p sc"
  shows "item_found m key (scan_parts sc) (uc_sub m p key)"
proof -
  have len: "length (sc_bssid sc) = 6" "length (sc_name sc) \<le> 32" using assms by (simp_all add: nest_at_def)
  have "align4 (length (sc_name sc)) \<le> 32" using align4_upto [of _ 32] len by simp
  moreover have "align4 4 = 4" "align4 6 = 8" by (simp_all add: align4_def)
  ultimately have "4 + length (enc_items (scan_parts sc)) < 65536"
    using len by (simp add: scan_parts_def length_uc_attr align4_small)
  moreover have "\<forall>x \<in> set (scan_parts sc). small_item x"
    using len by (auto simp: scan_parts_def small_item_def)
  moreover obtain a r where "m = a @ uc_attr ATTR_SCAN (enc_items (scan_parts sc)) @ r" "length a = p"
    using assms by (auto simp: nest_at_def lies_at_def scan_item_def)
  ultimately show ?thesis using uc_sub_items by blast
qed

lemma nest_int:
  assumes "item_found m key its (uc_sub m p key)" and "find (\<lambda>it. item_key it = key) its = Some (Bin key (le32 v))"
  shows "\<exists>q. uc_sub_int m p key = Some q \<and> deref m q = sint v"
  using assms by (auto simp: item_found_def uc_sub_int_def uc_is_int_def uc_is_bin_def deref_le32)

lemma nest_signal: "nest_at m p sc \<Longrightarrow> \<exists>q. uc_sub_int m p ATTR_SIGNAL = Some q \<and> deref m q = sint (sc_signal sc)"
  using nest_int [OF nest_search, of m p sc ATTR_SIGNAL "int_of_short (sc_signal sc)"] by (simp add: scan_parts_def sint_of_short)

lemma nest_freq: "nest_at m p sc \<Longrightarrow> \<exists>q. uc_sub_int m p ATTR_FREQ = Some q \<and> deref m q = sint (sc_freq sc)"
  using nest_int [OF nest_search, of m p sc ATTR_FREQ "int_of_short (sc_freq sc)"] by (simp add: scan_parts_def sint_of_short)

lemma nest_found:
  assumes "nest_at m p sc" and "find (\<lambda>it. item_key it = key) (scan_parts sc) = Some it"
  shows "\<exists>q. uc_sub m p key = Some q \<and> uc_paylen m q = int (length (item_bytes it)) \<and>
    slice (uc_payload q) (length (item_bytes it)) m = item_bytes it"
  using nest_search [OF assms(1), of key] assms(2) by (auto simp: item_found_def)

lemma nest_bssid:
  assumes "nest_at m p sc"
  shows "\<exists>q. uc_sub m p ATTR_BSSID = Some q \<and> print_mac m (Some q) = mac_text (sc_bssid sc)"
proof -
  have "find (\<lambda>it. item_key it = ATTR_BSSID) (scan_parts sc) = Some (Bin ATTR_BSSID (sc_bssid sc))"
    by (simp add: scan_parts_def)
  from nest_found [OF assms this] obtain q where "uc_sub m p ATTR_BSSID = Some q"
    "uc_paylen m q = int (length (sc_bssid sc))" "slice (uc_payload q) (length (sc_bssid sc)) m = sc_bssid sc"
    by (auto simp only: item_bytes.simps)
  moreover have "length (sc_bssid sc) = 6" using assms by (simp add: nest_at_def)
  ultimately have "print_mac m (Some q) = mac_text (sc_bssid sc)" by (simp add: print_mac_def)
  with \<open>uc_sub m p ATTR_BSSID = Some q\<close> show ?thesis by blast
qed

lemma nest_ssid:
  assumes "nest_at m p sc"
  shows "\<exists>q. uc_sub m p ATTR_SSID = Some q \<and> print_ssid m (Some q) = ssid_text (sc_name sc)"
proof -
  have "find (\<lambda>it. item_key it = ATTR_SSID) (scan_parts sc) = Some (Bin ATTR_SSID (sc_name sc))"
    by (simp add: scan_parts_def)
  from nest_found [OF assms this] show ?thesis by (auto simp: print_ssid_def)
qed

lemma nest_prio: "nest_at m p sc \<Longrightarrow> uc_sub m p ATTR_PRIO \<noteq> None \<longleftrightarrow> favoured sc"
  using nest_search [of m p sc ATTR_PRIO] by (auto simp: scan_parts_def item_found_def split: if_splits)

section \<open>Lines\<close>

text \<open>The line for an access point, and which of two comes first.\<close>

definition ap_line :: "bool \<Rightarrow> scan \<Rightarrow> bytes" where
  "ap_line showbss sc =
     (let (chan, band) = get_channel (sint (sc_freq sc)) in
      ascii ''AP '' @ dec_int (sint (sc_signal sc) sdiv 100) @ ascii '' '' @
      (if band \<noteq> 0 then padded 3 (dec_int chan) @ [band] else padded 4 (dec_int (sint (sc_freq sc)))) @
      (if showbss then ascii ''  '' @ mac_text (sc_bssid sc) else []) @
      ascii ''  '' @ ssid_text (sc_name sc) @ (if favoured sc then ascii '' *'' else []) @ newline)"

definition listed_before :: "scan \<Rightarrow> scan \<Rightarrow> bool" where
  "listed_before x y \<longleftrightarrow> sint (sc_signal x) > sint (sc_signal y) \<or>
     sint (sc_signal x) = sint (sc_signal y) \<and> sint (sc_freq x) \<le> sint (sc_freq y)"

lemma print_scanline_ap:
  assumes "nest_at m p sc"
  shows "print_scanline showbss m p = ap_line showbss sc"
proof -
  obtain q1 q2 where "uc_sub m p ATTR_BSSID = Some q1" "print_mac m (Some q1) = mac_text (sc_bssid sc)"
    "uc_sub m p ATTR_SSID = Some q2" "print_ssid m (Some q2) = ssid_text (sc_name sc)"
    using nest_bssid [OF assms] nest_ssid [OF assms] by blast
  moreover have "sub_int m p ATTR_SIGNAL = sint (sc_signal sc)" "sub_int m p ATTR_FREQ = sint (sc_freq sc)"
    using nest_signal [OF assms] nest_freq [OF assms] by (auto simp: sub_int_def)
  ultimately show ?thesis using nest_prio [OF assms] by (simp add: print_scanline_def ap_line_def Let_def)
qed

lemma scan_ord_value:
  assumes "nest_at m p x" "nest_at m q y"
  shows "scan_ord m p q = (if sint (sc_signal x) \<noteq> sint (sc_signal y) then (if sint (sc_signal x) > sint (sc_signal y) then - 1 else 1)
    else if sint (sc_freq x) < sint (sc_freq y) then - 1 else if sint (sc_freq x) > sint (sc_freq y) then 1 else 0)"
  using nest_signal [OF assms(1)] nest_signal [OF assms(2)] nest_freq [OF assms(1)] nest_freq [OF assms(2)]
  by (auto simp: scan_ord_def cmp_int_def)

lemma scan_ord_before: "nest_at m p x \<Longrightarrow> nest_at m q y \<Longrightarrow> scan_ord m p q \<le> 0 \<longleftrightarrow> listed_before x y"
  by (auto simp: scan_ord_value listed_before_def)

lemma scan_ord_orders:
  assumes "list_all2 (nest_at m) ps scs"
  shows "orders (scan_ord m) (set ps)"
proof -
  have ex: "\<exists>sc. nest_at m p sc" if "p \<in> set ps" for p
    using assms that by (auto simp: list_all2_conv_all_nth in_set_conv_nth)
  have "sgn (scan_ord m b a) = - sgn (scan_ord m a b)" if ab: "a \<in> set ps" "b \<in> set ps" for a b
  proof -
    obtain x y where "nest_at m a x" "nest_at m b y" using ex [OF ab(1)] ex [OF ab(2)] by blast
    then show ?thesis by (simp add: scan_ord_value)
  qed
  moreover have "scan_ord m a c \<le> 0"
    if abc: "a \<in> set ps" "b \<in> set ps" "c \<in> set ps" "scan_ord m a b \<le> 0" "scan_ord m b c \<le> 0" for a b c
  proof -
    obtain x y z where n: "nest_at m a x" "nest_at m b y" "nest_at m c z"
      using ex [OF abc(1)] ex [OF abc(2)] ex [OF abc(3)] by blast
    then have "listed_before x y" "listed_before y z" using scan_ord_before abc(4,5) by blast+
    then have "listed_before x z" by (auto simp: listed_before_def)
    then show ?thesis using scan_ord_before [OF n(1,3)] by blast
  qed
  ultimately show ?thesis unfolding orders_def by blast
qed

section \<open>The list\<close>

lemma filter_status_items: "filter (\<lambda>it. item_key it = ATTR_SCAN) (status_items w) = map scan_item (known_aps w)"
  by (simp add: status_items_def link_items_def scan_item_def filter_map comp_def)

lemma status_items_small:
  assumes "wst_ok w"
  shows "\<forall>x \<in> set (status_items w). small_item x" "8 + length (enc_items (status_items w)) < 2 ^ 32"
proof -
  have len: "length (enc_items (status_items w)) \<le> 96 + 80 * snd (w_scans w)" by (rule length_status_items [OF assms])
  moreover have "snd (w_scans w) \<le> NSCANS" using wf_parts [OF assms] table_okD(3) by blast
  ultimately have small: "length (enc_items (status_items w)) \<le> 2496" by simp
  then show "8 + length (enc_items (status_items w)) < 2 ^ 32" by simp
  have le: "length (item_bytes x) \<le> length (enc_items its)" if "x \<in> set its" for x its
    using that align4_ge [of "length (item_bytes x)"]
    by (induction its) (auto simp: enc_item_attr length_uc_attr)
  show "\<forall>x \<in> set (status_items w). small_item x"
    using le small by (force simp: small_item_def)
qed

lemma sorted_wrt_transfer:
  assumes "list_all2 R xs ys" and "sorted_wrt P xs"
    and "\<And>x y x' y'. R x y \<Longrightarrow> R x' y' \<Longrightarrow> P x x' \<Longrightarrow> Q y y'"
  shows "sorted_wrt Q ys"
  using assms(1,2)
proof (induction rule: list_all2_induct)
  case (Cons x xs y ys)
  have "Q y z" if z: "z \<in> set ys" for z
  proof -
    obtain i where "i < length ys" "z = ys ! i" using z by (auto simp: in_set_conv_nth)
    with Cons(2) have "R (xs ! i) z" "xs ! i \<in> set xs" by (auto simp: list_all2_conv_all_nth)
    with Cons(1,4) assms(3) show ?thesis by auto
  qed
  with Cons show ?case by simp
qed simp

lemma known_aps_lie:
  assumes "wst_ok w" and "m = a @ status_message w @ r"
  shows "list_all2 (nest_at m) (filter (\<lambda>at. at_key m at = ATTR_SCAN) (attrs m (length a))) (known_aps w)"
proof -
  note small = status_items_small [OF assms(1)]
  let ?n = "length (enc_items (status_items w))"
  let ?a = "a @ le32 (word_of_nat (8 + ?n)) @ le32 0"
  have m: "m = ?a @ enc_items (status_items w) @ r"
    using assms(2) by (simp add: status_message_def uc_message_def)
  have "attrs m (length a) = positions (length ?a) (status_items w)"
    using attrs_items [OF _ small, of m a 0 r] assms(2) by (simp add: status_message_def)
  then have "list_all2 (lies_at m) (filter (\<lambda>at. at_key m at = ATTR_SCAN) (attrs m (length a))) (map scan_item (known_aps w))"
    using filter_lie [OF positions_lie [OF m] small(1), of ATTR_SCAN] by (simp only: filter_status_items)
  then show ?thesis
    unfolding list_all2_map2 nest_at_def using known_ap_ok(1,2) [OF assms(1)]
    by (elim list.rel_mono_strong) simp
qed

text \<open>One line for every access point, strongest signal first and lower frequency first among equals.\<close>

lemma scan_list_lines:
  assumes "wst_ok w" and "m = a @ status_message w @ r" and "qsort_ok qsort"
  shows "\<exists>aps. mset aps = mset (known_aps w) \<and> sorted_wrt listed_before aps \<and>
    dump_scanlist qsort showbss m (length a) = concat (map (ap_line showbss) aps) \<and>
    (prep_list qsort m (length a) ATTR_SCAN (scan_ord m) = [] \<longleftrightarrow> aps = [])"
proof -
  let ?ps = "filter (\<lambda>at. at_key m at = ATTR_SCAN) (attrs m (length a))"
  let ?qs = "qsort (scan_ord m) ?ps"
  note lie = known_aps_lie [OF assms(1,2)]
  have qs: "mset ?qs = mset ?ps" "sorted_wrt (\<lambda>p q. scan_ord m p q \<le> 0) ?qs"
    using assms(3) scan_ord_orders [OF lie] unfolding qsort_ok_def by blast+
  obtain aps where aps: "list_all2 (nest_at m) ?qs aps" "mset aps = mset (known_aps w)"
    using list_all2_reorder_left_invariance [OF lie qs(1)] by blast
  have "sorted_wrt listed_before aps"
    using sorted_wrt_transfer [OF aps(1) qs(2)] scan_ord_before by blast
  moreover have "map (print_scanline showbss m) ?qs = map (ap_line showbss) aps"
    using aps(1) by (auto simp: list_all2_conv_all_nth print_scanline_ap intro!: nth_equalityI)
  moreover have "dump_scanlist qsort showbss m (length a) = concat (map (print_scanline showbss m) ?qs)"
    "prep_list qsort m (length a) ATTR_SCAN (scan_ord m) = ?qs"
    by (simp_all add: dump_scanlist_def print_scan_results_def prep_list_def Let_def)
  ultimately show ?thesis using aps by auto
qed

text \<open>A table with two access points.\<close>

definition far_ap :: scan where
  "far_ap = \<lparr>sc_freq = 2412, sc_signal = word_of_int (- 7000), sc_flags = SF_SEEN OR SF_GOOD OR SF_PASS, sc_type = ST_RSN_PSK OR ST_RSN_P_CCMP OR ST_RSN_G_CCMP,
     sc_bssid = [2, 0, 0, 0, 0, 1], sc_slen = 4, sc_ssid = ascii ''home'' @ replicate 28 0\<rparr>"

definition near_ap :: scan where
  "near_ap = \<lparr>sc_freq = 5180, sc_signal = word_of_int (- 4000), sc_flags = SF_SEEN, sc_type = 0,
     sc_bssid = [2, 0, 0, 0, 0, 2], sc_slen = 4, sc_ssid = ascii ''cafe'' @ replicate 28 0\<rparr>"

definition two_aps :: wst where
  "two_aps = ready_state\<lparr>w_scans := (far_ap # near_ap # replicate 28 zero_scan, 2)\<rparr>"

lemma two_aps_ok: "wst_ok two_aps"
proof -
  let ?t = "far_ap # near_ap # replicate 28 zero_scan"
  have nth: "?t ! i = (if i = 0 then far_ap else if i = 1 then near_ap else zero_scan)" if "i < 30" for i
    using that by (auto simp: nth_Cons')
  have wf: "wf_scan far_ap" "wf_scan near_ap" "wf_scan zero_scan" "\<not> live zero_scan" "sc_bssid far_ap \<noteq> sc_bssid near_ap"
    by (simp_all add: wf_scan_def live_def far_ap_def near_ap_def zero_scan_def ascii_def)
  have "slots_ok scan_bytes NSCANS (?t, 2)"
    by (simp add: slots_ok_def nth)
  with wf have "scans_ok (?t, 2)"
    by (simp add: scans_ok_def nth)
  moreover have "short_ssid far_ap" "short_ssid near_ap" "short_ssid zero_scan"
    by (simp_all add: short_ssid_def far_ap_def near_ap_def zero_scan_def)
  ultimately have "table_ok (?t, 2)" by (simp add: table_ok_def)
  then show ?thesis unfolding two_aps_def by (rule wf_scans [OF ready_state_ok])
qed

end
