(* ===== verification/Connecting.thy ===== *)
theory Connecting imports Selection Scan_List Requests begin

text \<open>
  What the loop over the scan entries comes to: a connection under way to an entry of the table, with
  the current station set up for it, or nothing left to try.
\<close>

text \<open>The current station is entry \<open>p\<close> of the scan table, which has been marked as tried.\<close>

definition current_is :: "nat \<Rightarrow> wst \<Rightarrow> bool" where
  "current_is p v \<longleftrightarrow> p < snd (w_scans v) \<and> live (scan_at v p) \<and> has (sc_flags (scan_at v p)) SF_TRIED \<and>
     ap_bssid (w_ap v) = sc_bssid (scan_at v p) \<and> ap_freq (w_ap v) = sc_freq (scan_at v p) \<and>
     ap_type (w_ap v) = sc_type (scan_at v p) \<and> ap_name (w_ap v) = sc_name (scan_at v p)"

lemma set_flag_fields [simp]:
  "sc_freq (set_flag f sc) = sc_freq sc" "sc_bssid (set_flag f sc) = sc_bssid sc" "sc_type (set_flag f sc) = sc_type sc"
  "sc_slen (set_flag f sc) = sc_slen sc" "sc_ssid (set_flag f sc) = sc_ssid sc" "sc_name (set_flag f sc) = sc_name sc"
  by (simp_all add: set_flag_def sc_name_def)

lemma matched_name:
  assumes "wst_ok w" and "get_best_ap w = Some p" and "ap_fixed (w_ap w)"
  shows "ap_name (w_ap w) = sc_name (scan_at w p)"
proof -
  note p = get_best_apD [OF assms(2)]
  then have "scan_at w p \<in> set (fst (w_scans w))" by (simp add: scan_at_def)
  then have "wf_scan (scan_at w p)" using wf_parts [OF assms(1)] table_okD(4) by blast
  moreover have "length (ap_ssid (w_ap w)) = SSIDLEN" using assms(1) by (simp add: wst_ok_def ap_ok_def)
  moreover have "sc_slen (scan_at w p) = ap_slen (w_ap w)"
    "memcmp (take (unat (ap_slen (w_ap w))) (sc_ssid (scan_at w p))) (ap_name (w_ap w)) = 0"
    using p assms(3) by (auto simp: match_ssid_def split: if_splits)
  ultimately show ?thesis by (simp add: sc_name_def ap_name_def wf_scan_def memcmp_eq_0)
qed

lemma chosen_name:
  assumes "wst_ok w" and "p < length (fst (w_scans w))"
  shows "take (unat (sc_slen (scan_at w p))) (memcpy_at (ap_ssid (w_ap w)) 0 (sc_name (scan_at w p))) = sc_name (scan_at w p)"
proof -
  have "scan_at w p \<in> set (fst (w_scans w))" using assms(2) by (simp add: scan_at_def)
  then have "wf_scan (scan_at w p)" "short_ssid (scan_at w p)" using wf_parts [OF assms(1)] table_okD(4,5) by blast+
  then have "length (sc_name (scan_at w p)) = unat (sc_slen (scan_at w p))"
    by (simp add: sc_name_def wf_scan_def short_ssid_def)
  then show ?thesis by (simp add: memcpy_at_def)
qed

lemma set_current_ap_states:
  assumes "set_current_ap E p w = Go (r, v)"
  shows "w_authstate v = w_authstate w \<and> w_scanstate v = w_scanstate w"
  using assms by (auto simp: set_current_ap_def Let_def chain_Go upd_scan_def split: if_splits dest!: load_psk_w_frame)

lemma set_current_ap_current:
  assumes "wst_ok w" and "get_best_ap w = Some p" and "set_current_ap E p w = Go (0, v)"
  shows "current_is p v"
proof -
  note p = get_best_apD [OF assms(2)]
  then have at: "scan_at (upd_scan p (set_flag SF_TRIED) w) p = set_flag SF_TRIED (scan_at w p)"
    by (simp add: scan_at_def upd_scan_def)
  have tried: "has (sc_flags (set_flag SF_TRIED (scan_at w p))) SF_TRIED" by simp
  note name = matched_name [OF assms(1,2)] chosen_name [OF assms(1), of p]
  show ?thesis
  proof (cases "ap_fixed (w_ap w)")
    case True
    then show ?thesis
      using assms(3) p at tried name(1)
      by (auto simp: set_current_ap_def Let_def current_is_def upd_scan_def scan_at_def live_def ap_name_def split: if_splits)
  next
    case False
    then show ?thesis
      using assms(3) p at tried name(2)
      by (auto simp: set_current_ap_def Let_def chain_Go current_is_def upd_scan_def scan_at_def live_def ap_name_def
          split: if_splits dest!: load_psk_w_frame)
  qed
qed

lemma current_is_rest: "rest v = rest w \<Longrightarrow> current_is p v = current_is p w"
  using rest_eqD(1,2) [of v w] by (simp add: current_is_def scan_at_def)

lemma start_connection_idle:
  assumes "w_authstate w = AS_IDLE" and "w_scanstate w = SS_IDLE" and "start_connection E w = Go (ret, v)"
  shows "ret = 0 \<and> rest v = rest w \<and> w_authstate v = AS_AUTHENTICATING"
  using assms
  by (auto simp: start_connection_def chain_Go dest!: reopen_rawsock_rest trigger_authentication_rest)

text \<open>
  C12. The loop \<open>connect_to_something\<close>, started while idle, ends in one of two ways: it reports a
  connection, and then authentication is under way with an entry of the scan table that is in use and now
  marked as tried, its BSSID, frequency, type and SSID being those of the current station; or it
  reports none, and then no entry is left that may be tried.
\<close>

theorem connect_outcome:
  assumes "wst_ok w" and "w_authstate w = AS_IDLE" and "w_scanstate w = SS_IDLE" and "connect_to_something E w = Go (ok, v)"
  shows "if ok then w_authstate v = AS_AUTHENTICATING \<and> (\<exists>p. current_is p v)
    else w_authstate v = AS_IDLE \<and> candidates v = []"
  using assms
proof (induction "goods w" arbitrary: w rule: less_induct)
  case less
  note step = connect_to_something.simps [of E w]
  show ?case
  proof (cases "get_best_ap w")
    case None
    then have "\<not> ok" "v = w" using less.prems(4) by (simp_all add: step)
    moreover have "candidates w = []" using None get_best_None by blast
    ultimately show ?thesis using less.prems(2) by simp
  next
    case (Some p)
    obtain ret w1 where w1: "set_current_ap E p w = Go (ret, w1)"
      using less.prems(4) by (cases "set_current_ap E p w") (auto simp: step Some)
    have ok1: "wst_ok w1" using wf_set_current_ap [OF less.prems(1) Some, of E] by (simp add: w1)
    have idle1: "w_authstate w1 = AS_IDLE \<and> w_scanstate w1 = SS_IDLE"
      using set_current_ap_states [OF w1] less.prems(2,3) by simp
    show ?thesis
    proof (cases "ret = 0")
      case False
      let ?w = "upd_scan p (clear_flag SF_GOOD) w1"
      have "goods ?w < goods w" using goods_less [OF Some] set_current_ap_scans [OF w1] by simp
      moreover have "wst_ok ?w" using ok1 by (rule wf_clear_good)
      moreover have "w_authstate ?w = AS_IDLE" "w_scanstate ?w = SS_IDLE" using idle1 by (simp_all add: upd_scan_def)
      moreover have "connect_to_something E ?w = Go (ok, v)" using less.prems(4) False by (simp add: step Some w1)
      ultimately show ?thesis using less.hyps by blast
    next
      case True
      obtain ret2 w2 where w2: "start_connection E w1 = Go (ret2, w2)"
        using less.prems(4) True by (cases "start_connection E w1") (auto simp: step Some w1)
      have r: "ret2 = 0" "rest w2 = rest w1" "w_authstate w2 = AS_AUTHENTICATING"
        using start_connection_idle idle1 w2 by auto
      then have "ok" "v = w2" using less.prems(4) True by (simp_all add: step Some w1 w2)
      moreover have "current_is p w2"
        using set_current_ap_current [OF less.prems(1) Some w1 [unfolded True]] current_is_rest [OF r(2)] by blast
      ultimately show ?thesis using r(3) by auto
    qed
  qed
qed

text \<open>A supplicant told to use the network it hears from afar.\<close>

definition at_home :: wst where
  "at_home = two_aps\<lparr>w_ap := (w_ap two_aps)\<lparr>ap_slen := 4, ap_ssid := ascii ''home'' @ replicate 28 0, ap_fixed := True\<rparr>\<rparr>"

lemma at_home_ok: "wst_ok at_home"
proof -
  have "ap_ok (w_ap two_aps)" using two_aps_ok by (simp add: wst_ok_def)
  then show ?thesis unfolding at_home_def by (intro wf_ap [OF two_aps_ok]) (simp add: ap_ok_def ascii_def)
qed

lemma at_home_connects: "\<exists>v. connect_to_something calm_env at_home = Go (True, v)"
proof -
  have best: "get_best_ap at_home = Some 0"
    by (simp add: get_best_ap_def at_home_def two_aps_def far_ap_def near_ap_def connectable_def match_ssid_def
        ap_name_def has_def ascii_def compare_def)
  obtain v where v: "set_current_ap calm_env 0 at_home = Go (0, v)"
    by (simp add: set_current_ap_def at_home_def two_aps_def upd_scan_def scan_at_def set_flag_def far_ap_def has_def Let_def)
  have idle: "w_authstate v = AS_IDLE" "w_scanstate v = SS_IDLE"
    using set_current_ap_states [OF v] by (simp_all add: at_home_def two_aps_def ready_state_def static_state_def)
  have "wst_ok v" using wf_set_current_ap [OF at_home_ok best, of calm_env] by (simp add: v)
  define u where "u = (if w_rawsock v \<ge> 0 then v else v\<lparr>w_rawsock := 4\<rparr>)"
  have reopen: "reopen_rawsock calm_env v = Go u"
    by (simp add: u_def reopen_rawsock_def open_rawsock_def calm_env_def)
  have "wst_ok u" using \<open>wst_ok v\<close> by (simp add: u_def)
  then obtain x where "trigger_authentication calm_env u = Go x"
    using authentication_goes [of u calm_env] by blast
  with idle reopen have "start_connection calm_env v = Go (0, x)" by (simp add: start_connection_def)
  then show ?thesis by (auto simp: connect_to_something.simps [of calm_env at_home] best v)
qed

theorem connect_outcome_witness:
  "\<exists>v p. connect_to_something calm_env at_home = Go (True, v) \<and> w_authstate v = AS_AUTHENTICATING \<and> current_is p v"
proof -
  obtain v where v: "connect_to_something calm_env at_home = Go (True, v)" using at_home_connects by blast
  have "w_authstate at_home = AS_IDLE" "w_scanstate at_home = SS_IDLE"
    by (simp_all add: at_home_def two_aps_def ready_state_def static_state_def)
  from connect_outcome [OF at_home_ok this v] v show ?thesis by auto
qed

end
