(* ===== verification/Replies.thy ===== *)
theory Replies imports Invariant_Steps Uctl_Proofs begin

text \<open>
  What a client hears of its request (wsupp_cntrl.c): one reply, before anything else.
\<close>

section \<open>What is sent on a connection\<close>

fun conn_sent :: "u32 \<Rightarrow> out list \<Rightarrow> bytes list" where
  "conn_sent fd [] = []"
| "conn_sent fd (Conn_sent n b # xs) = (if n = fd then b # conn_sent fd xs else conn_sent fd xs)"
| "conn_sent fd (_ # xs) = conn_sent fd xs"

lemma conn_sent_append [simp]: "conn_sent fd (xs @ ys) = conn_sent fd xs @ conn_sent fd ys"
  by (induction fd xs rule: conn_sent.induct) simp_all

text \<open>The part of the state that replies are made of and come out in.\<close>

definition talk :: "u32 \<Rightarrow> wst \<Rightarrow> ucbuf \<times> u32 list \<times> bytes list" where
  "talk fd w = (w_uc w, map cn_fd (fst (w_conns w)), conn_sent fd (w_out w))"

lemma talk_updates [simp]:
  "talk fd (w\<lparr>w_nl := a0\<rparr>) = talk fd w" "talk fd (w\<lparr>w_ap := a1\<rparr>) = talk fd w" "talk fd (w\<lparr>w_opermode := a2\<rparr>) = talk fd w"
  "talk fd (w\<lparr>w_PSK := a3\<rparr>) = talk fd w" "talk fd (w\<lparr>w_config := a4\<rparr>) = talk fd w" "talk fd (w\<lparr>w_timer := a5\<rparr>) = talk fd w"
  "talk fd (w\<lparr>w_scans := a6\<rparr>) = talk fd w" "talk fd (w\<lparr>w_scanreq := a7\<rparr>) = talk fd w" "talk fd (w\<lparr>w_scanstate := a8\<rparr>) = talk fd w"
  "talk fd (w\<lparr>w_authstate := a9\<rparr>) = talk fd w" "talk fd (w\<lparr>w_rawsock := b1\<rparr>) = talk fd w" "talk fd (w\<lparr>w_pollset := b2\<rparr>) = talk fd w"
  "talk fd (w\<lparr>w_scanseq := b3\<rparr>) = talk fd w"
  by (simp_all add: talk_def)

lemma talk_small [simp]:
  "talk fd (emit (Nl_sent m) w) = talk fd w" "talk fd (emit_nl b w) = talk fd w" "talk fd (clr_timer w) = talk fd w"
  "talk fd (set_timer n w) = talk fd w" "talk fd (each_scan f w) = talk fd w" "talk fd (upd_scan p f w) = talk fd w"
  "talk fd (clear_ap_bssid w) = talk fd w" "talk fd (clear_ap_ssid w) = talk fd w" "talk fd (reset_scan_counters w) = talk fd w"
  by (simp_all add: talk_def emit_def emit_nl_def clr_timer_def set_timer_def each_scan_def upd_scan_def clear_ap_bssid_def
      clear_ap_ssid_def reset_scan_counters_def case_prod_beta split: option.splits)

lemma talk_send_nl [simp]: "talk fd (snd (send_nl E w)) = talk fd w"
  by (simp add: send_nl_def case_prod_beta Let_def)

lemma talk_start_scan [simp]: "talk fd (snd (start_scan E f w)) = talk fd w"
  by (simp add: start_scan_def send_scan_def Let_def case_prod_beta)

lemma talk_set_rep [simp]: "talk fd (set_rep p r w) = talk fd w"
proof -
  have "cn_fd (xs[p := (xs ! p)\<lparr>cn_rep := r\<rparr>] ! i) = cn_fd (xs ! i)" if "i < length xs" for xs :: "conn list" and i
    using that by (cases "p = i") simp_all
  then have "map cn_fd (xs[p := (xs ! p)\<lparr>cn_rep := r\<rparr>]) = map cn_fd xs" for xs :: "conn list"
    by (intro nth_equalityI) simp_all
  then show ?thesis by (simp add: talk_def set_rep_def)
qed

lemma talk_send_check: "talk fd w = t \<Longrightarrow> yields (\<lambda>v. talk fd v = t) (send_check E w)"
  by (auto simp: send_check_def case_prod_beta quit_def Let_def)

lemma talk_send_set_authstate: "talk fd w = t \<Longrightarrow> yields (\<lambda>v. talk fd v = t) (send_set_authstate E s w)"
  by (auto simp: send_set_authstate_def intro!: ends_chain [OF talk_send_check])

lemma talk_start_disconnect: "talk fd w = t \<Longrightarrow> yields (\<lambda>x. talk fd (snd x) = t) (start_disconnect E w)"
  by (auto simp: start_disconnect_def trigger_disconnect_def
      intro!: ends_chain [OF talk_send_set_authstate] split: authstate.splits)

lemma talk_start_connection: "talk fd w = t \<Longrightarrow> yields (\<lambda>x. talk fd (snd x) = t) (start_connection E w)"
  by (auto simp: start_connection_def reopen_rawsock_def open_rawsock_def trigger_authentication_def quit_def
      Let_def case_prod_beta intro!: ends_chain [where P' = "\<lambda>v. talk fd v = t"] talk_send_set_authstate)

lemma talk_load_psk: "talk fd w = t \<Longrightarrow> yields (\<lambda>x. talk fd (snd x) = t) (load_psk_w E s n w)"
  by (auto simp: load_psk_w_def split: option.splits)

lemma talk_set_fixed: "talk fd w = t \<Longrightarrow> yields (\<lambda>x. talk fd (snd x) = t) (set_fixed s n w)"
  by (auto simp: set_fixed_def Let_def)

lemma talk_set_fixeds:
  "talk fd w = t \<Longrightarrow> yields (\<lambda>x. talk fd (snd x) = t) (set_fixed_given s n k w)"
  "talk fd w = t \<Longrightarrow> yields (\<lambda>x. talk fd (snd x) = t) (set_fixed_saved E s n w)"
  by (auto simp: set_fixed_given_def set_fixed_saved_def case_prod_beta
      intro!: ends_chain [where P' = "\<lambda>x. talk fd (snd x) = t"] talk_set_fixed talk_load_psk)

lemma talk_configure: "talk fd w = t \<Longrightarrow> yields (\<lambda>x. talk fd (snd x) = t) (configure_station E m msg w)"
  by (auto simp: configure_station_def reset_station_def Let_def payload_in_def intro!: talk_set_fixeds split: option.splits)

text \<open>A new connection may be reported: the connection hears more, but takes nothing back.\<close>

definition hears_more :: "u32 \<Rightarrow> bytes list \<Rightarrow> wst \<Rightarrow> bool" where
  "hears_more fd bs w \<longleftrightarrow> (\<exists>rs. conn_sent fd (w_out w) = bs @ rs)"

lemma hears_talk: "talk fd v = talk fd w \<Longrightarrow> hears_more fd bs v = hears_more fd bs w"
  by (simp add: talk_def hears_more_def)

lemma hears_conns: "hears_more fd bs w \<Longrightarrow> hears_more fd bs (send_to_conns E buf cns w)"
  by (induction E buf cns w rule: send_to_conns.induct) (auto simp: emit_def hears_more_def)

lemma hears_reassess:
  assumes "hears_more fd bs w"
  shows "yields (hears_more fd bs) (reassess_wifi_situation E w)"
proof -
  have set: "yields (\<lambda>x. talk fd (snd x) = talk fd v) (set_current_ap E p v)" for v p
    by (auto simp: set_current_ap_def Let_def case_prod_beta
        intro!: ends_chain [where P' = "\<lambda>x. talk fd (snd x) = talk fd v"] talk_load_psk)
  have same: "yields (\<lambda>x. hears_more fd bs (snd x)) r" if "yields (\<lambda>x. talk fd (snd x) = talk fd v) r" "hears_more fd bs v" for r v
    using ends_mono [OF that(1), where d' = False and P' = "\<lambda>x. hears_more fd bs (snd x)" and Q' = "\<lambda>s. True"] hears_talk that(2)
    by blast
  have conn: "yields (\<lambda>x. hears_more fd bs (snd x)) (connect_to_something E w)"
    by (rule connect_to_something_inv [where I = "hears_more fd bs"])
      (auto intro: assms same set talk_start_connection [OF refl] simp: hears_talk [OF talk_small(6)])
  have rep: "hears_more fd bs (report_no_connect E v)" if "hears_more fd bs v" for v
    using that by (simp add: report_no_connect_def report_simple_def send_report_def hears_conns Let_def)
  have snap: "talk fd (snap_to_neutral v) = talk fd v" "talk fd (idle_then_rescan v) = talk fd v" for v
    by (simp_all add: snap_to_neutral_def idle_then_rescan_def Let_def)
  show ?thesis
    using assms unfolding reassess_wifi_situation_def
    by (auto simp: Let_def case_prod_beta hears_talk [OF snap(1)] hears_talk [OF snap(2)] intro!: ends_chain [OF conn] rep)
qed

section \<open>Replies\<close>

text \<open>A bare header: the length eight and the code, an error as a negative one.\<close>

definition bare_reply :: "int \<Rightarrow> bytes" where
  "bare_reply err = le32 8 @ le32 (word_of_int err)"

lemma reply_says:
  assumes "p < length (fst (w_conns w))" "cn_fd (fst (w_conns w) ! p) = fd" "en_conn_ok E fd"
  shows "fst (reply E p err w) = 1"
    and "\<not> uc_over (w_uc w) \<Longrightarrow> conn_sent fd (w_out (snd (reply E p err w))) = conn_sent fd (w_out w) @ [bare_reply err]"
    and "\<exists>b. conn_sent fd (w_out (snd (send_reply E p (w\<lparr>w_uc := uc\<rparr>)))) = conn_sent fd (w_out w) @ [b]"
    and "fst (send_reply E p (w\<lparr>w_uc := uc\<rparr>)) = 1"
proof -
  show "fst (reply E p err w) = 1" "fst (send_reply E p (w\<lparr>w_uc := uc\<rparr>)) = 1"
    by (simp_all add: reply_def send_reply_def Let_def)
  show "\<exists>b. conn_sent fd (w_out (snd (send_reply E p (w\<lparr>w_uc := uc\<rparr>)))) = conn_sent fd (w_out w) @ [b]"
    using assms(2,3) by (simp add: send_reply_def conn_takes_def emit_def Let_def)
  assume over: "\<not> uc_over (w_uc w)"
  let ?uc = "uc_put_end (uc_put_hdr ((w_uc w)\<lparr>uc_buf := replicate 100 (en_stack E), uc_ptr := 0\<rparr>) (word_of_int err))"
  have "take (uc_ptr ?uc) (uc_buf ?uc) = bare_reply err"
    using over by (simp add: uc_put_hdr_def uc_alloc_def uc_poke_def uc_put_end_def bare_reply_def memcpy_at_def Let_def)
  then show "conn_sent fd (w_out (snd (reply E p err w))) = conn_sent fd (w_out w) @ [bare_reply err]"
    using assms(2,3) by (simp add: reply_def start_reply_def send_reply_def conn_takes_def emit_def Let_def)
qed

section \<open>One reply to each request\<close>

text \<open>A command that leaves the reply to the caller: the error to tell, nothing said yet.\<close>

definition silent :: "u32 \<Rightarrow> wst \<Rightarrow> int \<times> wst \<Rightarrow> bool" where
  "silent fd w x \<longleftrightarrow> fst x \<le> 0 \<and> talk fd (snd x) = talk fd w"

text \<open>One that replied itself.\<close>

definition replied :: "u32 \<Rightarrow> (bytes \<Rightarrow> bytes list \<Rightarrow> bool) \<Rightarrow> wst \<Rightarrow> int \<times> wst \<Rightarrow> bool" where
  "replied fd P w x \<longleftrightarrow> fst x > 0 \<and> (\<exists>b rs. conn_sent fd (w_out (snd x)) = conn_sent fd (w_out w) @ b # rs \<and> P b rs)"

lemma silent_commands:
  "yields (silent fd w) (cmd_scan E p w)" "yields (silent fd w) (cmd_neutral E p w)" "yields (silent fd w) (cmd_forget E p m msg w)"
proof -
  show "yields (silent fd w) (cmd_scan E p w)"
    by (simp add: cmd_scan_def start_void_scan_def silent_def case_prod_beta)
  have "talk fd (w\<lparr>w_opermode := OP_NEUTRAL\<rparr>) = talk fd w" by simp
  from talk_start_disconnect [OF this, of E] show "yields (silent fd w) (cmd_neutral E p w)"
    unfolding cmd_neutral_def by (rule ends_chain) (simp add: silent_def case_prod_beta)
  have pay: "yields (\<lambda>k. True) (payload_in m q n)" for q n by (simp add: payload_in_def)
  show "yields (silent fd w) (cmd_forget E p m msg w)"
    by (auto simp: cmd_forget_def silent_def Let_def intro!: ends_chain [OF pay] split: option.splits)
qed

lemma talk_conn: "talk fd v = talk fd w \<Longrightarrow> p < length (fst (w_conns w)) \<Longrightarrow>
    p < length (fst (w_conns v)) \<and> cn_fd (fst (w_conns v) ! p) = cn_fd (fst (w_conns w) ! p)"
  by (auto simp: talk_def dest: map_eq_imp_length_eq) (metis nth_map map_eq_imp_length_eq)

lemma replied_connect:
  assumes "p < length (fst (w_conns w))" "cn_fd (fst (w_conns w) ! p) = fd" "en_conn_ok E fd" "\<not> uc_over (w_uc w)"
  shows "yields (\<lambda>x. silent fd w x \<or> replied fd (\<lambda>b rs. b = bare_reply 0) w x) (cmd_connect E p m msg w)"
proof -
  have go: "yields (\<lambda>x. replied fd (\<lambda>b rs. b = bare_reply 0) w x)
     (chain (reassess_wifi_situation E (clr_timer (snd (reply E p 0 (set_rep p 1 (v\<lparr>w_opermode := OP_ONESHOT\<rparr>))))))
       (\<lambda>u. Go (fst (reply E p 0 (set_rep p 1 (v\<lparr>w_opermode := OP_ONESHOT\<rparr>))), u)))" if v: "talk fd v = talk fd w" for v
  proof -
    let ?v = "set_rep p 1 (v\<lparr>w_opermode := OP_ONESHOT\<rparr>)"
    have tv: "talk fd ?v = talk fd w" using v by simp
    then have vw: "w_uc ?v = w_uc w" "conn_sent fd (w_out ?v) = conn_sent fd (w_out w)" by (simp_all add: talk_def)
    note r = reply_says [OF conjunct1 [OF talk_conn [OF tv assms(1)]] _ assms(3)]
    have "conn_sent fd (w_out (snd (reply E p 0 ?v))) = conn_sent fd (w_out w) @ [bare_reply 0]"
      using r(2) talk_conn [OF tv assms(1)] assms(2,4) vw by simp
    then have "hears_more fd (conn_sent fd (w_out w) @ [bare_reply 0]) (clr_timer (snd (reply E p 0 ?v)))"
      by (simp add: hears_more_def clr_timer_def)
    from hears_reassess [OF this] show ?thesis
      by (rule ends_chain) (use r(1) talk_conn [OF tv assms(1)] assms(2) in \<open>auto simp: replied_def hears_more_def\<close>)
  qed
  have conf: "yields (\<lambda>x. talk fd (snd x) = talk fd w) (configure_station E m msg w)" by (rule talk_configure) simp
  have "yields (\<lambda>x. silent fd w x \<or> replied fd (\<lambda>b rs. b = bare_reply 0) w x)
    (chain (configure_station E m msg w) (\<lambda>(ret, w).
      if ret < 0 then Go (ret, w)
      else let w = set_rep p 1 (w\<lparr>w_opermode := OP_ONESHOT\<rparr>); (ret, w) = reply E p 0 w
           in chain (reassess_wifi_situation E (clr_timer w)) (\<lambda>w. Go (ret, w))))"
    using conf
  proof (rule ends_chain)
    fix x :: "int \<times> wst" assume x: "talk fd (snd x) = talk fd w"
    show "yields (\<lambda>x. silent fd w x \<or> replied fd (\<lambda>b rs. b = bare_reply 0) w x) (case x of (ret, w) \<Rightarrow>
      if ret < 0 then Go (ret, w)
      else let w = set_rep p 1 (w\<lparr>w_opermode := OP_ONESHOT\<rparr>); (ret, w) = reply E p 0 w
           in chain (reassess_wifi_situation E (clr_timer w)) (\<lambda>w. Go (ret, w)))"
      using x ends_mono [OF go [OF x], where d' = False and P' = "\<lambda>x. silent fd w x \<or> replied fd (\<lambda>b rs. b = bare_reply 0) w x" and Q' = "\<lambda>s. True"]
      by (cases "fst x < 0") (simp_all add: silent_def case_prod_beta Let_def)
  qed
  then show ?thesis by (simp add: cmd_connect_def silent_def)
qed

text \<open>What \<open>dispatch_cmd\<close> makes of either.\<close>

lemma dispatch_says:
  assumes "p < length (fst (w_conns w))" "cn_fd (fst (w_conns w) ! p) = fd" "en_conn_ok E fd" "\<not> uc_over (w_uc w)"
    and "call_cmd E p m msg w = Some r" "yields (\<lambda>x. silent fd w x \<or> replied fd P w x) r"
    and "\<And>err. err \<le> 0 \<Longrightarrow> P (bare_reply err) []"
  shows "yields (replied fd P w) (dispatch_cmd E p m msg w)"
  unfolding dispatch_cmd_def assms(5) option.case
proof (rule ends_chain [OF assms(6)])
  fix x assume x: "silent fd w x \<or> replied fd P w x"
  show "yields (replied fd P w) (case x of (ret, w) \<Rightarrow> if ret > 0 then Go (ret, w) else Go (reply E p ret w))"
  proof (cases "fst x > 0")
    case True
    then show ?thesis using x by (auto simp: silent_def case_prod_beta)
  next
    case False
    then have t: "talk fd (snd x) = talk fd w" using x by (simp add: silent_def replied_def)
    then have u: "w_uc (snd x) = w_uc w" "conn_sent fd (w_out (snd x)) = conn_sent fd (w_out w)" by (simp_all add: talk_def)
    have c: "p < length (fst (w_conns (snd x)))" "cn_fd (fst (w_conns (snd x)) ! p) = fd" using talk_conn [OF t assms(1)] assms(2) by simp_all
    have "P (bare_reply (fst x)) []" using False by (intro assms(7)) simp
    moreover note reply_says(2) [OF c assms(3), of "fst x"] reply_says(1) [OF c assms(3), of "fst x"]
    ultimately show ?thesis using False u assms(4) by (simp add: replied_def case_prod_beta)
  qed
qed

text \<open>
  A request that is handled to its end has been answered: by exactly one message, the device and status
  requests by theirs, every other by a bare code, zero or a negative error, ENOSYS when there is no such
  command. After the reply to a connect request reports can follow within the same step, since that
  request starts reporting.
\<close>

definition answered :: "u32 \<Rightarrow> u32 \<Rightarrow> wst \<Rightarrow> int \<times> wst \<Rightarrow> bool" where
  "answered fd cmd w x \<longleftrightarrow> fst x > 0 \<and> (\<exists>b rs. conn_sent fd (w_out (snd x)) = conn_sent fd (w_out w) @ b # rs \<and>
      (cmd = CMD_WI_CONNECT \<or> rs = []) \<and>
      (cmd \<in> {CMD_WI_STATUS, CMD_WI_DEVICE} \<or> (\<exists>err \<le> 0. b = bare_reply err)) \<and>
      (cmd \<in> {CMD_WI_STATUS, CMD_WI_DEVICE, CMD_WI_SCAN, CMD_WI_NEUTRAL, CMD_WI_CONNECT, CMD_WI_FORGET} \<or>
        b = bare_reply (- ENOSYS)))"

lemma dispatch_answers:
  assumes "wst_ok w" and "p < snd (w_conns w)" and "fd = cn_fd (fst (w_conns w) ! p)" and "en_conn_ok E fd" and "\<not> uc_over (w_uc w)"
  shows "yields (answered fd (msg_cmd m msg) w) (dispatch_cmd E p m msg w)"
proof -
  let ?cmd = "msg_cmd m msg"
  let ?P = "\<lambda>b rs. (?cmd = CMD_WI_CONNECT \<or> rs = []) \<and>
      (?cmd \<in> {CMD_WI_STATUS, CMD_WI_DEVICE} \<or> (\<exists>err \<le> 0. b = bare_reply err)) \<and>
      (?cmd \<in> {CMD_WI_STATUS, CMD_WI_DEVICE, CMD_WI_SCAN, CMD_WI_NEUTRAL, CMD_WI_CONNECT, CMD_WI_FORGET} \<or> b = bare_reply (- ENOSYS))"
  have p: "p < length (fst (w_conns w))" using assms(1,2) by (auto simp: wst_ok_def slots_ok_def)
  note says = reply_says [OF p assms(3) [symmetric] assms(4)]
  have "yields (replied fd ?P w) (dispatch_cmd E p m msg w)"
  proof (cases "call_cmd E p m msg w")
    case None
    then have "?cmd \<notin> {CMD_WI_STATUS, CMD_WI_DEVICE, CMD_WI_SCAN, CMD_WI_NEUTRAL, CMD_WI_CONNECT, CMD_WI_FORGET}"
      by (auto simp: call_cmd_def Let_def split: if_splits)
    moreover have "\<exists>err \<le> 0. bare_reply (- ENOSYS) = bare_reply err" by (intro exI [of _ "- ENOSYS"]) simp
    ultimately show ?thesis
      using says(1,2) assms(5) by (simp add: dispatch_cmd_def None replied_def)
  next
    case (Some r)
    have own: "\<exists>b rs. conn_sent fd (w_out (snd (send_reply E p (w\<lparr>w_uc := uc\<rparr>)))) = conn_sent fd (w_out w) @ b # rs \<and> ?P b rs"
      if cmd: "?cmd \<in> {CMD_WI_STATUS, CMD_WI_DEVICE}" for uc
    proof -
      obtain b where "conn_sent fd (w_out (snd (send_reply E p (w\<lparr>w_uc := uc\<rparr>)))) = conn_sent fd (w_out w) @ [b]"
        using says(3) by blast
      with cmd show ?thesis by (intro exI [of _ b] exI [of _ "[]"]) auto
    qed
    have info: "yields (replied fd ?P w) (cmd_status E p w)" if "?cmd = CMD_WI_STATUS"
      using own says(4) that
      by (cases "prep_heap E (estimate_status w)") (simp_all add: cmd_status_def replied_def set_rep_def case_prod_beta Let_def)
    have dev: "yields (replied fd ?P w) (cmd_device E p w)" if "?cmd = CMD_WI_DEVICE"
      using own says(4) that by (simp add: cmd_device_def replied_def Let_def)
    have conn: "yields (\<lambda>x. silent fd w x \<or> replied fd ?P w x) (cmd_connect E p m msg w)" if "?cmd = CMD_WI_CONNECT"
      using replied_connect [OF p assms(3) [symmetric] assms(4,5), of m msg]
      by (rule ends_mono) (use that in \<open>auto simp: replied_def\<close>)
    have "yields (\<lambda>x. silent fd w x \<or> replied fd ?P w x) r"
      using Some info dev conn silent_commands [of fd w E p] by (auto simp: call_cmd_def Let_def split: if_splits intro: ends_mono)
    then show ?thesis
    proof (rule dispatch_says [OF p assms(3) [symmetric] assms(4,5) Some])
      have "?cmd \<in> {CMD_WI_STATUS, CMD_WI_DEVICE, CMD_WI_SCAN, CMD_WI_NEUTRAL, CMD_WI_CONNECT, CMD_WI_FORGET}"
        using Some by (auto simp: call_cmd_def Let_def split: if_splits)
      then show "?P (bare_reply err) []" if "err \<le> 0" for err using that by blast
    qed
  qed
  then show ?thesis by (rule ends_mono) (simp_all add: replied_def answered_def)
qed

text \<open>A client with descriptor seven.\<close>

definition client_state :: wst where
  "client_state = ready_state\<lparr>w_conns := (zero_conn\<lparr>cn_fd := 7\<rparr> # replicate 9 zero_conn, 1)\<rparr>"

lemma client_state: "wst_ok client_state" "snd (w_conns client_state) = 1" "cn_fd (fst (w_conns client_state) ! 0) = 7"
  "\<not> uc_over (w_uc client_state)" "conn_sent 7 (w_out client_state) = []"
proof -
  have "slots_ok conn_bytes NCONNS (zero_conn\<lparr>cn_fd := 7\<rparr> # replicate 9 zero_conn, 1)"
    by (auto simp: slots_ok_def nth_Cons' conn_bytes_def zero_conn_def)
  then show "wst_ok client_state" unfolding client_state_def by (rule wf_conns [OF ready_state_ok])
  show "snd (w_conns client_state) = 1" "cn_fd (fst (w_conns client_state) ! 0) = 7" by (simp_all add: client_state_def)
  show "\<not> uc_over (w_uc client_state)" "conn_sent 7 (w_out client_state) = []"
    by (simp_all add: client_state_def ready_state_def static_state_def)
qed

end
