(* ===== verification/Control_Loop.thy ===== *)
theory Control_Loop imports Invariant Uctl_Stream begin

text \<open>
  A message that claims to have no bytes keeps the supplicant in the loop over a client's requests for
  good. (On well-formed requests the loop ends, see \<open>Service\<close>.)
\<close>

section \<open>Messages of no bytes\<close>

lemma unknown_command: "call_cmd E p m msg w = None \<Longrightarrow> \<exists>v. dispatch_cmd E p m msg w = Go (1, v)"
  by (simp add: dispatch_cmd_def reply_def send_reply_def Let_def)

text \<open>Whether a command is known depends on its code only.\<close>

definition known_code :: "u32 \<Rightarrow> bool" where
  "known_code c \<longleftrightarrow> c \<in> {CMD_WI_STATUS, CMD_WI_DEVICE, CMD_WI_SCAN, CMD_WI_NEUTRAL, CMD_WI_CONNECT, CMD_WI_FORGET}"

lemma call_cmd_None: "call_cmd E p m msg w = None \<longleftrightarrow> \<not> known_code (msg_cmd m msg)"
  by (auto simp: call_cmd_def known_code_def Let_def)

definition stuck :: "urbuf \<Rightarrow> bool" where
  "stuck ur \<longleftrightarrow> zero_length_next ur \<and> \<not> known_code (msg_cmd (ur_buf ur) (ur_mptr ur))"

lemma stuck_msg [simp]: "stuck (ur\<lparr>ur_msg := x\<rparr>) = stuck ur"
  by (simp add: stuck_def zero_length_next_def ur_ok_def ur_pending_def)

lemma stuck_loop:
  assumes "handle_conn_loop E p ur evs w = Some r"
  shows "\<not> stuck ur"
proof (rule handle_conn_loop.raw_induct [OF _ assms])
  fix loop E p ur evs w r
  assume IH: "\<And>E p ur evs w r. loop E p ur evs w = Some r \<Longrightarrow> \<not> stuck ur"
    and body: "(case uc_recv ur False evs of
        None \<Rightarrow> Some (Go (- EINTR, w))
      | Some (ret, ur', evs') \<Rightarrow>
          if ret < 0 then Some (Go (ret, w))
          else (case ur_msg ur' of
                  None \<Rightarrow> Some Wild
                | Some msg \<Rightarrow>
                    (case dispatch_cmd E p (ur_buf ur') msg w of
                       Go rw \<Rightarrow> if fst rw < 0 then Some (Go rw) else loop E p ur' evs' (snd rw)
                     | Quit s \<Rightarrow> Some (Quit s)
                     | Wild \<Rightarrow> Some Wild))) = Some r"
  show "\<not> stuck ur"
  proof
    assume s: "stuck ur"
    let ?ur = "ur\<lparr>ur_msg := Some (ur_mptr ur)\<rparr>"
    have recv: "uc_recv ur False evs = Some (0, ?ur, evs)" using s zero_length_step by (simp add: stuck_def)
    have "call_cmd E p (ur_buf ur) (ur_mptr ur) w = None" using s by (simp add: stuck_def call_cmd_None)
    from unknown_command [OF this] obtain v where "dispatch_cmd E p (ur_buf ur) (ur_mptr ur) w = Go (1, v)" by blast
    with body recv have "loop E p ?ur evs v = Some r" by simp
    from IH [OF this] s show False by simp
  qed
qed

text \<open>
  C17. A client that sends eight bytes, a length of zero and any code that is no command, keeps the
  supplicant from ever leaving \<open>handle_conn\<close>: no event of the kernel and no other client is served again.
\<close>

theorem zero_length_hangs:
  assumes "length d = 8" and "of_le32 d = 0" and "\<not> known_code (of_le32 (drop 4 d))"
  shows "handle_conn E p (Rx_data d # evs) w = None"
proof -
  let ?ur = "\<lparr>ur_buf = replicate 100 (en_stack E), ur_mptr = 0, ur_rptr = 0, ur_msg = None\<rparr>"
  let ?v = "\<lparr>ur_buf = d @ replicate 92 (en_stack E), ur_mptr = 0, ur_rptr = 8, ur_msg = Some 0\<rparr>"
  have d: "of_le32 (d @ r) = 0" "of_le32 (drop 4 (d @ r)) = of_le32 (drop 4 d)" for r
  proof -
    obtain a0 a1 a2 a3 a4 a5 a6 a7 where "d = [a0, a1, a2, a3, a4, a5, a6, a7]"
      using assms(1) by (auto simp: length_Suc_conv numeral_eq_Suc)
    then show "of_le32 (d @ r) = 0" "of_le32 (drop 4 (d @ r)) = of_le32 (drop 4 d)" using assms(2) by simp_all
  qed
  have "uc_recv ?ur False (Rx_data d # evs) = Some (8, ?v, evs)"
  proof -
    have "take_complete_msg \<lparr>ur_buf = d @ replicate 92 (en_stack E), ur_mptr = 0, ur_rptr = 8, ur_msg = None\<rparr> = (0, ?v)"
      using d by (simp add: take_complete_msg_def uc_msg_def msg_len_def)
    moreover have "memcpy_at (replicate 100 (en_stack E)) 0 d = d @ replicate 92 (en_stack E)"
      using assms(1) by (simp add: memcpy_at_def)
    ultimately have "uc_recv_loop ?ur True 0 (Rx_data d # evs) = Some (8, ?v, evs)"
      using assms(1) by (subst uc_recv_loop.simps) (auto simp: Let_def)
    moreover have "take_complete_msg ?ur = (- EBADMSG, ?ur)" by (simp add: take_complete_msg_def uc_msg_def)
    ultimately show ?thesis by (simp add: uc_recv_def shift_buf_def)
  qed
  moreover
  have s: "stuck ?v"
    using d assms(1,3) by (simp add: stuck_def zero_length_next_def ur_ok_def ur_pending_def msg_len_def msg_cmd_def)
  then have "call_cmd E p (ur_buf ?v) 0 w = None" by (simp add: stuck_def call_cmd_None)
  from unknown_command [OF this] obtain u where "dispatch_cmd E p (ur_buf ?v) 0 w = Go (1, u)" by blast
  ultimately have "handle_conn_loop E p ?ur (Rx_data d # evs) w = handle_conn_loop E p ?v evs u"
    by (subst handle_conn_loop.simps) simp
  moreover have "handle_conn_loop E p ?v evs u = None" using stuck_loop s by (metis not_None_eq)
  ultimately show ?thesis by (simp add: handle_conn_def)
qed

theorem zero_length_hangs_witness: "handle_conn calm_env 0 [Rx_data [0, 0, 0, 0, 0, 0, 0, 0]] ready_state = None"
proof -
  have "\<not> known_code 0" by (simp add: known_code_def ctl_code_def)
  then show ?thesis using zero_length_hangs [of "[0, 0, 0, 0, 0, 0, 0, 0]" calm_env 0 "[]" ready_state] by simp
qed

end
