(* ===== verification/Service.thy ===== *)
theory Service imports Replies Control_Loop Requests begin

text \<open>
  Well-formed requests are always served (wsupp_cntrl.c): no command has an undefined operation or
  ends the program, each is answered, and the loop over a connection handles them one by one however
  the socket delivers them. What this takes is said here too: attributes that are what they claim to
  be, a configuration file that can be used, a packet socket and memory when they are asked for.
\<close>

section \<open>What the daemon relies on\<close>

abbreviation (input) always :: "('a \<Rightarrow> bool) \<Rightarrow> ('s, 'a) outcome \<Rightarrow> bool" where
  "always P r \<equiv> ends True P (\<lambda>s. False) r"

lemma always_Go: "always P r \<longleftrightarrow> (\<exists>x. r = Go x \<and> P x)"
  by (cases r) simp_all

lemma always_both: "ends False P Q r \<Longrightarrow> always P' r \<Longrightarrow> always (\<lambda>x. P x \<and> P' x) r"
  by (cases r) simp_all

text \<open>\<open>socket\<close> gives a packet socket when one is needed, \<open>malloc\<close> memory.\<close>

definition system_fine :: "env \<Rightarrow> bool" where
  "system_fine E \<longleftrightarrow> 0 \<le> en_rawsock E \<and> en_malloc_ok E"

text \<open>A request as a client writes it: a message of whole attributes.\<close>

definition request :: "u32 \<Rightarrow> uc_item list \<Rightarrow> bytes \<Rightarrow> bool" where
  "request cmd its msg \<longleftrightarrow> msg = uc_message cmd (enc_items its) \<and> (\<forall>it \<in> set its. small_item it) \<and> 8 + length (enc_items its) < 2 ^ 32"

lemma request_wf: "request cmd its msg \<Longrightarrow> wf_msg msg"
  by (auto simp: request_def wf_msg_def)

section \<open>Attributes of a request\<close>

lemma request_cmd:
  assumes "request cmd its msg" and "m = a @ msg @ r"
  shows "msg_cmd m (length a) = cmd"
  using assms by (simp add: request_def uc_message_def msg_cmd_def)

lemma request_attr:
  assumes "request cmd its msg" and "m = a @ msg @ r"
  shows "case find (\<lambda>it. item_key it = key) its of
      None \<Rightarrow> uc_get m (length a) key = None
    | Some it \<Rightarrow> \<exists>p. uc_get m (length a) key = Some p \<and> uc_paylen m p = int (length (item_bytes it)) \<and>
        payload_in m p (int (length (item_bytes it))) = (Go (item_bytes it) :: (wst, bytes) outcome)"
proof -
  have m: "m = a @ uc_message cmd (enc_items its) @ r" and small: "\<forall>it \<in> set its. small_item it"
    and n: "8 + length (enc_items its) < 2 ^ 32"
    using assms by (auto simp: request_def)
  have f: "item_found m key its (uc_get m (length a) key)" by (rule uc_get_items [OF m small n])
  have in_m: "uc_payload p \<le> length m" if "uc_get m (length a) key = Some p" for p
    using uc_get_inside [OF _ that] msg_len_uc_message [OF m n] m by (simp add: uc_payload_def uc_message_def)
  have pay: "payload_in m p (int (length pl)) = (Go pl :: (wst, bytes) outcome)"
    if "uc_payload p \<le> length m" "slice (uc_payload p) (length pl) m = pl" for p pl
  proof -
    have "length pl \<le> length m - uc_payload p" using arg_cong [OF that(2), of length] by simp
    with that show ?thesis by (simp add: payload_in_def)
  qed
  show ?thesis
    using f in_m pay by (fastforce simp: item_found_def split: option.splits)
qed

definition item_with :: "u16 \<Rightarrow> uc_item list \<Rightarrow> bytes option" where
  "item_with key its = map_option item_bytes (find (\<lambda>it. item_key it = key) its)"

text \<open>The two commands that look at attributes, on the attributes themselves.\<close>

lemma configure_request:
  assumes "request cmd its msg" and "m = a @ msg @ r"
  shows "configure_station E m (length a) w =
    (case item_with ATTR_SSID its of
       None \<Rightarrow> Go (0, reset_station w)
     | Some ssid \<Rightarrow>
         (case item_with ATTR_PSK its of
            None \<Rightarrow> set_fixed_saved E ssid (int (length ssid)) (reset_station w)
          | Some psk \<Rightarrow>
              if length psk = 32 then set_fixed_given ssid (int (length ssid)) psk (reset_station w)
              else Go (- EINVAL, reset_station w)))"
proof -
  note ssid = request_attr [OF assms, of ATTR_SSID] and psk = request_attr [OF assms, of ATTR_PSK]
  show ?thesis
  proof (cases "find (\<lambda>it. item_key it = ATTR_SSID) its")
    case None
    then show ?thesis using ssid by (simp add: configure_station_def item_with_def)
  next
    case (Some s)
    then obtain p where p: "uc_get m (length a) ATTR_SSID = Some p" "uc_paylen m p = int (length (item_bytes s))"
      "payload_in m p (int (length (item_bytes s))) = (Go (item_bytes s) :: (wst, bytes) outcome)"
      using ssid by auto
    show ?thesis
    proof (cases "find (\<lambda>it. item_key it = ATTR_PSK) its")
      case None
      then show ?thesis using psk p Some by (simp add: configure_station_def item_with_def Let_def)
    next
      case k: (Some k)
      then obtain q where q: "uc_get m (length a) ATTR_PSK = Some q" "uc_paylen m q = int (length (item_bytes k))"
        "payload_in m q (int (length (item_bytes k))) = (Go (item_bytes k) :: (wst, bytes) outcome)"
        using psk by auto
      then have "length (item_bytes k) = 32 \<Longrightarrow> payload_in m q 32 = (Go (item_bytes k) :: (wst, bytes) outcome)" by simp
      with p q(1,2) Some k show ?thesis by (simp add: configure_station_def item_with_def Let_def)
    qed
  qed
qed

lemma forget_request:
  assumes "request cmd its msg" and "m = a @ msg @ r"
  shows "cmd_forget E p m (length a) w =
    (case item_with ATTR_SSID its of
       None \<Rightarrow> Go (- EINVAL, w)
     | Some ssid \<Rightarrow>
         (let slen = int (length ssid) in
          case drop_psk (en_config E) ssid slen (w_config w) of
            None \<Rightarrow> Wild
          | Some (ret, c) \<Rightarrow>
              (let w = w\<lparr>w_config := c\<rparr> in
               if ret < 0 then Go (ret, w)
               else Go (0, each_scan (\<lambda>sc.
                 if int (unat (sc_slen sc)) \<noteq> slen then sc
                 else if memcmp (take (nat slen) (sc_ssid sc)) (take (nat slen) ssid) \<noteq> 0 then sc
                 else clear_flag SF_PASS sc) w))))"
  using request_attr [OF assms, of ATTR_SSID]
  by (cases "find (\<lambda>it. item_key it = ATTR_SSID) its")
     (auto simp: cmd_forget_def item_with_def Let_def simp del: int_nat_eq nat_int of_nat_eq_iff)

text \<open>Where in the receive buffer a request lies makes no difference.\<close>

lemma dispatch_anywhere:
  assumes "request cmd its msg" and "m = a @ msg @ r"
  shows "dispatch_cmd E p m (length a) w = dispatch_cmd E p msg 0 w"
proof -
  have 0: "msg = [] @ msg @ []" by simp
  have "configure_station E m (length a) v = configure_station E msg 0 v" for v
    using configure_request [OF assms] configure_request [OF assms(1) 0] by simp
  then have "cmd_connect E p m (length a) w = cmd_connect E p msg 0 w" by (simp only: cmd_connect_def)
  moreover have "cmd_forget E p m (length a) w = cmd_forget E p msg 0 w"
    using forget_request [OF assms] forget_request [OF assms(1) 0] by simp
  moreover have "msg_cmd m (length a) = msg_cmd msg 0"
    using request_cmd [OF assms] request_cmd [OF assms(1) 0] by simp
  ultimately show ?thesis by (simp only: dispatch_cmd_def call_cmd_def)
qed

section \<open>Nothing undefined, nothing that ends the program\<close>

lemma served_load_psk: "config_fine (en_config E) (w_config w) \<Longrightarrow>
    always (\<lambda>x. config_fine (en_config E) (w_config (snd x))) (load_psk_w E s n w)"
  using load_psk_fine [of "en_config E" "w_config w" s n "w_PSK w"] by (fastforce simp: load_psk_w_def)

lemma config_each_scan [simp]: "w_config (each_scan f w) = w_config w" "w_config (upd_scan p g w) = w_config w"
  by (simp_all add: each_scan_def upd_scan_def case_prod_beta)

lemma config_clear [simp]: "w_config (reset_station w) = w_config w" "w_config (clear_ap_bssid w) = w_config w"
  "w_config (clear_ap_ssid w) = w_config w" "w_config (reset_scan_counters w) = w_config w" "w_config (clr_timer w) = w_config w"
  by (simp_all add: reset_station_def clear_ap_bssid_def clear_ap_ssid_def reset_scan_counters_def clr_timer_def)

lemma served_set_fixed: "0 \<le> n \<Longrightarrow> config_fine e (w_config w) \<Longrightarrow>
    always (\<lambda>x. config_fine e (w_config (snd x))) (set_fixed s n w)"
  by (simp add: set_fixed_def Let_def)

lemma served_configure:
  assumes "request cmd its msg" and "config_fine (en_config E) (w_config w)"
  shows "always (\<lambda>x. config_fine (en_config E) (w_config (snd x))) (configure_station E msg 0 w)"
proof -
  let ?c = "\<lambda>x. config_fine (en_config E) (w_config (snd x))"
  have saved: "always ?c (set_fixed_saved E s (int n) v)" if "config_fine (en_config E) (w_config v)" for s n v
    unfolding set_fixed_saved_def case_prod_beta
    by (intro ends_chain [OF served_load_psk [OF that]]) (auto intro!: ends_chain [OF served_set_fixed])
  have given: "always ?c (set_fixed_given s (int n) psk v)" if "config_fine (en_config E) (w_config v)" for s n psk v
    unfolding set_fixed_given_def case_prod_beta
    by (intro ends_chain [OF served_set_fixed [OF _ that]]) simp_all
  show ?thesis
    using saved [of "reset_station w"] given [of "reset_station w"] assms(2) configure_request [OF assms(1), of msg "[]" "[]"]
    by (auto split: option.split)
qed

lemma served_start_disconnect:
  assumes "wst_ok w"
  shows "always (\<lambda>x. w_config (snd x) = w_config w) (start_disconnect E w)"
proof -
  obtain v where v: "trigger_disconnect E w = Go v"
    using send_goes [OF req_new_cmd [OF assms, of NL80211_CMD_DISCONNECT], of E AS_DISCONNECTING w] by (auto simp: trigger_disconnect_def)
  then have "rest v = rest w" using trigger_disconnect_rest by blast
  then have "w_config (rest v) = w_config (rest w)" by simp
  then show ?thesis using v by (auto simp: start_disconnect_def rest_def split: authstate.split)
qed

lemma served_start_connection:
  assumes "wst_ok w" and "system_fine E"
  shows "always (\<lambda>x. w_config (snd x) = w_config w) (start_connection E w)"
proof -
  have same: "w_config v = w_config w" if "start_connection E w = Go (r, v)" for r v
  proof -
    have "rest v = rest w" using that by (rule start_connection_rest)
    then have "w_config (rest v) = w_config (rest w)" by simp
    then show ?thesis by (simp add: rest_def)
  qed
  have raw: "always wst_ok (reopen_rawsock E w)"
    using assms by (simp add: reopen_rawsock_def open_rawsock_def system_fine_def)
  have auth: "always (\<lambda>v. True) (trigger_authentication E v)" if "wst_ok v" for v
    using authentication_goes [OF that, of E] by auto
  have "always (\<lambda>x. True) (chain (reopen_rawsock E w) (\<lambda>w. chain (trigger_authentication E w) (\<lambda>w. Go (0 :: int, w))))"
    by (rule ends_chain [OF raw], rule ends_chain [OF auth]) simp_all
  then have "always (\<lambda>x. True) (start_connection E w)" by (simp add: start_connection_def)
  then show ?thesis using same by (auto simp: always_Go)
qed

lemma served_reassess:
  assumes "wst_ok w" and "system_fine E" and "config_fine (en_config E) (w_config w)"
  shows "always (\<lambda>v. config_fine (en_config E) (w_config v)) (reassess_wifi_situation E w)"
proof -
  let ?I = "\<lambda>v. wst_ok v \<and> config_fine (en_config E) (w_config v)"
  have set: "always (\<lambda>x. config_fine (en_config E) (w_config (snd x))) (set_current_ap E p v)"
    if "config_fine (en_config E) (w_config v)" for p v
    using that by (auto simp: set_current_ap_def Let_def case_prod_beta intro!: ends_chain [OF served_load_psk])
  have conn: "always (\<lambda>x. ?I (snd x)) (connect_to_something E w)"
  proof (rule connect_to_something_inv)
    show "?I w" using assms by simp
    show "always (\<lambda>x. ?I (snd x)) (set_current_ap E p v)" if "?I v" "get_best_ap v = Some p" for p v
      using always_both [OF wf_set_current_ap set] that by (auto dest: get_best_apD)
    show "always (\<lambda>x. ?I (snd x)) (start_connection E v)" if "?I v" for v
      by (rule ends_mono [OF always_both [OF wf_start_connection [OF conjunct1 [OF that]]
              served_start_connection [OF conjunct1 [OF that] assms(2)]]]) (use that in auto)
    show "?I (upd_scan p (clear_flag SF_GOOD) v)" if "?I v" for p v
      using that by (simp add: wf_clear_good)
  qed
  have rep: "w_config (report_no_connect E v) = w_config v" for v
  proof -
    have "w_config (send_to_conns E b cns v) = w_config v" for b cns
      by (induction E b cns v rule: send_to_conns.induct) (simp_all add: emit_def)
    then show ?thesis by (simp add: report_no_connect_def report_simple_def send_report_def Let_def)
  qed
  show ?thesis
    using assms(3) unfolding reassess_wifi_situation_def
    by (auto simp: Let_def case_prod_beta rep snap_to_neutral_def idle_then_rescan_def set_timer_def intro!: ends_chain [OF conn])
qed

section \<open>The commands\<close>

lemma config_replies [simp]:
  "w_config (set_rep p r w) = w_config w" "w_config (snd (send_reply E p w)) = w_config w" "w_config (snd (reply E p err w)) = w_config w"
  by (simp_all add: set_rep_def reply_def send_reply_def start_reply_def emit_def Let_def)

text \<open>The state between two requests of connection \<open>p\<close>.\<close>

definition serving :: "env \<Rightarrow> nat \<Rightarrow> wst \<Rightarrow> bool" where
  "serving E p w \<longleftrightarrow> wst_ok w \<and> p < snd (w_conns w) \<and> config_fine (en_config E) (w_config w)"

lemma serving_parts: "serving E p w \<longleftrightarrow> conn_in_use p w \<and> config_fine (en_config E) (w_config w)"
  by (auto simp: serving_def conn_in_use_def)

lemma served_connect:
  assumes "serving E p w" and "system_fine E" and "request cmd its msg"
  shows "always (\<lambda>x. config_fine (en_config E) (w_config (snd x))) (cmd_connect E p msg 0 w)"
proof -
  have use: "conn_in_use p w" and c: "config_fine (en_config E) (w_config w)" using assms(1) by (simp_all add: serving_parts)
  have conf: "always (\<lambda>x. conn_in_use p (snd x) \<and> config_fine (en_config E) (w_config (snd x))) (configure_station E msg 0 w)"
    by (rule always_both [OF conn_configure [OF use] served_configure [OF assms(3) c]])
  have go: "always (\<lambda>x. config_fine (en_config E) (w_config (snd x)))
     (chain (reassess_wifi_situation E (clr_timer (snd (reply E p 0 (set_rep p 1 (v\<lparr>w_opermode := OP_ONESHOT\<rparr>))))))
       (\<lambda>u. Go (fst (reply E p 0 (set_rep p 1 (v\<lparr>w_opermode := OP_ONESHOT\<rparr>))), u)))"
    if v: "conn_in_use p v" "config_fine (en_config E) (w_config v)" for v
  proof (rule ends_chain [OF served_reassess [OF _ assms(2)]])
    show "wst_ok (clr_timer (snd (reply E p 0 (set_rep p 1 (v\<lparr>w_opermode := OP_ONESHOT\<rparr>)))))"
      using conn_reply(2) [OF conn_set_rep [of p "v\<lparr>w_opermode := OP_ONESHOT\<rparr>" p], where p = p] v(1) by (simp add: conn_in_use_def)
  qed (use v(2) in simp_all)
  show ?thesis
    using c unfolding cmd_connect_def Let_def case_prod_beta by (auto intro!: ends_chain [OF conf] go)
qed

lemma served_dispatch:
  assumes "serving E p w" and "system_fine E" and "request cmd its msg"
  shows "always (\<lambda>x. serving E p (snd x)) (dispatch_cmd E p msg 0 w)"
proof -
  have use: "conn_in_use p w" and ok: "wst_ok w" and c: "config_fine (en_config E) (w_config w)"
    using assms(1) by (auto simp: serving_parts conn_in_use_def)
  let ?c = "\<lambda>x. config_fine (en_config E) (w_config (snd x))"
  have info: "always ?c (cmd_status E p w)" "always ?c (cmd_device E p w)"
    using assms(2) c by (simp_all add: cmd_status_def cmd_device_def prep_heap_def system_fine_def case_prod_beta Let_def)
  have "w_config (snd (start_void_scan E w)) = w_config w"
  proof -
    have "w_config (snd (send_nl E v)) = w_config v" for v
      by (simp add: send_nl_def case_prod_beta emit_nl_def emit_def Let_def split: option.split)
    then show ?thesis by (simp add: start_void_scan_def start_scan_def send_scan_def Let_def case_prod_beta)
  qed
  then have scan: "always ?c (cmd_scan E p w)" using c by (simp add: cmd_scan_def case_prod_beta)
  have "wst_ok (w\<lparr>w_opermode := OP_NEUTRAL\<rparr>)" using ok by simp
  then have neutral: "always ?c (cmd_neutral E p w)"
    unfolding cmd_neutral_def by (rule ends_chain [OF served_start_disconnect]) (use c in \<open>simp add: case_prod_beta\<close>)
  have "always ?c (cmd_forget E p msg 0 w)"
  proof (cases "item_with ATTR_SSID its")
    case None
    then show ?thesis using forget_request [OF assms(3), of msg "[]" "[]"] c by simp
  next
    case (Some ssid)
    obtain r d where "drop_psk (en_config E) ssid (int (length ssid)) (w_config w) = Some (r, d)" "config_fine (en_config E) d"
      using drop_psk_fine [OF c] by metis
    then show ?thesis using forget_request [OF assms(3), of msg "[]" "[]"] Some by (simp add: Let_def)
  qed
  note cmds = info scan neutral this served_connect [OF assms]
  have "always ?c (dispatch_cmd E p msg 0 w)"
  proof (cases "call_cmd E p msg 0 w")
    case (Some r)
    then have "always ?c r" using cmds by (auto simp: call_cmd_def Let_def split: if_splits)
    then show ?thesis unfolding dispatch_cmd_def Some option.case by (rule ends_chain) (simp add: case_prod_beta)
  qed (use c in \<open>simp add: dispatch_cmd_def\<close>)
  from always_both [OF conn_dispatch_cmd [OF use, of p E msg 0] this] show ?thesis by (simp add: serving_parts)
qed








section \<open>One request after the other\<close>

text \<open>What the requests of a connection do, one by one, each as if it came alone.\<close>

fun serve :: "env \<Rightarrow> nat \<Rightarrow> bytes list \<Rightarrow> wst act" where
  "serve E p [] w = Go w"
| "serve E p (msg # msgs) w = chain (dispatch_cmd E p msg 0 w) (\<lambda>(ret, w). serve E p msgs w)"

lemma served_positive:
  assumes "dispatch_cmd E p msg 0 w = Go (ret, v)"
  shows "ret > 0"
proof (cases "call_cmd E p msg 0 w")
  case None
  then show ?thesis using assms by (simp add: dispatch_cmd_def reply_def send_reply_def Let_def)
next
  case (Some r)
  then obtain a b where "(if 0 < a then Go (a, b) else Go (reply E p a b)) = (Go (ret, v) :: (wst, int \<times> wst) outcome)"
    using assms by (auto simp: dispatch_cmd_def chain_Go)
  then show ?thesis by (auto simp: reply_def send_reply_def Let_def split: if_splits)
qed





section \<open>A request that is not there yet\<close>

text \<open>
  When the first bytes of a request come with the one before it and the others do not, the loop ends with
  EAGAIN, and the bytes go with its buffer: the connection stays open, but what comes next on it is
  read from the middle of a message.
\<close>

lemma recv_whole_and_part:
  fixes x :: byte
  assumes "wf_msg msg" and "length (msg @ part) \<le> n"
  defines "u \<equiv> \<lparr>ur_buf = (msg @ part) @ replicate (n - length (msg @ part)) x, ur_mptr = length msg,
      ur_rptr = length (msg @ part), ur_msg = Some 0\<rparr>"
  shows "\<exists>ret \<ge> 0. uc_recv \<lparr>ur_buf = replicate n x, ur_mptr = 0, ur_rptr = 0, ur_msg = None\<rparr> False [Rx_data (msg @ part)]
      = Some (ret, u, [])"
proof -
  let ?ur = "\<lparr>ur_buf = replicate n x, ur_mptr = 0, ur_rptr = 0, ur_msg = None\<rparr>"
  let ?got = "\<lparr>ur_buf = (msg @ part) @ replicate (n - length (msg @ part)) x, ur_mptr = 0, ur_rptr = length (msg @ part), ur_msg = None\<rparr>"
  have "8 \<le> length msg" using wf_msgD(1) [OF assms(1)] .
  then have n: "0 < n" "msg @ part \<noteq> []" using assms(2) by auto
  have ok: "ur_ok ?got" "ur_pending ?got = msg @ part" using assms(2) by (simp_all add: ur_ok_def ur_pending_def slice_def)
  have "take_complete_msg ?got = (int (length msg), u)"
    using take_complete_frame [OF ok(1) assms(1), of "[]" part] ok(2) by (simp add: u_def)
  moreover have "memcpy_at (replicate n x) 0 (msg @ part) = (msg @ part) @ replicate (n - length (msg @ part)) x"
    by (simp add: memcpy_at_def)
  ultimately have "uc_recv_loop ?ur True 0 [Rx_data (msg @ part)] = Some (int (length (msg @ part)), u, [])"
    using n assms(2) by (subst uc_recv_loop.simps) (simp add: Let_def)
  moreover have "take_complete_msg ?ur = (- EBADMSG, ?ur)" by (simp add: take_complete_msg_def uc_msg_def)
  ultimately show ?thesis by (simp add: uc_recv_def shift_buf_def)
qed

lemma nothing_there: "ur_rptr ur < length (ur_buf ur) \<Longrightarrow> uc_recv_loop ur True tot [] = Some (- EAGAIN, ur, [])"
  by (subst uc_recv_loop.simps) simp

lemma incomplete_request_lost:
  assumes "serving E p w" and "system_fine E" and "request cmd its msg" and "length (msg @ part) \<le> 100"
    and "wf_msg nxt" and "nxt = part @ s" and "s \<noteq> []"
  shows "\<exists>v. serve E p [msg] w = Go v \<and> handle_conn E p [Rx_data (msg @ part)] w = Some (Go v)"
proof -
  let ?u = "\<lparr>ur_buf = (msg @ part) @ replicate (100 - length (msg @ part)) (en_stack E), ur_mptr = length msg,
      ur_rptr = length (msg @ part), ur_msg = Some 0\<rparr>"
  have wf: "wf_msg msg" using request_wf [OF assms(3)] .
  obtain ret where u: "0 \<le> ret" "uc_recv \<lparr>ur_buf = replicate 100 (en_stack E), ur_mptr = 0, ur_rptr = 0, ur_msg = None\<rparr> False
      [Rx_data (msg @ part)] = Some (ret, ?u, [])"
    using recv_whole_and_part [OF wf assms(4), of "en_stack E"] by blast
  have disp: "dispatch_cmd E p (ur_buf ?u) 0 w = dispatch_cmd E p msg 0 w"
    using dispatch_anywhere [OF assms(3), of "ur_buf ?u" "[]" "part @ replicate (100 - length (msg @ part)) (en_stack E)"] by simp
  obtain r v where go: "dispatch_cmd E p msg 0 w = Go (r, v)"
    using served_dispatch [OF assms(1-3)] by (auto simp: always_Go)
  let ?v = "?u\<lparr>ur_msg := None\<rparr>"
  have ok: "ur_ok ?v" "ur_pending ?v = part" using assms(4) by (simp_all add: ur_ok_def ur_pending_def slice_def)
  have "take_complete_msg ?v = (- EBADMSG, ?v)"
    using take_complete_short [OF ok(1) assms(5), of s "[]"] ok(2) assms(6,7) by simp
  moreover have "length (ur_buf (shift_buf ?v)) - ur_rptr (shift_buf ?v) > 0"
    using assms(4) wf_msgD(1) [OF wf] by (simp add: shift_buf_def Let_def memmove_at_def length_memcpy_at)
  ultimately have "\<exists>u'. uc_recv ?u False [] = Some (- EAGAIN, u', [])"
    by (auto simp: uc_recv_def nothing_there Let_def)
  then obtain u' where "uc_recv ?u False [] = Some (- EAGAIN, u', [])" by blast
  then have "handle_conn_loop E p ?u [] v = Some (Go (- EAGAIN, v))"
    by (subst handle_conn_loop.simps) simp
  then have "handle_conn_loop E p \<lparr>ur_buf = replicate 100 (en_stack E), ur_mptr = 0, ur_rptr = 0, ur_msg = None\<rparr>
      [Rx_data (msg @ part)] w = Some (Go (- EAGAIN, v))"
    using u disp go served_positive [OF go] by (subst handle_conn_loop.simps) simp
  then show ?thesis using go by (simp add: handle_conn_def)
qed

end
