(* ===== verification/Client_Runs.thy ===== *)
theory Client_Runs imports Scan_List begin

text \<open>
  Whole runs of the front end against the supplicant's replies, however the socket cuts what is
  written and read.
\<close>

section \<open>Writing\<close>

text \<open>Every \<open>write\<close> takes something, and there are enough of them for \<open>n\<close> bytes.\<close>

definition patient :: "int list \<Rightarrow> nat \<Rightarrow> bool" where
  "patient ws n \<longleftrightarrow> (\<forall>w \<in> set ws. 0 < w) \<and> n \<le> length ws"

lemma writeall_all:
  "patient ws (n + length buf) \<Longrightarrow> buf \<noteq> [] \<or> 0 < wr \<Longrightarrow>
   \<exists>ret ws'. writeall ws buf wr = (ret, buf, ws') \<and> 0 < ret \<and> patient ws' n"
proof (induction ws arbitrary: buf wr)
  case Nil
  then show ?case by (subst writeall.simps) (auto simp: patient_def)
next
  case (Cons w ws)
  show ?case
  proof (cases "buf = []")
    case True
    with Cons.prems show ?thesis by (subst writeall.simps) (auto simp: patient_def)
  next
    case False
    have w: "0 < w" "patient ws (n + length (drop (nat w) buf))"
      using Cons.prems(1) False by (auto simp: patient_def) (cases buf; simp)+
    from Cons.IH [OF this(2), of w] w(1) obtain ret ws' where
      "writeall ws (drop (nat w) buf) w = (ret, drop (nat w) buf, ws')" "0 < ret" "patient ws' n" by auto
    with w(1) False show ?thesis by (subst writeall.simps) simp
  qed
qed

lemma send_command_all:
  assumes "tp_connected t" and "uc_holds (tp_uc t) msg" and "msg \<noteq> []" and "patient (tp_writes t) (n + length msg)"
  shows "\<exists>ws. send_command t = Some (Go (t\<lparr>tp_sent := tp_sent t @ msg, tp_writes := ws\<rparr>)) \<and> patient ws n"
proof -
  obtain ret ws where "writeall (tp_writes t) msg 0 = (ret, msg, ws)" "0 < ret" "patient ws n"
    using writeall_all [OF assms(4), of 0] assms(3) by blast
  moreover have "take (uc_ptr (tp_uc t)) (uc_buf (tp_uc t)) = msg" using assms(2) by (simp add: uc_holds_def)
  ultimately show ?thesis using assms(1) by (intro exI [of _ ws]) (simp add: send_command_def Let_def)
qed

section \<open>Reading\<close>

text \<open>What the client has still to read.\<close>

definition listening :: "top \<Rightarrow> bytes \<Rightarrow> bool" where
  "listening t s \<longleftrightarrow> ur_ok (tp_ur t) \<and> length (ur_buf (tp_ur t)) = 2048 \<and> all_data (tp_rx t) \<and>
     ur_pending (tp_ur t) @ rx_stream (tp_rx t) = s"

lemma listening_other [simp]:
  "listening (t\<lparr>tp_sent := x\<rparr>) = listening t" "listening (t\<lparr>tp_writes := ws\<rparr>) = listening t"
  "listening (t\<lparr>tp_uc := uc\<rparr>) = listening t" "listening (t\<lparr>tp_out := o'\<rparr>) = listening t"
  "listening (t\<lparr>tp_fd := fd\<rparr>) = listening t" "listening (t\<lparr>tp_connected := b\<rparr>) = listening t"
  "listening (t\<lparr>tp_showbss := b\<rparr>) = listening t"
  by (simp_all add: listening_def fun_eq_iff)

text \<open>The next message is read, with the rest of the stream left.\<close>

definition read_msg :: "top \<Rightarrow> bytes \<Rightarrow> nat \<Rightarrow> top \<Rightarrow> bool" where
  "read_msg t msg p u \<longleftrightarrow> (\<exists>ur evs. u = t\<lparr>tp_ur := ur, tp_rx := evs\<rparr>) \<and>
     slice p (length msg) (ur_buf (tp_ur u)) = msg"

lemma wf_uc_message: "8 + length pl < 2 ^ 32 \<Longrightarrow> wf_msg (uc_message cmd pl)"
  by (auto simp: wf_msg_def)

lemma recv_reply_message:
  assumes "listening t (uc_message cmd pl @ s)" and "8 + length pl \<le> 2048"
  shows "\<exists>p u. recv_reply t = Some (Go (Some p, u)) \<and> read_msg t (uc_message cmd pl) p u \<and> listening u s \<and>
    reply_cmd p u = sint cmd"
proof -
  let ?m = "uc_message cmd pl"
  obtain ret ur evs where r: "uc_recv (tp_ur t) True (tp_rx t) = Some (ret, ur, evs)" "0 \<le> ret"
    "received ur evs (length (ur_buf (tp_ur t))) ?m s"
    using uc_recv_frame [where blk = True, of "tp_ur t" ?m "tp_rx t" s] wf_uc_message [of pl cmd] assms
    by (auto simp: listening_def)
  then obtain p where p: "ur_msg ur = Some p" "slice p (length ?m) (ur_buf ur) = ?m"
    by (auto simp: received_def)
  let ?u = "t\<lparr>tp_ur := ur, tp_rx := evs\<rparr>"
  have "recv_reply t = Some (Go (Some p, ?u))" using r(1,2) p(1) by (simp add: recv_reply_def)
  moreover have "read_msg t ?m p ?u" unfolding read_msg_def using p(2) by auto
  moreover have "listening ?u s" using r(3) assms(1) by (simp add: listening_def received_def)
  moreover have "drop (p + 4) (ur_buf ur) = le32 cmd @ pl @ drop (p + length ?m) (ur_buf ur)"
  proof -
    have "?m \<noteq> []" by (simp add: uc_message_def le32_def)
    note sp = slice_split [OF p(2) this]
    have "drop (p + 4) (ur_buf ur) = drop 4 (drop p (ur_buf ur))" by (simp add: add.commute)
    also have "drop p (ur_buf ur) = ?m @ drop (p + length ?m) (ur_buf ur)"
      using sp by (metis append_eq_conv_conj)
    finally show ?thesis by (simp add: uc_message_def)
  qed
  then have "reply_cmd p ?u = sint cmd" by (simp add: reply_cmd_def msg_cmd_def)
  ultimately show ?thesis by blast
qed

text \<open>A message that does not fit.\<close>

lemma recv_reply_overfull:
  assumes "listening t (uc_message cmd pl @ s)" and "2048 < 8 + length pl" and "8 + length pl < 2 ^ 32"
  shows "\<exists>u. recv_reply t = Some (Go (None, u)) \<and> (\<exists>ur evs. u = t\<lparr>tp_ur := ur, tp_rx := evs\<rparr>)"
proof -
  have "length (ur_buf (tp_ur t)) < length (uc_message cmd pl)" using assms by (simp add: listening_def)
  then obtain ur evs where "uc_recv (tp_ur t) True (tp_rx t) = Some (- ENOBUFS, ur, evs)"
    using uc_recv_overfull [where blk = True, of "tp_ur t" "uc_message cmd pl" "tp_rx t" s] wf_uc_message [OF assms(3)] assms(1)
    by (auto simp: listening_def)
  then show ?thesis by (intro exI [of _ "t\<lparr>tp_ur := ur, tp_rx := evs\<rparr>"]) (auto simp: recv_reply_def)
qed

section \<open>One request\<close>

text \<open>The socket can be reached; \<open>t\<close> is connected and its request buffer sound.\<close>

definition reachable :: "client_env \<Rightarrow> bool" where
  "reachable E \<longleftrightarrow> 0 \<le> ce_socket E \<and> ce_connect E = 0"

definition ready_to_send :: "top \<Rightarrow> bool" where
  "ready_to_send t \<longleftrightarrow> length (uc_buf (tp_uc t)) = 2048 \<and> \<not> uc_over (tp_uc t)"

lemma connctl_ok:
  "reachable E \<Longrightarrow> connctl E miss t = Some (Go (0, t\<lparr>tp_fd := ce_socket E, tp_connected := True\<rparr>))"
  by (simp add: connctl_def reachable_def)

lemma put_bare_holds:
  assumes "ready_to_send t"
  shows "uc_holds (tp_uc (put_bare cmd t)) (uc_message cmd [])"
  using put_message_holds [of "tp_uc t" "[]" cmd] assms
  by (simp add: put_bare_def in_uc_def put_message_def ready_to_send_def)

lemma uc_message_nonempty [simp]: "uc_message cmd pl \<noteq> []"
  by (simp add: uc_message_def le32_def)

text \<open>A request is written whole and the reply read: \<open>req\<close> is what the buffer holds.\<close>

lemma send_recv_msg_reply:
  assumes "tp_connected t" and "uc_holds (tp_uc t) (uc_message rcmd rpl)" and "patient (tp_writes t) (n + 8 + length rpl)"
    and "listening t (uc_message cmd pl @ s)" and "8 + length pl \<le> 2048" and "sint cmd \<le> 0"
  shows "\<exists>p u ws ur evs. send_recv_msg t = Some (Go (p, u)) \<and>
    u = t\<lparr>tp_sent := tp_sent t @ uc_message rcmd rpl, tp_writes := ws, tp_ur := ur, tp_rx := evs\<rparr> \<and>
    patient ws n \<and> listening u s \<and> reply_cmd p u = sint cmd \<and>
    slice p (8 + length pl) (ur_buf ur) = uc_message cmd pl"
proof -
  have "patient (tp_writes t) (n + length (uc_message rcmd rpl))" using assms(3) by (simp add: add.assoc)
  then obtain ws where ws: "send_command t = Some (Go (t\<lparr>tp_sent := tp_sent t @ uc_message rcmd rpl, tp_writes := ws\<rparr>))"
    "patient ws n"
    using send_command_all [OF assms(1,2)] by auto
  define v where "v = t\<lparr>tp_sent := tp_sent t @ uc_message rcmd rpl, tp_writes := ws\<rparr>"
  have "listening v (uc_message cmd pl @ s)" using assms(4) by (simp add: v_def)
  then obtain p u where u: "recv_reply v = Some (Go (Some p, u))" "read_msg v (uc_message cmd pl) p u" "listening u s"
    "reply_cmd p u = sint cmd"
    using recv_reply_message assms(5) by blast
  then have "await_reply v = Some (Go (p, u))" using assms(6) by (subst await_reply.simps) simp
  moreover obtain ur evs where "u = v\<lparr>tp_ur := ur, tp_rx := evs\<rparr>" "slice p (8 + length pl) (ur_buf ur) = uc_message cmd pl"
    using u(2) by (auto simp: read_msg_def)
  ultimately show ?thesis using ws u(3,4)
    by (intro exI [of _ p] exI [of _ u] exI [of _ ws] exI [of _ ur] exI [of _ evs])
       (simp add: send_recv_msg_def pass_def v_def)
qed

section \<open>The status command\<close>

text \<open>The last line: state and station.\<close>

definition link_line :: "wst \<Rightarrow> bytes" where
  "link_line w =
     (case map_of wistates (sint (common_wifi_state w)) of None \<Rightarrow> ascii ''??'' | Some name \<Rightarrow> name) @ ascii '' AP '' @
     (if w_authstate w \<noteq> AS_IDLE \<or> ap_fixed (w_ap w) then ssid_text (ap_name (w_ap w)) else []) @
     (if w_authstate w \<noteq> AS_IDLE then freq_text (sint (ap_freq (w_ap w))) else []) @ newline"

lemma status_found:
  assumes "wst_ok w" and "m = a @ status_message w @ r"
  shows "item_found m key (status_items w) (uc_get m (length a) key)"
  using uc_get_items [OF _ status_items_small [OF assms(1)], of m a 0 r key] assms(2) by (simp add: status_message_def)

lemma get_found_int:
  assumes "item_found m key its (uc_get m msg key)" and "find (\<lambda>it. item_key it = key) its = Some (Bin key (le32 v))"
  shows "get_int m msg key = sint v"
  using assms by (auto simp: item_found_def get_int_def uc_get_int_def uc_is_int_def uc_is_bin_def deref_le32)

lemma get_missing_int:
  assumes "item_found m key its (uc_get m msg key)" and "find (\<lambda>it. item_key it = key) its = None"
  shows "get_int m msg key = 0"
  using assms by (auto simp: item_found_def get_int_def uc_get_int_def uc_is_int_def uc_is_bin_def)

lemma get_found_ssid:
  assumes "item_found m key its (uc_get m msg key)"
  shows "print_ssid m (uc_get m msg key) =
    (case find (\<lambda>it. item_key it = key) its of None \<Rightarrow> [] | Some it \<Rightarrow> ssid_text (item_bytes it))"
  using assms by (auto simp: item_found_def print_ssid_def split: option.splits)

lemma find_append: "find P (xs @ ys) = (case find P xs of None \<Rightarrow> find P ys | Some x \<Rightarrow> Some x)"
  by (induction xs) auto

lemma find_scan_items: "k \<noteq> ATTR_SCAN \<Longrightarrow> find (\<lambda>it. item_key it = k) (map scan_item scs) = None"
  by (induction scs) (simp_all add: scan_item_def)

lemma print_status_line:
  assumes "wst_ok w" and "m = a @ status_message w @ r"
  shows "print_status False m (length a) = link_line w"
proof -
  note f = status_found [OF assms]
  have find: "find (\<lambda>it. item_key it = k) (status_items w) = find (\<lambda>it. item_key it = k) (link_items w)"
    if "k \<noteq> ATTR_SCAN" for k
    using find_scan_items [OF that] by (simp add: status_items_def find_append split: option.splits)
  have state: "get_int m (length a) ATTR_STATE = sint (common_wifi_state w)"
    by (rule get_found_int [OF f]) (simp add: find, simp add: link_items_def)
  have freq: "get_int m (length a) ATTR_FREQ = (if w_authstate w \<noteq> AS_IDLE then sint (ap_freq (w_ap w)) else 0)"
  proof (cases "w_authstate w = AS_IDLE")
    case True
    then have "get_int m (length a) ATTR_FREQ = 0"
      by (intro get_missing_int [OF f]) (simp add: find, simp add: link_items_def)
    with True show ?thesis by simp
  next
    case False
    then have "get_int m (length a) ATTR_FREQ = sint (int_of_short (ap_freq (w_ap w)))"
      by (intro get_found_int [OF f]) (simp add: find, simp add: link_items_def)
    with False show ?thesis by (simp add: sint_of_short)
  qed
  have ssid: "print_ssid m (uc_get m (length a) ATTR_SSID) =
      (if w_authstate w \<noteq> AS_IDLE \<or> ap_fixed (w_ap w) then ssid_text (ap_name (w_ap w)) else [])"
    by (subst get_found_ssid [OF f]) (simp add: find, simp add: link_items_def)
  show ?thesis
    by (simp add: print_status_def print_station_def link_line_def Let_def state freq ssid)
       (simp add: freq_text_def split: prod.split)
qed

text \<open>The context \<open>main\<close> starts from.\<close>

definition first_top :: "client_env \<Rightarrow> bytes list \<Rightarrow> rx_event list \<Rightarrow> int list \<Rightarrow> top" where
  "first_top E argv evs ws = init_heap_bufs E (init_args argv (zero_top evs ws))"

lemma first_top_facts:
  "tp_argi (first_top E argv evs ws) = 1" "tp_argv (first_top E argv evs ws) = argv" "tp_opts (first_top E argv evs ws) = 0"
  "tp_sent (first_top E argv evs ws) = []" "tp_out (first_top E argv evs ws) = []" "\<not> tp_showbss (first_top E argv evs ws)"
  "tp_writes (first_top E argv evs ws) = ws" "ready_to_send (first_top E argv evs ws)"
  by (simp_all add: first_top_def init_heap_bufs_def init_args_def zero_top_def ready_to_send_def Let_def)

lemma first_top_listens: "all_data evs \<Longrightarrow> listening (first_top E argv evs ws) (rx_stream evs)"
  by (simp add: first_top_def init_heap_bufs_def init_args_def zero_top_def listening_def ur_ok_def ur_pending_def Let_def)

lemma in_uc_other [simp]:
  "tp_argi (in_uc f t) = tp_argi t" "tp_argv (in_uc f t) = tp_argv t" "tp_opts (in_uc f t) = tp_opts t"
  "tp_sent (in_uc f t) = tp_sent t" "tp_out (in_uc f t) = tp_out t" "tp_showbss (in_uc f t) = tp_showbss t"
  "tp_writes (in_uc f t) = tp_writes t" "tp_rx (in_uc f t) = tp_rx t" "tp_ur (in_uc f t) = tp_ur t"
  "listening (in_uc f t) = listening t" "tp_uc (in_uc f t) = f (tp_uc t)"
  by (simp_all add: in_uc_def)

text \<open>The request up to the reply: \<open>t\<close> is the connected context.\<close>

lemma wifi_status_connected:
  assumes "reachable E" and "tp_argi t = length (tp_argv t)" and "tp_opts t = 0"
  shows "wifi_status E t = pass (send_recv_msg ((put_bare CMD_WI_STATUS t)\<lparr>tp_fd := ce_socket E, tp_connected := True\<rparr>))
    (\<lambda>(msg, t). Some (Go (say (dump_status (ce_qsort E) (tp_showbss t) (ur_buf (tp_ur t)) msg) t)))"
  using assms
  by (simp add: wifi_status_def no_other_options_def put_bare_def pass_def connect_wictl_check_def
      connect_wictl_miss_def connctl_ok)

text \<open>
  C19. The whole of the command \<open>wifi\<close> without arguments, against the reply of a supplicant in any
  well-formed state and however the socket cuts the data: it sends the status request and prints one
  line for every access point, sorted, then the state of the link. A reply of more than 2048 bytes does
  not fit its buffer: then it prints nothing and complains of a lost connection.
\<close>

theorem status_run:
  assumes "wst_ok w" and "qsort_ok (ce_qsort E)" and "reachable E" and "patient ws 8"
    and "all_data evs" and "rx_stream evs = status_message w @ rst"
  shows "if length (status_message w) \<le> 2048
    then \<exists>t aps. wifi E [name] evs ws = Some (Go t) \<and> tp_sent t = uc_message CMD_WI_STATUS [] \<and>
      mset aps = mset (known_aps w) \<and> sorted_wrt listed_before aps \<and>
      tp_out t = concat (map (ap_line False) aps) @ (if aps = [] then [] else newline) @ link_line w
    else \<exists>t. wifi E [name] evs ws = Some (Quit (Connection_lost, t)) \<and> tp_out t = []"
proof -
  let ?t = "first_top E [name] evs ws" and ?its = "enc_items (status_items w)"
  define t where "t = (put_bare CMD_WI_STATUS ?t)\<lparr>tp_fd := ce_socket E, tp_connected := True\<rparr>"
  have run: "wifi E [name] evs ws = pass (send_recv_msg t)
      (\<lambda>(msg, t). Some (Go (say (dump_status (ce_qsort E) (tp_showbss t) (ur_buf (tp_ur t)) msg) t)))"
    using wifi_status_connected [OF assms(3), of ?t] first_top_facts [of E "[name]" evs ws]
    by (simp add: wifi_def first_top_def [symmetric] shift_arg_def t_def)
  have t: "tp_connected t" "uc_holds (tp_uc t) (uc_message CMD_WI_STATUS [])" "tp_writes t = ws"
    "tp_sent t = []" "tp_out t = []" "\<not> tp_showbss t"
    using put_bare_holds [OF first_top_facts(8), of CMD_WI_STATUS E "[name]" evs ws] first_top_facts [of E "[name]" evs ws]
    by (simp_all add: t_def put_bare_def)
  have l: "listening t (uc_message 0 ?its @ rst)"
    using first_top_listens [OF assms(5), of E "[name]" ws] assms(6)
    by (simp add: t_def put_bare_def status_message_def)
  show ?thesis
  proof (cases "8 + length ?its \<le> 2048")
    case True
    obtain p u ur evs' ws' where u: "send_recv_msg t = Some (Go (p, u))"
      "u = t\<lparr>tp_sent := tp_sent t @ uc_message CMD_WI_STATUS [], tp_writes := ws', tp_ur := ur, tp_rx := evs'\<rparr>"
      "slice p (8 + length ?its) (ur_buf ur) = status_message w"
      using send_recv_msg_reply [OF t(1,2) _ l True, of 0] assms(4) t(3) unfolding status_message_def by auto
    let ?m = "ur_buf ur" and ?b = "length (status_message w)"
    have "slice p ?b ?m = status_message w" using u(3) by (simp add: status_message_def)
    moreover have "status_message w \<noteq> []" by (simp add: status_message_def)
    ultimately have m: "?m = take p ?m @ status_message w @ drop (p + ?b) ?m" "length (take p ?m) = p"
      by (rule slice_split)+
    obtain aps where aps: "mset aps = mset (known_aps w)" "sorted_wrt listed_before aps"
      "dump_scanlist (ce_qsort E) False ?m p = concat (map (ap_line False) aps)"
      "prep_list (ce_qsort E) ?m p ATTR_SCAN (scan_ord ?m) = [] \<longleftrightarrow> aps = []"
      using scan_list_lines [OF assms(1) m(1) assms(2), of False] unfolding m(2) by auto
    define out where "out = concat (map (ap_line False) aps) @ (if aps = [] then [] else newline) @ link_line w"
    have "dump_status (ce_qsort E) False ?m p = out"
      using aps(3,4) print_status_line [OF assms(1) m(1)] unfolding m(2) out_def
      by (simp add: dump_status_def dump_scanlist_def print_scan_results_def Let_def)
    then have "wifi E [name] evs ws = Some (Go (say out u))"
      using u(1,2) t(6) by (simp add: run pass_def)
    moreover have "tp_sent (say out u) = uc_message CMD_WI_STATUS []" "tp_out (say out u) = out"
      using t(4,5) u(2) by (simp_all add: say_def)
    moreover have len: "length (status_message w) \<le> 2048" using True by (simp add: status_message_def)
    ultimately show ?thesis using aps(1,2) unfolding if_P [OF len] out_def by blast
  next
    case False
    obtain ws' where ws: "send_command t = Some (Go (t\<lparr>tp_sent := tp_sent t @ uc_message CMD_WI_STATUS [], tp_writes := ws'\<rparr>))"
      using send_command_all [OF t(1,2), of 0] assms(4) t(3) by auto
    define v where "v = t\<lparr>tp_sent := tp_sent t @ uc_message CMD_WI_STATUS [], tp_writes := ws'\<rparr>"
    have "listening v (uc_message 0 ?its @ rst)" using l by (simp add: v_def)
    then obtain u where u: "recv_reply v = Some (Go (None, u))" "\<exists>ur evs. u = v\<lparr>tp_ur := ur, tp_rx := evs\<rparr>"
      using recv_reply_overfull [of v 0 ?its rst] False status_items_small(2) [OF assms(1)] by auto
    have "await_reply v = Some (Quit (Connection_lost, u))" using u(1) by (subst await_reply.simps) simp
    then have "wifi E [name] evs ws = Some (Quit (Connection_lost, u))"
      using ws by (simp add: run send_recv_msg_def pass_def v_def)
    moreover have "tp_out u = []" using u(2) t(5) by (auto simp: v_def)
    ultimately show ?thesis using False by (auto simp: status_message_def)
  qed
qed

text \<open>A front end on which everything works, and a table with thirty access points of long names.\<close>

definition calm_client :: client_env where
  "calm_client = \<lparr>ce_socket = 3, ce_connect = 0, ce_stdin = Some (ascii ''my secret phrase'' @ newline),
     ce_qsort = insertion_sort, ce_heap = 0\<rparr>"

definition crowd_ap :: "nat \<Rightarrow> scan" where
  "crowd_ap i = far_ap\<lparr>sc_bssid := [2, 0, 0, 0, 1, word_of_nat i], sc_slen := 32, sc_ssid := replicate 32 0x61\<rparr>"

definition crowded :: wst where
  "crowded = ready_state\<lparr>w_scans := (map crowd_ap [0..<30], 30)\<rparr>"

lemma crowded_ok: "wst_ok crowded"
proof -
  let ?t = "map crowd_ap [0..<30]"
  have "sc_bssid (crowd_ap i) = sc_bssid (crowd_ap j) \<Longrightarrow> i < 30 \<Longrightarrow> j < 30 \<Longrightarrow> i = j" for i j
    by (simp add: crowd_ap_def word_of_nat_eq_iff take_bit_eq_mod)
  moreover have "wf_scan (crowd_ap i)" "short_ssid (crowd_ap i)" for i
    by (simp_all add: crowd_ap_def wf_scan_def short_ssid_def)
  moreover have "slots_ok scan_bytes NSCANS (?t, 30)" by (simp add: slots_ok_def)
  ultimately have "table_ok (?t, 30)" by (auto simp: table_ok_def scans_ok_def)
  then show ?thesis unfolding crowded_def by (rule wf_scans [OF ready_state_ok])
qed

lemma crowded_length: "2048 < length (status_message crowded)"
proof -
  have nz: "sc_freq (crowd_ap i) \<noteq> 0" for i by (simp add: crowd_ap_def far_ap_def)
  then have known: "known_aps crowded = map crowd_ap [0..<30]" by (simp add: known_aps_def crowded_def)
  have "length (enc_item (scan_item (crowd_ap i))) = 80" for i
  proof -
    have "favoured (crowd_ap i)" "sc_name (crowd_ap i) = replicate 32 0x61"
      by (simp_all add: favoured_def crowd_ap_def far_ap_def has_def sc_name_def)
    moreover have "length (sc_bssid (crowd_ap i)) = 6" by (simp add: crowd_ap_def)
    moreover have "align4 4 = 4" "align4 6 = 8" "align4 32 = 32" "align4 76 = 76" by (simp_all add: align4_def)
    ultimately show ?thesis by (simp add: scan_item_def scan_parts_def length_uc_attr align4_small)
  qed
  then have "length (enc_items (map scan_item (known_aps crowded))) = 30 * 80"
    unfolding known enc_items_def by (simp add: length_concat comp_def sum_list_triv)
  then show ?thesis by (simp add: status_message_def status_items_def)
qed

theorem status_run_witness:
  "(\<exists>t. wifi calm_client [ascii ''wifi''] [Rx_data (status_message two_aps)] (replicate 8 1) = Some (Go t) \<and>
      tp_out t = ap_line False near_ap @ ap_line False far_ap @ newline @ link_line two_aps) \<and>
   (\<exists>t. wifi calm_client [ascii ''wifi''] [Rx_data (status_message crowded)] [8, 8, 8, 8, 8, 8, 8, 8] = Some (Quit (Connection_lost, t)))"
proof
  have calm: "qsort_ok (ce_qsort calm_client)" "reachable calm_client" "patient (replicate 8 1) 8" "patient [8, 8, 8, 8, 8, 8, 8, 8] 8"
    using insertion_sort_ok by (simp_all add: calm_client_def reachable_def patient_def)
  have data: "all_data [Rx_data (status_message v)]" "rx_stream [Rx_data (status_message v)] = status_message v @ []" for v
    by (simp_all add: all_data_def rx_stream_def status_message_def)
  have known: "known_aps two_aps = [far_ap, near_ap]"
    by (simp add: known_aps_def two_aps_def far_ap_def near_ap_def)
  have "snd (w_scans two_aps) = 2" by (simp add: two_aps_def)
  then have len: "length (status_message two_aps) \<le> 2048"
    using length_status_items [OF two_aps_ok] by (simp add: status_message_def)
  obtain t aps where t: "wifi calm_client [ascii ''wifi''] [Rx_data (status_message two_aps)] (replicate 8 1) = Some (Go t)"
    "mset aps = mset [far_ap, near_ap]" "sorted_wrt listed_before aps"
    "tp_out t = concat (map (ap_line False) aps) @ (if aps = [] then [] else newline) @ link_line two_aps"
    using status_run [OF two_aps_ok calm(1,2,3) data, of "ascii ''wifi''"] unfolding if_P [OF len] known by blast
  have "\<not> listed_before far_ap near_ap"
    by (simp add: listed_before_def far_ap_def near_ap_def)
  then have "aps = [near_ap, far_ap]" using mset_two [OF t(2)] t(3) by auto
  with t(1,4) show "\<exists>t. wifi calm_client [ascii ''wifi''] [Rx_data (status_message two_aps)] (replicate 8 1) = Some (Go t) \<and>
      tp_out t = ap_line False near_ap @ ap_line False far_ap @ newline @ link_line two_aps" by auto
  have "\<not> length (status_message crowded) \<le> 2048" using crowded_length by simp
  from status_run [OF crowded_ok calm(1,2,4) data, of "ascii ''wifi''", unfolded if_not_P [OF this]]
  show "\<exists>t. wifi calm_client [ascii ''wifi''] [Rx_data (status_message crowded)] [8, 8, 8, 8, 8, 8, 8, 8] = Some (Quit (Connection_lost, t))"
    by blast
qed

end
