(* ===== verification/Client_Join.thy ===== *)
theory Client_Join imports Client_Runs begin

text \<open>
  Joining a network by name and passphrase, from the command line to the supplicant: the front end asks
  without a key, is refused, reads the passphrase, sends the derived key, and the supplicant takes
  the station and the key from that request.
\<close>

section \<open>The two requests\<close>

definition connect_request :: "bytes \<Rightarrow> bytes" where
  "connect_request ssid = uc_message CMD_WI_CONNECT (enc_items [Bin ATTR_SSID ssid])"

definition keyed_request :: "bytes \<Rightarrow> bytes \<Rightarrow> bytes" where
  "keyed_request ssid psk = uc_message CMD_WI_CONNECT (enc_items [Bin ATTR_SSID ssid, Bin ATTR_PSK psk])"

definition join_key :: "bytes \<Rightarrow> bytes \<Rightarrow> bytes" where
  "join_key phrase ssid = pbkdf2_spec 32 phrase ssid 4096"

lemma length_join_key: "length phrase \<le> 64 \<Longrightarrow> length (join_key phrase ssid) = 32"
proof -
  assume "length phrase \<le> 64"
  from pbkdf2_is_spec [OF this, of 4096 32 "replicate 32 0" ssid]
  show ?thesis
    by (simp add: join_key_def pbkdf2_spec_def length_concat comp_def sum_list_triv)
qed

lemma put_psk_key:
  assumes "length phrase \<le> 64"
  shows "put_psk ssid phrase t = in_uc (\<lambda>uc. uc_put_bin uc ATTR_PSK (join_key phrase ssid)) t"
proof -
  have "memzero (replicate 32 0) 0 32 = replicate 32 0"
    by (simp add: memzero_replicate memcpy_at_def)
  moreover have "pbkdf2_sha1 (replicate 32 0) 32 phrase ssid 4096 = join_key phrase ssid"
    using pbkdf2_is_spec [OF assms, of 4096 32 "replicate 32 0" ssid] by (simp add: join_key_def)
  ultimately show ?thesis by (simp add: put_psk_def Let_def)
qed

lemma passphrase_read:
  assumes "ce_stdin E = Some (phrase @ newline)" and "phrase \<noteq> []" and "length phrase \<le> 64"
  shows "put_psk_input E ssid t = Some (Go (put_psk ssid phrase (say (ascii ''Passphrase: '') t)))"
  using assms
  by (simp add: put_psk_input_def input_passphrase_def pass_def newline_def Let_def nth_append)

text \<open>The supplicant's side.\<close>

lemma request_payload:
  assumes "item_found m key its (uc_get m msg key)" and "find (\<lambda>it. item_key it = key) its = Some (Bin key pl)"
  shows "\<exists>p. uc_get m msg key = Some p \<and> uc_paylen m p = int (length pl) \<and> slice (uc_payload p) (length pl) m = pl"
  using assms by (auto simp: item_found_def)

lemma payload_in_slice: "slice (uc_payload p) n m = pl \<Longrightarrow> length pl = n \<Longrightarrow> n \<noteq> 0 \<Longrightarrow> payload_in m p (int n) = Go pl"
  by (auto simp: payload_in_def min_def split: if_splits)

lemma keyed_request_configures:
  assumes "m = a @ keyed_request ssid psk @ r" and "length ssid \<le> 32" and "ssid \<noteq> []" and "length psk = 32"
  shows "configure_station E m (length a) w = set_fixed_given ssid (int (length ssid)) psk (reset_station w)"
proof -
  let ?its = "[Bin ATTR_SSID ssid, Bin ATTR_PSK psk]"
  have "align4 (length ssid) \<le> 32" using align4_upto [of _ 32] assms(2) by simp
  then have "8 + length (enc_items ?its) < 2 ^ 32" "\<forall>x \<in> set ?its. small_item x"
    using assms(2,4) by (simp_all add: length_uc_attr small_item_def align4_def [of 32])
  then have f: "item_found m key ?its (uc_get m (length a) key)" for key
    using uc_get_items assms(1) unfolding keyed_request_def by blast
  obtain p where p: "uc_get m (length a) ATTR_SSID = Some p" "uc_paylen m p = int (length ssid)"
    "slice (uc_payload p) (length ssid) m = ssid"
    using request_payload [OF f, of ATTR_SSID ssid] by auto
  obtain q where q: "uc_get m (length a) ATTR_PSK = Some q" "uc_paylen m q = 32" "slice (uc_payload q) 32 m = psk"
    using request_payload [OF f, of ATTR_PSK psk] assms(4) by auto
  have "payload_in m p (int (length ssid)) = (Go ssid :: (wst, bytes) outcome)" "payload_in m q 32 = (Go psk :: (wst, bytes) outcome)"
    using payload_in_slice [OF p(3) refl] payload_in_slice [OF q(3)] assms(3,4) by auto
  with p q show ?thesis by (simp add: configure_station_def Let_def)
qed

section \<open>The run\<close>

lemma put_message_ready:
  assumes "ready_to_send t" and "8 + length (enc_items its) \<le> 2048"
  shows "ready_to_send (t\<lparr>tp_uc := put_message (tp_uc t) cmd its\<rparr>)"
    "uc_holds (put_message (tp_uc t) cmd its) (uc_message cmd (enc_items its))"
  using put_message_holds [of "tp_uc t" its cmd] put_message_in_bounds [of "tp_uc t" cmd its] assms
  by (simp_all add: ready_to_send_def uc_holds_def)

lemma dispatch_ap: "dispatch E (ascii ''ap'') t = wifi_fixedap E t"
  by (simp add: dispatch_def commands_def strncmp_eq_def ascii_def)

lemma ready_other [simp]:
  "ready_to_send (t\<lparr>tp_sent := x\<rparr>) = ready_to_send t" "ready_to_send (t\<lparr>tp_writes := ws\<rparr>) = ready_to_send t"
  "ready_to_send (t\<lparr>tp_ur := ur\<rparr>) = ready_to_send t" "ready_to_send (t\<lparr>tp_rx := evs\<rparr>) = ready_to_send t"
  "ready_to_send (t\<lparr>tp_fd := fd\<rparr>) = ready_to_send t" "ready_to_send (t\<lparr>tp_connected := b\<rparr>) = ready_to_send t"
  "ready_to_send (t\<lparr>tp_argi := n\<rparr>) = ready_to_send t" "ready_to_send (t\<lparr>tp_out := o'\<rparr>) = ready_to_send t"
  by (simp_all add: ready_to_send_def)

text \<open>A request with attributes \<open>its\<close> sent on an open connection, and the code of the reply.\<close>

lemma request_reply:
  assumes "tp_connected t" and "ready_to_send t" and "8 + length (enc_items its) \<le> n" and "n \<le> 2048"
    and "patient (tp_writes t) (k + n)" and "listening t (uc_message code [] @ s)" and "sint code \<le> 0"
  shows "\<exists>u. send_recv_cmd (t\<lparr>tp_uc := put_message (tp_uc t) cmd its\<rparr>) = Some (Go (sint code, u)) \<and>
    tp_connected u \<and> ready_to_send u \<and> patient (tp_writes u) k \<and> listening u s \<and>
    tp_sent u = tp_sent t @ uc_message cmd (enc_items its)"
proof -
  let ?t = "t\<lparr>tp_uc := put_message (tp_uc t) cmd its\<rparr>" and ?l = "length (enc_items its)"
  have ready: "ready_to_send ?t" "uc_holds (tp_uc ?t) (uc_message cmd (enc_items its))"
    using put_message_ready [OF assms(2), of its cmd] assms(3,4) by simp_all
  have "patient (tp_writes ?t) (k + 8 + ?l)" using assms(3,5) by (simp add: patient_def)
  moreover have "listening ?t (uc_message code [] @ s)" using assms(6) by simp
  ultimately obtain p u ws ur evs where u: "send_recv_msg ?t = Some (Go (p, u))"
    "u = ?t\<lparr>tp_sent := tp_sent ?t @ uc_message cmd (enc_items its), tp_writes := ws, tp_ur := ur, tp_rx := evs\<rparr>"
    "patient ws k" "listening u s" "reply_cmd p u = sint code"
    using send_recv_msg_reply [of ?t cmd "enc_items its" k code "[]" s] assms(1,7) ready(2) by auto
  then have "send_recv_cmd ?t = Some (Go (sint code, u))" by (simp add: send_recv_cmd_def pass_def)
  moreover have "ready_to_send u" using ready(1) u(2) by (simp add: ready_to_send_def)
  ultimately show ?thesis using u assms(1) by (intro exI [of _ u]) simp
qed

lemma wait_connected:
  assumes "listening t (uc_message REP_WI_CONNECTED pl @ s)" and "8 + length pl \<le> 2048"
  shows "\<exists>u. wait_for_connect t = Some (Go u) \<and> tp_sent u = tp_sent t"
proof -
  obtain p u where u: "recv_reply t = Some (Go (Some p, u))" "read_msg t (uc_message REP_WI_CONNECTED pl) p u"
    "reply_cmd p u = sint REP_WI_CONNECTED"
    using recv_reply_message [OF assms] by blast
  then have "wait_for_connect t = Some (Go (say_sta ''connected to'' p u))"
    unfolding wait_for_connect_def by (subst wait_for_connect_loop.simps) (simp add: ctl_code_def)
  moreover have "tp_sent (say_sta ''connected to'' p u) = tp_sent t"
    using u(2) by (auto simp: read_msg_def say_sta_def say_def)
  ultimately show ?thesis by blast
qed

text \<open>The fields \<open>in_uc\<close> and \<open>say\<close> leave alone.\<close>

lemma put_message_two: "uc_put_end (uc_put_bin (uc_put_hdr uc cmd) k pl) = put_message uc cmd [Bin k pl]"
  "uc_put_end (uc_put_bin (uc_put_bin (uc_put_hdr uc cmd) k pl) k' pl') = put_message uc cmd [Bin k pl, Bin k' pl']"
  by (simp_all add: put_message_def)

lemma listening_argi: "listening (t\<lparr>tp_argi := n\<rparr>) = listening t"
  by (simp add: listening_def fun_eq_iff)

lemma tp_permute:
  "t0\<lparr>tp_argi := n, tp_uc := uc, tp_fd := fd, tp_connected := b\<rparr> =
   (t0\<lparr>tp_argi := n, tp_fd := fd, tp_connected := b\<rparr>)\<lparr>tp_uc := uc\<rparr>"
  by simp

text \<open>The command after a first refusal.\<close>

lemma fixedap_run:
  assumes "reachable E" and "tp_argv t0 = [name, ascii ''ap'', ssid]" and "tp_opts t0 = 0"
    and "t = t0\<lparr>tp_argi := 3, tp_fd := ce_socket E, tp_connected := True\<rparr>"
    and "send_recv_cmd (t\<lparr>tp_uc := put_message (tp_uc t) CMD_WI_CONNECT [Bin ATTR_SSID ssid]\<rparr>) = Some (Go (- ENOKEY, u))"
  shows "wifi_fixedap E (t0\<lparr>tp_argi := 2\<rparr>) =
    pass (put_psk_input E ssid (put_ssid ssid (in_uc (\<lambda>uc. uc_put_hdr uc CMD_WI_CONNECT) u)))
      (\<lambda>t. pass (wire_check (in_uc uc_put_end t)) wait_for_connect)"
proof -
  let ?s = "t0\<lparr>tp_argi := 3, tp_uc := put_message (tp_uc t) CMD_WI_CONNECT [Bin ATTR_SSID ssid]\<rparr>"
  have s: "in_uc uc_put_end (put_ssid ssid (in_uc (\<lambda>uc. uc_put_hdr uc CMD_WI_CONNECT) (t0\<lparr>tp_argi := 3\<rparr>))) = ?s"
    by (simp add: in_uc_def put_ssid_def put_message_two assms(4))
  have shift: "shift_arg (t0\<lparr>tp_argi := 2\<rparr>) = (Some ssid, t0\<lparr>tp_argi := 3\<rparr>)"
    using assms(2) by (simp add: shift_arg_def)
  have opts: "no_other_options ?s = Some (Go ?s)" using assms(2,3) by (simp add: no_other_options_def)
  have conn: "connect_wictl E ?s =
      Some (Go (t\<lparr>tp_uc := put_message (tp_uc t) CMD_WI_CONNECT [Bin ATTR_SSID ssid]\<rparr>))"
    using connctl_ok [OF assms(1), of False ?s] by (simp add: connect_wictl_def pass_def tp_permute assms(4))
  show ?thesis
    unfolding wifi_fixedap_def shift Let_def prod.case option.case s
    by (simp add: pass_def opts conn assms(5))
qed

text \<open>
  C18. Joining by passphrase, end to end: \<open>wifi ap SSID\<close>, refused for want of a key, reads a passphrase
  and asks again, and the bytes it has then sent are the two requests, the second with the key
  PBKDF2 derives from passphrase and name; and a supplicant that finds this request anywhere in its
  receive buffer fixes exactly that station with exactly that key.
\<close>

theorem passphrase_reaches_supplicant:
  assumes "reachable E" and "ce_stdin E = Some (phrase @ newline)" and "phrase \<noteq> []" and "length phrase \<le> 64"
    and "ssid \<noteq> []" and "length ssid \<le> 32" and "patient ws 124" and "all_data evs" and "8 + length pl \<le> 2048"
    and "rx_stream evs = uc_message (word_of_int (- ENOKEY)) [] @ uc_message 0 [] @ uc_message REP_WI_CONNECTED pl @ rst"
  shows "(\<exists>t. wifi E [name, ascii ''ap'', ssid] evs ws = Some (Go t) \<and>
      tp_sent t = connect_request ssid @ keyed_request ssid (join_key phrase ssid)) \<and>
    configure_station D (a @ keyed_request ssid (join_key phrase ssid) @ r) (length a) w =
      set_fixed_given ssid (int (length ssid)) (join_key phrase ssid) (reset_station w)"
proof
  show "configure_station D (a @ keyed_request ssid (join_key phrase ssid) @ r) (length a) w =
      set_fixed_given ssid (int (length ssid)) (join_key phrase ssid) (reset_station w)"
    using keyed_request_configures [OF refl assms(6,5) length_join_key [OF assms(4)]] by simp
  let ?key = "join_key phrase ssid" and ?c = "CMD_WI_CONNECT"
  define t0 where "t0 = first_top E [name, ascii ''ap'', ssid] evs ws"
  define t where "t = t0\<lparr>tp_argi := 3, tp_fd := ce_socket E, tp_connected := True\<rparr>"
  note t0 = first_top_facts [of E "[name, ascii ''ap'', ssid]" evs ws, folded t0_def]
    first_top_listens [OF assms(8), of E "[name, ascii ''ap'', ssid]" ws, folded t0_def]
  have t: "tp_connected t" "ready_to_send t" "patient (tp_writes t) 124" "tp_sent t = []"
    "listening t (uc_message (word_of_int (- ENOKEY)) [] @ uc_message 0 [] @ uc_message REP_WI_CONNECTED pl @ rst)"
    using t0 assms(7,10) by (simp_all add: t_def listening_argi)
  have a: "align4 (length ssid) \<le> 32" using align4_upto [of _ 32] assms(6) by simp
  obtain u where u: "send_recv_cmd (t\<lparr>tp_uc := put_message (tp_uc t) ?c [Bin ATTR_SSID ssid]\<rparr>) = Some (Go (- ENOKEY, u))"
    "tp_connected u" "ready_to_send u" "patient (tp_writes u) 80" "tp_sent u = connect_request ssid"
    "listening u (uc_message 0 [] @ uc_message REP_WI_CONNECTED pl @ rst)"
    using request_reply [OF t(1,2) _ _ _ t(5), of "[Bin ATTR_SSID ssid]" 44 80 ?c] t(3,4) a
    by (auto simp: connect_request_def length_uc_attr)
  define v where "v = say (ascii ''Passphrase: '') u"
  have v: "tp_connected v" "ready_to_send v" "patient (tp_writes v) (0 + 80)" "tp_sent v = connect_request ssid"
    "listening v (uc_message 0 [] @ uc_message REP_WI_CONNECTED pl @ rst)"
    using u by (simp_all add: v_def say_def)
  obtain x where x: "send_recv_cmd (v\<lparr>tp_uc := put_message (tp_uc v) ?c [Bin ATTR_SSID ssid, Bin ATTR_PSK ?key]\<rparr>) = Some (Go (0, x))"
    "tp_sent x = connect_request ssid @ keyed_request ssid ?key" "listening x (uc_message REP_WI_CONNECTED pl @ rst)"
    using request_reply [OF v(1,2) _ _ v(3) v(5), of "[Bin ATTR_SSID ssid, Bin ATTR_PSK ?key]" ?c] v(4) a
    by (auto simp: keyed_request_def length_uc_attr length_join_key [OF assms(4)] align4_def [of 32])
  obtain y where y: "wait_for_connect x = Some (Go y)" "tp_sent y = tp_sent x"
    using wait_connected [OF x(3) assms(9)] by blast
  have request: "in_uc uc_put_end (in_uc (\<lambda>uc. uc_put_bin uc ATTR_PSK ?key)
      (say (ascii ''Passphrase: '') (put_ssid ssid (in_uc (\<lambda>uc. uc_put_hdr uc ?c) u)))) =
      v\<lparr>tp_uc := put_message (tp_uc v) ?c [Bin ATTR_SSID ssid, Bin ATTR_PSK ?key]\<rparr>"
    by (simp add: v_def in_uc_def put_ssid_def say_def put_message_two)
  have "wifi E [name, ascii ''ap'', ssid] evs ws = wifi_fixedap E (t0\<lparr>tp_argi := 2\<rparr>)"
    using t0 by (simp add: wifi_def first_top_def [symmetric] t0_def [symmetric] shift_arg_def dispatch_ap numeral_2_eq_2)
  also have "\<dots> = Some (Go y)"
    using fixedap_run [OF assms(1) t0(2,3) t_def u(1)] x(1) y(1)
    by (simp add: passphrase_read [OF assms(2-4)] put_psk_key [OF assms(4)] pass_def request wire_check_def)
  finally have "wifi E [name, ascii ''ap'', ssid] evs ws = Some (Go y)" .
  with x(2) y(2) show "\<exists>t. wifi E [name, ascii ''ap'', ssid] evs ws = Some (Go t) \<and>
      tp_sent t = connect_request ssid @ keyed_request ssid ?key" by auto
qed

theorem passphrase_reaches_supplicant_witness:
  "\<exists>t. wifi calm_client [ascii ''wifi'', ascii ''ap'', ascii ''home'']
      [Rx_data (uc_message (word_of_int (- ENOKEY)) [] @ uc_message 0 []), Rx_data (uc_message REP_WI_CONNECTED [])]
      (replicate 124 1) = Some (Go t) \<and>
    tp_sent t = connect_request (ascii ''home'') @ keyed_request (ascii ''home'') (join_key (ascii ''my secret phrase'') (ascii ''home''))"
  using conjunct1 [OF passphrase_reaches_supplicant [of calm_client "ascii ''my secret phrase''" "ascii ''home''" "replicate 124 1"
      "[Rx_data (uc_message (word_of_int (- ENOKEY)) [] @ uc_message 0 []), Rx_data (uc_message REP_WI_CONNECTED [])]" "[]" "[]" "ascii ''wifi''"]]
  by (simp add: calm_client_def reachable_def patient_def all_data_def rx_stream_def) (simp add: ascii_def)

end
