(* ===== verification/Shutdown.thy ===== *)
theory Shutdown imports Requests Selection begin

text \<open>
  Leaving the program: one request to end leads to an orderly disconnect and the saved state, a second
  one ends the program at once; and what happens when the answer to the disconnect is not the one
  expected. Then the loop that looks for a station to connect to.
\<close>

section \<open>Two signals\<close>

text \<open>The modes in which the next signal ends the program.\<close>

definition leaving :: "wst \<Rightarrow> bool" where
  "leaving w \<longleftrightarrow> w_opermode w = OP_EXIT \<or> w_opermode w = OP_EXITREQ"

lemma rest_pollset:
  assumes "rest v = rest w"
  shows "w_pollset v = w_pollset w"
  using arg_cong [OF assms, of w_pollset] by (simp add: rest_def)

lemma start_disconnect_not_Wild: "start_disconnect E w \<noteq> Wild"
  by (auto simp: start_disconnect_def trigger_disconnect_def send_set_authstate_def send_check_def quit_def
      case_prod_beta Let_def split: authstate.split)

lemma xshutdown_leaves:
  "(\<exists>s. xshutdown E w = Quit s) \<or> (\<exists>v. xshutdown E w = Go v \<and> leaving v \<and> w_pollset v = w_pollset w)"
proof (cases "leaving w \<or> w_authstate w = AS_IDLE \<or> w_authstate w = AS_NETDOWN")
  case True
  then show ?thesis
    by (auto simp: xshutdown_def Let_def leaving_def quit_def case_prod_beta)
next
  case False
  let ?w = "w\<lparr>w_sigterm := False\<rparr>"
  have x: "xshutdown E w = chain (start_disconnect E ?w) (\<lambda>(ret, w).
           if ret < 0 then Go (w\<lparr>w_opermode := OP_EXIT\<rparr>) else Go (w\<lparr>w_opermode := OP_EXITREQ\<rparr>))"
    using False by (simp add: xshutdown_def Let_def leaving_def)
  show ?thesis
  proof (cases "start_disconnect E ?w")
    case (Go y)
    obtain ret v where y: "y = (ret, v)" by (cases y)
    have "w_pollset v = w_pollset w" using rest_pollset [OF start_disconnect_rest [OF Go [unfolded y]]] by simp
    then show ?thesis by (simp add: x Go y leaving_def)
  next
    case Wild
    then show ?thesis using start_disconnect_not_Wild by blast
  qed (simp add: x)
qed

lemma leaving_xshutdown: "leaving w \<Longrightarrow> \<exists>s. xshutdown E w = Quit s"
  by (auto simp: xshutdown_def Let_def leaving_def quit_def case_prod_beta)

lemma save_config_w_keeps [simp]:
  "w_opermode (save_config_w E w) = w_opermode w" "w_pollset (save_config_w E w) = w_pollset w"
  by (simp_all add: save_config_w_def case_prod_beta Let_def emit_def split: option.split)

lemma reap_keeps [simp]:
  "w_opermode (fold reap_dhcp ps w) = w_opermode w" "w_pollset (fold reap_dhcp ps w) = w_pollset w"
proof -
  have "w_opermode (fold reap_dhcp ps w) = w_opermode w \<and> w_pollset (fold reap_dhcp ps w) = w_pollset w"
    by (induction ps arbitrary: w) (simp_all add: reap_dhcp_def)
  then show "w_opermode (fold reap_dhcp ps w) = w_opermode w" "w_pollset (fold reap_dhcp ps w) = w_pollset w"
    by simp_all
qed

text \<open>An iteration that a terminating signal interrupts.\<close>

lemma interrupted_iter:
  "w_pollset w \<Longrightarrow> sg_term sg \<Longrightarrow> main_iter E sg Interrupted w =
     Some (chain (xshutdown E (sighandler sg w)) (\<lambda>w. Go (save_config_w E w)))"
  by (simp add: main_iter_def wake_def sighandler_def Let_def)

lemma sighandler_keeps [simp]:
  "w_pollset (sighandler sg w) = w_pollset w" "w_opermode (sighandler sg w) = w_opermode w"
  by (simp_all add: sighandler_def Let_def)

text \<open>
  C13. Two terminating signals in a row, each of which interrupts the wait, end the program from every
  state with an up-to-date poll table, whatever it was doing and whether or not the kernel takes its
  requests.
\<close>

theorem two_signals_end:
  assumes "w_pollset w" and "sg_term sg1" and "sg_term sg2"
  shows "\<exists>s. main_loop ((E1, sg1, Interrupted) # (E2, sg2, Interrupted) # evs) w = Some (Quit s)"
proof (cases "w_opermode w = OP_EXIT")
  case False
  note i = interrupted_iter [OF assms(1,2), of E1]
  consider s where "xshutdown E1 (sighandler sg1 w) = Quit s"
    | v where "xshutdown E1 (sighandler sg1 w) = Go v" "leaving v" "w_pollset v"
    using xshutdown_leaves [of E1 "sighandler sg1 w"] assms(1) by auto
  then show ?thesis
  proof cases
    case 1
    with False show ?thesis by (simp add: i)
  next
    case 2
    let ?v = "save_config_w E1 v"
    have v: "leaving ?v" "w_pollset ?v" using 2(2,3) by (simp_all add: leaving_def)
    note j = interrupted_iter [OF v(2) assms(3), of E2]
    have "leaving (sighandler sg2 ?v)" using v(1) by (simp add: leaving_def)
    then obtain s where "xshutdown E2 (sighandler sg2 ?v) = Quit s" using leaving_xshutdown by blast
    then have "\<exists>s. main_loop ((E2, sg2, Interrupted) # evs) ?v = Some (Quit s)" by (simp add: j)
    with False 2(1) show ?thesis by (simp add: i)
  qed
qed simp

theorem two_signals_end_witness:
  "\<exists>s. main_loop [(calm_env, \<lparr>sg_term = True, sg_reaped = []\<rparr>, Interrupted), (calm_env, \<lparr>sg_term = True, sg_reaped = []\<rparr>, Interrupted)]
     (ready_state\<lparr>w_pollset := True, w_authstate := AS_CONNECTED\<rparr>) = Some (Quit s)"
  by (rule two_signals_end) simp_all

section \<open>An orderly end\<close>

text \<open>
  C14. A first request to end, while a connection is up or coming up, sends DISCONNECT and waits; the
  kernel's DISCONNECT event then ends the loop, which writes the SSID to come back to.
\<close>

theorem clean_shutdown:
  assumes "wst_ok w" and "\<not> leaving w" and "w_authstate w \<notin> {AS_IDLE, AS_NETDOWN, AS_DISCONNECTING}"
    and "en_nl_ok E (nl_seq (w_nl w) + 1)"
  shows "\<exists>m v u. genl_msg (w_nl80211 w) NLM_F_REQUEST (nl_seq (w_nl w) + 1) NL80211_CMD_DISCONNECT
      [(NL80211_ATTR_IFINDEX, le32 (w_ifindex w))] m \<and>
    xshutdown E w = Go v \<and> w_out v = w_out w @ [Nl_sent m] \<and> w_authstate v = AS_DISCONNECTING \<and>
    w_opermode v = OP_EXITREQ \<and> cmd_disconnect E v = Go u \<and> main_loop ((E, sg, ev) # evs) u = Some (Quit (save_state E u))"
proof -
  let ?w = "w\<lparr>w_sigterm := False\<rparr>"
  have ok: "wst_ok ?w" using assms(1) by simp
  obtain m where m: "genl_msg (w_nl80211 w) NLM_F_REQUEST (nl_seq (w_nl w) + 1) NL80211_CMD_DISCONNECT
      [(NL80211_ATTR_IFINDEX, le32 (w_ifindex w))] m"
    "sends ?w m (trigger_disconnect E ?w)"
    using send_check_req [OF req_new_cmd [OF ok, of NL80211_CMD_DISCONNECT], of E ?w AS_DISCONNECTING] assms(4)
    by (auto simp: trigger_disconnect_def)
  then obtain x where x: "trigger_disconnect E ?w = Go x" "w_out x = w_out w @ [Nl_sent m]"
    by (auto simp: sends_def)
  let ?v = "x\<lparr>w_opermode := OP_EXITREQ\<rparr>"
  have "start_disconnect E ?w = Go (0, x)"
    using assms(3) x(1) by (cases "w_authstate w") (simp_all add: start_disconnect_def)
  then have v: "xshutdown E w = Go ?v"
    using assms(2,3) by (simp add: xshutdown_def Let_def leaving_def)
  have auth: "w_authstate ?v = AS_DISCONNECTING" using trigger_disconnect_rest [OF x(1)] by simp
  define u where "u = (kill_dhcp (clr_timer ((reset_eapol_state ?v)\<lparr>w_authstate := AS_IDLE\<rparr>)))\<lparr>w_opermode := OP_EXIT\<rparr>"
  have "w_opermode (kill_dhcp (clr_timer ((reset_eapol_state ?v)\<lparr>w_authstate := AS_IDLE\<rparr>))) = OP_EXITREQ"
    by (simp add: kill_dhcp_def clr_timer_def emit_def reset_eapol_state_def cleanup_keys_def)
  then have "cmd_disconnect E ?v = Go u"
    using auth by (simp add: cmd_disconnect_def handle_disconnect_def u_def Let_def)
  moreover have "main_loop ((E, sg, ev) # evs) u = Some (Quit (save_state E u))" by (simp add: u_def)
  ultimately show ?thesis using m(1) v x(2) auth by (intro exI [of _ m] exI [of _ ?v] exI [of _ u]) simp
qed

theorem clean_shutdown_witness:
  "\<exists>v u. xshutdown calm_env (ready_state\<lparr>w_opermode := OP_ACTIVE, w_authstate := AS_CONNECTED\<rparr>) = Go v \<and>
     cmd_disconnect calm_env v = Go u \<and> main_loop [(calm_env, \<lparr>sg_term = False, sg_reaped = []\<rparr>, Interrupted)] u = Some (Quit (save_state calm_env u))"
proof -
  let ?w = "ready_state\<lparr>w_opermode := OP_ACTIVE, w_authstate := AS_CONNECTED\<rparr>"
  have "wst_ok ?w" "\<not> leaving ?w" "w_authstate ?w \<notin> {AS_IDLE, AS_NETDOWN, AS_DISCONNECTING}"
    "en_nl_ok calm_env (nl_seq (w_nl ?w) + 1)"
    using ready_state_ok by (simp_all add: leaving_def calm_env_def)
  from clean_shutdown [OF this, of "\<lparr>sg_term = False, sg_reaped = []\<rparr>" Interrupted "[]"] show ?thesis by blast
qed

section \<open>A request to end that is lost\<close>

text \<open>
  An event of the connection that was on its way when DISCONNECT was sent: the mode becomes neutral, the
  request to end is forgotten and the program stays.
\<close>

lemma send_report_modes [simp]:
  "w_opermode (send_report E b w) = w_opermode w" "w_authstate (send_report E b w) = w_authstate w"
  "w_timer (send_report E b w) = w_timer w"
proof -
  have "w_opermode (send_to_conns E b cns x) = w_opermode x \<and> w_authstate (send_to_conns E b cns x) = w_authstate x \<and>
      w_timer (send_to_conns E b cns x) = w_timer x" for cns x
    by (induction E b cns x rule: send_to_conns.induct) (simp_all add: emit_def)
  then show "w_opermode (send_report E b w) = w_opermode w" "w_authstate (send_report E b w) = w_authstate w"
    "w_timer (send_report E b w) = w_timer w" by (simp_all add: send_report_def)
qed

lemma report_modes [simp]:
  "w_opermode (report_no_connect E w) = w_opermode w" "w_authstate (report_no_connect E w) = w_authstate w"
  "w_opermode (report_disconnect E w) = w_opermode w" "w_authstate (report_disconnect E w) = w_authstate w"
  unfolding report_no_connect_def report_simple_def report_disconnect_def report_station_def Let_def
  by (rule send_report_modes)+

lemma exit_request_forgotten:
  assumes "w_authstate w = AS_DISCONNECTING"
  shows "\<exists>v. cmd_authenticate E w = Go v \<and> w_opermode v = OP_NEUTRAL \<and> w_authstate v = AS_EXTERNAL"
proof -
  define x where "x = clear_ap_ssid (clear_ap_bssid (report_disconnect E (kill_dhcp (clr_timer
      (reset_eapol_state (w\<lparr>w_opermode := OP_NEUTRAL, w_authstate := AS_EXTERNAL\<rparr>))))))"
  have modes: "w_opermode x = OP_NEUTRAL" "w_authstate x = AS_EXTERNAL"
    by (simp_all add: x_def clear_ap_ssid_def clear_ap_bssid_def kill_dhcp_def clr_timer_def emit_def
        reset_eapol_state_def cleanup_keys_def)
  have "w_opermode (kill_dhcp (clr_timer (reset_eapol_state (w\<lparr>w_opermode := OP_NEUTRAL, w_authstate := AS_EXTERNAL\<rparr>)))) = OP_NEUTRAL"
    by (simp add: kill_dhcp_def clr_timer_def emit_def reset_eapol_state_def cleanup_keys_def)
  then have "snap_to_disabled E w = Go (report_no_connect E x)"
    by (simp add: snap_to_disabled_def handle_disconnect_def x_def Let_def)
  then show ?thesis using assms modes by (simp add: cmd_authenticate_def)
qed

text \<open>
  An error in answer to DISCONNECT is taken for the end of a connection like any other: with nothing to
  connect to, the program settles down to wait for the next scan.
\<close>

lemma exit_request_postponed:
  assumes "w_opermode w = OP_EXITREQ" and "w_authstate w = AS_DISCONNECTING" and "w_scanstate w = SS_IDLE"
    and "candidates (w\<lparr>w_authstate := AS_IDLE\<rparr>) = []"
  shows "\<exists>v. handle_auth_error E err w = Go v \<and> w_opermode v = OP_EXITREQ \<and> w_timer v = Some TIME_TO_FG_SCAN"
proof -
  have "get_best_ap (w\<lparr>w_authstate := AS_IDLE\<rparr>) = None" using assms(4) get_best_None by blast
  then have "connect_to_something E (w\<lparr>w_authstate := AS_IDLE\<rparr>) = Go (False, w\<lparr>w_authstate := AS_IDLE\<rparr>)"
    by (simp add: connect_to_something.simps [of E "w\<lparr>w_authstate := AS_IDLE\<rparr>"])
  then show ?thesis
    using assms(1,2,3)
    by (simp add: handle_auth_error_def reassess_wifi_situation_def idle_then_rescan_def set_timer_def Let_def)
qed

section \<open>Ten connections\<close>

text \<open>With every connection slot in use the poll table has one entry too few.\<close>

lemma poll_table_overrun: "snd (w_conns w) = NCONNS \<Longrightarrow> update_pollfds w = Wild"
  by (simp add: update_pollfds_def case_prod_beta)

section \<open>Events out of order\<close>

text \<open>
  \<open>cmd_connect\<close> goes on after \<open>snap_to_disabled\<close>: whatever the state, the program then believes it is
  connected.
\<close>

lemma connect_event_believed:
  "w_authstate w \<noteq> AS_EXTERNAL \<Longrightarrow> cmd_connect_event E w = Go v \<Longrightarrow> w_authstate v = AS_CONNECTED"
  by (auto simp: cmd_connect_event_def chain_Go)

text \<open>A request the kernel does not take is treated as sent.\<close>

lemma refused_request_unnoticed:
  assumes "wst_ok w" and "\<not> en_nl_ok E (nl_seq (w_nl w) + 1)"
  shows "\<exists>v. trigger_disconnect E w = Go v \<and> w_authstate v = AS_DISCONNECTING \<and> w_out v = w_out w"
proof -
  let ?v = "w\<lparr>w_nl := new_cmd NL80211_CMD_DISCONNECT w\<rparr>"
  have "req (w_nl80211 w) NL80211_CMD_DISCONNECT (nl_seq (w_nl w) + 1) [(NL80211_ATTR_IFINDEX, le32 (w_ifindex w))] (w_nl ?v)"
    using req_new_cmd [OF assms(1)] by simp
  from send_req [OF this, of E] assms(2) have "send_nl E ?v = (1, ?v\<lparr>w_nl := (w_nl ?v)\<lparr>nl_err := - 1\<rparr>\<rparr>)" by auto
  then show ?thesis by (simp add: trigger_disconnect_def send_set_authstate_def send_check_def)
qed

end
