(* ===== verification/Faults.thy ===== *)
theory Faults imports Client_Join Shutdown Control_Loop begin

text \<open>
  Small consequences of the models that show the code doing what it does not mean to; the ones about
  the end of the program are with it in \<open>Shutdown\<close>.
\<close>

section \<open>The front end\<close>

text \<open>A failed \<open>connect\<close> sets a positive errno, so the test for a service that is not running never holds.\<close>

lemma not_running_never_told:
  "0 \<le> ce_socket E \<Longrightarrow> 0 < ce_connect E \<Longrightarrow> \<exists>u. connect_wictl_check E t = Some (Quit (Connect_failed (ce_connect E), u))"
  by (simp add: connect_wictl_check_def connect_wictl_miss_def connctl_def fail_def pass_def)

text \<open>A connection that ends while the front end waits for the outcome counts as success.\<close>

lemma lost_connection_success:
  "recv_reply t = Some (Go (None, u)) \<Longrightarrow> wait_for_connect t = Some (Go u)"
  unfolding wait_for_connect_def by (subst wait_for_connect_loop.simps) simp

text \<open>A passphrase that cannot be read is stored before the buffer.\<close>

lemma unreadable_passphrase: "ce_stdin E = None \<Longrightarrow> put_psk_input E ssid t = Some Wild"
  by (simp add: put_psk_input_def input_passphrase_def pass_def)

section \<open>Requests with a short attribute\<close>

text \<open>An SSID attribute that claims three bytes, header included, followed by a key.\<close>

definition short_ssid_request :: bytes where
  "short_ssid_request = [48, 0, 0, 0, 4, 0, 0x49, 0x57, 3, 0, 1, 0, 36, 0, 2, 0] @ replicate 32 7"

lemma short_ssid_crashes: "configure_station E short_ssid_request 0 w = Wild"
proof -
  let ?m = "short_ssid_request"
  have len: "length ?m = 48" "msg_len ?m 0 = 48" by (simp_all add: short_ssid_request_def msg_len_def)
  have a: "at_len ?m 8 = 3" "at_key ?m 8 = 1" "at_len ?m 12 = 36" "at_key ?m 12 = 2"
    by (simp_all add: short_ssid_request_def at_len_def at_key_def)
  have first: "uc_get_0 ?m 0 = Some 8" using a len by (simp add: uc_get_0_def uc_get_0_in_def)
  have ssid: "uc_get ?m 0 ATTR_SSID = Some 8"
    using first a len by (simp add: uc_get_def uc_find.simps [of ?m 8])
  have "uc_get_n_in ?m 8 40 8 = Some 12" using a by (simp add: uc_get_n_in_def Let_def)
  then have psk: "uc_get ?m 0 ATTR_PSK = Some 12"
    using first a len by (simp add: uc_get_def uc_find.simps [of ?m 8 _ _ 8] uc_find.simps [of ?m 8 _ _ 12])
  show ?thesis
    using ssid psk a len
    by (simp add: configure_station_def Let_def uc_paylen_def payload_in_def uc_payload_def set_fixed_given_def set_fixed_def)
qed

lemma short_ssid_request_crashes:
  assumes "w_authstate w = AS_IDLE" and "w_scanstate w = SS_IDLE"
  shows "dispatch_cmd E p short_ssid_request 0 w = Wild"
proof -
  have "msg_cmd short_ssid_request 0 = CMD_WI_CONNECT"
    by (simp add: short_ssid_request_def msg_cmd_def ctl_code_def)
  moreover have "ctl_code 4 \<noteq> ctl_code n" if "n < 4" for n
  proof -
    have "n = 0 \<or> n = 1 \<or> n = 2 \<or> n = 3" using that by linarith
    then show ?thesis by (elim disjE) (simp_all add: ctl_code_def)
  qed
  ultimately have "call_cmd E p short_ssid_request 0 w = Some (cmd_connect E p short_ssid_request 0 w)"
    by (simp add: call_cmd_def Let_def)
  then show ?thesis using assms short_ssid_crashes by (simp add: dispatch_cmd_def cmd_connect_def)
qed

end
