(* ===== verification/Spec2Isabelle.thy ===== *)
theory Spec2Isabelle
  imports Netlink_Proofs Netlink_Sync Protocol_Run Key_Safety Joining Connecting Service Faults begin

text \<open>
  Verification of wsupp, a WPA supplicant in C, and of its front end wifi: models of all their parts
  translated from the C source, and the theorems that make them correct.

  \<^bold>\<open>The program.\<close> The daemon (wsupp*.c) is one process with one thread. It opens a netlink socket
  to the kernel's nl80211 family, a packet socket for EAPOL frames, a control socket for clients, the
  radio kill switch device, and runs a poll loop over them and a timer (wsupp.c). The kernel reports
  scans and the progress of a connection (wsupp_netlink.c); scan results are parsed (wsupp_sta_ies.c)
  into a table (wsupp_slots.c), the best entry is chosen and a connection started (wsupp_apsel.c); the key
  handshake is done over the packet socket (wsupp_eapol.c, wsupp_crypto.c, crypto/) and the keys are
  given to the kernel; pre-shared keys are kept in a text file (wsupp_config.c). Clients send requests
  and get replies and reports (wsupp_cntrl.c) in a format of nested attributes (nlusctl/); wifi
  (wifi*.c) is such a client. The modules share global variables (wsupp.h) and call each other.

  \<^bold>\<open>How it is modelled.\<close> A buffer is the list of its bytes, a pointer an offset into it, an integer a
  word of its C width or, where the code cannot wrap, a natural number or integer with the comparisons
  written out. All globals of the daemon are the record \<open>wst\<close> (Wstate), what the outside sees of a run
  is its list \<open>w_out\<close>, what the system answers is a record \<open>env\<close>. A handler is a function of state and
  environment whose value is an \<open>outcome\<close>: \<open>Go\<close> with the new state, \<open>Quit\<close> when the process ends, \<open>Wild\<close> when
  the C program has no defined behaviour. A function that may not return has an option around it.
  The front end is modelled in the same way with its own record \<open>top\<close>. Constants are abbreviations.

  \<^bold>\<open>Theories, in the order of their dependencies.\<close>

  \<^item> Prelude: bytes, byte order, memcpy and its kin, common/*.c.
  \<^item> Slots: the tables of scans and connections (wsupp_slots.c). The allocator is one locale,
    \<open>slot_pool\<close>, interpreted on both tables.
  \<^item> Aes128, Aes_Wrap, Sha1, Pbkdf2, Wpa_Crypto: crypto/ and wsupp_crypto.c, each against the definition of
    its standard or against its inverse. SHA-1 is compared to FIPS 180-4 from the bytes to the digest,
    written without any part of the code's model; HMAC, PBKDF2 and the 802.11 functions build on that.
  \<^item> Config, Config_Lines, Config_Psk: the file of keys (wsupp_config.c): first the code on its mapped
    buffer, then the file as a list of lines, then as a map from SSIDs to keys that the histories of edits
    refine whose names fit their lines.
  \<^item> Station_IEs: the elements of a scan result (wsupp_sta_ies.c).
  \<^item> Uctl, Uctl_Proofs, Uctl_Stream: the control protocol (nlusctl/): building and searching messages,
    and cutting a byte stream into them.
  \<^item> Netlink, Netlink_Proofs: the netlink library (netlink/).
  \<^item> Wstate, Commands, Apsel, Eapol, Rx_Frame, Events, Control, Daemon, Startup: the daemon, bottom up:
    state, timers, reports and the DHCP client (wsupp.h, wsupp.c, wsupp_cntrl.c, wsupp_ifmon.c);
    requests to the kernel (wsupp_netlink.c); selection (wsupp_apsel.c); the handshake
    (wsupp_eapol.c); what the handlers leave alone; events of the kernel (wsupp_netlink.c); clients
    (wsupp_cntrl.c); kill switch, poll loop and shutdown (wsupp_rfkill.c, wsupp.c); set-up and \<open>main\<close>.
  \<^item> Netlink_Sync: the netlink calls that are no part of the daemon's own models, and what a request
    that waits for its acknowledgement gives.
  \<^item> Loop: the contract between the main loop and the handlers, as the locale \<open>loop_invariant\<close>: what all
    handlers keep, the loop over a client's requests, an iteration and a whole run keep.
  \<^item> Invariant, Invariant_Steps, Program: the well-formedness of the daemon's state, its preservation by
    every handler (an interpretation of \<open>loop_invariant\<close>), and by the program as a whole from its start.
  \<^item> Protocol, Protocol_Steps, Protocol_Run: a connection as an abstract machine with its own invariants
    (the locale \<open>kept\<close>, interpreted on each of them), the proof that every handler makes only steps of
    it, and the program as a run of it (the second interpretation of \<open>loop_invariant\<close>).
  \<^item> Requests: every request is one complete message of the right attributes.
  \<^item> Selection, Connecting: the choice of the station and what the loop over them comes to.
  \<^item> Handshake, Key_Safety: the handshake against an authenticator; packets that are not authentic.
  \<^item> Joining: a connection from the answer of the access point to the uploaded keys, and the race of
    the first packet with the event that lets the daemon answer it.
  \<^item> Replies: what a client is sent for its request.
  \<^item> Control_Loop: a message of no bytes. Service: well-formed requests are served, one by one, and the
    daemon comes back from its client.
  \<^item> Shutdown: does the program end when told to.
  \<^item> Dump, Client: the front end (wifi_dump.c; wifi.c, wifi_wire.c, wifi_pass.c).
  \<^item> Status, Scan_List, Client_Runs, Client_Join: front end and daemon together, from the state of one to
    the lines printed by the other, and from the passphrase typed to the key set.
  \<^item> Faults: lemmas about small defects.

  \<^bold>\<open>What is shown.\<close> The state stays well-formed whatever the kernel, access points and
  clients send (C1). The program runs the abstract machine of a connection (C2), so that between messages of the
  kernel its state and the requests it makes determine each other (C3), keys are uploaded only because of EAPOL
  packets (C4) and only the kernel makes a connection progress (C5). The handshake derives the keys of the
  authenticator and uploads them (C6), and with the events of the kernel the connection comes about (C7), in
  whichever order the first packet and the association arrive (C8). Packets that are not authentic change no key
  (C9), except that after a disconnect the zeroed keys authenticate a packet anyone can make (C10). The best
  entry is chosen (C11) and the connection started is to that entry (C12). Two signals end the program, one ends
  it in an orderly way (C13, C14). Requests made of whole attributes are served one by one and the daemon
  returns to its loop (C15), each is answered once (C16), both provided that the key file can be used and that
  there are a packet socket and memory; a message of length zero keeps the daemon for good (C17), an attribute
  that claims three bytes crashes it (lemma \<open>short_ssid_request_crashes\<close>). The front end sends the
  right key (C18), shows what the daemon knows (C19), which the daemon's reply has in full (C20). Requests to
  the kernel are complete (C7, C21, C22). The key file behaves as a map for names whose lines fit (C23); what
  \<open>save_config\<close> writes is loaded again, a write cut short is not noticed (C24), and longer names
  are lost (C25). The table of scans (C26), the cryptography (C27 to C32), the parser of information elements
  (C33 to C35), the control protocol (C36 to C39) and the netlink attributes (C40) meet their specifications and
  stay in bounds; in a control message this takes a length field of eight or more, which the code does not ask
  for (C38).

  \<^bold>\<open>Bounds and loops.\<close> No fuel is used. Loops over buffers terminate by a measure, the distance of the pointer
  to its end, because every step moves it; the loop over scan entries by the number of entries still
  marked good. The loops that may not end (\<open>handle_conn\<close> and the front end's loops over replies) are
  partial functions with an option for a value. The main loop runs over a list of wake-ups, of any
  length. Buffer sizes are those of the code: 512 and 8192 bytes for netlink, 100 for control
  messages in the daemon, 2048 in the front end, 1024 for an EAPOL packet, 30 scan entries, 10 clients.

  \<^bold>\<open>What is assumed.\<close> The host is little-endian. The answers of system calls are parameters.
  \<open>qsort\<close> is a parameter with the contract of the C library (\<open>qsort_ok\<close>), which
  insertion sort is shown to meet. \<open>poll\<close> reports nothing for an entry without a descriptor. What a
  client sends while its requests are handled is a list of events fixed before (data in pieces, errors, the end
  of the stream): when nothing is left a call that does not wait gets EAGAIN, and one that waits for the rest of
  a message is ended by the timer. Writing to a client can fail or be partial, and \<open>malloc\<close> can
  fail. Memory that the code does not initialise holds a byte of the environment. Signals are delivered while
  the program waits in \<open>ppoll\<close>: the code hands it a signal mask for that purpose, but blocks no
  signal elsewhere, so this describes the runs in which none comes between two waits.

  \<^bold>\<open>Not modelled.\<close> The texts of warnings and complaints (common/fail.c, they are constructors in the front
  end and left out in the daemon). The removal of the control socket's file. The reply to the
  acknowledged disconnect of \<open>quit\<close> is no part of the model of \<open>quit\<close>, which ends with the request
  sent: the program exits whatever the reply is (the wait itself is in Netlink_Sync). The headers of
  kernel constants beyond those the code uses. What memory holds behind a buffer: where
  the code reads there the model says \<open>Wild\<close> or, for headers of attributes, reads zeros.
\<close>

end
